(* ===== verification/P2P_Prelude.thy ===== *)
theory P2P_Prelude
  imports Main "HOL-Library.Word" "HOL-Library.List_Lexorder" "HOL-Library.Multiset"
begin

text \<open>
  Shared foundations of the development: the machine integers of the C++ sources,
  \<^verbatim>\<open>std::array<uint8_t, N>\<close> as a type indexed by its length, big-endian encoding and
  decoding of unsigned integers, and the list idioms of the sources
  (\<^verbatim>\<open>std::find_if\<close> followed by \<^verbatim>\<open>erase\<close> or by an update through the iterator).
  The collections \<open>p2p_simps\<close> and \<open>p2p_defs\<close> gather the rewrite rules that the
  component proofs share.
\<close>

unbundle bit_operations_syntax

named_theorems p2p_simps \<open>rewrite rules shared by the component proofs\<close>
named_theorems p2p_defs \<open>definitions of operations that component proofs unfold together\<close>

section \<open>Machine integers and byte arrays\<close>

type_synonym u8 = "8 word"
type_synonym u16 = "16 word"
type_synonym u32 = "32 word"
type_synonym u64 = "64 word"
type_synonym bytes = "u8 list"

text \<open>\<open>'n barray\<close> is \<^verbatim>\<open>std::array<uint8_t, N>\<close>: a byte list of exactly \<open>LENGTH('n)\<close> bytes.\<close>

typedef (overloaded) 'n barray = "{xs :: bytes. length xs = LENGTH('n::len)}"
  morphisms bytes_of Abs_barray
  by (rule exI [of _ "replicate LENGTH('n) 0"]) simp

definition barray_of :: "bytes \<Rightarrow> 'n::len barray" where
  "barray_of xs = Abs_barray (take LENGTH('n) (xs @ replicate LENGTH('n) 0))"

definition zero_barray :: "'n::len barray" where
  "zero_barray = barray_of []"

lemma length_bytes_of [simp]: "length (bytes_of (x :: 'n::len barray)) = LENGTH('n)"
  using bytes_of [of x] by simp

lemma barray_abstype [code abstype]: "Abs_barray (bytes_of x) = x"
  by (rule bytes_of_inverse)

lemma bytes_of_barray_of [simp, code abstract]:
  "bytes_of (barray_of xs :: 'n::len barray) = take LENGTH('n) (xs @ replicate LENGTH('n) 0)"
  unfolding barray_of_def by (subst Abs_barray_inverse) auto

lemma bytes_of_barray_of_exact:
  "length xs = LENGTH('n) \<Longrightarrow> bytes_of (barray_of xs :: 'n::len barray) = xs"
  by simp

lemma barray_of_bytes_of [simp]: "barray_of (bytes_of x) = x"
  by (simp add: barray_of_def bytes_of_inverse)

lemma bytes_of_zero_barray: "bytes_of (zero_barray :: 'n::len barray) = replicate LENGTH('n) 0"
  by (simp add: zero_barray_def)

lemma barray_eqI: "bytes_of x = bytes_of y \<Longrightarrow> x = y"
  by (simp add: bytes_of_inject)

lemma barray_eq_iff: "x = y \<longleftrightarrow> bytes_of x = bytes_of y"
  by (simp add: bytes_of_inject)

text \<open>
  \<^verbatim>\<open>operator==\<close> and \<^verbatim>\<open>operator<=>\<close> of the C++ arrays are the defaulted ones:
  element-wise equality and the lexicographic order on unsigned bytes.
\<close>

instantiation barray :: (len) equal
begin

definition equal_barray :: "'a barray \<Rightarrow> 'a barray \<Rightarrow> bool" where
  "equal_barray x y \<longleftrightarrow> bytes_of x = bytes_of y"

instance
  by standard (simp add: equal_barray_def bytes_of_inject)

end

instantiation barray :: (len) linorder
begin

definition less_eq_barray :: "'a barray \<Rightarrow> 'a barray \<Rightarrow> bool" where
  "x \<le> y \<longleftrightarrow> bytes_of x \<le> bytes_of y"

definition less_barray :: "'a barray \<Rightarrow> 'a barray \<Rightarrow> bool" where
  "x < y \<longleftrightarrow> bytes_of x < bytes_of y"

instance
  by standard (auto simp: less_eq_barray_def less_barray_def bytes_of_inject less_le_not_le)

end

section \<open>Big-endian integers\<close>

text \<open>
  \<open>be_bytes n w\<close> is the loop \<^verbatim>\<open>for (i = n-1; i >= 0; --i) push_back((val >> (i*8)) & 0xFF)\<close>
  (also the memory image of \<^verbatim>\<open>htons\<close> / \<^verbatim>\<open>htonl\<close>); \<open>be_word\<close> is the decoding loop
  \<^verbatim>\<open>acc = (acc << 8) | byte\<close> (also \<^verbatim>\<open>ntohs\<close> / \<^verbatim>\<open>ntohl\<close> of the bytes read).
  \<open>be_val\<close> is the number that a byte string denotes.
\<close>

definition be_bytes :: "nat \<Rightarrow> 'a::len word \<Rightarrow> bytes" where
  "be_bytes n w = map (\<lambda>i. ucast (drop_bit (8 * i) w)) (rev [0..<n])"

definition be_word :: "bytes \<Rightarrow> 'a::len word" where
  "be_word bs = foldl (\<lambda>acc b. push_bit 8 acc OR ucast b) 0 bs"

definition be_val :: "bytes \<Rightarrow> nat" where
  "be_val bs = foldl (\<lambda>acc b. acc * 256 + unat b) 0 bs"

lemma length_be_bytes [simp]: "length (be_bytes n w) = n"
  by (simp add: be_bytes_def)

lemma be_val_Nil [simp]: "be_val [] = 0"
  by (simp add: be_val_def)

lemma foldl_be_val:
  "foldl (\<lambda>acc b. acc * 256 + unat (b :: u8)) a bs = a * 256 ^ length bs + be_val bs"
proof (induction bs rule: rev_induct)
  case (snoc b bs)
  have "be_val (bs @ [b]) = be_val bs * 256 + unat b" by (simp add: be_val_def)
  with snoc show ?case by (simp add: distrib_right)
qed simp

lemma be_val_append: "be_val (xs @ ys) = be_val xs * 256 ^ length ys + be_val ys"
  unfolding be_val_def foldl_append by (simp add: foldl_be_val be_val_def [symmetric])

lemma be_val_Cons: "be_val (b # bs) = unat b * 256 ^ length bs + be_val bs"
  using be_val_append [of "[b]" bs] by (simp add: be_val_def)

lemma unat_u8_less [simp]: "unat (b :: u8) < 256"
  using unsigned_less [of b, where 'a = nat] by simp

lemma be_val_less: "be_val bs < 256 ^ length bs"
proof (induction bs)
  case (Cons b bs)
  have "unat b * 256 ^ length bs + be_val bs < (unat b + 1) * 256 ^ length bs"
    using Cons by (simp add: algebra_simps)
  also have "\<dots> \<le> 256 * 256 ^ length bs"
    using unat_u8_less [of b] by (intro mult_right_mono) (simp_all add: Suc_le_eq)
  finally show ?case by (simp add: be_val_Cons)
qed simp

lemma be_val_mono_iff:
  "length xs = length ys \<Longrightarrow> be_val xs < be_val ys \<longleftrightarrow> xs < ys"
proof (induction xs ys rule: list_induct2)
  case (Cons x xs y ys)
  let ?B = "256 ^ length ys :: nat"
  have x: "be_val xs < ?B" and y: "be_val ys < ?B"
    using be_val_less [of xs] be_val_less [of ys] Cons.hyps by simp_all
  consider "unat x < unat y" | "unat x = unat y" | "unat y < unat x" by linarith
  then show ?case
  proof cases
    case 1
    then have "(unat x + 1) * ?B \<le> unat y * ?B" by (intro mult_right_mono) auto
    with x have "unat x * ?B + be_val xs < unat y * ?B + be_val ys"
      by (simp add: algebra_simps)
    moreover from 1 have "x < y" by (simp add: word_less_nat_alt)
    ultimately show ?thesis using Cons.hyps by (simp add: be_val_Cons)
  next
    case 2
    then have "x = y" by (simp add: word_unat_eq_iff)
    then show ?thesis using Cons by (simp add: be_val_Cons)
  next
    case 3
    then have "(unat y + 1) * ?B \<le> unat x * ?B" by (intro mult_right_mono) auto
    with y have "unat y * ?B + be_val ys < unat x * ?B + be_val xs"
      by (simp add: algebra_simps)
    moreover from 3 have "y < x" by (simp add: word_less_nat_alt)
    ultimately show ?thesis using Cons.hyps by (auto simp: be_val_Cons)
  qed
qed simp

lemma be_val_inject:
  "length xs = length ys \<Longrightarrow> be_val xs = be_val ys \<longleftrightarrow> xs = ys"
  using be_val_mono_iff [of xs ys] be_val_mono_iff [of ys xs]
  by (metis less_linear order_less_irrefl)

lemma be_bytes_Suc: "be_bytes (Suc n) w = ucast (drop_bit (8 * n) w) # be_bytes n w"
  by (simp add: be_bytes_def)

lemma unat_byte_of_word:
  "unat (ucast (drop_bit (8 * i) (w :: 'a::len word)) :: u8) = unat w div 256 ^ i mod 256"
  unfolding unsigned_ucast_eq unat_drop_bit_eq
  by (simp add: drop_bit_eq_div take_bit_eq_mod power_mult)

lemma be_val_be_bytes: "be_val (be_bytes n w) = unat w mod 256 ^ n"
proof (induction n)
  case 0
  then show ?case by (simp add: be_bytes_def)
next
  case (Suc n)
  have "unat w mod 256 ^ Suc n = 256 ^ n * (unat w div 256 ^ n mod 256) + unat w mod 256 ^ n"
    by (simp add: mod_mult2_eq mult.commute [of 256])
  then show ?case
    by (simp add: be_bytes_Suc be_val_Cons unat_byte_of_word Suc)
qed

lemma push_or_byte: "push_bit 8 acc OR ucast (b :: u8) = acc * 256 + (ucast b :: 'a::len word)"
proof -
  have "push_bit 8 acc OR ucast b = push_bit 8 acc + (ucast b :: 'a word)"
    by (rule disjunctive_add [symmetric]) (auto simp: bit_simps dest: bit_imp_le_length)
  then show ?thesis by (simp add: push_bit_eq_mult)
qed

lemma be_word_snoc: "(be_word (bs @ [b]) :: 'a::len word) = be_word bs * 256 + ucast b"
  by (simp add: be_word_def push_or_byte)

lemma be_word_eq: "(be_word bs :: 'a::len word) = of_nat (be_val bs)"
proof (induction bs rule: rev_induct)
  case (snoc b bs)
  then show ?case
    by (simp add: be_word_snoc be_val_append be_val_Cons)
qed (simp add: be_word_def)

text \<open>Encoding and decoding an integer of \<open>8 * n\<close> bits are inverse to each other.\<close>

lemma be_word_be_bytes:
  assumes "LENGTH('a) = 8 * n"
  shows "be_word (be_bytes n (w :: 'a::len word)) = w"
proof -
  have "unat w < 256 ^ n"
    using unsigned_less [of w, where 'a = nat] assms by (simp add: power_mult)
  then show ?thesis by (simp add: be_word_eq be_val_be_bytes)
qed

lemma be_bytes_be_word:
  assumes "LENGTH('a) = 8 * n" "length bs = n"
  shows "be_bytes n (be_word bs :: 'a::len word) = bs"
proof -
  have "be_val bs < 2 ^ LENGTH('a)"
    using be_val_less [of bs] assms by (simp add: power_mult)
  then have "be_val (be_bytes n (be_word bs :: 'a word)) = be_val bs"
    using be_val_less [of bs] assms
    by (simp add: be_word_eq be_val_be_bytes unat_of_nat take_bit_eq_mod)
  then show ?thesis using assms by (simp add: be_val_inject)
qed

lemma be_bytes_inject:
  "LENGTH('a) = 8 * n \<Longrightarrow> be_bytes n (v :: 'a::len word) = be_bytes n w \<longleftrightarrow> v = w"
  by (metis be_word_be_bytes)

section \<open>Strings as bytes\<close>

text \<open>The bytes of a \<^verbatim>\<open>std::string\<close>, one per character.\<close>

definition string_bytes :: "string \<Rightarrow> bytes" where
  "string_bytes s = map of_char s"

lemma length_string_bytes [simp]: "length (string_bytes s) = length s"
  by (simp add: string_bytes_def)

lemma string_bytes_append: "string_bytes (s @ t) = string_bytes s @ string_bytes t"
  by (simp add: string_bytes_def)

lemma of_char_u8_inject: "(of_char c :: u8) = of_char d \<longleftrightarrow> c = d"
proof
  assume "(of_char c :: u8) = of_char d"
  then have "(of_nat (of_char c) :: u8) = of_nat (of_char d)" by (simp only: of_nat_of_char)
  then have "unat (of_nat (of_char c) :: u8) = unat (of_nat (of_char d) :: u8)" by simp
  then have "(of_char c :: nat) mod 256 = of_char d mod 256"
    by (simp only: unat_of_nat) (simp add: take_bit_eq_mod)
  then have "(of_char c :: nat) = of_char d" by simp
  then show "c = d" by simp
qed simp

lemma string_bytes_inject [simp]: "string_bytes s = string_bytes t \<longleftrightarrow> s = t"
proof -
  have "inj (of_char :: char \<Rightarrow> u8)" by (rule injI) (simp add: of_char_u8_inject)
  then show ?thesis by (simp add: string_bytes_def inj_map_eq_map)
qed

text \<open>A 16-bit length prefix delimits what follows, as long as the length fits.\<close>

lemma be16_inject: "be_bytes 2 (v :: u16) = be_bytes 2 w \<longleftrightarrow> v = w"
  by (rule be_bytes_inject) simp

lemma be64_inject: "be_bytes 8 (v :: u64) = be_bytes 8 w \<longleftrightarrow> v = w"
  by (rule be_bytes_inject) simp

lemma be16_length_inject:
  "m < 2 ^ 16 \<Longrightarrow> n < 2 ^ 16 \<Longrightarrow> be_bytes 2 (of_nat m :: u16) = be_bytes 2 (of_nat n :: u16) \<longleftrightarrow> m = n"
proof -
  assume "m < 2 ^ 16" "n < 2 ^ 16"
  then have "(of_nat m :: u16) = of_nat n \<longleftrightarrow> m = n"
    by (simp add: word_unat_eq_iff unat_of_nat take_bit_eq_mod)
  then show ?thesis by (simp only: be16_inject)
qed

lemma length_prefixed_inject:
  assumes "length x < 2 ^ 16" "length y < 2 ^ 16"
    and "be_bytes 2 (of_nat (length x) :: u16) @ string_bytes x @ r =
         be_bytes 2 (of_nat (length y) :: u16) @ string_bytes y @ r'"
  shows "x = y \<and> r = r'"
proof -
  from assms(3) have len: "length x = length y" and eq: "string_bytes x @ r = string_bytes y @ r'"
    using be16_length_inject [OF assms(1,2)] by (auto simp: append_eq_append_conv)
  with len show ?thesis by (auto simp: append_eq_append_conv)
qed

text \<open>
  \<^verbatim>\<open>find_first_not_of\<close>, \<^verbatim>\<open>find_last_not_of\<close> (\<open>None\<close> is \<^verbatim>\<open>npos\<close>), \<^verbatim>\<open>substr\<close> within range, and
  \<^verbatim>\<open>std::tolower\<close> of the C locale.
\<close>

definition find_first_not_of :: "string \<Rightarrow> string \<Rightarrow> nat option" where
  "find_first_not_of cs s = List.find (\<lambda>i. s ! i \<notin> set cs) [0..<length s]"

definition find_last_not_of :: "string \<Rightarrow> string \<Rightarrow> nat option" where
  "find_last_not_of cs s = List.find (\<lambda>i. s ! i \<notin> set cs) (rev [0..<length s])"

definition substr :: "nat \<Rightarrow> nat \<Rightarrow> string \<Rightarrow> string" where
  "substr start n s = take n (drop start s)"

definition tolower :: "char \<Rightarrow> char" where
  "tolower c = (if 65 \<le> (of_char c :: nat) \<and> (of_char c :: nat) \<le> 90 then char_of ((of_char c :: nat) + 32) else c)"

lemma tolower_idem [simp]: "tolower (tolower c) = tolower c"
  by (auto simp: tolower_def)

definition trim :: "string \<Rightarrow> string \<Rightarrow> string" where
  "trim cs s = rev (dropWhile (\<lambda>c. c \<in> set cs) (rev (dropWhile (\<lambda>c. c \<in> set cs) s)))"

lemma trim_Nil [simp]: "trim cs [] = []"
  by (simp add: trim_def)

lemma find_first_not_of_split:
  assumes "\<forall>c \<in> set a. c \<in> set cs" "m \<noteq> []" "hd m \<notin> set cs"
  shows "find_first_not_of cs (a @ m @ b) = Some (length a)"
proof -
  have "(a @ m @ b) ! length a \<notin> set cs" using assms(2,3) by (simp add: nth_append hd_conv_nth)
  moreover have "(a @ m @ b) ! j \<in> set cs" if "j < length a" for j
    using assms(1) that by (simp add: nth_append)
  ultimately show ?thesis
    using assms(2) unfolding find_first_not_of_def find_Some_iff by (intro exI [of _ "length a"]) simp
qed

lemma find_last_not_of_split:
  assumes "\<forall>c \<in> set b. c \<in> set cs" "m \<noteq> []" "last m \<notin> set cs"
  shows "find_last_not_of cs (a @ m @ b) = Some (length a + length m - 1)"
proof -
  let ?s = "a @ m @ b" and ?e = "length a + length m - 1"
  have nth: "rev [0..<length ?s] ! j = length ?s - 1 - j" if "j < length ?s" for j
    using that by (simp add: rev_nth)
  have "?s ! ?e \<notin> set cs"
    using assms(2,3) by (cases m rule: rev_cases) (auto simp: nth_append)
  moreover have "?s ! (length ?s - 1 - j) \<in> set cs" if "j < length b" for j
  proof -
    have "length ?s - 1 - j = length a + length m + (length b - 1 - j)" using that by simp
    then have "?s ! (length ?s - 1 - j) = b ! (length b - 1 - j)" by (simp add: nth_append)
    with assms(1) that show ?thesis by simp
  qed
  moreover have "0 < length m" using assms(2) by simp
  then have "length ?s - 1 - length b = ?e" "length b < length ?s" by auto
  ultimately show ?thesis
    unfolding find_last_not_of_def find_Some_iff
    by (intro exI [of _ "length b"]) (simp add: nth del: length_append)
qed

text \<open>Either the whole string is trimmed away, or the two searches delimit the trimmed part.\<close>

lemma trim_cases:
  obtains "list_all (\<lambda>c. c \<in> set cs) s" "find_first_not_of cs s = None" "trim cs s = []"
  | start stop where "find_first_not_of cs s = Some start" "find_last_not_of cs s = Some stop"
    "start \<le> stop" "stop < length s" "trim cs s = take (stop - start + 1) (drop start s)"
    "trim cs s \<noteq> []" "hd (trim cs s) \<notin> set cs" "last (trim cs s) \<notin> set cs"
proof (cases "list_all (\<lambda>c. c \<in> set cs) s")
  case True
  then have "find_first_not_of cs s = None" "trim cs s = []"
    by (auto simp: find_first_not_of_def find_None_iff list_all_iff trim_def dest: set_dropWhileD)
  with True that(1) show thesis by blast
next
  case False
  let ?W = "\<lambda>c. c \<in> set cs"
  define u where "u = dropWhile ?W s"
  define m where "m = rev (dropWhile ?W (rev u))"
  define a where "a = takeWhile ?W s"
  define b where "b = rev (takeWhile ?W (rev u))"
  have "u \<noteq> []" using False by (auto simp: u_def list_all_iff)
  then have hu: "hd u \<notin> set cs" using hd_dropWhile [of ?W s] by (simp add: u_def)
  have "\<exists>x \<in> set (rev u). \<not> ?W x" using \<open>u \<noteq> []\<close> hu by (metis hd_in_set set_rev)
  then have m: "m \<noteq> []" by (auto simp: m_def)
  have u: "u = m @ b" unfolding m_def b_def
    by (metis rev_append rev_rev_ident takeWhile_dropWhile_id)
  have s: "s = a @ m @ b" using u by (metis a_def takeWhile_dropWhile_id u_def)
  have hm: "hd m \<notin> set cs" using hu u m by simp
  have lm: "last m \<notin> set cs"
    using hd_dropWhile [of ?W "rev u"] m by (auto simp: m_def last_rev)
  have ab: "\<forall>c \<in> set a. c \<in> set cs" "\<forall>c \<in> set b. c \<in> set cs"
    by (auto simp: a_def b_def dest: set_takeWhileD)
  have tr: "trim cs s = m" by (simp add: trim_def m_def u_def)
  have len: "0 < length m" using m by simp
  have "m = take (length a + length m - 1 - length a + 1) (drop (length a) s)"
    using len by (simp add: s)
  moreover have "find_first_not_of cs s = Some (length a)"
    using find_first_not_of_split [OF ab(1) m hm] s by simp
  moreover have "find_last_not_of cs s = Some (length a + length m - 1)"
    using find_last_not_of_split [OF ab(2) m lm] s by simp
  moreover have "length a + length m - 1 < length s" "length a \<le> length a + length m - 1"
    using len unfolding s length_append by linarith+
  ultimately show thesis using that(2) tr m hm lm by metis
qed

section \<open>List idioms of the sources\<close>

text \<open>
  \<^verbatim>\<open>it = find_if(xs, P); if (it != end) xs.erase(it)\<close> is \<open>erase_first P xs\<close>, and
  \<^verbatim>\<open>it = find_if(xs, P); if (it != end) *it = f(*it)\<close> is \<open>update_first P f xs\<close>;
  the element itself is \<open>List.find P xs\<close>.
\<close>

fun erase_first :: "('a \<Rightarrow> bool) \<Rightarrow> 'a list \<Rightarrow> 'a list" where
  "erase_first P [] = []"
| "erase_first P (x # xs) = (if P x then xs else x # erase_first P xs)"

fun update_first :: "('a \<Rightarrow> bool) \<Rightarrow> ('a \<Rightarrow> 'a) \<Rightarrow> 'a list \<Rightarrow> 'a list" where
  "update_first P f [] = []"
| "update_first P f (x # xs) = (if P x then f x # xs else x # update_first P f xs)"

lemma erase_first_id: "\<forall>x \<in> set xs. \<not> P x \<Longrightarrow> erase_first P xs = xs"
  by (induction xs) auto

lemma update_first_id: "\<forall>x \<in> set xs. \<not> P x \<Longrightarrow> update_first P f xs = xs"
  by (induction xs) auto

lemma length_erase_first:
  "length (erase_first P xs) = (if \<exists>x \<in> set xs. P x then length xs - 1 else length xs)"
proof (induction xs)
  case (Cons x xs)
  then show ?case by (cases xs) auto
qed simp

lemma length_update_first [simp]: "length (update_first P f xs) = length xs"
  by (induction xs) auto

lemma set_erase_first_subset: "set (erase_first P xs) \<subseteq> set xs"
  by (induction xs) auto

lemma erase_first_key:
  "distinct (map k xs) \<Longrightarrow> erase_first (\<lambda>x. k x = a) xs = filter (\<lambda>x. k x \<noteq> a) xs"
proof (induction xs)
  case (Cons x xs)
  then show ?case
    by (cases "k x = a") (auto simp: image_iff intro!: filter_True [symmetric])
qed simp

lemma distinct_erase_first: "distinct (map k xs) \<Longrightarrow> distinct (map k (erase_first P xs))"
  by (induction xs) (use set_erase_first_subset in fastforce)+

lemma map_update_first:
  "(\<And>x. k (f x) = k x) \<Longrightarrow> map k (update_first P f xs) = map k xs"
  by (induction xs) auto

lemma set_update_first_subset: "set (update_first P f xs) \<subseteq> set xs \<union> f ` set xs"
  by (induction xs) auto

lemma find_key_in: "List.find (\<lambda>x. k x = a) xs = Some y \<Longrightarrow> y \<in> set xs \<and> k y = a"
  by (metis (mono_tags, lifting) find_Some_iff nth_mem)

lemma find_key_mem: "List.find (\<lambda>x. k x = a) xs = Some y \<Longrightarrow> a \<in> k ` set xs"
  using find_key_in by fastforce

lemma find_key_None: "List.find (\<lambda>x. k x = a) xs = None \<longleftrightarrow> a \<notin> k ` set xs"
  by (auto simp: find_None_iff)

lemma find_key_distinct:
  "distinct (map k xs) \<Longrightarrow> y \<in> set xs \<Longrightarrow> List.find (\<lambda>x. k x = k y) xs = Some y"
  by (induction xs) auto

lemma find_append:
  "List.find P (xs @ ys) = (case List.find P xs of Some x \<Rightarrow> Some x | None \<Rightarrow> List.find P ys)"
  by (induction xs) auto

lemma find_update_first:
  assumes "\<And>x. k (f x) = k x"
  shows "List.find (\<lambda>x. k x = b) (update_first (\<lambda>x. k x = a) f xs) =
    (if b = a then map_option f else id) (List.find (\<lambda>x. k x = b) xs)"
  by (induction xs) (auto simp: assms)

lemma find_erase_first_other:
  "b \<noteq> a \<Longrightarrow> List.find (\<lambda>x. k x = b) (erase_first (\<lambda>x. k x = a) xs) = List.find (\<lambda>x. k x = b) xs"
  by (induction xs) auto

lemma find_erase_first_same:
  "distinct (map k xs) \<Longrightarrow> List.find (\<lambda>x. k x = a) (erase_first (\<lambda>x. k x = a) xs) = None"
  by (simp add: erase_first_key find_None_iff)

lemma filter_key_absent: "a \<notin> k ` set xs \<Longrightarrow> filter (\<lambda>x. k x \<noteq> a) xs = xs"
  by (induction xs) auto

lemma length_filter_key:
  "distinct (map k xs) \<Longrightarrow> a \<in> k ` set xs \<Longrightarrow> Suc (length (filter (\<lambda>x. k x \<noteq> a) xs)) = length xs"
proof (induction xs)
  case (Cons x xs)
  show ?case
  proof (cases "k x = a")
    case True
    with Cons.prems show ?thesis by (simp add: filter_key_absent)
  qed (use Cons in auto)
qed simp

lemma image_filter_key: "k ` set (filter (\<lambda>x. k x \<noteq> a) xs) = k ` set xs - {a}"
  by auto

lemma find_filter_key:
  "List.find (\<lambda>x. k x = b) (filter (\<lambda>x. k x \<noteq> a) xs) =
    (if b = a then None else List.find (\<lambda>x. k x = b) xs)"
  by (induction xs) auto

text \<open>Lists whose elements know their own position are disjoint.\<close>

lemma distinct_concat_placed:
  assumes "\<And>i. i < length xss \<Longrightarrow> distinct (xss ! i)"
    and "\<And>i x. i < length xss \<Longrightarrow> x \<in> set (xss ! i) \<Longrightarrow> place x = i"
  shows "distinct (concat xss)"
  using assms
proof (induction xss rule: rev_induct)
  case (snoc xs xss)
  have nth: "i < length xss \<Longrightarrow> (xss @ [xs]) ! i = xss ! i" for i
    by (simp add: nth_append)
  have "distinct (concat xss)"
    using snoc.prems nth by (intro snoc.IH) (metis length_append_singleton less_SucI)+
  moreover have "distinct xs" using snoc.prems(1) [of "length xss"] by simp
  moreover have "place x < length xss" if "x \<in> set (concat xss)" for x
  proof -
    from that obtain i where "i < length xss" "x \<in> set (xss ! i)" by (auto simp: in_set_conv_nth [of _ xss])
    with snoc.prems(2) [of i x] nth show ?thesis by simp
  qed
  moreover have "place x = length xss" if "x \<in> set xs" for x
    using snoc.prems(2) [of "length xss" x] that by simp
  ultimately show ?case by fastforce
qed simp

lemma distinct_map_sort_key: "distinct (map f (sort_key k xs)) \<longleftrightarrow> distinct (map f xs)"
proof -
  have "mset (map f (sort_key k xs)) = mset (map f xs)" by simp
  then show ?thesis by (rule mset_eq_imp_distinct_iff)
qed

text \<open>Sorting by a key that is injective on the list has one possible result.\<close>

lemma sorted_key_unique:
  assumes "mset xs = mset ys" "sorted (map k xs)" "sorted (map k ys)" "inj_on k (set xs)"
  shows "xs = ys"
proof -
  have "map k xs = map k ys"
    using assms(1-3) by (metis mset_map properties_for_sort)
  moreover have "set xs = set ys" using assms(1) by (rule mset_eq_setD)
  ultimately show ?thesis using assms(4) by (auto intro: map_inj_on)
qed

text \<open>The first \<open>n\<close> elements of a sorted list are the \<open>n\<close> smallest ones.\<close>

lemma sorted_take_le_drop:
  "sorted (map k xs) \<Longrightarrow> x \<in> set (take n xs) \<Longrightarrow> y \<in> set (drop n xs) \<Longrightarrow> k x \<le> k y"
  using sorted_append [of "map k (take n xs)" "map k (drop n xs)"]
  by (auto simp: map_append [symmetric] simp del: map_append)

lemma be_word8_inject:
  "length xs = 8 \<Longrightarrow> length ys = 8 \<Longrightarrow> (be_word xs :: u64) = be_word ys \<longleftrightarrow> xs = ys"
proof -
  assume len: "length xs = 8" "length ys = 8"
  have "be_val xs < 2 ^ 64" "be_val ys < 2 ^ 64" using be_val_less [of xs] be_val_less [of ys] len by simp_all
  then have "(be_word xs :: u64) = be_word ys \<longleftrightarrow> be_val xs = be_val ys"
    by (simp add: be_word_eq word_unat_eq_iff unsigned_of_nat take_bit_nat_eq_self)
  then show ?thesis using len by (simp add: be_val_inject)
qed

lemma mset_distinct_subset: "distinct xs \<Longrightarrow> set xs \<subseteq> set ys \<Longrightarrow> mset xs \<subseteq># mset ys"
  by (rule mset_subset_eqI) (auto simp: distinct_count_atmost_1 Suc_le_eq)

end
