(* ===== verification/Common_Types.thy ===== *)
theory Common_Types
  imports P2P_Prelude
begin

text \<open>
  Model of \<^verbatim>\<open>src/common/types.hpp\<close>: the 256-bit \<open>NodeID\<close> with its XOR metric, bucket index
  and hex notation, the 128-bit \<open>RequestID\<close>, \<open>PeerAddress\<close> and \<open>PeerInfo\<close>. An array of
  \<open>N\<close> bytes is \<open>N barray\<close>; its order is the lexicographic one of the defaulted
  \<^verbatim>\<open>operator<=>\<close>. The lemmas show that the bucket index is the position of the most
  significant bit of the XOR distance, that the distance is a metric whose lexicographic
  order is the numeric one, and that hex notation round-trips.
\<close>

section \<open>Identifiers\<close>

type_synonym NodeID = "32 barray"
type_synonym RequestID = "16 barray"

text \<open>The number an identifier denotes, most significant byte first.\<close>

definition id_val :: "'n::len barray \<Rightarrow> nat" where
  "id_val x = be_val (bytes_of x)"

definition xor_distance :: "NodeID \<Rightarrow> NodeID \<Rightarrow> NodeID" where
  "xor_distance a b = barray_of (map2 (XOR) (bytes_of a) (bytes_of b))"

text \<open>
  The inner loop of \<^verbatim>\<open>bucket_index\<close>: \<open>leading_from d n\<close> counts the zero bits of \<open>d\<close> from
  bit \<open>n - 1\<close> downwards, until the first bit that is set.
\<close>

fun leading_from :: "u8 \<Rightarrow> nat \<Rightarrow> nat" where
  "leading_from d 0 = 0"
| "leading_from d (Suc b) = (if d AND push_bit b 1 \<noteq> 0 then 0 else Suc (leading_from d b))"

text \<open>The outer loop of \<^verbatim>\<open>bucket_index\<close>, at byte position \<open>i\<close>.\<close>

fun bucket_index_from :: "nat \<Rightarrow> bytes \<Rightarrow> bytes \<Rightarrow> int" where
  "bucket_index_from i (a # as) (b # bs) =
     (let diff = a XOR b in
      if diff \<noteq> 0 then 255 - (int i * 8 + int (leading_from diff 8))
      else bucket_index_from (Suc i) as bs)"
| "bucket_index_from i _ _ = -1"

definition bucket_index :: "NodeID \<Rightarrow> NodeID \<Rightarrow> int" where
  "bucket_index a b = bucket_index_from 0 (bytes_of a) (bytes_of b)"

definition is_closer_than :: "NodeID \<Rightarrow> NodeID \<Rightarrow> bool" where
  "is_closer_than dist_a dist_b \<longleftrightarrow> dist_a < dist_b"

definition is_zero :: "NodeID \<Rightarrow> bool" where
  "is_zero x \<longleftrightarrow> list_all (\<lambda>b. b = 0) (bytes_of x)"

section \<open>Hex notation\<close>

definition hex_chars :: string where
  "hex_chars = ''0123456789abcdef''"

definition array_to_hex :: "'n::len barray \<Rightarrow> string" where
  "array_to_hex x =
     concat (map (\<lambda>b. [hex_chars ! unat (drop_bit 4 b), hex_chars ! unat (b AND 15)]) (bytes_of x))"

definition hex_char_to_nibble :: "char \<Rightarrow> int" where
  "hex_char_to_nibble c =
     (let n = (of_char c :: int) in
      if 48 \<le> n \<and> n \<le> 57 then n - 48
      else if 97 \<le> n \<and> n \<le> 102 then n - 97 + 10
      else if 65 \<le> n \<and> n \<le> 70 then n - 65 + 10
      else -1)"

text \<open>
  The parsing loop returns the bytes it has written and whether it ran to the end; a bad
  digit stops it, and the bytes already written stay in the output array.
\<close>

fun hex_decode :: "string \<Rightarrow> bytes \<times> bool" where
  "hex_decode (h # l # rest) =
     (let hi = hex_char_to_nibble h; lo = hex_char_to_nibble l in
      if hi < 0 \<or> lo < 0 then ([], False)
      else let (bs, ok) = hex_decode rest in (word_of_int (push_bit 4 hi OR lo) # bs, ok))"
| "hex_decode _ = ([], True)"

definition array_from_hex :: "string \<Rightarrow> 'n::len barray \<Rightarrow> bool \<times> 'n barray" where
  "array_from_hex hex out =
     (if length hex \<noteq> LENGTH('n) * 2 then (False, out)
      else let (bs, ok) = hex_decode hex
           in (ok, barray_of (bs @ drop (length bs) (bytes_of out))))"

definition NodeID_to_hex :: "NodeID \<Rightarrow> string" where
  "NodeID_to_hex x = array_to_hex x"

definition NodeID_to_short_hex :: "NodeID \<Rightarrow> string" where
  "NodeID_to_short_hex x = take 8 (NodeID_to_hex x)"

definition NodeID_from_hex :: "string \<Rightarrow> NodeID \<Rightarrow> bool \<times> NodeID" where
  "NodeID_from_hex hex out = array_from_hex hex out"

definition RequestID_to_hex :: "RequestID \<Rightarrow> string" where
  "RequestID_to_hex x = array_to_hex x"

definition RequestID_to_short_hex :: "RequestID \<Rightarrow> string" where
  "RequestID_to_short_hex x = take 8 (RequestID_to_hex x)"

definition RequestID_from_hex :: "string \<Rightarrow> RequestID \<Rightarrow> bool \<times> RequestID" where
  "RequestID_from_hex hex out = array_from_hex hex out"

section \<open>Addresses and peers\<close>

record PeerAddress =
  host :: string
  port :: u16

record PeerInfo =
  peer_node_id :: NodeID
  peer_address :: PeerAddress

text \<open>\<^verbatim>\<open>PeerInfo::operator==\<close> compares the identifiers only.\<close>

definition PeerInfo_eq :: "PeerInfo \<Rightarrow> PeerInfo \<Rightarrow> bool" where
  "PeerInfo_eq p q \<longleftrightarrow> peer_node_id p = peer_node_id q"

section \<open>The XOR metric\<close>

lemma bytes_of_xor_distance [simp]:
  "bytes_of (xor_distance a b) = map2 (XOR) (bytes_of a) (bytes_of b)"
  by (simp add: xor_distance_def)

lemma id_val_less_iff: "id_val a < id_val b \<longleftrightarrow> a < (b :: 'n::len barray)"
  by (simp add: id_val_def less_barray_def be_val_mono_iff)

lemma id_val_inject: "id_val a = id_val b \<longleftrightarrow> a = (b :: 'n::len barray)"
  by (simp add: id_val_def be_val_inject barray_eq_iff)

lemma id_val_le_iff: "id_val a \<le> id_val b \<longleftrightarrow> a \<le> (b :: 'n::len barray)"
  by (metis id_val_less_iff linorder_not_less)

lemma map2_xor_commute:
  "length xs = length ys \<Longrightarrow> map2 (XOR) xs ys = map2 (XOR) ys (xs :: bytes)"
  by (induction xs ys rule: list_induct2) (auto simp: xor.commute)

lemma xor_distance_commute: "xor_distance a b = xor_distance b a"
  by (rule barray_eqI) (simp add: map2_xor_commute)

lemma map2_xor_cancel:
  "length xs = length ys \<Longrightarrow> map2 (XOR) xs (map2 (XOR) xs ys) = (ys :: bytes)"
  by (induction xs ys rule: list_induct2) (auto simp: xor.assoc [symmetric])

lemma xor_distance_cancel [simp]: "xor_distance a (xor_distance a b) = b"
  by (rule barray_eqI) (simp add: map2_xor_cancel)

lemma xor_distance_inject [simp]: "xor_distance a b = xor_distance a c \<longleftrightarrow> b = c"
  by (metis xor_distance_cancel)

lemma xor_distance_inject' [simp]: "xor_distance b a = xor_distance c a \<longleftrightarrow> b = c"
  by (simp add: xor_distance_commute [of _ a])

lemma be_val_replicate_0: "be_val (replicate n 0) = 0"
  by (induction n) (auto simp: be_val_Cons)

lemma be_val_eq_0: "be_val xs = 0 \<longleftrightarrow> (\<forall>x \<in> set xs. x = 0)"
  by (induction xs) (auto simp: be_val_Cons unat_eq_0)

lemma word_xor_eq_0: "x XOR y = 0 \<longleftrightarrow> x = (y :: 'a::len word)"
  by (metis xor.assoc xor.left_neutral xor.right_neutral xor_self_eq)

lemma map2_xor_eq_0:
  "length xs = length ys \<Longrightarrow> (\<forall>x \<in> set (map2 (XOR) xs ys). x = 0) \<longleftrightarrow> xs = (ys :: bytes)"
  by (induction xs ys rule: list_induct2) (auto simp: word_xor_eq_0)

lemma id_val_xor_distance_0: "id_val (xor_distance a b) = 0 \<longleftrightarrow> a = b"
  unfolding id_val_def be_val_eq_0 bytes_of_xor_distance
  by (subst map2_xor_eq_0) (simp_all add: barray_eq_iff)

lemma xor_distance_chain: "xor_distance (xor_distance a b) (xor_distance b c) = xor_distance a c"
proof (rule barray_eqI)
  have "map2 (XOR) (map2 (XOR) xs ys) (map2 (XOR) ys zs) = map2 (XOR) xs zs"
    if "length xs = length ys" "length ys = length zs" for xs ys zs :: bytes
    using that
    by (induction xs ys zs rule: list_induct3) (auto simp: xor.assoc xor.left_commute)
  then show "bytes_of (xor_distance (xor_distance a b) (xor_distance b c)) =
      bytes_of (xor_distance a c)"
    by simp
qed

lemma nat_xor_le_add: "x XOR y \<le> x + (y :: nat)"
proof -
  have "(x XOR y) + (x AND y) = (x XOR y) OR (x AND y)"
    by (rule disjunctive_add_eq_or) (auto intro!: bit_eqI simp: bit_simps)
  also have "\<dots> = x OR y"
    by (rule bit_eqI) (auto simp: bit_simps)
  finally have "x XOR y \<le> x OR y" by linarith
  moreover have "int (x AND y) + int (x OR y) = int x + int y"
    by (simp only: of_nat_and_eq of_nat_or_eq plus_and_or)
  ultimately show ?thesis by linarith
qed

lemma nat_split_at: "(n :: nat) = drop_bit (Suc i) n * 2 ^ Suc i + (of_bool (bit n i) * 2 ^ i + take_bit i n)"
proof -
  have "n = drop_bit (Suc i) n * 2 ^ Suc i + take_bit (Suc i) n"
    by (simp only: drop_bit_eq_div take_bit_eq_mod div_mult_mod_eq)
  then show ?thesis by (simp only: take_bit_Suc_from_most mult.commute)
qed

lemma xor_less_iff_bit:
  assumes "2 ^ i \<le> d" "d < 2 ^ Suc i"
  shows "n XOR d < n \<longleftrightarrow> bit (n :: nat) i"
proof -
  have hi: "drop_bit (Suc i) d = 0" using assms(2) by (simp add: drop_bit_eq_div)
  have "d div 2 ^ i = 1" using assms by (simp add: div_nat_eqI)
  then have b: "bit d i" by (simp add: bit_iff_odd)
  define m where "m = n XOR d"
  have "drop_bit (Suc i) m = drop_bit (Suc i) n" by (simp add: hi m_def)
  moreover have "bit m i \<longleftrightarrow> \<not> bit n i" using b by (simp add: m_def bit_xor_iff)
  ultimately have "m = drop_bit (Suc i) n * 2 ^ Suc i + (of_bool (\<not> bit n i) * 2 ^ i + take_bit i m)"
    using nat_split_at [of m i] by simp
  moreover have "take_bit i m < 2 ^ i" "take_bit i n < 2 ^ i" by (rule take_bit_nat_less_exp)+
  ultimately have "m < n \<longleftrightarrow> bit n i" using nat_split_at [of n i]
    by (cases "bit n i") (simp_all del: take_bit_nat_less_exp)
  then show ?thesis by (simp only: m_def)
qed

lemma push_add_xor:
  assumes "b < 2 ^ k" "d < 2 ^ k"
  shows "(a * 2 ^ k + b) XOR (c * 2 ^ k + d) = (a XOR c) * 2 ^ k + (b XOR (d :: nat))"
proof -
  have or: "u * 2 ^ k + v = push_bit k u OR v" if "v < 2 ^ k" for u v :: nat
  proof -
    have "\<not> bit v n" if "k \<le> n" for n
      using that \<open>v < 2 ^ k\<close> by (metis bit_take_bit_iff linorder_not_less take_bit_nat_eq_self)
    then have "push_bit k u AND v = 0" by (intro bit_eqI) (auto simp: bit_simps)
    then have "push_bit k u + v = push_bit k u OR v" by (rule disjunctive_add_eq_or)
    then show ?thesis by (simp add: push_bit_eq_mult)
  qed
  have "b XOR d < 2 ^ k" using assms by (metis take_bit_nat_eq_self_iff take_bit_xor)
  moreover have "(push_bit k a OR b) XOR (push_bit k c OR d) = push_bit k (a XOR c) OR (b XOR d)"
  proof (rule bit_eqI)
    fix n
    have lo: "\<not> bit v n" if "k \<le> n" "v < 2 ^ k" for v :: nat
      using that by (metis bit_take_bit_iff linorder_not_less take_bit_nat_eq_self)
    show "bit ((push_bit k a OR b) XOR (push_bit k c OR d)) n = bit (push_bit k (a XOR c) OR (b XOR d)) n"
      using lo [of b] lo [of d] assms by (cases "k \<le> n") (auto simp: bit_simps)
  qed
  ultimately show ?thesis using assms by (simp add: or)
qed

lemma be_val_map2_xor:
  "length xs = length ys \<Longrightarrow> be_val (map2 (XOR) xs ys) = be_val xs XOR be_val ys"
proof (induction xs ys rule: list_induct2)
  case (Cons x xs y ys)
  have pow: "(256 :: nat) ^ n = 2 ^ (8 * n)" for n by (simp add: power_mult)
  show ?case
    using Cons be_val_less [of xs] be_val_less [of ys]
    by (simp add: be_val_Cons unsigned_xor_eq pow push_add_xor)
qed simp

lemma id_val_xor_distance: "id_val (xor_distance a b) = id_val a XOR id_val b"
  by (simp add: id_val_def be_val_map2_xor)

lemma xor_distance_triangle:
  "id_val (xor_distance a c) \<le> id_val (xor_distance a b) + id_val (xor_distance b c)"
  using nat_xor_le_add [of "id_val (xor_distance a b)" "id_val (xor_distance b c)"]
  by (simp only: id_val_xor_distance [symmetric] xor_distance_chain)

section \<open>The bucket index\<close>

lemma bit_unat_iff: "bit (unat (d :: 'a::len word)) b \<longleftrightarrow> bit d b"
  by (simp add: bit_unsigned_iff)

lemma bit_top_cases:
  assumes "d < 2 ^ Suc b"
  shows "if bit (d :: nat) b then 2 ^ b \<le> d else d < 2 ^ b"
proof (cases "d < 2 ^ b")
  case True
  then show ?thesis by (simp add: bit_iff_odd)
next
  case False
  then have "d div 2 ^ b = 1" using assms by (simp add: div_nat_eqI)
  with False show ?thesis by (simp add: bit_iff_odd)
qed

lemma leading_from_spec:
  assumes "0 < unat d" "unat d < 2 ^ n"
  shows "leading_from d n < n \<and> 2 ^ (n - Suc (leading_from d n)) \<le> unat d \<and>
    unat d < 2 ^ (n - leading_from d n)"
  using assms
proof (induction n)
  case (Suc b)
  then show ?case
    using bit_top_cases [of "unat d" b]
    by (auto simp: and_exp_eq_0_iff_not_bit bit_unat_iff split: if_splits)
qed simp

lemma bucket_index_from_equal: "bucket_index_from i as as = -1"
  by (induction as arbitrary: i) auto

lemma bucket_index_from_spec:
  assumes "length as = length bs" "length as + i = 32" "as \<noteq> bs"
  shows "\<exists>j < 8 * length as. bucket_index_from i as bs = int j \<and>
    2 ^ j \<le> be_val (map2 (XOR) as bs) \<and> be_val (map2 (XOR) as bs) < 2 ^ Suc j"
  using assms
proof (induction as bs arbitrary: i rule: list_induct2)
  case (Cons a as b bs)
  show ?case
  proof (cases "a = b")
    case True
    with Cons.prems have "length as + Suc i = 32" "as \<noteq> bs" by simp_all
    then obtain j where "j < 8 * length as" "bucket_index_from (Suc i) as bs = int j"
        "2 ^ j \<le> be_val (map2 (XOR) as bs)" "be_val (map2 (XOR) as bs) < 2 ^ Suc j"
      using Cons.IH by blast
    with True show ?thesis by (intro exI [of _ j]) (simp add: be_val_Cons)
  next
    case False
    define d n where "d = a XOR b" and "n = length bs"
    define l r where "l = leading_from d 8" and "r = be_val (map2 (XOR) as bs)"
    have d: "d \<noteq> 0" using False by (simp add: d_def word_xor_eq_0)
    then have l: "l < 8" "2 ^ (7 - l) \<le> unat d" "unat d < 2 ^ (8 - l)"
      using leading_from_spec [of d 8] unat_u8_less [of d] by (auto simp: l_def unat_gt_0)
    have r: "r < 2 ^ (8 * n)"
      using be_val_less [of "map2 (XOR) as bs"] Cons.hyps by (simp add: r_def n_def power_mult)
    have v: "be_val (map2 (XOR) (a # as) (b # bs)) = unat d * 2 ^ (8 * n) + r"
      using Cons.hyps by (simp add: be_val_Cons d_def n_def r_def power_mult)
    have "2 ^ (7 - l) * 2 ^ (8 * n) \<le> unat d * 2 ^ (8 * n)"
      using l(2) by (rule mult_right_mono) simp
    then have lo: "2 ^ (7 - l + 8 * n) \<le> unat d * 2 ^ (8 * n) + r"
      unfolding power_add by linarith
    have "(unat d + 1) * 2 ^ (8 * n) \<le> 2 ^ (8 - l) * 2 ^ (8 * n)"
      using l(3) by (intro mult_right_mono) auto
    moreover have "2 ^ (8 - l) * 2 ^ (8 * n) = (2 :: nat) ^ Suc (7 - l + 8 * n)"
      using l(1) by (simp flip: power_add power_Suc)
    ultimately have hi: "unat d * 2 ^ (8 * n) + r < 2 ^ Suc (7 - l + 8 * n)"
      using r by (simp only: distrib_right)
    have "bucket_index_from i (a # as) (b # bs) = int (7 - l + 8 * n)"
      using d l(1) Cons.prems Cons.hyps by (auto simp: d_def [symmetric] l_def [symmetric] n_def)
    with lo hi v l(1) Cons.hyps show ?thesis
      by (intro exI [of _ "7 - l + 8 * n"]) (simp add: n_def)
  qed
qed simp

text \<open>
  The index that \<^verbatim>\<open>bucket_index\<close> returns is \<open>-1\<close> for equal identifiers and otherwise the
  position of the most significant bit of the XOR distance.
\<close>

lemma bucket_index_self [simp]: "bucket_index a a = -1"
  by (simp add: bucket_index_def bucket_index_from_equal)

lemma bucket_index_msb:
  assumes "a \<noteq> b"
  shows "\<exists>j < 256. bucket_index a b = int j \<and>
    2 ^ j \<le> id_val (xor_distance a b) \<and> id_val (xor_distance a b) < 2 ^ Suc j"
  using bucket_index_from_spec [of "bytes_of a" "bytes_of b" 0] assms
  by (simp add: bucket_index_def id_val_def barray_eq_iff)

lemma bucket_index_range: "a \<noteq> b \<Longrightarrow> 0 \<le> bucket_index a b \<and> bucket_index a b < 256"
  using bucket_index_msb [of a b] by auto

lemma bucket_index_eq_minus_1 [simp]: "bucket_index a b = -1 \<longleftrightarrow> a = b"
  using bucket_index_range [of a b] by (cases "a = b") auto

lemma nat_bucket_index_less [simp]: "nat (bucket_index a b) < 256"
  using bucket_index_range [of a b] by (cases "a = b") auto

text \<open>Every node in the bucket of a node that is closer to the target is closer to the target.\<close>

lemma same_bucket_closer:
  assumes "x \<noteq> z" "bucket_index x w = bucket_index x z"
    and "id_val (xor_distance z t) < id_val (xor_distance x t)"
  shows "id_val (xor_distance w t) < id_val (xor_distance x t)"
proof -
  have wx: "x \<noteq> w" using assms(1,2) bucket_index_eq_minus_1 [of x z] bucket_index_self by metis
  obtain i where i: "bucket_index x z = int i" "2 ^ i \<le> id_val (xor_distance x z)" "id_val (xor_distance x z) < 2 ^ Suc i"
    using bucket_index_msb [OF assms(1)] by blast
  moreover from bucket_index_msb [OF wx] obtain "2 ^ i \<le> id_val (xor_distance x w)" "id_val (xor_distance x w) < 2 ^ Suc i"
    using i(1) assms(2) by auto
  moreover have "id_val (xor_distance v t) = id_val (xor_distance x t) XOR id_val (xor_distance x v)" for v
    unfolding id_val_xor_distance by (simp add: ac_simps)
  ultimately show ?thesis using assms(3) xor_less_iff_bit by metis
qed
lemma bucket_index_commute: "bucket_index a b = bucket_index b a"
proof (cases "a = b")
  case False
  obtain j where j: "bucket_index a b = int j" "2 ^ j \<le> id_val (xor_distance a b)"
      "id_val (xor_distance a b) < 2 ^ Suc j"
    using bucket_index_msb [OF False] by blast
  obtain k where k: "bucket_index b a = int k" "2 ^ k \<le> id_val (xor_distance a b)"
      "id_val (xor_distance a b) < 2 ^ Suc k"
    using bucket_index_msb [of b a] False by (auto simp: xor_distance_commute [of b a])
  have "j < Suc k" "k < Suc j"
    using j k by (meson le_less_trans power_less_imp_less_exp one_less_numeral_iff semiring_norm(76))+
  with j k show ?thesis by simp
qed simp

section \<open>Hex round trip\<close>

lemma nibble_hex_char:
  assumes "n < 16"
  shows "hex_char_to_nibble (hex_chars ! n) = int n"
proof -
  have "\<forall>n \<in> set [0..<16]. hex_char_to_nibble (hex_chars ! n) = int n"
    by (simp add: upt_rec hex_chars_def hex_char_to_nibble_def)
  with assms show ?thesis by auto
qed

lemma nibble_less: "hex_char_to_nibble c < 16"
  by (auto simp: hex_char_to_nibble_def Let_def)

lemma uint_nibbles:
  "uint (drop_bit 4 b) = uint (b :: u8) div 16" "uint (b AND 15) = uint b mod 16"
proof -
  show "uint (drop_bit 4 b) = uint b div 16"
    unfolding unsigned_drop_bit_eq using uint_lt2p [of b]
    by (simp add: drop_bit_eq_div take_bit_eq_mod)
  have "b AND 15 = take_bit 4 b"
    by (simp add: take_bit_eq_mask mask_eq_exp_minus_1)
  then have "uint (b AND 15) = take_bit 4 (uint b)"
    by (simp only: unsigned_take_bit_eq)
  then show "uint (b AND 15) = uint b mod 16"
    by (simp add: take_bit_eq_mod)
qed

lemma unat_nibbles:
  "unat (drop_bit 4 b) = unat (b :: u8) div 16" "unat (b AND 15) = unat b mod 16"
  using uint_nibbles [of b] by (simp_all only: unat_eq_nat_uint nat_div_distrib nat_mod_distrib uint_ge_0)
    simp_all

lemma unat_nibbles_less: "unat (drop_bit 4 (b :: u8)) < 16" "unat (b AND 15) < 16"
  unfolding unat_nibbles using unat_u8_less [of b] by linarith+

lemma join_nibbles:
  assumes "0 \<le> hi" "0 \<le> lo" "lo < 16"
  shows "push_bit 4 hi OR lo = 16 * hi + (lo :: int)"
proof -
  have "lo = take_bit 4 lo" using assms by (simp add: take_bit_eq_mod)
  then have "push_bit 4 hi AND lo = 0"
    by (metis bit_and_iff bit_push_bit_iff bit_take_bit_iff bit_eqI bit_0_eq bot_apply bot_bool_def leD)
  then show ?thesis
    by (simp add: disjunctive_add_eq_or [symmetric] push_bit_eq_mult)
qed

lemma byte_of_nibbles:
  "word_of_int (push_bit 4 (uint (drop_bit 4 b)) OR uint (b AND 15)) = (b :: u8)"
proof -
  have "push_bit 4 (uint (drop_bit 4 b)) OR uint (b AND 15) = uint b"
    unfolding uint_nibbles by (subst join_nibbles) (simp_all add: pos_imp_zdiv_nonneg_iff)
  then show ?thesis by simp
qed

definition byte_to_hex :: "u8 \<Rightarrow> string" where
  "byte_to_hex b = [hex_chars ! unat (drop_bit 4 b), hex_chars ! unat (b AND 15)]"

lemma array_to_hex_eq: "array_to_hex x = concat (map byte_to_hex (bytes_of x))"
  by (simp add: array_to_hex_def byte_to_hex_def [abs_def])

lemma hex_decode_encode: "hex_decode (concat (map byte_to_hex bs)) = (bs, True)"
  by (induction bs) (simp_all add: byte_to_hex_def nibble_hex_char unat_nibbles_less byte_of_nibbles)

lemma length_concat_hex: "length (concat (map byte_to_hex bs)) = length bs * 2"
  by (induction bs) (simp_all add: byte_to_hex_def)

lemma length_array_to_hex: "length (array_to_hex (x :: 'n::len barray)) = LENGTH('n) * 2"
  by (simp add: array_to_hex_eq length_concat_hex)

lemma array_from_hex_to_hex: "array_from_hex (array_to_hex x) out = (True, x)"
  unfolding array_from_hex_def length_array_to_hex
  by (simp add: array_to_hex_eq hex_decode_encode)

text \<open>What the parser accepts: strings of the right length whose characters are hex digits.\<close>

definition is_hex_digit :: "char \<Rightarrow> bool" where
  "is_hex_digit c \<longleftrightarrow> 0 \<le> hex_char_to_nibble c"

text \<open>The canonical (lower-case) form of a hex digit.\<close>

definition hex_lower :: "char \<Rightarrow> char" where
  "hex_lower c = hex_chars ! nat (hex_char_to_nibble c)"

lemma hex_decode_accepts: "even (length s) \<Longrightarrow> snd (hex_decode s) \<longleftrightarrow> list_all is_hex_digit s"
  by (induction s rule: hex_decode.induct)
    (auto simp: is_hex_digit_def not_less Let_def split: prod.splits if_splits)

lemma length_hex_decode:
  "even (length s) \<Longrightarrow> snd (hex_decode s) \<Longrightarrow> length (fst (hex_decode s)) * 2 = length s"
  by (induction s rule: hex_decode.induct) (auto simp: Let_def split: prod.splits if_splits)

lemma byte_to_hex_join:
  assumes "0 \<le> hi" "hi < 16" "0 \<le> lo" "lo < 16"
  shows "byte_to_hex (word_of_int (push_bit 4 hi OR lo)) = [hex_chars ! nat hi, hex_chars ! nat lo]"
proof -
  let ?b = "word_of_int (16 * hi + lo) :: u8"
  have "uint ?b = 16 * hi + lo"
    unfolding uint_word_of_int_eq using assms by (simp add: take_bit_eq_mod)
  then have "uint (drop_bit 4 ?b) = hi" "uint (?b AND 15) = lo"
    unfolding uint_nibbles using assms by simp_all
  then have "unat (drop_bit 4 ?b) = nat hi" "unat (?b AND 15) = nat lo"
    by (simp_all only: unat_eq_nat_uint)
  with assms show ?thesis by (simp only: byte_to_hex_def join_nibbles)
qed

lemma hex_encode_decode:
  "even (length s) \<Longrightarrow> snd (hex_decode s) \<Longrightarrow>
   concat (map byte_to_hex (fst (hex_decode s))) = map hex_lower s"
proof (induction s rule: hex_decode.induct)
  case (1 h l rest)
  then show ?case
    using byte_to_hex_join [of "hex_char_to_nibble h" "hex_char_to_nibble l"]
    by (auto simp: hex_lower_def Let_def nibble_less split: prod.splits if_splits)
qed auto

lemma array_from_hex_accepts:
  "fst (array_from_hex s (out :: 'n::len barray)) \<longleftrightarrow>
    length s = LENGTH('n) * 2 \<and> list_all is_hex_digit s"
  using hex_decode_accepts [of s] by (auto simp: array_from_hex_def split: prod.splits)

lemma array_to_hex_from_hex:
  assumes "array_from_hex s (out :: 'n::len barray) = (True, x)"
  shows "array_to_hex x = map hex_lower s"
proof -
  have len: "length s = LENGTH('n) * 2" and ok: "snd (hex_decode s)"
    using assms by (auto simp: array_from_hex_def split: prod.splits if_splits)
  then have l: "length (fst (hex_decode s)) = LENGTH('n)"
    using length_hex_decode [of s] by simp
  with assms len have "x = barray_of (fst (hex_decode s))"
    by (auto simp: array_from_hex_def split: prod.splits)
  with l hex_encode_decode [of s] ok len show ?thesis by (simp add: array_to_hex_eq)
qed

section \<open>Properties\<close>

text \<open>
  \<^verbatim>\<open>NodeID::bucket_index\<close> is \<open>-1\<close> exactly for equal identifiers; for different ones it
  is an index below 256, the position of the most significant bit of the XOR distance.
\<close>

theorem bucket_index_correct:
  "(bucket_index a b = -1 \<longleftrightarrow> a = b) \<and>
   (a \<noteq> b \<longrightarrow> (\<exists>j < 256. bucket_index a b = int j \<and>
      2 ^ j \<le> id_val (xor_distance a b) \<and> id_val (xor_distance a b) < 2 ^ Suc j))"
  using bucket_index_msb [of a b] by simp

theorem bucket_index_correct_witness:
  "bucket_index (barray_of [0, 1]) (barray_of [0, 3]) = 241 \<and>
   2 ^ 241 \<le> id_val (xor_distance (barray_of [0, 1]) (barray_of [0, 3]))"
proof -
  have ne: "(barray_of [0, 1] :: NodeID) \<noteq> barray_of [0, 3]" by code_simp
  have v: "bucket_index (barray_of [0, 1]) (barray_of [0, 3]) = 241" by code_simp
  from bucket_index_correct [of "barray_of [0, 1]" "barray_of [0, 3]"] ne v show ?thesis by auto
qed

text \<open>
  The XOR distance is a metric on identifiers: symmetric, zero exactly between equal
  identifiers, with the triangle inequality; it is unidirectional (for every identifier and
  distance there is exactly one identifier at that distance); and the lexicographic
  comparison the code sorts by is the comparison of the numbers the distances denote.
\<close>

lemma xor_distance_metric:
  "xor_distance a b = xor_distance b a \<and>
   (is_zero (xor_distance a b) \<longleftrightarrow> a = b) \<and>
   id_val (xor_distance a c) \<le> id_val (xor_distance a b) + id_val (xor_distance b c) \<and>
   (\<exists>!x. xor_distance a x = d) \<and>
   (is_closer_than (xor_distance a b) (xor_distance a c) \<longleftrightarrow>
      id_val (xor_distance a b) < id_val (xor_distance a c))"
proof (intro conjI)
  show "is_zero (xor_distance a b) \<longleftrightarrow> a = b"
    unfolding is_zero_def list_all_iff bytes_of_xor_distance
    by (subst map2_xor_eq_0) (simp_all add: barray_eq_iff)
  show "\<exists>!x. xor_distance a x = d"
    by (rule ex1I [of _ "xor_distance a d"]) auto
  show "xor_distance a b = xor_distance b a" by (rule xor_distance_commute)
qed (simp_all add: xor_distance_triangle is_closer_than_def id_val_less_iff)

text \<open>
  Hex notation: parsing what \<^verbatim>\<open>to_hex\<close> printed gives back the identifier, whatever was
  in the output array; the parser accepts exactly the strings of 64 hex digits (either
  case); and printing a parsed identifier gives the input in lower case.
\<close>

theorem NodeID_hex_roundtrip:
  "NodeID_from_hex (NodeID_to_hex x) out = (True, x) \<and>
   (fst (NodeID_from_hex s out) \<longleftrightarrow> length s = 64 \<and> list_all is_hex_digit s) \<and>
   (NodeID_from_hex s out = (True, y) \<longrightarrow> NodeID_to_hex y = map hex_lower s)"
  using array_from_hex_accepts [of s out] array_to_hex_from_hex [of s out y]
  by (simp add: NodeID_from_hex_def NodeID_to_hex_def array_from_hex_to_hex)

theorem NodeID_hex_roundtrip_witness:
  "NodeID_from_hex (NodeID_to_hex (barray_of [171])) zero_barray = (True, barray_of [171]) \<and>
   NodeID_to_hex (barray_of [171]) = map hex_lower (''A'' @ ''B'' @ replicate 62 (CHR ''0''))"
proof -
  have "NodeID_from_hex (''A'' @ ''B'' @ replicate 62 (CHR ''0'')) zero_barray = (True, barray_of [171])"
    by code_simp
  with NodeID_hex_roundtrip show ?thesis by blast
qed

end
