(* ===== verification/K_Bucket.thy ===== *)
theory K_Bucket
  imports Common_Types
begin

text \<open>
  Model of \<^verbatim>\<open>src/dht/k_bucket.hpp\<close> and \<^verbatim>\<open>k_bucket.cpp\<close>: a k-bucket with its contact list
  (least recently seen first) and its replacement cache. Reading the steady clock is the
  argument \<open>now\<close>. The invariant \<open>KBucket_wf\<close> is kept by every operation; the locale
  \<open>contact_bucket\<close> states the contract the routing table relies on, its lemmas are about
  any table of such buckets, and the interpretation at the end shows that the k-bucket
  model keeps the contract.
\<close>

type_synonym time_point = nat

record Contact =
  contact_peer :: PeerInfo
  last_seen :: time_point
  failed_queries :: int

abbreviation contact_id :: "Contact \<Rightarrow> NodeID" where
  "contact_id c \<equiv> peer_node_id (contact_peer c)"

record KBucket =
  capacity :: nat
  max_replacements :: nat
  contacts :: "Contact list"
  replacements :: "Contact list"

section \<open>Operations\<close>

definition KBucket_new :: "nat \<Rightarrow> nat \<Rightarrow> KBucket" where
  "KBucket_new cap maxr = \<lparr>capacity = cap, max_replacements = maxr, contacts = [], replacements = []\<rparr>"

definition fresh_contact :: "time_point \<Rightarrow> PeerInfo \<Rightarrow> Contact" where
  "fresh_contact now peer = \<lparr>contact_peer = peer, last_seen = now, failed_queries = 0\<rparr>"

definition KBucket_add_or_update :: "time_point \<Rightarrow> PeerInfo \<Rightarrow> KBucket \<Rightarrow> bool \<times> KBucket" where
  "KBucket_add_or_update now peer b =
     (let same = (\<lambda>c. contact_id c = peer_node_id peer) in
      case List.find same (contacts b) of
        Some c \<Rightarrow>
          (True, b\<lparr>contacts := erase_first same (contacts b) @
             [c\<lparr>contact_peer := peer, last_seen := now, failed_queries := 0\<rparr>]\<rparr>)
      | None \<Rightarrow>
          if length (contacts b) < capacity b
          then (True, b\<lparr>contacts := contacts b @ [fresh_contact now peer]\<rparr>)
          else
            (False,
             case List.find same (replacements b) of
               Some _ \<Rightarrow>
                 b\<lparr>replacements := update_first same
                    (\<lambda>c. c\<lparr>contact_peer := peer, last_seen := now, failed_queries := 0\<rparr>)
                    (replacements b)\<rparr>
             | None \<Rightarrow>
                 b\<lparr>replacements :=
                    (if max_replacements b \<le> length (replacements b)
                     then tl (replacements b) else replacements b) @ [fresh_contact now peer]\<rparr>))"

definition KBucket_remove :: "NodeID \<Rightarrow> KBucket \<Rightarrow> bool \<times> KBucket" where
  "KBucket_remove nid b =
     (let same = (\<lambda>c. contact_id c = nid) in
      case List.find same (contacts b) of
        None \<Rightarrow>
          (case List.find same (replacements b) of
             Some _ \<Rightarrow> (True, b\<lparr>replacements := erase_first same (replacements b)\<rparr>)
           | None \<Rightarrow> (False, b))
      | Some _ \<Rightarrow>
          (let cs = erase_first same (contacts b) in
           (True,
            case replacements b of
              [] \<Rightarrow> b\<lparr>contacts := cs\<rparr>
            | r # rs \<Rightarrow> b\<lparr>contacts := cs @ [r], replacements := rs\<rparr>)))"

definition KBucket_contains :: "NodeID \<Rightarrow> KBucket \<Rightarrow> bool" where
  "KBucket_contains nid b \<longleftrightarrow> list_ex (\<lambda>c. contact_id c = nid) (contacts b)"

definition KBucket_find :: "NodeID \<Rightarrow> KBucket \<Rightarrow> PeerInfo option" where
  "KBucket_find nid b =
     (case List.find (\<lambda>c. contact_id c = nid) (contacts b) of
        Some c \<Rightarrow> Some (contact_peer c) | None \<Rightarrow> None)"

definition KBucket_least_recently_seen :: "KBucket \<Rightarrow> PeerInfo option" where
  "KBucket_least_recently_seen b =
     (case contacts b of [] \<Rightarrow> None | c # _ \<Rightarrow> Some (contact_peer c))"

definition KBucket_mark_failed :: "NodeID \<Rightarrow> KBucket \<Rightarrow> KBucket" where
  "KBucket_mark_failed nid b =
     b\<lparr>contacts := update_first (\<lambda>c. contact_id c = nid)
        (\<lambda>c. c\<lparr>failed_queries := failed_queries c + 1\<rparr>) (contacts b)\<rparr>"

definition KBucket_touch :: "time_point \<Rightarrow> NodeID \<Rightarrow> KBucket \<Rightarrow> KBucket" where
  "KBucket_touch now nid b =
     (let same = (\<lambda>c. contact_id c = nid) in
      case List.find same (contacts b) of
        Some c \<Rightarrow> b\<lparr>contacts := erase_first same (contacts b) @
                   [c\<lparr>last_seen := now, failed_queries := 0\<rparr>]\<rparr>
      | None \<Rightarrow> b)"

definition KBucket_get_peers :: "KBucket \<Rightarrow> PeerInfo list" where
  "KBucket_get_peers b = map contact_peer (contacts b)"

definition KBucket_size :: "KBucket \<Rightarrow> nat" where
  "KBucket_size b = length (contacts b)"

definition KBucket_is_full :: "KBucket \<Rightarrow> bool" where
  "KBucket_is_full b \<longleftrightarrow> capacity b \<le> length (contacts b)"

definition KBucket_replacement_count :: "KBucket \<Rightarrow> nat" where
  "KBucket_replacement_count b = length (replacements b)"

definition KBucket_clear :: "KBucket \<Rightarrow> KBucket" where
  "KBucket_clear b = b\<lparr>contacts := [], replacements := []\<rparr>"

section \<open>Invariant\<close>

text \<open>
  The replacement cache is used only while the bucket is full, and no identifier occurs
  twice in the contacts and the cache together. \<open>0 < max_replacements\<close> makes
  \<^verbatim>\<open>replacements_.pop_front()\<close> safe: it then runs on a non-empty deque only.
\<close>

definition KBucket_wf :: "KBucket \<Rightarrow> bool" where
  "KBucket_wf b \<longleftrightarrow>
     0 < max_replacements b \<and>
     length (contacts b) \<le> capacity b \<and>
     length (replacements b) \<le> max_replacements b \<and>
     (replacements b \<noteq> [] \<longrightarrow> length (contacts b) = capacity b) \<and>
     distinct (map contact_id (contacts b @ replacements b))"

definition KBucket_known :: "KBucket \<Rightarrow> NodeID set" where
  "KBucket_known b = contact_id ` set (contacts b @ replacements b)"

lemmas KBucket_defs =
  KBucket_add_or_update_def KBucket_remove_def KBucket_find_def KBucket_mark_failed_def
  KBucket_touch_def KBucket_get_peers_def fresh_contact_def

lemma KBucket_wf_new: "0 < maxr \<Longrightarrow> KBucket_wf (KBucket_new cap maxr)"
  by (simp add: KBucket_wf_def KBucket_new_def)

text \<open>Moving an entry to the tail, as both \<^verbatim>\<open>add_or_update\<close> and \<^verbatim>\<open>touch\<close> do.\<close>

lemma move_to_tail:
  assumes "distinct (map contact_id cs)"
    and "List.find (\<lambda>c. contact_id c = nid) cs = Some c" and "contact_id c' = nid"
  defines "cs' \<equiv> erase_first (\<lambda>c. contact_id c = nid) cs @ [c']"
  shows "length cs' = length cs" "distinct (map contact_id cs')"
    "contact_id ` set cs' = contact_id ` set cs"
proof -
  have c: "c \<in> set cs" "contact_id c = nid" using find_key_in [OF assms(2)] by auto
  then have "0 < length cs" by auto
  with c show "length cs' = length cs" by (auto simp: cs'_def length_erase_first)
  show "distinct (map contact_id cs')"
    using assms(1,3) by (auto simp: cs'_def erase_first_key distinct_map inj_on_def)
  show "contact_id ` set cs' = contact_id ` set cs"
    using assms(1,3) find_key_mem [OF assms(2)] by (auto simp: cs'_def erase_first_key)
qed

lemma refresh_replacement_ids:
  "map contact_id (update_first (\<lambda>c. contact_id c = peer_node_id peer)
      (\<lambda>c. c\<lparr>contact_peer := peer, last_seen := now, failed_queries := 0\<rparr>) cs) = map contact_id cs"
  by (induction cs) auto

lemma KBucket_add_cases:
  assumes "KBucket_wf b"
  obtains (update) c where
      "List.find (\<lambda>c. contact_id c = peer_node_id peer) (contacts b) = Some c"
      "KBucket_add_or_update now peer b =
        (True, b\<lparr>contacts := erase_first (\<lambda>c. contact_id c = peer_node_id peer) (contacts b) @
          [fresh_contact now peer]\<rparr>)"
  | (insert) "peer_node_id peer \<notin> KBucket_known b" "length (contacts b) < capacity b"
      "replacements b = []"
      "KBucket_add_or_update now peer b =
        (True, b\<lparr>contacts := contacts b @ [fresh_contact now peer]\<rparr>)"
  | (refresh) "peer_node_id peer \<in> contact_id ` set (replacements b)"
      "peer_node_id peer \<notin> contact_id ` set (contacts b)" "length (contacts b) = capacity b"
      "KBucket_add_or_update now peer b =
        (False, b\<lparr>replacements := update_first (\<lambda>c. contact_id c = peer_node_id peer)
          (\<lambda>c. c\<lparr>contact_peer := peer, last_seen := now, failed_queries := 0\<rparr>) (replacements b)\<rparr>)"
  | (queue) "peer_node_id peer \<notin> KBucket_known b" "length (contacts b) = capacity b"
      "KBucket_add_or_update now peer b =
        (False, b\<lparr>replacements := (if max_replacements b \<le> length (replacements b)
          then tl (replacements b) else replacements b) @ [fresh_contact now peer]\<rparr>)"
proof (cases "List.find (\<lambda>c. contact_id c = peer_node_id peer) (contacts b)")
  case (Some c)
  moreover have "c\<lparr>contact_peer := peer, last_seen := now, failed_queries := 0\<rparr> = fresh_contact now peer"
    by (simp add: fresh_contact_def)
  ultimately show ?thesis
    by (intro update) (simp_all add: KBucket_add_or_update_def)
next
  case None
  then have nin: "peer_node_id peer \<notin> contact_id ` set (contacts b)" by (simp add: find_key_None)
  show ?thesis
  proof (cases "length (contacts b) < capacity b")
    case True
    with assms have "replacements b = []" by (auto simp: KBucket_wf_def)
    with True None nin show ?thesis
      by (intro insert) (simp_all add: KBucket_add_or_update_def KBucket_known_def)
  next
    case False
    with assms have full: "length (contacts b) = capacity b" by (simp add: KBucket_wf_def)
    show ?thesis
    proof (cases "List.find (\<lambda>c. contact_id c = peer_node_id peer) (replacements b)")
      case (Some c)
      with find_key_mem [OF Some] None nin full show ?thesis
        by (intro refresh) (auto simp: KBucket_add_or_update_def)
    next
      case None': None
      then have "peer_node_id peer \<notin> contact_id ` set (replacements b)"
        by (simp add: find_key_None)
      with None None' nin full show ?thesis
        by (intro queue) (auto simp: KBucket_add_or_update_def KBucket_known_def)
    qed
  qed
qed

lemma KBucket_wf_add:
  assumes "KBucket_wf b"
  shows "KBucket_wf (snd (KBucket_add_or_update now peer b))"
  using assms
proof (cases rule: KBucket_add_cases [where now = now and peer = peer])
  case (update c)
  with assms move_to_tail [of "contacts b" "peer_node_id peer" c "fresh_contact now peer"]
  show ?thesis by (auto simp: KBucket_wf_def fresh_contact_def)
next
  case insert
  with assms show ?thesis by (auto simp: KBucket_wf_def KBucket_known_def fresh_contact_def)
next
  case refresh
  with assms show ?thesis
    by (auto simp: KBucket_wf_def refresh_replacement_ids set_map [symmetric] simp del: set_map)
next
  case queue
  have "set (tl (replacements b)) \<subseteq> set (replacements b)"
      "distinct (map contact_id (replacements b)) \<Longrightarrow> distinct (map contact_id (tl (replacements b)))"
    by (cases "replacements b"; auto)+
  with assms queue show ?thesis
    by (auto simp: KBucket_wf_def KBucket_known_def fresh_contact_def)
qed

lemma KBucket_remove_cases:
  assumes "KBucket_wf b"
  obtains (absent) "nid \<notin> KBucket_known b" "KBucket_remove nid b = (False, b)"
  | (uncache) "nid \<in> contact_id ` set (replacements b)" "nid \<notin> contact_id ` set (contacts b)"
      "KBucket_remove nid b =
        (True, b\<lparr>replacements := filter (\<lambda>c. contact_id c \<noteq> nid) (replacements b)\<rparr>)"
  | (drop) "nid \<in> contact_id ` set (contacts b)" "replacements b = []"
      "KBucket_remove nid b =
        (True, b\<lparr>contacts := filter (\<lambda>c. contact_id c \<noteq> nid) (contacts b)\<rparr>)"
  | (promote) r rs where "nid \<in> contact_id ` set (contacts b)" "replacements b = r # rs"
      "KBucket_remove nid b =
        (True, b\<lparr>contacts := filter (\<lambda>c. contact_id c \<noteq> nid) (contacts b) @ [r], replacements := rs\<rparr>)"
proof -
  have d: "distinct (map contact_id (contacts b))" "distinct (map contact_id (replacements b))"
    using assms by (auto simp: KBucket_wf_def)
  note e = d [THEN erase_first_key [where k = contact_id and a = nid]]
  show ?thesis
  proof (cases "List.find (\<lambda>c. contact_id c = nid) (contacts b)")
    case None
    then have nin: "nid \<notin> contact_id ` set (contacts b)" by (simp add: find_key_None)
    show ?thesis
    proof (cases "List.find (\<lambda>c. contact_id c = nid) (replacements b)")
      case None': None
      then have "nid \<notin> contact_id ` set (replacements b)" by (simp add: find_key_None)
      with nin None None' show ?thesis
        by (intro absent) (auto simp: KBucket_remove_def KBucket_known_def)
    next
      case (Some c)
      with nin None e find_key_mem [OF Some] show ?thesis
        by (intro uncache) (simp_all add: KBucket_remove_def)
    qed
  next
    case (Some c)
    note mem = find_key_mem [OF Some]
    show ?thesis
    proof (cases "replacements b")
      case Nil
      with Some mem e show ?thesis by (intro drop) (simp_all add: KBucket_remove_def)
    next
      case (Cons r rs)
      with Some mem e show ?thesis by (intro promote [of r rs]) (simp_all add: KBucket_remove_def)
    qed
  qed
qed

lemma KBucket_wf_remove:
  assumes "KBucket_wf b"
  shows "KBucket_wf (snd (KBucket_remove nid b))"
  using assms
proof (cases rule: KBucket_remove_cases [where nid = nid])
  case (promote r rs)
  then show ?thesis
    using assms length_filter_key [of contact_id "contacts b" nid]
    by (auto simp: KBucket_wf_def distinct_map_filter)
next
  case drop
  then show ?thesis
    using assms length_filter_key [of contact_id "contacts b" nid]
    by (auto simp: KBucket_wf_def distinct_map_filter)
next
  case uncache
  then show ?thesis
    using assms by (auto simp: KBucket_wf_def distinct_map_filter le_trans [OF length_filter_le])
qed (use assms in simp)

lemma KBucket_wf_touch: "KBucket_wf b \<Longrightarrow> KBucket_wf (KBucket_touch now nid b)"
proof (cases "List.find (\<lambda>c. contact_id c = nid) (contacts b)")
  case (Some c)
  then have "contact_id (c\<lparr>last_seen := now, failed_queries := 0\<rparr>) = nid"
    using find_key_in [OF Some] by simp
  moreover assume "KBucket_wf b"
  ultimately show ?thesis
    using Some move_to_tail [of "contacts b" nid c "c\<lparr>last_seen := now, failed_queries := 0\<rparr>"]
    by (auto simp: KBucket_wf_def KBucket_touch_def)
qed (simp add: KBucket_touch_def)

lemma mark_failed_ids:
  "map contact_peer (contacts (KBucket_mark_failed nid b)) = map contact_peer (contacts b)"
  by (simp add: KBucket_mark_failed_def map_update_first)

lemma mark_failed_contact_ids:
  "map contact_id (contacts (KBucket_mark_failed nid b)) = map contact_id (contacts b)"
  by (simp add: KBucket_mark_failed_def map_update_first)

lemma KBucket_wf_mark_failed: "KBucket_wf b \<Longrightarrow> KBucket_wf (KBucket_mark_failed nid b)"
  using mark_failed_contact_ids [of nid b]
  by (auto simp: KBucket_wf_def KBucket_mark_failed_def set_map [symmetric] simp del: set_map)

lemma KBucket_wf_clear: "KBucket_wf b \<Longrightarrow> KBucket_wf (KBucket_clear b)"
  by (simp add: KBucket_wf_def KBucket_clear_def)

section \<open>The contract of a bucket\<close>

text \<open>
  What the routing table relies on: the operations of a bucket, an invariant, the
  identifiers it knows of (contacts and cached candidates), and how each operation changes
  what \<open>find\<close> returns. The lemmas inside are about a list of such buckets in which every
  identifier has its place.
\<close>

locale contact_bucket =
  fixes invar :: "'b \<Rightarrow> bool"
    and known :: "'b \<Rightarrow> NodeID set"
    and peers :: "'b \<Rightarrow> PeerInfo list"
    and find :: "NodeID \<Rightarrow> 'b \<Rightarrow> PeerInfo option"
    and add :: "time_point \<Rightarrow> PeerInfo \<Rightarrow> 'b \<Rightarrow> bool \<times> 'b"
    and remove :: "NodeID \<Rightarrow> 'b \<Rightarrow> bool \<times> 'b"
    and touch :: "time_point \<Rightarrow> NodeID \<Rightarrow> 'b \<Rightarrow> 'b"
    and mark_failed :: "NodeID \<Rightarrow> 'b \<Rightarrow> 'b"
  assumes find_iff: "invar b \<Longrightarrow> find nid b = Some p \<longleftrightarrow> p \<in> set (peers b) \<and> peer_node_id p = nid"
    and distinct_peers: "invar b \<Longrightarrow> distinct (map peer_node_id (peers b))"
    and peers_known: "p \<in> set (peers b) \<Longrightarrow> peer_node_id p \<in> known b"
    and invar_add: "invar b \<Longrightarrow> invar (snd (add t p b))"
    and known_add: "invar b \<Longrightarrow> known (snd (add t p b)) \<subseteq> insert (peer_node_id p) (known b)"
    and find_add_accepted: "invar b \<Longrightarrow> fst (add t p b) \<Longrightarrow> find (peer_node_id p) (snd (add t p b)) = Some p"
    and find_add_other: "invar b \<Longrightarrow> nid \<noteq> peer_node_id p \<Longrightarrow> find nid (snd (add t p b)) = find nid b"
    and peers_add_refused: "invar b \<Longrightarrow> \<not> fst (add t p b) \<Longrightarrow> peers (snd (add t p b)) = peers b"
    and invar_remove: "invar b \<Longrightarrow> invar (snd (remove nid b))"
    and known_remove: "invar b \<Longrightarrow> known (snd (remove nid b)) = known b - {nid}"
    and invar_touch: "invar b \<Longrightarrow> invar (touch t nid b)"
    and known_touch: "invar b \<Longrightarrow> known (touch t nid b) = known b"
    and find_touch: "invar b \<Longrightarrow> find nid' (touch t nid b) = find nid' b"
    and invar_mark_failed: "invar b \<Longrightarrow> invar (mark_failed nid b)"
    and known_mark_failed: "invar b \<Longrightarrow> known (mark_failed nid b) = known b"
    and peers_mark_failed: "peers (mark_failed nid b) = peers b"
begin

lemma find_None_unknown: "invar b \<Longrightarrow> nid \<notin> known b \<Longrightarrow> find nid b = None"
  by (metis find_iff not_Some_eq peers_known)

lemma find_remove: "invar b \<Longrightarrow> find nid (snd (remove nid b)) = None"
  by (rule find_None_unknown) (simp_all add: invar_remove known_remove)

text \<open>A table of \<open>n\<close> buckets in which an identifier can only live in bucket \<open>place nid\<close>.\<close>

definition table_ok :: "(NodeID \<Rightarrow> nat) \<Rightarrow> nat \<Rightarrow> 'b list \<Rightarrow> bool" where
  "table_ok place n bs \<longleftrightarrow> length bs = n \<and>
     (\<forall>i < n. invar (bs ! i) \<and> (\<forall>nid \<in> known (bs ! i). place nid = i))"

lemma table_ok_update:
  assumes "table_ok place n bs" "i < n" "invar b'"
    and "\<And>nid. nid \<in> known b' \<Longrightarrow> nid \<notin> known (bs ! i) \<Longrightarrow> place nid = i"
  shows "table_ok place n (bs[i := b'])"
  using assms unfolding table_ok_def by (auto simp: nth_list_update)

lemma table_ok_add:
  "table_ok place n bs \<Longrightarrow> i < n \<Longrightarrow> place (peer_node_id p) = i \<Longrightarrow>
   table_ok place n (bs[i := snd (add t p (bs ! i))])"
  using known_add invar_add by (intro table_ok_update) (fastforce simp: table_ok_def)+

lemma table_ok_remove:
  "table_ok place n bs \<Longrightarrow> i < n \<Longrightarrow> table_ok place n (bs[i := snd (remove nid (bs ! i))])"
  using known_remove invar_remove by (intro table_ok_update) (auto simp: table_ok_def)

lemma table_ok_touch:
  "table_ok place n bs \<Longrightarrow> i < n \<Longrightarrow> table_ok place n (bs[i := touch t nid (bs ! i)])"
  using known_touch invar_touch by (intro table_ok_update) (auto simp: table_ok_def)

lemma table_ok_mark_failed:
  "table_ok place n bs \<Longrightarrow> i < n \<Longrightarrow> table_ok place n (bs[i := mark_failed nid (bs ! i)])"
  using known_mark_failed invar_mark_failed by (intro table_ok_update) (auto simp: table_ok_def)

lemma table_bucketE:
  assumes "table_ok place n bs" "p \<in> set (concat (map peers bs))"
  obtains "place (peer_node_id p) < n" "p \<in> set (peers (bs ! place (peer_node_id p)))"
proof -
  from assms obtain i where i: "i < n" "p \<in> set (peers (bs ! i))"
    by (auto simp: table_ok_def in_set_conv_nth [of _ bs])
  with assms(1) peers_known [OF i(2)] have "place (peer_node_id p) = i"
    by (auto simp: table_ok_def)
  with i that show thesis by simp
qed

text \<open>Looking an identifier up in its own bucket finds it wherever it is in the table.\<close>

lemma table_find:
  assumes "table_ok place n bs"
  shows "p \<in> set (concat (map peers bs)) \<and> peer_node_id p = nid \<longleftrightarrow>
    place nid < n \<and> find nid (bs ! place nid) = Some p"
proof
  assume p: "p \<in> set (concat (map peers bs)) \<and> peer_node_id p = nid"
  with assms table_bucketE [of place n bs p]
  show "place nid < n \<and> find nid (bs ! place nid) = Some p"
    by (metis find_iff table_ok_def)
next
  assume p: "place nid < n \<and> find nid (bs ! place nid) = Some p"
  with assms have "bs ! place nid \<in> set bs" "p \<in> set (peers (bs ! place nid))" "peer_node_id p = nid"
    by (auto simp: table_ok_def find_iff)
  then show "p \<in> set (concat (map peers bs)) \<and> peer_node_id p = nid" by auto
qed

lemma table_peers_distinct:
  assumes "table_ok place n bs"
  shows "distinct (map peer_node_id (concat (map peers bs)))"
  unfolding map_concat map_map comp_def
  by (rule distinct_concat_placed [where place = place])
    (use assms peers_known in \<open>auto simp: table_ok_def distinct_peers\<close>)

end

section \<open>The k-bucket keeps the contract\<close>

lemma KBucket_find_iff:
  assumes "KBucket_wf b"
  shows "KBucket_find nid b = Some p \<longleftrightarrow> p \<in> set (KBucket_get_peers b) \<and> peer_node_id p = nid"
proof -
  have d: "distinct (map contact_id (contacts b))" using assms by (simp add: KBucket_wf_def)
  have "KBucket_find nid b = Some p \<longleftrightarrow>
      (\<exists>c. List.find (\<lambda>c. contact_id c = nid) (contacts b) = Some c \<and> contact_peer c = p)"
    by (auto simp: KBucket_find_def split: option.splits)
  also have "\<dots> \<longleftrightarrow> (\<exists>c \<in> set (contacts b). contact_peer c = p \<and> contact_id c = nid)"
    using find_key_distinct [OF d] find_key_in [of contact_id nid "contacts b"] by metis
  finally show ?thesis by (auto simp: KBucket_get_peers_def)
qed

lemma KBucket_find_fresh:
  "KBucket_find nid (b\<lparr>contacts := cs @ [fresh_contact now peer]\<rparr>) =
    (case List.find (\<lambda>c. contact_id c = nid) cs of
       Some c \<Rightarrow> Some (contact_peer c)
     | None \<Rightarrow> if peer_node_id peer = nid then Some peer else None)"
  by (auto simp: KBucket_find_def find_append fresh_contact_def split: option.splits)

lemma KBucket_find_add:
  assumes "KBucket_wf b"
  shows "KBucket_find nid (snd (KBucket_add_or_update now peer b)) =
    (if fst (KBucket_add_or_update now peer b) \<and> nid = peer_node_id peer then Some peer
     else KBucket_find nid b)"
  using assms
proof (cases rule: KBucket_add_cases [where now = now and peer = peer])
  case (update c)
  moreover have "distinct (map contact_id (contacts b))" using assms by (simp add: KBucket_wf_def)
  ultimately show ?thesis
    by (auto simp: KBucket_find_fresh find_erase_first_same find_erase_first_other)
      (auto simp: KBucket_find_def split: option.splits)
next
  case insert
  then have "List.find (\<lambda>c. contact_id c = peer_node_id peer) (contacts b) = None"
    by (auto simp: KBucket_known_def find_key_None)
  with insert show ?thesis
    by (auto simp: KBucket_find_fresh) (auto simp: KBucket_find_def split: option.splits)
qed (simp_all add: KBucket_find_def)

lemma KBucket_add_or_update_accepts:
  assumes "KBucket_wf b"
  shows "fst (KBucket_add_or_update now peer b) \<longleftrightarrow>
    KBucket_find (peer_node_id peer) b \<noteq> None \<or> \<not> KBucket_is_full b"
  by (auto simp: KBucket_add_or_update_def KBucket_find_def KBucket_is_full_def Let_def
      split: option.splits)

lemma KBucket_known_add:
  assumes "KBucket_wf b"
  shows "KBucket_known (snd (KBucket_add_or_update now peer b)) \<subseteq> insert (peer_node_id peer) (KBucket_known b)"
  using assms
proof (cases rule: KBucket_add_cases [where now = now and peer = peer])
  case (update c)
  then show ?thesis
    using set_erase_first_subset by (fastforce simp: KBucket_known_def fresh_contact_def)
next
  case refresh
  then show ?thesis
    by (auto simp: KBucket_known_def image_Un refresh_replacement_ids set_map [symmetric] simp del: set_map)
next
  case queue
  then show ?thesis
    by (cases "replacements b") (auto simp: KBucket_known_def fresh_contact_def split: if_splits)
qed (auto simp: KBucket_known_def fresh_contact_def)

lemma KBucket_known_remove:
  assumes "KBucket_wf b"
  shows "KBucket_known (snd (KBucket_remove nid b)) = KBucket_known b - {nid}"
proof -
  have disj: "contact_id ` set (contacts b) \<inter> contact_id ` set (replacements b) = {}"
    using assms by (simp add: KBucket_wf_def)
  have dr: "distinct (map contact_id (replacements b))" using assms by (simp add: KBucket_wf_def)
  from assms show ?thesis
    by (cases rule: KBucket_remove_cases [where nid = nid])
      (use disj dr in \<open>simp_all add: KBucket_known_def image_Un image_filter_key\<close>, blast+)
qed

lemma KBucket_touch_peers:
  assumes "KBucket_wf b"
  shows "KBucket_known (KBucket_touch now nid b) = KBucket_known b"
    and "KBucket_find nid' (KBucket_touch now nid b) = KBucket_find nid' b"
proof -
  have d: "distinct (map contact_id (contacts b))" using assms by (simp add: KBucket_wf_def)
  show "KBucket_known (KBucket_touch now nid b) = KBucket_known b"
  proof (cases "List.find (\<lambda>c. contact_id c = nid) (contacts b)")
    case (Some c)
    then show ?thesis
      using move_to_tail(3) [OF d Some, of "c\<lparr>last_seen := now, failed_queries := 0\<rparr>"] find_key_in [OF Some]
      by (auto simp: KBucket_known_def KBucket_touch_def image_Un)
  qed (simp add: KBucket_touch_def)
  show "KBucket_find nid' (KBucket_touch now nid b) = KBucket_find nid' b"
  proof (cases "List.find (\<lambda>c. contact_id c = nid) (contacts b)")
    case (Some c)
    then show ?thesis
      using find_key_in [OF Some] d
      by (cases "nid' = nid")
        (auto simp: KBucket_find_def KBucket_touch_def find_append find_erase_first_same
          find_erase_first_other split: option.splits)
  qed (simp add: KBucket_touch_def)
qed

interpretation kb: contact_bucket KBucket_wf KBucket_known KBucket_get_peers KBucket_find
  KBucket_add_or_update KBucket_remove KBucket_touch KBucket_mark_failed
proof
  fix b t p nid nid'
  show "p \<in> set (KBucket_get_peers b) \<Longrightarrow> peer_node_id p \<in> KBucket_known b"
    by (auto simp: KBucket_get_peers_def KBucket_known_def)
  show "KBucket_get_peers (KBucket_mark_failed nid b) = KBucket_get_peers b"
    by (simp add: KBucket_get_peers_def mark_failed_ids)
  assume wf: "KBucket_wf b"
  show "(KBucket_find nid b = Some p) = (p \<in> set (KBucket_get_peers b) \<and> peer_node_id p = nid)"
    using wf by (rule KBucket_find_iff)
  show "distinct (map peer_node_id (KBucket_get_peers b))"
    using wf by (simp add: KBucket_wf_def KBucket_get_peers_def comp_def)
  show "KBucket_known (KBucket_mark_failed nid b) = KBucket_known b"
    using mark_failed_contact_ids [of nid b]
    by (simp add: KBucket_known_def image_Un set_map [symmetric] del: set_map)
      (simp add: KBucket_mark_failed_def)
  show "\<not> fst (KBucket_add_or_update t p b) \<Longrightarrow>
      KBucket_get_peers (snd (KBucket_add_or_update t p b)) = KBucket_get_peers b"
    using wf by (cases rule: KBucket_add_cases [where now = t and peer = p])
      (simp_all add: KBucket_get_peers_def)
qed (simp_all add: KBucket_wf_add KBucket_wf_remove KBucket_wf_touch KBucket_wf_mark_failed
    KBucket_known_add KBucket_known_remove KBucket_touch_peers KBucket_find_add)

section \<open>Reachable buckets\<close>

text \<open>Every public operation of the class as a step; \<open>now\<close> is the clock the operation reads.\<close>

inductive KBucket_step :: "KBucket \<Rightarrow> KBucket \<Rightarrow> bool" where
  step_add: "KBucket_step b (snd (KBucket_add_or_update now peer b))"
| step_remove: "KBucket_step b (snd (KBucket_remove nid b))"
| step_mark_failed: "KBucket_step b (KBucket_mark_failed nid b)"
| step_touch: "KBucket_step b (KBucket_touch now nid b)"
| step_clear: "KBucket_step b (KBucket_clear b)"

inductive_cases KBucket_stepE: "KBucket_step b b'"

lemma KBucket_step_wf: "KBucket_step b b' \<Longrightarrow> KBucket_wf b \<Longrightarrow> KBucket_wf b'"
  by (erule KBucket_stepE)
    (simp_all add: KBucket_wf_add KBucket_wf_remove KBucket_wf_mark_failed KBucket_wf_touch KBucket_wf_clear)

lemma KBucket_step_limits:
  "KBucket_step b b' \<Longrightarrow> capacity b' = capacity b \<and> max_replacements b' = max_replacements b"
  by (erule KBucket_stepE)
    (auto simp: KBucket_add_or_update_def KBucket_remove_def KBucket_mark_failed_def KBucket_touch_def
      KBucket_clear_def Let_def split: option.splits list.splits)

inductive KBucket_reachable :: "nat \<Rightarrow> nat \<Rightarrow> KBucket \<Rightarrow> bool" for cap maxr where
  reach_new: "KBucket_reachable cap maxr (KBucket_new cap maxr)"
| reach_step: "KBucket_reachable cap maxr b \<Longrightarrow> KBucket_step b b' \<Longrightarrow> KBucket_reachable cap maxr b'"

lemma KBucket_reachable_wf:
  "KBucket_reachable cap maxr b \<Longrightarrow> 0 < maxr \<Longrightarrow>
    KBucket_wf b \<and> capacity b = cap \<and> max_replacements b = maxr"
proof (induction rule: KBucket_reachable.induct)
  case reach_new
  then show ?case by (simp add: KBucket_wf_new) (simp add: KBucket_new_def)
next
  case (reach_step b b')
  then show ?case using KBucket_step_wf KBucket_step_limits by metis
qed

text \<open>
  Whatever sequence of operations a bucket has gone through, it holds at most
  \<open>capacity\<close> contacts and at most \<open>max_replacements\<close> cached candidates, no identifier
  occurs twice in the contacts and the cache together, and candidates are cached only
  while the bucket is full.
\<close>

theorem KBucket_reachable_invariant:
  assumes "KBucket_reachable cap maxr b" and "0 < maxr"
  shows "length (contacts b) \<le> cap \<and> length (replacements b) \<le> maxr \<and>
    distinct (map contact_id (contacts b @ replacements b)) \<and>
    (replacements b \<noteq> [] \<longrightarrow> length (contacts b) = cap)"
  using KBucket_reachable_wf [OF assms] by (auto simp: KBucket_wf_def)

definition test_peer :: "u8 \<Rightarrow> PeerInfo" where
  "test_peer n = \<lparr>peer_node_id = barray_of [n], peer_address = \<lparr>host = ''10.0.0.1'', port = 9000\<rparr>\<rparr>"

definition test_bucket :: KBucket where
  "test_bucket = snd (KBucket_add_or_update 2 (test_peer 2) (snd (KBucket_add_or_update 1 (test_peer 1)
     (KBucket_new 1 8))))"

lemma test_bucket_reachable: "KBucket_reachable 1 8 test_bucket"
  unfolding test_bucket_def by (rule reach_step [OF reach_step [OF reach_new step_add] step_add])

theorem KBucket_reachable_invariant_witness:
  "KBucket_reachable 1 8 test_bucket \<and> replacements test_bucket \<noteq> [] \<and>
   length (contacts test_bucket) = 1"
proof -
  have "replacements test_bucket \<noteq> []" by code_simp
  with KBucket_reachable_invariant [OF test_bucket_reachable] test_bucket_reachable
  show ?thesis by simp
qed

text \<open>
  \<^verbatim>\<open>add_or_update\<close> on every branch: a peer that is already a contact, or for which
  there is room, becomes the most recently seen contact with a clean failure count, the
  other contacts keep their order and the call reports success; otherwise the contacts stay
  as they are, the peer is among the cached candidates and the call reports failure.
\<close>

theorem KBucket_add_or_update_spec:
  assumes "KBucket_wf b"
  shows "if peer_node_id peer \<in> contact_id ` set (contacts b) \<or> length (contacts b) < capacity b
    then KBucket_add_or_update now peer b =
      (True, b\<lparr>contacts := filter (\<lambda>c. contact_id c \<noteq> peer_node_id peer) (contacts b) @ [fresh_contact now peer]\<rparr>)
    else \<not> fst (KBucket_add_or_update now peer b) \<and>
      contacts (snd (KBucket_add_or_update now peer b)) = contacts b \<and>
      fresh_contact now peer \<in> set (replacements (snd (KBucket_add_or_update now peer b)))"
proof -
  have d: "distinct (map contact_id (contacts b))" using assms by (simp add: KBucket_wf_def)
  from assms show ?thesis
  proof (cases rule: KBucket_add_cases [where now = now and peer = peer])
    case (update c)
    with find_key_mem [OF update(1)] d show ?thesis by (simp add: erase_first_key)
  next
    case insert
    then have "peer_node_id peer \<notin> contact_id ` set (contacts b)"
      by (simp add: KBucket_known_def image_Un)
    then have "filter (\<lambda>c. contact_id c \<noteq> peer_node_id peer) (contacts b) = contacts b"
      by (rule filter_key_absent)
    with insert show ?thesis by simp
  next
    case refresh
    have "fresh_contact now peer \<in> set (update_first (\<lambda>c. contact_id c = peer_node_id peer)
        (\<lambda>c. c\<lparr>contact_peer := peer, last_seen := now, failed_queries := 0\<rparr>) cs)"
      if "peer_node_id peer \<in> contact_id ` set cs" for cs
      using that by (induction cs) (auto simp: fresh_contact_def)
    with refresh show ?thesis by auto
  qed (auto simp: KBucket_known_def)
qed

theorem KBucket_add_or_update_spec_witness:
  "KBucket_wf test_bucket \<and>
   \<not> fst (KBucket_add_or_update 3 (test_peer 3) test_bucket) \<and>
   fresh_contact 3 (test_peer 3) \<in> set (replacements (snd (KBucket_add_or_update 3 (test_peer 3) test_bucket)))"
proof -
  have wf: "KBucket_wf test_bucket" using KBucket_reachable_wf [OF test_bucket_reachable] by simp
  have "\<not> (peer_node_id (test_peer 3) \<in> contact_id ` set (contacts test_bucket) \<or>
      length (contacts test_bucket) < capacity test_bucket)" by code_simp
  with KBucket_add_or_update_spec [OF wf, of "test_peer 3" 3] wf show ?thesis by (auto split: if_splits)
qed

text \<open>
  \<^verbatim>\<open>remove\<close>: afterwards the bucket knows exactly the other identifiers; removing a
  contact while a candidate is cached keeps the bucket full and makes the oldest candidate
  the contact at the tail.
\<close>

theorem KBucket_remove_spec:
  assumes "KBucket_wf b"
  shows "KBucket_known (snd (KBucket_remove nid b)) = KBucket_known b - {nid} \<and>
    (fst (KBucket_remove nid b) \<longleftrightarrow> nid \<in> KBucket_known b) \<and>
    (\<forall>r rs. nid \<in> contact_id ` set (contacts b) \<and> replacements b = r # rs \<longrightarrow>
       contacts (snd (KBucket_remove nid b)) = filter (\<lambda>c. contact_id c \<noteq> nid) (contacts b) @ [r] \<and>
       replacements (snd (KBucket_remove nid b)) = rs \<and>
       KBucket_is_full (snd (KBucket_remove nid b)))"
proof -
  have full: "replacements b \<noteq> [] \<Longrightarrow> length (contacts b) = capacity b"
    using assms by (auto simp: KBucket_wf_def)
  have len: "nid \<in> contact_id ` set (contacts b) \<Longrightarrow>
      Suc (length (filter (\<lambda>c. contact_id c \<noteq> nid) (contacts b))) = length (contacts b)"
    using assms by (intro length_filter_key) (simp_all add: KBucket_wf_def)
  note known = KBucket_known_remove [OF assms, of nid]
  from assms show ?thesis
    by (cases rule: KBucket_remove_cases [where nid = nid])
      (use full len known in \<open>simp_all add: KBucket_known_def KBucket_is_full_def image_Un\<close>)
qed

theorem KBucket_remove_spec_witness:
  "KBucket_wf test_bucket \<and> fst (KBucket_remove (barray_of [1]) test_bucket) \<and>
   KBucket_is_full (snd (KBucket_remove (barray_of [1]) test_bucket))"
proof -
  have wf: "KBucket_wf test_bucket" using KBucket_reachable_wf [OF test_bucket_reachable] by simp
  have mem: "barray_of [1] \<in> contact_id ` set (contacts test_bucket)" by code_simp
  have "replacements test_bucket \<noteq> []" by code_simp
  then obtain r rs where "replacements test_bucket = r # rs" by (cases "replacements test_bucket") auto
  with KBucket_remove_spec [OF wf, of "barray_of [1]"] mem wf show ?thesis
    by (auto simp: KBucket_known_def)
qed

section \<open>Least-recently-seen order\<close>

text \<open>The order the header promises: contacts sorted by the time they were last seen, none in the future.\<close>

definition lru_ordered :: "time_point \<Rightarrow> KBucket \<Rightarrow> bool" where
  "lru_ordered now b \<longleftrightarrow>
     sorted (map last_seen (contacts b)) \<and> (\<forall>c \<in> set (contacts b). last_seen c \<le> now)"

lemma lru_ordered_times:
  "lru_ordered now b \<longleftrightarrow> sorted (map last_seen (contacts b)) \<and>
    list_all (\<lambda>t. t \<le> now) (map last_seen (contacts b))"
  by (simp add: lru_ordered_def list_all_iff)

lemma sorted_erase_first: "sorted (map k xs) \<Longrightarrow> sorted (map k (erase_first P xs))"
  by (induction xs) (use set_erase_first_subset in fastforce)+

lemma lru_move_to_tail:
  assumes "lru_ordered t b" "t \<le> now" "last_seen c = now"
  shows "lru_ordered now (b\<lparr>contacts := erase_first P (contacts b) @ [c]\<rparr>)"
  using assms set_erase_first_subset [of P "contacts b"]
  by (fastforce simp: lru_ordered_def sorted_append sorted_erase_first)

text \<open>
  As long as the clock does not run backwards, \<^verbatim>\<open>add_or_update\<close>, \<^verbatim>\<open>touch\<close>,
  \<^verbatim>\<open>mark_failed\<close> and a \<^verbatim>\<open>remove\<close> that promotes no candidate keep the contacts ordered
  from least to most recently seen, so the head is the least recently seen contact.
\<close>

theorem KBucket_keeps_lru_order:
  assumes "lru_ordered t b" and "t \<le> now"
  shows "lru_ordered now (snd (KBucket_add_or_update now peer b)) \<and>
    lru_ordered now (KBucket_touch now nid b) \<and>
    lru_ordered now (KBucket_mark_failed nid b) \<and>
    (replacements b = [] \<longrightarrow> lru_ordered now (snd (KBucket_remove nid b)))"
proof (intro conjI impI)
  have later: "lru_ordered now b"
    using assms by (auto simp: lru_ordered_def)
  then have same_contacts: "contacts b' = contacts b \<Longrightarrow> lru_ordered now b'" for b'
    by (simp add: lru_ordered_def)
  have push: "lru_ordered now (b\<lparr>contacts := contacts b @ [c]\<rparr>)" if "last_seen c = now" for c
    using later that by (auto simp: lru_ordered_def sorted_append)
  show "lru_ordered now (snd (KBucket_add_or_update now peer b))"
    by (auto simp: KBucket_add_or_update_def Let_def fresh_contact_def split: option.splits
        intro: lru_move_to_tail [OF assms] push same_contacts)
  show "lru_ordered now (KBucket_touch now nid b)"
    using later by (auto simp: KBucket_touch_def Let_def split: option.splits intro: lru_move_to_tail [OF assms])
  have "map last_seen (contacts (KBucket_mark_failed nid b)) = map last_seen (contacts b)"
    by (simp add: KBucket_mark_failed_def map_update_first)
  with later show "lru_ordered now (KBucket_mark_failed nid b)"
    by (simp only: lru_ordered_times)
  assume "replacements b = []"
  with later set_erase_first_subset [of _ "contacts b"]
  show "lru_ordered now (snd (KBucket_remove nid b))"
    by (fastforce simp: KBucket_remove_def Let_def lru_ordered_def sorted_erase_first split: option.splits)
qed

theorem KBucket_keeps_lru_order_witness:
  "lru_ordered 2 test_bucket \<and> lru_ordered 5 (KBucket_touch 5 (barray_of [1]) test_bucket)"
proof -
  have "lru_ordered 2 test_bucket" by code_simp
  with KBucket_keeps_lru_order [of 2 test_bucket 5] show ?thesis by simp
qed

definition promotion_run :: KBucket where
  "promotion_run =
     (let b1 = snd (KBucket_add_or_update 1 (test_peer 1) (KBucket_new 2 8));
          b2 = snd (KBucket_add_or_update 2 (test_peer 2) b1);
          b3 = snd (KBucket_add_or_update 3 (test_peer 3) b2);
          b4 = KBucket_touch 4 (barray_of [1]) b3
      in snd (KBucket_remove (barray_of [2]) b4))"

text \<open>
  Promotion breaks that order. With a strictly increasing clock, two peers fill a
  bucket, a third is cached, the first is touched and the second removed: the promoted
  candidate is then at the tail although it was seen before the contact in front of it, so
  the tail is not the most recently seen contact and \<^verbatim>\<open>least_recently_seen\<close> names a
  contact that was seen after another one.
\<close>

theorem KBucket_promotion_breaks_lru_order:
  "KBucket_reachable 2 8 promotion_run \<and>
   map last_seen (contacts promotion_run) = [4, 3] \<and>
   KBucket_least_recently_seen promotion_run = Some (test_peer 1) \<and>
   \<not> lru_ordered 4 promotion_run"
proof (intro conjI)
  show "KBucket_reachable 2 8 promotion_run"
    unfolding promotion_run_def Let_def
    by (rule reach_step [OF reach_step [OF reach_step [OF reach_step [OF reach_step [OF
          reach_new step_add] step_add] step_add] step_touch] step_remove])
qed code_simp+

end
