(* ===== verification/Routing_Table.thy ===== *)
theory Routing_Table
  imports K_Bucket
begin

text \<open>
  Model of \<^verbatim>\<open>src/dht/routing_table.hpp\<close> and \<^verbatim>\<open>routing_table.cpp\<close>: 256 k-buckets indexed by the
  most significant bit of the XOR distance to the local identifier. The mutex makes every
  operation atomic, so an operation is a function on the table. \<^verbatim>\<open>std::sort\<close> is modelled by
  \<open>sort_key\<close>; \<open>closest_unique\<close> shows that any other sorting of the same contacts gives the
  same list, because the distances of different identifiers differ. The bucket operations
  are used through the contract \<open>kb\<close> (locale \<open>contact_bucket\<close>). \<^verbatim>\<open>RoutingTable::clear\<close> is
  declared in the header but has no definition in the sources, so it has none here.
\<close>

definition NUM_BUCKETS :: nat where
  "NUM_BUCKETS = 256"

record RoutingTable =
  local_id :: NodeID
  k_param :: nat
  buckets :: "KBucket list"

section \<open>Operations\<close>

definition RoutingTable_new :: "NodeID \<Rightarrow> nat \<Rightarrow> RoutingTable" where
  "RoutingTable_new lid k = \<lparr>local_id = lid, k_param = k, buckets = replicate NUM_BUCKETS (KBucket_new k 8)\<rparr>"

definition RoutingTable_get_bucket_index :: "RoutingTable \<Rightarrow> NodeID \<Rightarrow> int" where
  "RoutingTable_get_bucket_index rt nid = bucket_index (local_id rt) nid"

definition index_out_of_range :: "int \<Rightarrow> bool" where
  "index_out_of_range idx \<longleftrightarrow> idx < 0 \<or> int NUM_BUCKETS \<le> idx"

definition RoutingTable_add_or_update :: "time_point \<Rightarrow> PeerInfo \<Rightarrow> RoutingTable \<Rightarrow> bool \<times> RoutingTable" where
  "RoutingTable_add_or_update now peer rt =
     (if peer_node_id peer = local_id rt then (False, rt)
      else
        let idx = RoutingTable_get_bucket_index rt (peer_node_id peer) in
        if index_out_of_range idx then (False, rt)
        else
          let (ok, b) = KBucket_add_or_update now peer (buckets rt ! nat idx)
          in (ok, rt\<lparr>buckets := (buckets rt)[nat idx := b]\<rparr>))"

definition RoutingTable_remove :: "NodeID \<Rightarrow> RoutingTable \<Rightarrow> bool \<times> RoutingTable" where
  "RoutingTable_remove nid rt =
     (if nid = local_id rt then (False, rt)
      else
        let idx = RoutingTable_get_bucket_index rt nid in
        if index_out_of_range idx then (False, rt)
        else
          let (ok, b) = KBucket_remove nid (buckets rt ! nat idx)
          in (ok, rt\<lparr>buckets := (buckets rt)[nat idx := b]\<rparr>))"

definition RoutingTable_find :: "NodeID \<Rightarrow> RoutingTable \<Rightarrow> PeerInfo option" where
  "RoutingTable_find nid rt =
     (if nid = local_id rt then None
      else
        let idx = RoutingTable_get_bucket_index rt nid in
        if index_out_of_range idx then None
        else KBucket_find nid (buckets rt ! nat idx))"

text \<open>The gathering loop of \<^verbatim>\<open>find_closest\<close>; empty buckets are skipped.\<close>

fun gather_contacts :: "KBucket list \<Rightarrow> PeerInfo list" where
  "gather_contacts [] = []"
| "gather_contacts (b # bs) =
     (if KBucket_size b = 0 then gather_contacts bs else KBucket_get_peers b @ gather_contacts bs)"

definition RoutingTable_find_closest :: "NodeID \<Rightarrow> nat \<Rightarrow> RoutingTable \<Rightarrow> PeerInfo list" where
  "RoutingTable_find_closest target cnt rt =
     (let all_contacts = sort_key (\<lambda>p. xor_distance (peer_node_id p) target) (gather_contacts (buckets rt))
      in if cnt < length all_contacts then take cnt all_contacts else all_contacts)"

definition RoutingTable_total_contacts :: "RoutingTable \<Rightarrow> nat" where
  "RoutingTable_total_contacts rt = foldl (\<lambda>total b. total + KBucket_size b) 0 (buckets rt)"

definition RoutingTable_bucket_distribution :: "RoutingTable \<Rightarrow> nat list" where
  "RoutingTable_bucket_distribution rt = map KBucket_size (buckets rt)"

definition RoutingTable_least_recently_seen_in_bucket :: "NodeID \<Rightarrow> RoutingTable \<Rightarrow> PeerInfo option" where
  "RoutingTable_least_recently_seen_in_bucket nid rt =
     (let idx = RoutingTable_get_bucket_index rt nid in
      if index_out_of_range idx then None
      else KBucket_least_recently_seen (buckets rt ! nat idx))"

definition RoutingTable_mark_failed :: "NodeID \<Rightarrow> RoutingTable \<Rightarrow> RoutingTable" where
  "RoutingTable_mark_failed nid rt =
     (let idx = RoutingTable_get_bucket_index rt nid in
      if index_out_of_range idx then rt
      else rt\<lparr>buckets := (buckets rt)[nat idx := KBucket_mark_failed nid (buckets rt ! nat idx)]\<rparr>)"

definition RoutingTable_touch :: "time_point \<Rightarrow> NodeID \<Rightarrow> RoutingTable \<Rightarrow> RoutingTable" where
  "RoutingTable_touch now nid rt =
     (let idx = RoutingTable_get_bucket_index rt nid in
      if index_out_of_range idx then rt
      else rt\<lparr>buckets := (buckets rt)[nat idx := KBucket_touch now nid (buckets rt ! nat idx)]\<rparr>)"

section \<open>Invariant\<close>

text \<open>Where an identifier belongs; the local identifier belongs nowhere.\<close>

definition rt_place :: "NodeID \<Rightarrow> NodeID \<Rightarrow> nat" where
  "rt_place lid nid = (if nid = lid then NUM_BUCKETS else nat (bucket_index lid nid))"

text \<open>
  The invariant: 256 well-formed buckets of capacity \<open>k\<close>, and every identifier a bucket
  knows of (as a contact or as a cached candidate) belongs to that bucket.
\<close>

definition RoutingTable_wf :: "RoutingTable \<Rightarrow> bool" where
  "RoutingTable_wf rt \<longleftrightarrow>
     kb.table_ok (rt_place (local_id rt)) NUM_BUCKETS (buckets rt) \<and>
     (\<forall>b \<in> set (buckets rt). capacity b = k_param rt)"

definition RoutingTable_peers :: "RoutingTable \<Rightarrow> PeerInfo list" where
  "RoutingTable_peers rt = concat (map KBucket_get_peers (buckets rt))"

lemma gather_contacts_eq: "gather_contacts bs = concat (map KBucket_get_peers bs)"
  by (induction bs) (auto simp: KBucket_size_def KBucket_get_peers_def)

lemma RoutingTable_index_cases:
  "index_out_of_range (RoutingTable_get_bucket_index rt nid) \<longleftrightarrow> nid = local_id rt"
  using bucket_index_range [of "local_id rt" nid]
  by (cases "nid = local_id rt") (auto simp: index_out_of_range_def RoutingTable_get_bucket_index_def NUM_BUCKETS_def)

lemma nat_bucket_index_eq_place:
  "nid \<noteq> local_id rt \<Longrightarrow> nat (RoutingTable_get_bucket_index rt nid) = rt_place (local_id rt) nid"
  by (simp add: RoutingTable_get_bucket_index_def rt_place_def)

lemma rt_place_less: "rt_place lid nid < NUM_BUCKETS \<longleftrightarrow> nid \<noteq> lid"
  using bucket_index_range [of lid nid] by (auto simp: rt_place_def NUM_BUCKETS_def)

text \<open>Each operation, with the index computation resolved.\<close>

lemma RoutingTable_add_eq:
  "RoutingTable_add_or_update now peer rt =
    (if peer_node_id peer = local_id rt then (False, rt)
     else let i = rt_place (local_id rt) (peer_node_id peer) in
       (fst (KBucket_add_or_update now peer (buckets rt ! i)),
        rt\<lparr>buckets := (buckets rt)[i := snd (KBucket_add_or_update now peer (buckets rt ! i))]\<rparr>))"
  by (auto simp: RoutingTable_add_or_update_def RoutingTable_index_cases nat_bucket_index_eq_place
      split: prod.splits)

lemma RoutingTable_remove_eq:
  "RoutingTable_remove nid rt =
    (if nid = local_id rt then (False, rt)
     else let i = rt_place (local_id rt) nid in
       (fst (KBucket_remove nid (buckets rt ! i)),
        rt\<lparr>buckets := (buckets rt)[i := snd (KBucket_remove nid (buckets rt ! i))]\<rparr>))"
  by (auto simp: RoutingTable_remove_def RoutingTable_index_cases nat_bucket_index_eq_place
      split: prod.splits)

lemma RoutingTable_touch_eq:
  "RoutingTable_touch now nid rt =
    (if nid = local_id rt then rt
     else let i = rt_place (local_id rt) nid in
       rt\<lparr>buckets := (buckets rt)[i := KBucket_touch now nid (buckets rt ! i)]\<rparr>)"
  by (auto simp: RoutingTable_touch_def RoutingTable_index_cases nat_bucket_index_eq_place Let_def)

lemma RoutingTable_mark_failed_eq:
  "RoutingTable_mark_failed nid rt =
    (if nid = local_id rt then rt
     else let i = rt_place (local_id rt) nid in
       rt\<lparr>buckets := (buckets rt)[i := KBucket_mark_failed nid (buckets rt ! i)]\<rparr>)"
  by (auto simp: RoutingTable_mark_failed_def RoutingTable_index_cases nat_bucket_index_eq_place Let_def)

lemma RoutingTable_find_eq:
  "RoutingTable_find nid rt =
    (if nid = local_id rt then None else KBucket_find nid (buckets rt ! rt_place (local_id rt) nid))"
  by (auto simp: RoutingTable_find_def RoutingTable_index_cases nat_bucket_index_eq_place)

lemma RoutingTable_wf_update:
  assumes "RoutingTable_wf rt" "i < NUM_BUCKETS" "KBucket_step (buckets rt ! i) b"
    and "kb.table_ok (rt_place (local_id rt)) NUM_BUCKETS ((buckets rt)[i := b])"
  shows "RoutingTable_wf (rt\<lparr>buckets := (buckets rt)[i := b]\<rparr>)"
proof -
  have "i < length (buckets rt)" using assms(1,2) by (simp add: RoutingTable_wf_def kb.table_ok_def)
  then have "buckets rt ! i \<in> set (buckets rt)" by simp
  with KBucket_step_limits [OF assms(3)] assms(1,4) show ?thesis
    by (auto simp: RoutingTable_wf_def dest: set_update_subset_insert [THEN subsetD])
qed

lemma RoutingTable_wf_new: "RoutingTable_wf (RoutingTable_new lid k)"
  by (simp add: RoutingTable_wf_def RoutingTable_new_def kb.table_ok_def KBucket_wf_new KBucket_known_def)
    (simp add: KBucket_new_def)

lemma RoutingTable_wf_add:
  "RoutingTable_wf rt \<Longrightarrow> RoutingTable_wf (snd (RoutingTable_add_or_update now peer rt))"
  by (auto simp: RoutingTable_add_eq Let_def rt_place_less step_add
      intro!: RoutingTable_wf_update kb.table_ok_add) (simp add: RoutingTable_wf_def)

lemma RoutingTable_wf_remove:
  "RoutingTable_wf rt \<Longrightarrow> RoutingTable_wf (snd (RoutingTable_remove nid rt))"
  by (auto simp: RoutingTable_remove_eq Let_def rt_place_less step_remove
      intro!: RoutingTable_wf_update kb.table_ok_remove) (simp add: RoutingTable_wf_def)

lemma RoutingTable_wf_touch: "RoutingTable_wf rt \<Longrightarrow> RoutingTable_wf (RoutingTable_touch now nid rt)"
  by (auto simp: RoutingTable_touch_eq Let_def rt_place_less step_touch
      intro!: RoutingTable_wf_update kb.table_ok_touch) (simp add: RoutingTable_wf_def)

lemma RoutingTable_wf_mark_failed: "RoutingTable_wf rt \<Longrightarrow> RoutingTable_wf (RoutingTable_mark_failed nid rt)"
  by (auto simp: RoutingTable_mark_failed_eq Let_def rt_place_less step_mark_failed
      intro!: RoutingTable_wf_update kb.table_ok_mark_failed) (simp add: RoutingTable_wf_def)

section \<open>What the table contains\<close>

lemma RoutingTable_find_iff:
  assumes "RoutingTable_wf rt"
  shows "RoutingTable_find nid rt = Some p \<longleftrightarrow> p \<in> set (RoutingTable_peers rt) \<and> peer_node_id p = nid"
  using kb.table_find [of "rt_place (local_id rt)" NUM_BUCKETS "buckets rt" p nid] assms
  by (auto simp: RoutingTable_wf_def RoutingTable_peers_def RoutingTable_find_eq rt_place_less)

lemma RoutingTable_peers_distinct:
  "RoutingTable_wf rt \<Longrightarrow> distinct (map peer_node_id (RoutingTable_peers rt))"
  unfolding RoutingTable_peers_def RoutingTable_wf_def using kb.table_peers_distinct by blast

lemma RoutingTable_no_self:
  "RoutingTable_wf rt \<Longrightarrow> p \<in> set (RoutingTable_peers rt) \<Longrightarrow> peer_node_id p \<noteq> local_id rt"
  using RoutingTable_find_iff [of rt "peer_node_id p" p] by (auto simp: RoutingTable_find_eq)

lemma RoutingTable_local_id [simp]:
  "local_id (snd (RoutingTable_add_or_update now peer rt)) = local_id rt"
  "local_id (snd (RoutingTable_remove nid rt)) = local_id rt"
  "local_id (RoutingTable_touch now nid rt) = local_id rt"
  "local_id (RoutingTable_mark_failed nid rt) = local_id rt"
  by (simp_all add: RoutingTable_add_eq RoutingTable_remove_eq RoutingTable_touch_eq
      RoutingTable_mark_failed_eq Let_def)

lemma table_bucket_wf:
  "RoutingTable_wf rt \<Longrightarrow> nid \<noteq> local_id rt \<Longrightarrow>
    KBucket_wf (buckets rt ! rt_place (local_id rt) nid) \<and> rt_place (local_id rt) nid < length (buckets rt)"
  using rt_place_less [of "local_id rt" nid] by (auto simp: RoutingTable_wf_def kb.table_ok_def)

lemma RoutingTable_find_add:
  assumes "RoutingTable_wf rt"
  shows "RoutingTable_find nid (snd (RoutingTable_add_or_update now peer rt)) =
    (if fst (RoutingTable_add_or_update now peer rt) \<and> nid = peer_node_id peer then Some peer
     else RoutingTable_find nid rt)"
  using table_bucket_wf [OF assms, of "peer_node_id peer"] table_bucket_wf [OF assms, of nid]
  by (auto simp: RoutingTable_find_eq RoutingTable_add_eq Let_def nth_list_update KBucket_find_add)

lemma RoutingTable_find_remove:
  assumes "RoutingTable_wf rt"
  shows "RoutingTable_find nid (snd (RoutingTable_remove nid rt)) = None"
  using table_bucket_wf [OF assms, of nid]
  by (auto simp: RoutingTable_find_eq RoutingTable_remove_eq Let_def kb.find_remove)

section \<open>The closest contacts\<close>

definition peer_dist :: "NodeID \<Rightarrow> PeerInfo \<Rightarrow> nat" where
  "peer_dist target p = id_val (xor_distance (peer_node_id p) target)"

lemma closest_unique:
  assumes "RoutingTable_wf rt" "mset ps = mset (RoutingTable_peers rt)"
    and "sorted (map (\<lambda>p. xor_distance (peer_node_id p) target) ps)"
  shows "ps = sort_key (\<lambda>p. xor_distance (peer_node_id p) target) (RoutingTable_peers rt)"
proof (rule sorted_key_unique [where k = "\<lambda>p. xor_distance (peer_node_id p) target"])
  have "set ps = set (RoutingTable_peers rt)" using assms(2) by (rule mset_eq_setD)
  moreover have "inj_on peer_node_id (set (RoutingTable_peers rt))"
    using RoutingTable_peers_distinct [OF assms(1)] by (simp add: distinct_map)
  ultimately show "inj_on (\<lambda>p. xor_distance (peer_node_id p) target) (set ps)"
    by (simp add: inj_on_def)
qed (use assms in simp_all)

lemma find_closest_eq:
  "RoutingTable_find_closest target cnt rt =
    take cnt (sort_key (\<lambda>p. xor_distance (peer_node_id p) target) (RoutingTable_peers rt))"
  by (simp add: RoutingTable_find_closest_def gather_contacts_eq RoutingTable_peers_def Let_def)

lemma set_find_closest: "set (RoutingTable_find_closest target cnt rt) \<subseteq> set (RoutingTable_peers rt)"
  unfolding find_closest_eq using set_take_subset by fastforce

lemma find_closest_laws:
  assumes "RoutingTable_wf rt"
  shows "set (RoutingTable_find_closest target cnt rt) \<subseteq> set (RoutingTable_peers rt)"
    and "length (RoutingTable_find_closest target cnt rt) = min cnt (length (RoutingTable_peers rt))"
    and "distinct (map peer_node_id (RoutingTable_find_closest target cnt rt))"
    and "p \<in> set (RoutingTable_find_closest target cnt rt) \<Longrightarrow> q \<in> set (RoutingTable_peers rt) \<Longrightarrow>
       q \<notin> set (RoutingTable_find_closest target cnt rt) \<Longrightarrow> peer_dist target p < peer_dist target q"
    and "sorted_wrt (\<lambda>p q. peer_dist target p < peer_dist target q) (RoutingTable_find_closest target cnt rt)"
proof -
  let ?d = "\<lambda>p. xor_distance (peer_node_id p) target"
  let ?all = "sort_key ?d (RoutingTable_peers rt)"
  note res = find_closest_eq [of target cnt rt]
  have sorted: "sorted (map ?d ?all)" by (rule sorted_sort_key)
  have dist: "distinct (map peer_node_id ?all)"
    using RoutingTable_peers_distinct [OF assms(1)] by (simp add: distinct_map_sort_key)
  then have inj: "inj_on ?d (set ?all)" "distinct ?all" by (auto simp: distinct_map inj_on_def)
  then have strict: "sorted_wrt (<) (map ?d ?all)"
    using sorted by (simp add: strict_sorted_iff distinct_map)
  show "sorted_wrt (\<lambda>p q. peer_dist target p < peer_dist target q) (RoutingTable_find_closest target cnt rt)"
    using sorted_wrt_take [OF strict, of cnt]
    by (simp add: res peer_dist_def id_val_less_iff take_map sorted_wrt_map)
  show "set (RoutingTable_find_closest target cnt rt) \<subseteq> set (RoutingTable_peers rt)" by (rule set_find_closest)
  show "length (RoutingTable_find_closest target cnt rt) = min cnt (length (RoutingTable_peers rt))"
    by (simp add: res min.commute)
  show "distinct (map peer_node_id (RoutingTable_find_closest target cnt rt))"
    using dist by (simp add: res take_map [symmetric])
  assume "p \<in> set (RoutingTable_find_closest target cnt rt)" "q \<in> set (RoutingTable_peers rt)"
    "q \<notin> set (RoutingTable_find_closest target cnt rt)"
  then have p: "p \<in> set (take cnt ?all)" and q: "q \<in> set ?all" "q \<notin> set (take cnt ?all)" by (simp_all add: res)
  then have "q \<in> set (drop cnt ?all)" by (metis Un_iff append_take_drop_id set_append)
  then have "?d p \<le> ?d q" using sorted_take_le_drop [OF sorted p] by simp
  moreover have "?d p \<noteq> ?d q" using inj(1) p q by (metis in_set_takeD inj_on_eq_iff)
  ultimately have "?d p < ?d q" by (rule order.not_eq_order_implies_strict [rotated])
  then show "peer_dist target p < peer_dist target q" by (simp add: peer_dist_def id_val_less_iff)
qed

section \<open>Reachable tables\<close>

inductive RoutingTable_step :: "RoutingTable \<Rightarrow> RoutingTable \<Rightarrow> bool" where
  rt_step_add: "RoutingTable_step rt (snd (RoutingTable_add_or_update now peer rt))"
| rt_step_remove: "RoutingTable_step rt (snd (RoutingTable_remove nid rt))"
| rt_step_mark_failed: "RoutingTable_step rt (RoutingTable_mark_failed nid rt)"
| rt_step_touch: "RoutingTable_step rt (RoutingTable_touch now nid rt)"

inductive_cases RoutingTable_stepE: "RoutingTable_step rt rt'"

inductive RoutingTable_reachable :: "NodeID \<Rightarrow> nat \<Rightarrow> RoutingTable \<Rightarrow> bool" for lid k where
  rt_reach_new: "RoutingTable_reachable lid k (RoutingTable_new lid k)"
| rt_reach_step: "RoutingTable_reachable lid k rt \<Longrightarrow> RoutingTable_step rt rt' \<Longrightarrow> RoutingTable_reachable lid k rt'"

lemma RoutingTable_step_params:
  "RoutingTable_step rt rt' \<Longrightarrow> local_id rt' = local_id rt \<and> k_param rt' = k_param rt"
  by (erule RoutingTable_stepE)
    (simp_all add: RoutingTable_add_eq RoutingTable_remove_eq RoutingTable_touch_eq
      RoutingTable_mark_failed_eq Let_def)

lemma RoutingTable_step_wf: "RoutingTable_step rt rt' \<Longrightarrow> RoutingTable_wf rt \<Longrightarrow> RoutingTable_wf rt'"
  by (erule RoutingTable_stepE)
    (simp_all add: RoutingTable_wf_add RoutingTable_wf_remove RoutingTable_wf_touch RoutingTable_wf_mark_failed)

lemma RoutingTable_reachable_wf:
  "RoutingTable_reachable lid k rt \<Longrightarrow> RoutingTable_wf rt \<and> local_id rt = lid \<and> k_param rt = k"
proof (induction rule: RoutingTable_reachable.induct)
  case rt_reach_new
  then show ?case by (simp add: RoutingTable_wf_new) (simp add: RoutingTable_new_def)
next
  case (rt_reach_step rt rt')
  with RoutingTable_step_wf RoutingTable_step_params show ?case by auto
qed

text \<open>
  C32. In every table that the operations can produce, each of the 256 buckets holds at
  most \<open>k\<close> contacts, every contact sits in the bucket of its bucket index relative to the
  local identifier, no identifier occurs twice in the whole table and the local node is
  never a contact.
\<close>

theorem RoutingTable_reachable_invariant:
  assumes "RoutingTable_reachable lid k rt"
  shows "length (buckets rt) = 256 \<and>
    (\<forall>i < 256. length (contacts (buckets rt ! i)) \<le> k \<and>
       (\<forall>c \<in> set (contacts (buckets rt ! i)). bucket_index lid (contact_id c) = int i)) \<and>
    distinct (map peer_node_id (RoutingTable_peers rt)) \<and>
    lid \<notin> peer_node_id ` set (RoutingTable_peers rt)"
proof -
  have wf: "RoutingTable_wf rt" and lid: "local_id rt = lid" and k: "k_param rt = k"
    using RoutingTable_reachable_wf [OF assms] by auto
  have placed: "bucket_index lid (contact_id c) = int i"
    if "i < 256" "c \<in> set (contacts (buckets rt ! i))" for i c
  proof -
    have "rt_place lid (contact_id c) = i"
      using wf that lid by (auto simp: RoutingTable_wf_def kb.table_ok_def KBucket_known_def NUM_BUCKETS_def)
    then show ?thesis
      using that(1) bucket_index_range [of lid "contact_id c"] by (auto simp: rt_place_def NUM_BUCKETS_def split: if_splits)
  qed
  have "length (contacts (buckets rt ! i)) \<le> k" if "i < 256" for i
    using wf that k by (auto simp: RoutingTable_wf_def kb.table_ok_def KBucket_wf_def NUM_BUCKETS_def)
  moreover have "lid \<notin> peer_node_id ` set (RoutingTable_peers rt)"
    using RoutingTable_no_self [OF wf] lid by (metis imageE)
  moreover have "length (buckets rt) = 256"
    using wf by (simp add: RoutingTable_wf_def kb.table_ok_def NUM_BUCKETS_def)
  ultimately show ?thesis
    using placed RoutingTable_peers_distinct [OF wf] by blast
qed

definition test_table :: RoutingTable where
  "test_table = snd (RoutingTable_add_or_update 2 (test_peer 6) (snd (RoutingTable_add_or_update 1 (test_peer 5)
     (RoutingTable_new (barray_of [4]) 1))))"

lemma test_table_reachable: "RoutingTable_reachable (barray_of [4]) 1 test_table"
  unfolding test_table_def
  by (rule rt_reach_step [OF rt_reach_step [OF rt_reach_new rt_step_add] rt_step_add])

theorem RoutingTable_reachable_invariant_witness:
  "RoutingTable_reachable (barray_of [4]) 1 test_table \<and> length (buckets test_table) = 256 \<and>
   RoutingTable_peers test_table = [test_peer 5, test_peer 6]"
proof -
  have "RoutingTable_peers test_table = [test_peer 5, test_peer 6]" by code_simp
  with RoutingTable_reachable_invariant [OF test_table_reachable] test_table_reachable
  show ?thesis by simp
qed

text \<open>
  C29. \<^verbatim>\<open>find_closest\<close> returns the \<open>count\<close> contacts of the table closest to the target, in
  ascending order of XOR distance: all of them are contacts, there are as many as asked for
  or as there are, the list is strictly sorted by distance, and every contact left out is
  at least as far away as every contact returned.
\<close>

theorem RoutingTable_find_closest_correct:
  assumes "RoutingTable_wf rt"
  shows "set (RoutingTable_find_closest target cnt rt) \<subseteq> set (RoutingTable_peers rt) \<and>
    length (RoutingTable_find_closest target cnt rt) = min cnt (length (RoutingTable_peers rt)) \<and>
    sorted_wrt (\<lambda>p q. peer_dist target p < peer_dist target q) (RoutingTable_find_closest target cnt rt) \<and>
    (\<forall>p \<in> set (RoutingTable_find_closest target cnt rt).
       \<forall>q \<in> set (RoutingTable_peers rt) - set (RoutingTable_find_closest target cnt rt).
         peer_dist target p < peer_dist target q)"
  using find_closest_laws [OF assms, where target = target and cnt = cnt] by blast

theorem RoutingTable_find_closest_correct_witness:
  "RoutingTable_wf test_table \<and>
   RoutingTable_find_closest (barray_of [7]) 1 test_table = [test_peer 6] \<and>
   length (RoutingTable_find_closest (barray_of [7]) 1 test_table) = min 1 (length (RoutingTable_peers test_table))"
proof -
  have wf: "RoutingTable_wf test_table" using RoutingTable_reachable_wf [OF test_table_reachable] by simp
  have "RoutingTable_find_closest (barray_of [7]) 1 test_table = [test_peer 6]" by code_simp
  with RoutingTable_find_closest_correct [OF wf, of "barray_of [7]" 1] wf show ?thesis by simp
qed

text \<open>
  Lookups after updates: a peer whose insertion was accepted is found with its new
  address, a removed identifier is no longer found, every other identifier is found as
  before an insertion, and a refused insertion (self, or a full bucket) changes no lookup.
\<close>

theorem RoutingTable_lookup_laws:
  assumes "RoutingTable_wf rt"
  shows "RoutingTable_find nid (snd (RoutingTable_add_or_update now peer rt)) =
      (if fst (RoutingTable_add_or_update now peer rt) \<and> nid = peer_node_id peer then Some peer
       else RoutingTable_find nid rt) \<and>
    RoutingTable_find nid (snd (RoutingTable_remove nid rt)) = None \<and>
    RoutingTable_find nid' (RoutingTable_touch now nid rt) = RoutingTable_find nid' rt \<and>
    (fst (RoutingTable_add_or_update now peer rt) \<longleftrightarrow> peer_node_id peer \<noteq> local_id rt \<and>
       (RoutingTable_find (peer_node_id peer) rt \<noteq> None \<or>
        \<not> KBucket_is_full (buckets rt ! nat (bucket_index (local_id rt) (peer_node_id peer)))))"
proof (intro conjI)
  show "RoutingTable_find nid' (RoutingTable_touch now nid rt) = RoutingTable_find nid' rt"
    using table_bucket_wf [OF assms, of nid] table_bucket_wf [OF assms, of nid']
    by (auto simp: RoutingTable_find_eq RoutingTable_touch_eq Let_def nth_list_update kb.find_touch)
  show "fst (RoutingTable_add_or_update now peer rt) \<longleftrightarrow> peer_node_id peer \<noteq> local_id rt \<and>
       (RoutingTable_find (peer_node_id peer) rt \<noteq> None \<or>
        \<not> KBucket_is_full (buckets rt ! nat (bucket_index (local_id rt) (peer_node_id peer))))"
  proof (cases "peer_node_id peer = local_id rt")
    case False
    let ?b = "buckets rt ! rt_place (local_id rt) (peer_node_id peer)"
    have wf: "KBucket_wf ?b" using table_bucket_wf [OF assms False] by simp
    have "fst (KBucket_add_or_update now peer ?b) \<longleftrightarrow> KBucket_find (peer_node_id peer) ?b \<noteq> None \<or> \<not> KBucket_is_full ?b"
      using KBucket_add_or_update_accepts [OF wf] .
    with False show ?thesis
      by (simp add: RoutingTable_add_eq RoutingTable_find_eq Let_def rt_place_def)
  qed (simp add: RoutingTable_add_eq)
qed (simp_all add: RoutingTable_find_add [OF assms] RoutingTable_find_remove [OF assms])

theorem RoutingTable_lookup_laws_witness:
  "RoutingTable_wf test_table \<and> RoutingTable_find (barray_of [6]) test_table = Some (test_peer 6) \<and>
   RoutingTable_find (barray_of [6]) (snd (RoutingTable_remove (barray_of [6]) test_table)) = None"
proof -
  have wf: "RoutingTable_wf test_table" using RoutingTable_reachable_wf [OF test_table_reachable] by simp
  have "RoutingTable_find (barray_of [6]) test_table = Some (test_peer 6)" by code_simp
  with RoutingTable_lookup_laws [OF wf, of "barray_of [6]" 0 "test_peer 6" "barray_of [6]"] wf show ?thesis by simp
qed

end
