(* ===== verification/Lookup_Engine.thy ===== *)
theory Lookup_Engine
  imports Routing_Table
begin

text \<open>
  Model of \<^verbatim>\<open>src/dht/lookup_engine.hpp\<close> and \<^verbatim>\<open>lookup_engine.cpp\<close>: the shortlist state machine
  of one iterative lookup. The steady clock (nanoseconds) and the random lookup id are
  arguments of the operations that read them. \<^verbatim>\<open>std::sort\<close> is \<open>sort_key\<close>: the shortlist holds
  no id twice, so its distances differ and every sorting algorithm gives the same list.
  The step relation \<open>LookupSession_step\<close> has the calls in any order; \<open>LookupSession_drive\<close>
  has the calls the node makes (a query round while the lookup is not complete, one answer or
  failure per query in flight) in any interleaving.
\<close>

datatype CandidateState = UNQUERIED | IN_FLIGHT | RESPONDED | FAILED

record LookupCandidate =
  cand_peer :: PeerInfo
  cand_state :: CandidateState

record LookupMetrics =
  lookup_id :: string
  metrics_target :: NodeID
  total_rpcs :: nat
  iterations :: nat
  queried_nodes :: "NodeID list"
  duration_ms :: nat
  success :: bool

record LookupSession =
  ls_target :: NodeID
  ls_local_id :: NodeID
  alpha :: nat
  ls_k :: nat
  shortlist :: "LookupCandidate list"
  metrics :: LookupMetrics
  start_time :: time_point

abbreviation cand_id :: "LookupCandidate \<Rightarrow> NodeID" where
  "cand_id c \<equiv> peer_node_id (cand_peer c)"

section \<open>Operations\<close>

definition LookupSession_new :: "NodeID \<Rightarrow> NodeID \<Rightarrow> nat \<Rightarrow> nat \<Rightarrow> time_point \<Rightarrow> RequestID \<Rightarrow> LookupSession" where
  "LookupSession_new target lid a k now rid =
     \<lparr>ls_target = target, ls_local_id = lid, alpha = a, ls_k = k, shortlist = [],
      metrics = \<lparr>lookup_id = RequestID_to_hex rid, metrics_target = target, total_rpcs = 0,
        iterations = 0, queried_nodes = [], duration_ms = 0, success = False\<rparr>,
      start_time = now\<rparr>"

definition cand_dist :: "NodeID \<Rightarrow> LookupCandidate \<Rightarrow> NodeID" where
  "cand_dist target c = xor_distance (cand_id c) target"

definition LookupSession_sort_shortlist :: "LookupSession \<Rightarrow> LookupSession" where
  "LookupSession_sort_shortlist s = s\<lparr>shortlist := sort_key (cand_dist (ls_target s)) (shortlist s)\<rparr>"

fun add_candidates_loop ::
  "NodeID \<Rightarrow> PeerInfo list \<Rightarrow> bool \<Rightarrow> LookupCandidate list \<Rightarrow> bool \<times> LookupCandidate list" where
  "add_candidates_loop lid [] added sl = (added, sl)"
| "add_candidates_loop lid (peer # peers) added sl =
     (if peer_node_id peer = lid then add_candidates_loop lid peers added sl
      else case List.find (\<lambda>c. cand_id c = peer_node_id peer) sl of
        None \<Rightarrow> add_candidates_loop lid peers True (sl @ [\<lparr>cand_peer = peer, cand_state = UNQUERIED\<rparr>])
      | Some _ \<Rightarrow> add_candidates_loop lid peers added sl)"

definition LookupSession_add_candidates :: "PeerInfo list \<Rightarrow> LookupSession \<Rightarrow> LookupSession" where
  "LookupSession_add_candidates peers s =
     (case add_candidates_loop (ls_local_id s) peers False (shortlist s) of
        (added, sl) \<Rightarrow>
          if added then LookupSession_sort_shortlist (s\<lparr>shortlist := sl\<rparr>) else s\<lparr>shortlist := sl\<rparr>)"

definition LookupSession_in_flight_count :: "LookupSession \<Rightarrow> nat" where
  "LookupSession_in_flight_count s = length (filter (\<lambda>c. cand_state c = IN_FLIGHT) (shortlist s))"

fun pick_loop ::
  "nat \<Rightarrow> nat \<Rightarrow> LookupCandidate list \<Rightarrow> PeerInfo list \<Rightarrow> LookupMetrics
     \<Rightarrow> LookupCandidate list \<times> PeerInfo list \<times> LookupMetrics" where
  "pick_loop a in_flight [] picked m = ([], picked, m)"
| "pick_loop a in_flight (c # cs) picked m =
     (if cand_state c = UNQUERIED
      then let c' = c\<lparr>cand_state := IN_FLIGHT\<rparr>;
               picked' = picked @ [cand_peer c];
               m' = m\<lparr>total_rpcs := total_rpcs m + 1, queried_nodes := queried_nodes m @ [cand_id c]\<rparr>;
               in_flight' = in_flight + 1
           in if a \<le> length picked' \<or> a \<le> in_flight' then (c' # cs, picked', m')
              else (case pick_loop a in_flight' cs picked' m' of (cs', r) \<Rightarrow> (c' # cs', r))
      else (case pick_loop a in_flight cs picked m of (cs', r) \<Rightarrow> (c # cs', r)))"

definition LookupSession_pick_next_queries :: "LookupSession \<Rightarrow> PeerInfo list \<times> LookupSession" where
  "LookupSession_pick_next_queries s =
     (case pick_loop (alpha s) (LookupSession_in_flight_count s) (shortlist s) [] (metrics s) of
        (sl, picked, m) \<Rightarrow>
          (picked, s\<lparr>shortlist := sl,
             metrics := (if picked \<noteq> [] then m\<lparr>iterations := iterations m + 1\<rparr> else m)\<rparr>))"

fun get_closest_loop :: "nat \<Rightarrow> LookupCandidate list \<Rightarrow> PeerInfo list \<Rightarrow> PeerInfo list" where
  "get_closest_loop n [] result = result"
| "get_closest_loop n (c # cs) result =
     (if cand_state c = RESPONDED
      then let result' = result @ [cand_peer c]
           in if n \<le> length result' then result' else get_closest_loop n cs result'
      else get_closest_loop n cs result)"

definition LookupSession_get_closest :: "nat \<Rightarrow> LookupSession \<Rightarrow> PeerInfo list" where
  "LookupSession_get_closest n s = get_closest_loop n (shortlist s) []"

definition elapsed_ms :: "time_point \<Rightarrow> LookupSession \<Rightarrow> nat" where
  "elapsed_ms now s = (now - start_time s) div 1000000"

definition set_candidate_state :: "NodeID \<Rightarrow> CandidateState \<Rightarrow> LookupSession \<Rightarrow> LookupSession" where
  "set_candidate_state nid st s =
     s\<lparr>shortlist := update_first (\<lambda>c. cand_id c = nid) (\<lambda>c. c\<lparr>cand_state := st\<rparr>) (shortlist s)\<rparr>"

definition LookupSession_on_response :: "time_point \<Rightarrow> NodeID \<Rightarrow> PeerInfo list \<Rightarrow> LookupSession \<Rightarrow> LookupSession" where
  "LookupSession_on_response now nid returned_peers s =
     (let s1 = LookupSession_add_candidates returned_peers (set_candidate_state nid RESPONDED s)
      in s1\<lparr>metrics := (metrics s1)\<lparr>duration_ms := elapsed_ms now s1,
              success := LookupSession_get_closest 1 s1 \<noteq> []\<rparr>\<rparr>)"

definition LookupSession_on_failure :: "time_point \<Rightarrow> NodeID \<Rightarrow> LookupSession \<Rightarrow> LookupSession" where
  "LookupSession_on_failure now nid s =
     (let s1 = set_candidate_state nid FAILED s
      in s1\<lparr>metrics := (metrics s1)\<lparr>duration_ms := elapsed_ms now s1\<rparr>\<rparr>)"

text \<open>The loop over the k closest candidates; \<open>None\<close> is its early \<^verbatim>\<open>return false\<close>.\<close>

fun complete_loop :: "nat \<Rightarrow> LookupCandidate list \<Rightarrow> nat \<Rightarrow> nat \<Rightarrow> nat option" where
  "complete_loop k [] considered responded = Some responded"
| "complete_loop k (c # cs) considered responded =
     (if k \<le> considered then Some responded
      else if cand_state c = UNQUERIED then None
      else complete_loop k cs (considered + 1)
             (if cand_state c = RESPONDED then responded + 1 else responded))"

definition LookupSession_is_complete :: "LookupSession \<Rightarrow> bool" where
  "LookupSession_is_complete s \<longleftrightarrow>
     (if 0 < LookupSession_in_flight_count s then False
      else case complete_loop (ls_k s) (shortlist s) 0 0 of
        None \<Rightarrow> False
      | Some responded_count \<Rightarrow>
          let has_unqueried = list_ex (\<lambda>c. cand_state c = UNQUERIED) (shortlist s)
          in if ls_k s \<le> responded_count then True else \<not> has_unqueried)"

section \<open>The loops in closed form\<close>

abbreviation unqueried :: "LookupCandidate list \<Rightarrow> LookupCandidate list" where
  "unqueried sl \<equiv> filter (\<lambda>c. cand_state c = UNQUERIED) sl"

text \<open>\<open>mark_first n sl\<close> sends the first \<open>n\<close> unqueried candidates into flight.\<close>

fun mark_first :: "nat \<Rightarrow> LookupCandidate list \<Rightarrow> LookupCandidate list" where
  "mark_first 0 sl = sl"
| "mark_first n [] = []"
| "mark_first (Suc n) (c # cs) =
     (if cand_state c = UNQUERIED then c\<lparr>cand_state := IN_FLIGHT\<rparr> # mark_first n cs
      else c # mark_first (Suc n) cs)"

lemma pick_loop_eq:
  assumes "length picked \<le> in_flight"
  shows "pick_loop a in_flight sl picked m =
    (let n = max 1 (a - in_flight); ps = map cand_peer (take n (unqueried sl))
     in (mark_first n sl, picked @ ps,
         m\<lparr>total_rpcs := total_rpcs m + length ps, queried_nodes := queried_nodes m @ map peer_node_id ps\<rparr>))"
  using assms
proof (induction sl arbitrary: in_flight picked m)
  case Nil
  have "mark_first (max 1 (a - in_flight)) [] = []" by (cases "max 1 (a - in_flight)") auto
  then show ?case by (simp add: Let_def)
next
  case (Cons c cs)
  let ?n = "max 1 (a - in_flight)"
  obtain n where n: "?n = Suc n" by (cases ?n) auto
  show ?case
  proof (cases "cand_state c = UNQUERIED \<and> a \<le> in_flight + 1")
    case True
    then have "?n = 1" by linarith
    with True n show ?thesis by (auto simp: Let_def)
  next
    case False
    then have "cand_state c = UNQUERIED \<Longrightarrow> n = max 1 (a - (in_flight + 1)) \<and> \<not> a \<le> Suc (length picked)"
      using n Cons.prems by (auto simp: max_def split: if_splits)
    with False Cons.prems n show ?thesis
      by (cases "cand_state c = UNQUERIED") (simp_all add: Cons.IH Let_def)
  qed
qed

lemma get_closest_loop_eq:
  "get_closest_loop n sl result =
    result @ map cand_peer (take (max 1 (n - length result)) (filter (\<lambda>c. cand_state c = RESPONDED) sl))"
proof (induction sl arbitrary: result)
  case (Cons c cs)
  show ?case
  proof (cases "cand_state c = RESPONDED \<and> \<not> n \<le> Suc (length result)")
    case True
    then have "max 1 (n - length result) = Suc (max 1 (n - Suc (length result)))" by linarith
    with True show ?thesis by (simp add: Cons.IH Let_def)
  next
    case False
    then have "cand_state c = RESPONDED \<Longrightarrow> max 1 (n - length result) = 1" by linarith
    with False show ?thesis by (auto simp: Cons.IH Let_def)
  qed
qed simp

lemma complete_loop_eq:
  "complete_loop k sl considered responded =
    (if unqueried (take (k - considered) sl) \<noteq> [] then None
     else Some (responded + length (filter (\<lambda>c. cand_state c = RESPONDED) (take (k - considered) sl))))"
proof (induction sl arbitrary: considered responded)
  case (Cons c cs)
  show ?case
  proof (cases "k \<le> considered")
    case False
    then obtain n where "k - considered = Suc n" "k - Suc considered = n"
      by (metis Suc_diff_Suc not_le)
    with False Cons.IH show ?thesis by simp
  qed simp
qed simp

lemma is_complete_eq:
  "LookupSession_is_complete s \<longleftrightarrow>
    LookupSession_in_flight_count s = 0 \<and> unqueried (take (ls_k s) (shortlist s)) = [] \<and>
    (ls_k s \<le> length (filter (\<lambda>c. cand_state c = RESPONDED) (take (ls_k s) (shortlist s))) \<or>
     unqueried (shortlist s) = [])"
  by (auto simp: LookupSession_is_complete_def complete_loop_eq Let_def list_ex_iff filter_empty_conv)

lemma pick_next_queries_eq:
  "LookupSession_pick_next_queries s =
    (let n = max 1 (alpha s - LookupSession_in_flight_count s);
         ps = map cand_peer (take n (unqueried (shortlist s))); m = metrics s
     in (ps, s\<lparr>shortlist := mark_first n (shortlist s),
           metrics := m\<lparr>total_rpcs := total_rpcs m + length ps,
             iterations := iterations m + (if ps = [] then 0 else 1),
             queried_nodes := queried_nodes m @ map peer_node_id ps\<rparr>\<rparr>))"
  by (auto simp: LookupSession_pick_next_queries_def pick_loop_eq Let_def)

text \<open>What \<open>mark_first\<close> does to the candidates.\<close>

lemma map_peer_mark_first [simp]: "map cand_peer (mark_first n sl) = map cand_peer sl"
  by (induction n sl rule: mark_first.induct) auto

lemma length_mark_first [simp]: "length (mark_first n sl) = length sl"
  by (induction n sl rule: mark_first.induct) auto

lemma unqueried_mark_first: "unqueried (mark_first n sl) = drop n (unqueried sl)"
  by (induction n sl rule: mark_first.induct) auto

lemma in_flight_mark_first:
  "length (filter (\<lambda>c. cand_state c = IN_FLIGHT) (mark_first n sl)) =
   length (filter (\<lambda>c. cand_state c = IN_FLIGHT) sl) + min n (length (unqueried sl))"
  by (induction n sl rule: mark_first.induct) auto

lemma mark_first_keeps: "c \<in> set sl \<Longrightarrow> cand_state c \<noteq> UNQUERIED \<Longrightarrow> c \<in> set (mark_first n sl)"
  by (induction n sl rule: mark_first.induct) auto

lemma mark_first_marks:
  "c \<in> set (take n (unqueried sl)) \<Longrightarrow> c\<lparr>cand_state := IN_FLIGHT\<rparr> \<in> set (mark_first n sl)"
  by (induction n sl rule: mark_first.induct) (auto split: if_splits)

section \<open>Invariant\<close>

text \<open>
  The shortlist is sorted by distance to the target, holds no id twice and never the local
  id; every RPC went to a different node, which is in the shortlist and no longer unqueried.
\<close>

definition LookupSession_wf :: "LookupSession \<Rightarrow> bool" where
  "LookupSession_wf s \<longleftrightarrow>
     sorted (map (cand_dist (ls_target s)) (shortlist s)) \<and> distinct (map cand_id (shortlist s)) \<and>
     ls_local_id s \<notin> cand_id ` set (shortlist s) \<and>
     total_rpcs (metrics s) = length (queried_nodes (metrics s)) \<and> distinct (queried_nodes (metrics s)) \<and>
     set (queried_nodes (metrics s)) \<subseteq> cand_id ` {c \<in> set (shortlist s). cand_state c \<noteq> UNQUERIED}"

lemma LookupSession_wf_new: "LookupSession_wf (LookupSession_new target lid a k now rid)"
  by (simp add: LookupSession_wf_def LookupSession_new_def)

text \<open>\<open>new_candidates\<close> are the peers the loop appends.\<close>

fun new_candidates :: "NodeID \<Rightarrow> NodeID set \<Rightarrow> PeerInfo list \<Rightarrow> PeerInfo list" where
  "new_candidates lid known [] = []"
| "new_candidates lid known (p # ps) =
     (if peer_node_id p = lid \<or> peer_node_id p \<in> known then new_candidates lid known ps
      else p # new_candidates lid (insert (peer_node_id p) known) ps)"

lemma add_candidates_loop_eq:
  "add_candidates_loop lid ps added sl =
    (let new = new_candidates lid (cand_id ` set sl) ps
     in (added \<or> new \<noteq> [], sl @ map (\<lambda>p. \<lparr>cand_peer = p, cand_state = UNQUERIED\<rparr>) new))"
proof (induction ps arbitrary: added sl)
  case (Cons p ps)
  then show ?case
    by (auto simp: Let_def find_key_None dest!: find_key_mem split: option.splits)
qed simp

lemma new_candidates_props:
  "distinct (map peer_node_id (new_candidates lid known ps)) \<and>
   set (new_candidates lid known ps) \<subseteq> set ps \<and>
   peer_node_id ` set (new_candidates lid known ps) = peer_node_id ` set ps - known - {lid}"
  by (induction ps arbitrary: known) auto

lemma add_candidates_eq:
  assumes "sorted (map (cand_dist (ls_target s)) (shortlist s))"
  shows "LookupSession_add_candidates peers s =
    s\<lparr>shortlist := sort_key (cand_dist (ls_target s)) (shortlist s @
       map (\<lambda>p. \<lparr>cand_peer = p, cand_state = UNQUERIED\<rparr>)
         (new_candidates (ls_local_id s) (cand_id ` set (shortlist s)) peers))\<rparr>"
  using assms
  by (auto simp: LookupSession_add_candidates_def LookupSession_sort_shortlist_def
      add_candidates_loop_eq Let_def sort_key_id_if_sorted)

lemma wf_sorted: "LookupSession_wf s \<Longrightarrow> sorted (map (cand_dist (ls_target s)) (shortlist s))"
  by (simp add: LookupSession_wf_def)

lemma set_add_candidates:
  assumes "LookupSession_wf s"
  shows "set (shortlist (LookupSession_add_candidates peers s)) = set (shortlist s) \<union>
    (\<lambda>p. \<lparr>cand_peer = p, cand_state = UNQUERIED\<rparr>) `
      set (new_candidates (ls_local_id s) (cand_id ` set (shortlist s)) peers)"
  by (simp add: add_candidates_eq [OF wf_sorted [OF assms]])

lemma ids_add_candidates:
  assumes "LookupSession_wf s"
  shows "cand_id ` set (shortlist (LookupSession_add_candidates peers s)) =
    cand_id ` set (shortlist s) \<union> (peer_node_id ` set peers - {ls_local_id s})"
  using new_candidates_props [of "ls_local_id s" "cand_id ` set (shortlist s)" peers] assms
  by (auto simp: set_add_candidates image_Un image_image LookupSession_wf_def)

lemma wf_add_candidates:
  assumes "LookupSession_wf s"
  shows "LookupSession_wf (LookupSession_add_candidates peers s)"
proof -
  let ?new = "new_candidates (ls_local_id s) (cand_id ` set (shortlist s)) peers"
  note new = new_candidates_props [of "ls_local_id s" "cand_id ` set (shortlist s)" peers]
  have "distinct (map cand_id (shortlist s @ map (\<lambda>p. \<lparr>cand_peer = p, cand_state = UNQUERIED\<rparr>) ?new))"
    using assms new by (auto simp: LookupSession_wf_def comp_def)
  moreover have "ls_local_id s \<notin> cand_id ` set (shortlist (LookupSession_add_candidates peers s))"
    using assms by (simp add: ids_add_candidates) (simp add: LookupSession_wf_def)
  moreover have "metrics (LookupSession_add_candidates peers s) = metrics s"
    "ls_target (LookupSession_add_candidates peers s) = ls_target s"
    "ls_local_id (LookupSession_add_candidates peers s) = ls_local_id s"
    by (simp_all add: add_candidates_eq [OF wf_sorted [OF assms]])
  moreover have "cand_id ` {c \<in> set (shortlist s). cand_state c \<noteq> UNQUERIED} \<subseteq>
    cand_id ` {c \<in> set (shortlist (LookupSession_add_candidates peers s)). cand_state c \<noteq> UNQUERIED}"
    using set_add_candidates [OF assms, of peers] by auto
  ultimately show ?thesis
    using assms unfolding LookupSession_wf_def
    by (auto simp: add_candidates_eq [OF wf_sorted [OF assms]] distinct_map_sort_key)
qed

lemma map_key_set_state [simp]:
  "map cand_peer (update_first P (\<lambda>c. c\<lparr>cand_state := st\<rparr>) sl) = map cand_peer sl"
  by (rule map_update_first) simp

lemma map_via_peer: "map cand_peer xs = map cand_peer ys \<Longrightarrow>
    map cand_id xs = map cand_id ys \<and> map (cand_dist t) xs = map (cand_dist t) ys \<and>
    cand_id ` set xs = cand_id ` set ys"
proof -
  assume eq: "map cand_peer xs = map cand_peer ys"
  have id: "map cand_id zs = map peer_node_id (map cand_peer zs)" for zs by simp
  have dist: "map (cand_dist t) zs = map (\<lambda>p. xor_distance (peer_node_id p) t) (map cand_peer zs)" for zs
    by (simp add: cand_dist_def)
  have "set (map cand_id xs) = set (map cand_id ys)" by (simp only: id eq)
  then show ?thesis by (simp only: id dist eq set_map [symmetric])
qed

lemma set_state_non_unqueried:
  "st \<noteq> UNQUERIED \<Longrightarrow> cand_id ` {c \<in> set sl. cand_state c \<noteq> UNQUERIED} \<subseteq>
    cand_id ` {c \<in> set (update_first P (\<lambda>c. c\<lparr>cand_state := st\<rparr>) sl). cand_state c \<noteq> UNQUERIED}"
proof (induction sl)
  case (Cons c sl)
  have eq: "cand_id ` {x \<in> set (y # ys). cand_state x \<noteq> UNQUERIED} =
    (if cand_state y \<noteq> UNQUERIED then {cand_id y} else {}) \<union>
     cand_id ` {x \<in> set ys. cand_state x \<noteq> UNQUERIED}" for y ys
    by auto
  show ?case
  proof (cases "P c")
    case True
    with Cons.prems show ?thesis by (simp only: update_first.simps if_True eq) auto
  next
    case False
    with Cons show ?thesis by (simp only: update_first.simps if_False eq) auto
  qed
qed simp

lemma wf_set_state:
  assumes "LookupSession_wf s" "st \<noteq> UNQUERIED"
  shows "LookupSession_wf (set_candidate_state nid st s)"
  using assms(1) set_state_non_unqueried [OF assms(2), of "shortlist s" "\<lambda>c. cand_id c = nid"]
    map_via_peer [OF map_key_set_state [of "\<lambda>c. cand_id c = nid" st "shortlist s"]]
  unfolding LookupSession_wf_def set_candidate_state_def by (auto simp del: map_key_set_state)

lemma wf_metrics:
  "LookupSession_wf s \<Longrightarrow> total_rpcs m = total_rpcs (metrics s) \<Longrightarrow> queried_nodes m = queried_nodes (metrics s)
    \<Longrightarrow> LookupSession_wf (s\<lparr>metrics := m\<rparr>)"
  by (simp add: LookupSession_wf_def)

lemma wf_on_response: "LookupSession_wf s \<Longrightarrow> LookupSession_wf (LookupSession_on_response now nid ps s)"
  by (simp add: LookupSession_on_response_def Let_def wf_metrics wf_add_candidates wf_set_state)

lemma wf_on_failure: "LookupSession_wf s \<Longrightarrow> LookupSession_wf (LookupSession_on_failure now nid s)"
  by (simp add: LookupSession_on_failure_def Let_def wf_metrics wf_set_state)

lemma wf_pick:
  assumes wf: "LookupSession_wf s"
  shows "LookupSession_wf (snd (LookupSession_pick_next_queries s))"
proof -
  let ?n = "max 1 (alpha s - LookupSession_in_flight_count s)" and ?sl = "shortlist s"
  let ?ps = "take ?n (unqueried ?sl)"
  have dist: "distinct (map cand_id ?sl)" using wf by (simp add: LookupSession_wf_def)
  have "distinct (map cand_id ?ps)"
    using dist by (simp add: distinct_map_filter take_map [symmetric])
  moreover have "cand_id c \<notin> set (queried_nodes (metrics s))" if "c \<in> set ?ps" for c
  proof
    assume "cand_id c \<in> set (queried_nodes (metrics s))"
    then obtain d where "d \<in> set ?sl" "cand_state d \<noteq> UNQUERIED" "cand_id d = cand_id c"
      using wf by (auto simp: LookupSession_wf_def)
    moreover have "c \<in> set ?sl" "cand_state c = UNQUERIED"
      using that by (auto dest: in_set_takeD)
    ultimately show False using dist by (metis distinct_map inj_on_eq_iff)
  qed
  moreover have "cand_id ` set ?ps \<subseteq> cand_id ` {c \<in> set (mark_first ?n ?sl). cand_state c \<noteq> UNQUERIED}"
  proof
    fix x
    assume "x \<in> cand_id ` set ?ps"
    then obtain c where "c \<in> set ?ps" "x = cand_id c" by auto
    with mark_first_marks [of c ?n ?sl] have "x = cand_id (c\<lparr>cand_state := IN_FLIGHT\<rparr>)"
      "c\<lparr>cand_state := IN_FLIGHT\<rparr> \<in> {c \<in> set (mark_first ?n ?sl). cand_state c \<noteq> UNQUERIED}" by auto
    then show "x \<in> cand_id ` {c \<in> set (mark_first ?n ?sl). cand_state c \<noteq> UNQUERIED}" by (rule image_eqI)
  qed
  moreover have "cand_id ` {c \<in> set ?sl. cand_state c \<noteq> UNQUERIED} \<subseteq>
      cand_id ` {c \<in> set (mark_first ?n ?sl). cand_state c \<noteq> UNQUERIED}"
    by (auto dest: mark_first_keeps)
  ultimately show ?thesis
    using wf map_via_peer [OF map_peer_mark_first [of ?n ?sl]]
    unfolding LookupSession_wf_def
    by (simp add: pick_next_queries_eq Let_def comp_def) (blast dest!: subsetD)
qed

section \<open>Runs\<close>

inductive LookupSession_step :: "LookupSession \<Rightarrow> LookupSession \<Rightarrow> bool" where
  add: "LookupSession_step s (LookupSession_add_candidates peers s)"
| pick: "LookupSession_step s (snd (LookupSession_pick_next_queries s))"
| response: "LookupSession_step s (LookupSession_on_response now nid peers s)"
| failure: "LookupSession_step s (LookupSession_on_failure now nid s)"

abbreviation LookupSession_reachable :: "LookupSession \<Rightarrow> LookupSession \<Rightarrow> bool" where
  "LookupSession_reachable \<equiv> LookupSession_step\<^sup>*\<^sup>*"

lemma wf_step: "LookupSession_step s s' \<Longrightarrow> LookupSession_wf s \<Longrightarrow> LookupSession_wf s'"
  by (induction rule: LookupSession_step.induct) (simp_all add: wf_add_candidates wf_pick wf_on_response wf_on_failure)

lemma wf_reachable: "LookupSession_reachable s s' \<Longrightarrow> LookupSession_wf s \<Longrightarrow> LookupSession_wf s'"
  by (induction rule: rtranclp_induct) (auto intro: wf_step)

lemma step_params:
  assumes "LookupSession_step s s'" "LookupSession_wf s"
  shows "ls_target s' = ls_target s \<and> ls_local_id s' = ls_local_id s \<and> alpha s' = alpha s \<and> ls_k s' = ls_k s"
  using assms wf_set_state [of s RESPONDED]
  by (induction rule: LookupSession_step.induct)
    (auto simp: add_candidates_eq wf_sorted pick_next_queries_eq Let_def LookupSession_on_failure_def
      set_candidate_state_def LookupSession_on_response_def LookupSession_add_candidates_def
      LookupSession_sort_shortlist_def split: prod.splits)

lemma reachable_params:
  "LookupSession_reachable s s' \<Longrightarrow> LookupSession_wf s \<Longrightarrow>
   ls_target s' = ls_target s \<and> ls_local_id s' = ls_local_id s \<and> alpha s' = alpha s \<and> ls_k s' = ls_k s"
  by (induction rule: rtranclp_induct) (auto dest: step_params wf_reachable)

text \<open>
  The driver of \<^verbatim>\<open>Node::async_lookup\<close>, in any interleaving: a query round happens only while the
  lookup is not complete and only if it finds somebody to ask; each query in flight is settled
  once, by a response whose peers are nodes of the network \<open>N\<close> or by a failure.
\<close>

inductive LookupSession_drive :: "NodeID set \<Rightarrow> LookupSession \<Rightarrow> LookupSession \<Rightarrow> bool" for N where
  query: "\<not> LookupSession_is_complete s \<Longrightarrow> LookupSession_pick_next_queries s = (ps, s') \<Longrightarrow> ps \<noteq> [] \<Longrightarrow>
    LookupSession_drive N s s'"
| answer: "c \<in> set (shortlist s) \<Longrightarrow> cand_state c = IN_FLIGHT \<Longrightarrow> peer_node_id ` set peers \<subseteq> N \<Longrightarrow>
    LookupSession_drive N s (LookupSession_on_response now (cand_id c) peers s)"
| give_up: "c \<in> set (shortlist s) \<Longrightarrow> cand_state c = IN_FLIGHT \<Longrightarrow>
    LookupSession_drive N s (LookupSession_on_failure now (cand_id c) s)"

lemma drive_step: "LookupSession_drive N s s' \<Longrightarrow> LookupSession_step s s'"
  by (induction rule: LookupSession_drive.induct) (metis LookupSession_step.intros snd_conv)+

abbreviation settled_or_flying :: "LookupSession \<Rightarrow> nat" where
  "settled_or_flying s \<equiv> length (filter (\<lambda>c. cand_state c \<noteq> UNQUERIED) (shortlist s))"

definition lookup_potential :: "NodeID set \<Rightarrow> LookupSession \<Rightarrow> nat" where
  "lookup_potential N s = 2 * (card N - settled_or_flying s) + LookupSession_in_flight_count s"

definition drive_ok :: "NodeID set \<Rightarrow> LookupSession \<Rightarrow> bool" where
  "drive_ok N s \<longleftrightarrow> finite N \<and> LookupSession_wf s \<and> cand_id ` set (shortlist s) \<subseteq> N"

lemma settled_le: "drive_ok N s \<Longrightarrow> settled_or_flying s \<le> card N"
proof -
  assume ok: "drive_ok N s"
  then have "length (shortlist s) = card (cand_id ` set (shortlist s))"
    by (metis drive_ok_def LookupSession_wf_def distinct_card length_map set_map)
  also have "\<dots> \<le> card N" using ok by (auto simp: drive_ok_def intro: card_mono)
  finally show ?thesis by (meson length_filter_le le_trans)
qed

lemma length_filter_update_first:
  "distinct (map k xs) \<Longrightarrow> x \<in> set xs \<Longrightarrow>
   length (filter P (update_first (\<lambda>y. k y = k x) f xs)) + (if P x then 1 else 0) =
   length (filter P xs) + (if P (f x) then 1 else 0)"
proof (induction xs)
  case (Cons y ys)
  show ?case
  proof (cases "k y = k x")
    case True
    with Cons.prems have "y = x" by (auto simp: image_iff)
    then show ?thesis by simp
  next
    case False
    with Cons show ?thesis by (auto split: if_splits)
  qed
qed simp

lemma counts_add_candidates:
  assumes "LookupSession_wf s"
  shows "LookupSession_in_flight_count (LookupSession_add_candidates peers s) = LookupSession_in_flight_count s"
    and "settled_or_flying (LookupSession_add_candidates peers s) = settled_or_flying s"
proof -
  have count: "length (filter P (sort_key f xs)) = length (filter P xs)" for P f and xs :: "LookupCandidate list"
    by (metis mset_filter mset_sort size_mset)
  show "LookupSession_in_flight_count (LookupSession_add_candidates peers s) = LookupSession_in_flight_count s"
    "settled_or_flying (LookupSession_add_candidates peers s) = settled_or_flying s"
    by (simp_all add: add_candidates_eq [OF wf_sorted [OF assms]] LookupSession_in_flight_count_def count filter_map comp_def)
qed

lemma counts_set_state:
  assumes "LookupSession_wf s" "c \<in> set (shortlist s)" "cand_state c = IN_FLIGHT" "st = RESPONDED \<or> st = FAILED"
  shows "Suc (LookupSession_in_flight_count (set_candidate_state (cand_id c) st s)) = LookupSession_in_flight_count s"
    and "settled_or_flying (set_candidate_state (cand_id c) st s) = settled_or_flying s"
proof -
  have d: "distinct (map cand_id (shortlist s))" using assms(1) by (simp add: LookupSession_wf_def)
  note len = length_filter_update_first [OF d assms(2), of _ "\<lambda>c. c\<lparr>cand_state := st\<rparr>"]
  from len [of "\<lambda>c. cand_state c = IN_FLIGHT"] assms(3,4)
  show "Suc (LookupSession_in_flight_count (set_candidate_state (cand_id c) st s)) = LookupSession_in_flight_count s"
    by (auto simp: LookupSession_in_flight_count_def set_candidate_state_def)
  from len [of "\<lambda>c. cand_state c \<noteq> UNQUERIED"] assms(3,4)
  show "settled_or_flying (set_candidate_state (cand_id c) st s) = settled_or_flying s"
    by (auto simp: set_candidate_state_def)
qed

lemma ids_set_state [simp]:
  "cand_id ` set (shortlist (set_candidate_state nid st s)) = cand_id ` set (shortlist s)"
  using map_via_peer [OF map_key_set_state [of "\<lambda>c. cand_id c = nid" st "shortlist s"]]
  by (simp add: set_candidate_state_def)

lemma in_flight_metrics [simp]:
  "LookupSession_in_flight_count (s\<lparr>metrics := m\<rparr>) = LookupSession_in_flight_count s"
  by (simp add: LookupSession_in_flight_count_def)

lemma counts_pick:
  assumes "LookupSession_pick_next_queries s = (ps, s')"
  shows "settled_or_flying s' = settled_or_flying s + length ps"
    and "LookupSession_in_flight_count s' = LookupSession_in_flight_count s + length ps"
    and "cand_id ` set (shortlist s') = cand_id ` set (shortlist s)"
proof -
  let ?n = "max 1 (alpha s - LookupSession_in_flight_count s)" and ?sl = "shortlist s"
  have s': "shortlist s' = mark_first ?n ?sl" and ps: "length ps = min ?n (length (unqueried ?sl))"
    using assms by (auto simp: pick_next_queries_eq Let_def)
  show "LookupSession_in_flight_count s' = LookupSession_in_flight_count s + length ps"
    by (simp only: LookupSession_in_flight_count_def s' in_flight_mark_first ps)
  show "cand_id ` set (shortlist s') = cand_id ` set ?sl"
    using map_via_peer [OF map_peer_mark_first [of ?n ?sl]] s' by simp
  have part: "length (filter (\<lambda>c. cand_state c \<noteq> UNQUERIED) xs) + length (unqueried xs) = length xs" for xs
    using sum_length_filter_compl [of "\<lambda>c. cand_state c = UNQUERIED" xs] by (simp add: add.commute)
  show "settled_or_flying s' = settled_or_flying s + length ps"
    using part [of ?sl] part [of "mark_first ?n ?sl"]
    unfolding s' ps unqueried_mark_first length_mark_first length_drop by linarith
qed

lemma drive_decreases:
  assumes "LookupSession_drive N s s'" "drive_ok N s"
  shows "drive_ok N s' \<and> lookup_potential N s' < lookup_potential N s"
  using assms
proof (induction rule: LookupSession_drive.induct)
  case (query s ps s')
  have ok: "drive_ok N s'"
    using query wf_pick [of s] counts_pick(3) [OF query(2)] by (simp add: drive_ok_def)
  have "0 < length ps" using query by simp
  with settled_le [OF ok] counts_pick(1,2) [OF query(2)]
  have "lookup_potential N s' < lookup_potential N s" unfolding lookup_potential_def by linarith
  with ok show ?case by blast
next
  case (answer c s peers now)
  let ?s1 = "set_candidate_state (cand_id c) RESPONDED s"
  have wf: "LookupSession_wf s" and wf1: "LookupSession_wf ?s1"
    using answer by (auto simp: drive_ok_def wf_set_state)
  have "drive_ok N (LookupSession_on_response now (cand_id c) peers s)"
    using answer wf_on_response [OF wf] ids_add_candidates [OF wf1, of peers]
    by (auto simp: drive_ok_def LookupSession_on_response_def Let_def)
  with counts_add_candidates [OF wf1, of peers] counts_set_state [OF wf answer(1,2), of RESPONDED]
  show ?case by (simp add: lookup_potential_def LookupSession_on_response_def Let_def)
next
  case (give_up c s now)
  have wf: "LookupSession_wf s" using give_up by (simp add: drive_ok_def)
  have "drive_ok N (LookupSession_on_failure now (cand_id c) s)"
    using give_up wf_on_failure [OF wf] by (simp add: drive_ok_def LookupSession_on_failure_def Let_def)
  with counts_set_state [OF wf give_up(1,2), of FAILED] show ?case
    by (simp add: lookup_potential_def LookupSession_on_failure_def Let_def)
qed

lemma drive_run_bound:
  "(LookupSession_drive N ^^ n) s s' \<Longrightarrow> drive_ok N s \<Longrightarrow>
    drive_ok N s' \<and> n + lookup_potential N s' \<le> lookup_potential N s"
proof (induction n arbitrary: s')
  case (Suc n)
  then obtain t where "(LookupSession_drive N ^^ n) s t" "LookupSession_drive N t s'" by auto
  with Suc drive_decreases [of N t s'] show ?case by fastforce
qed simp

lemma pick_progress:
  assumes "\<not> LookupSession_is_complete s" "LookupSession_in_flight_count s = 0"
  shows "fst (LookupSession_pick_next_queries s) \<noteq> []"
proof -
  have "unqueried (shortlist s) \<noteq> []"
    using assms set_take_subset [of "ls_k s" "shortlist s"]
    by (auto simp: is_complete_eq filter_empty_conv)
  then show ?thesis by (simp add: pick_next_queries_eq Let_def)
qed

lemma incomplete_progress:
  assumes "\<not> LookupSession_is_complete s"
  shows "(\<exists>ps s'. LookupSession_pick_next_queries s = (ps, s') \<and> ps \<noteq> []) \<or>
    (\<exists>c \<in> set (shortlist s). cand_state c = IN_FLIGHT)"
proof (cases "LookupSession_in_flight_count s = 0")
  case True
  with pick_progress [OF assms] show ?thesis by (metis prod.collapse)
next
  case False
  then show ?thesis by (auto simp: LookupSession_in_flight_count_def filter_empty_conv)
qed

lemma stuck_complete: "\<nexists>s'. LookupSession_drive N s s' \<Longrightarrow> LookupSession_is_complete s"
  using incomplete_progress [of s] LookupSession_drive.query LookupSession_drive.give_up by blast

section \<open>Properties\<close>

definition test_id :: "u8 \<Rightarrow> NodeID" where
  "test_id n = barray_of [n]"

definition lookup_test :: LookupSession where
  "lookup_test = LookupSession_add_candidates (map (\<lambda>n. \<lparr>peer_node_id = test_id n,
      peer_address = \<lparr>host = ''h'', port = 4000\<rparr>\<rparr>) [9, 4, 6, 1, 4])
      (LookupSession_new (test_id 5) (test_id 1) 2 2 0 zero_barray)"

lemma lookup_test_reachable:
  "LookupSession_reachable (LookupSession_new (test_id 5) (test_id 1) 2 2 0 zero_barray) lookup_test"
  unfolding lookup_test_def by (rule r_into_rtranclp, rule LookupSession_step.add)

text \<open>
  C34. The shortlist invariant, in every reachable session whatever the order of the calls: the
  candidates are sorted by XOR distance to the target, no id occurs twice, the local node is
  never a candidate, and no node is ever sent a second query (\<^verbatim>\<open>queried_nodes\<close> has no duplicates
  and \<^verbatim>\<open>total_rpcs\<close> is its length).
\<close>

theorem LookupSession_reachable_invariant:
  assumes "LookupSession_reachable (LookupSession_new target lid a k now rid) s"
  shows "sorted (map (\<lambda>c. id_val (xor_distance (cand_id c) target)) (shortlist s)) \<and>
    distinct (map cand_id (shortlist s)) \<and> lid \<notin> cand_id ` set (shortlist s) \<and>
    distinct (queried_nodes (metrics s)) \<and> total_rpcs (metrics s) = length (queried_nodes (metrics s)) \<and>
    set (queried_nodes (metrics s)) \<subseteq> cand_id ` {c \<in> set (shortlist s). cand_state c \<noteq> UNQUERIED}"
proof -
  have wf: "LookupSession_wf s" and tgt: "ls_target s = target" and lid: "ls_local_id s = lid"
    using wf_reachable [OF assms LookupSession_wf_new] reachable_params [OF assms LookupSession_wf_new]
    by (auto simp: LookupSession_new_def)
  have "sorted (map (\<lambda>c. id_val (xor_distance (cand_id c) target)) (shortlist s))"
    using wf_sorted [OF wf] by (auto simp: sorted_iff_nth_mono cand_dist_def id_val_le_iff tgt)
  with wf lid show ?thesis unfolding LookupSession_wf_def by blast
qed

theorem LookupSession_reachable_invariant_witness:
  "map cand_id (shortlist lookup_test) = [test_id 4, test_id 6, test_id 9] \<and>
   test_id 1 \<notin> cand_id ` set (shortlist lookup_test)"
proof
  show "map cand_id (shortlist lookup_test) = [test_id 4, test_id 6, test_id 9]" by code_simp
  show "test_id 1 \<notin> cand_id ` set (shortlist lookup_test)"
    using LookupSession_reachable_invariant [OF lookup_test_reachable] by blast
qed

text \<open>
  C31. Termination of the iterative lookup in a finite network: from a session whose candidates lie
  in the finite set \<open>N\<close> of nodes, under every interleaving of query rounds, responses (with
  peers of \<open>N\<close>) and failures, at most \<open>2 * card N\<close> driver steps happen and at most \<open>card N\<close> RPCs are
  sent; and a session in which no step is possible any more is complete.
\<close>

theorem LookupSession_lookup_terminates:
  assumes "finite N" and "LookupSession_reachable (LookupSession_new target lid a k now rid) s0"
    and "LookupSession_in_flight_count s0 = 0" and "cand_id ` set (shortlist s0) \<subseteq> N"
    and "(LookupSession_drive N ^^ n) s0 s"
  shows "n \<le> 2 * card N \<and> total_rpcs (metrics s) \<le> card N \<and>
    ((\<nexists>s'. LookupSession_drive N s s') \<longrightarrow> LookupSession_is_complete s)"
proof -
  have ok: "drive_ok N s0"
    using assms wf_reachable [OF assms(2) LookupSession_wf_new] by (simp add: drive_ok_def)
  from drive_run_bound [OF assms(5) this] have ok': "drive_ok N s" and "n \<le> lookup_potential N s0" by auto
  then have "n \<le> 2 * card N" using assms(3) by (simp add: lookup_potential_def)
  moreover have "total_rpcs (metrics s) = card (set (queried_nodes (metrics s)))"
    "set (queried_nodes (metrics s)) \<subseteq> N"
    using ok' by (auto simp: drive_ok_def LookupSession_wf_def distinct_card)
  then have "total_rpcs (metrics s) \<le> card N" using assms(1) by (simp add: card_mono)
  ultimately show ?thesis using stuck_complete by blast
qed

theorem LookupSession_lookup_terminates_witness:
  "\<exists>s. (LookupSession_drive {test_id 4, test_id 6, test_id 9} ^^ 1) lookup_test s \<and>
       total_rpcs (metrics s) \<le> card {test_id 4, test_id 6, test_id 9}"
proof -
  let ?N = "{test_id 4, test_id 6, test_id 9}"
  let ?s = "snd (LookupSession_pick_next_queries lookup_test)"
  have "LookupSession_drive ?N lookup_test ?s"
  proof (rule LookupSession_drive.query)
    show "\<not> LookupSession_is_complete lookup_test" by code_simp
    show "LookupSession_pick_next_queries lookup_test =
      (fst (LookupSession_pick_next_queries lookup_test), ?s)" by simp
    show "fst (LookupSession_pick_next_queries lookup_test) \<noteq> []" by code_simp
  qed
  then have run: "(LookupSession_drive ?N ^^ 1) lookup_test ?s" by (simp only: relpowp_1)
  have "set (map cand_id (shortlist lookup_test)) \<subseteq> ?N" by code_simp
  then have sub: "cand_id ` set (shortlist lookup_test) \<subseteq> ?N" by simp
  have "LookupSession_in_flight_count lookup_test = 0" by code_simp
  from LookupSession_lookup_terminates [OF _ lookup_test_reachable this sub run] run
  show ?thesis by blast
qed

text \<open>
  A query round picks the unqueried candidates closest to the target, nearest first: as many as
  keep the number in flight at \<open>alpha\<close>, and at least one if there is one (also when \<open>alpha\<close>
  queries are in flight already: the limit is tested after a pick). The picked candidates, and
  only they, go into flight, and each is counted and recorded once.
\<close>

theorem LookupSession_pick_spec:
  assumes "LookupSession_reachable (LookupSession_new target lid a k now rid) s"
    and "LookupSession_pick_next_queries s = (picked, s')"
  shows "let free = [c \<leftarrow> shortlist s. cand_state c = UNQUERIED]; n = LookupSession_in_flight_count s in
    length picked = min (length free) (max 1 (a - n)) \<and>
    set picked \<subseteq> cand_peer ` set free \<and>
    (\<forall>p \<in> set picked. \<forall>c \<in> set free. cand_peer c \<notin> set picked \<longrightarrow>
       id_val (xor_distance (peer_node_id p) target) \<le> id_val (xor_distance (cand_id c) target)) \<and>
    [c \<leftarrow> shortlist s'. cand_state c = UNQUERIED] = [c \<leftarrow> free. cand_peer c \<notin> set picked] \<and>
    map cand_peer (shortlist s') = map cand_peer (shortlist s) \<and>
    LookupSession_in_flight_count s' = n + length picked \<and>
    queried_nodes (metrics s') = queried_nodes (metrics s) @ map peer_node_id picked"
proof -
  have wf: "LookupSession_wf s" and tgt: "ls_target s = target" and al: "alpha s = a"
    using wf_reachable [OF assms(1) LookupSession_wf_new] reachable_params [OF assms(1) LookupSession_wf_new]
    by (auto simp: LookupSession_new_def)
  let ?free = "unqueried (shortlist s)" and ?n = "max 1 (a - LookupSession_in_flight_count s)"
  have picked: "picked = map cand_peer (take ?n ?free)" and sl: "shortlist s' = mark_first ?n (shortlist s)"
    and q: "queried_nodes (metrics s') = queried_nodes (metrics s) @ map peer_node_id picked"
    using assms(2) al by (auto simp: pick_next_queries_eq Let_def)
  have "distinct (map cand_id ?free)" using wf by (simp add: LookupSession_wf_def distinct_map_filter)
  then have inj: "inj_on cand_peer (set ?free)" and dist: "distinct ?free"
    by (auto simp: distinct_map inj_on_def)
  have sorted: "sorted (map (cand_dist target) ?free)"
    using wf_sorted [OF wf] tgt by (simp add: sorted_filter)
  have split: "set (take ?n ?free) \<inter> set (drop ?n ?free) = {}"
    using dist by (metis append_take_drop_id distinct_append)
  have in_picked: "cand_peer c \<in> set picked \<longleftrightarrow> c \<in> set (take ?n ?free)" if "c \<in> set ?free" for c
  proof
    assume "cand_peer c \<in> set picked"
    then obtain d where d: "d \<in> set (take ?n ?free)" "cand_peer c = cand_peer d" by (auto simp: picked)
    with inj that have "c = d" by (meson in_set_takeD inj_onD)
    with d show "c \<in> set (take ?n ?free)" by simp
  qed (simp add: picked)
  have rest: "filter (\<lambda>c. cand_peer c \<notin> set picked) ?free = drop ?n ?free"
  proof -
    have "filter (\<lambda>c. cand_peer c \<notin> set picked) ?free =
      filter (\<lambda>c. c \<notin> set (take ?n ?free)) (take ?n ?free @ drop ?n ?free)"
      unfolding append_take_drop_id using in_picked by (intro filter_cong) simp_all
    also have "\<dots> = drop ?n ?free" using split by (subst filter_append) (auto simp: filter_id_conv)
    finally show ?thesis .
  qed
  have near: "id_val (xor_distance (peer_node_id p) target) \<le> id_val (xor_distance (cand_id c) target)"
    if "p \<in> set picked" "c \<in> set ?free" "cand_peer c \<notin> set picked" for p c
  proof -
    from that(1) obtain d where d: "d \<in> set (take ?n ?free)" "p = cand_peer d" by (auto simp: picked)
    from that(2,3) have "c \<in> set (drop ?n ?free)" unfolding rest [symmetric] by simp
    from sorted_take_le_drop [OF sorted d(1) this] d(2) show ?thesis
      by (simp add: cand_dist_def id_val_le_iff)
  qed
  have "length picked = min (length ?free) ?n" by (simp add: picked)
  moreover have "set picked \<subseteq> cand_peer ` set ?free" by (auto simp: picked dest: in_set_takeD)
  moreover have "unqueried (shortlist s') = filter (\<lambda>c. cand_peer c \<notin> set picked) ?free"
    by (simp only: sl unqueried_mark_first rest)
  moreover have "map cand_peer (shortlist s') = map cand_peer (shortlist s)" by (simp only: sl map_peer_mark_first)
  ultimately show ?thesis
    using near q counts_pick(2) [OF assms(2)] unfolding Let_def by blast
qed

theorem LookupSession_pick_spec_witness:
  "\<exists>picked s'. LookupSession_pick_next_queries lookup_test = (picked, s') \<and>
     map peer_node_id picked = [test_id 4, test_id 6] \<and> LookupSession_in_flight_count s' = 2"
proof -
  obtain picked s' where eq: "LookupSession_pick_next_queries lookup_test = (picked, s')" by fastforce
  have "map peer_node_id (fst (LookupSession_pick_next_queries lookup_test)) = [test_id 4, test_id 6]" by code_simp
  then have ids: "map peer_node_id picked = [test_id 4, test_id 6]" by (simp add: eq)
  then have "length picked = 2" by (metis length_map length_Cons list.size(3) numeral_2_eq_2)
  moreover have "LookupSession_in_flight_count lookup_test = 0" by code_simp
  ultimately have "LookupSession_in_flight_count s' = 2"
    using LookupSession_pick_spec [OF lookup_test_reachable eq] by (auto simp: Let_def)
  with eq ids show ?thesis by metis
qed

text \<open>
  What completion means for the answer. A complete session has nothing in flight, and either all
  of the \<open>k\<close> nearest candidates it ever learnt of have responded (then \<^verbatim>\<open>get_closest(k)\<close> is
  exactly those \<open>k\<close>, each at least as close to the target as every other candidate) or there is no
  candidate left to ask (then the answer is the nearest up to \<open>k\<close> of all that responded).
\<close>

theorem LookupSession_complete_answer:
  assumes "LookupSession_reachable (LookupSession_new target lid a k now rid) s"
    and "LookupSession_is_complete s" and "0 < k"
  shows "(\<forall>c \<in> set (shortlist s). cand_state c \<noteq> IN_FLIGHT) \<and>
    LookupSession_get_closest k s = take k [cand_peer c. c \<leftarrow> shortlist s, cand_state c = RESPONDED] \<and>
    ((\<forall>c \<in> set (shortlist s). cand_state c \<noteq> UNQUERIED) \<or>
     LookupSession_get_closest k s = map cand_peer (take k (shortlist s)) \<and>
     length (LookupSession_get_closest k s) = k \<and>
     (\<forall>p \<in> set (LookupSession_get_closest k s). \<forall>c \<in> set (drop k (shortlist s)).
        id_val (xor_distance (peer_node_id p) target) \<le> id_val (xor_distance (cand_id c) target)))"
proof -
  have wf: "LookupSession_wf s" and tgt: "ls_target s = target" and k: "ls_k s = k"
    using wf_reachable [OF assms(1) LookupSession_wf_new] reachable_params [OF assms(1) LookupSession_wf_new]
    by (auto simp: LookupSession_new_def)
  let ?resp = "filter (\<lambda>c. cand_state c = RESPONDED)"
  have concat: "[cand_peer c. c \<leftarrow> xs, cand_state c = RESPONDED] = map cand_peer (?resp xs)" for xs
    by (induction xs) auto
  have gc: "LookupSession_get_closest k s = map cand_peer (take k (?resp (shortlist s)))"
    using assms(3) by (simp add: LookupSession_get_closest_def get_closest_loop_eq max_def)
  have none: "\<forall>c \<in> set (shortlist s). cand_state c \<noteq> IN_FLIGHT"
    using assms(2) by (simp add: is_complete_eq LookupSession_in_flight_count_def filter_empty_conv)
  have top: "LookupSession_get_closest k s = map cand_peer (take k (shortlist s)) \<and>
     length (LookupSession_get_closest k s) = k" if "k \<le> length (?resp (take k (shortlist s)))"
  proof -
    have "length (take k (shortlist s)) \<le> length (?resp (take k (shortlist s)))"
      using that by simp
    then have all: "?resp (take k (shortlist s)) = take k (shortlist s)"
      by (metis filter_id_conv length_filter_less linorder_not_le)
    then have len: "length (take k (shortlist s)) = k" using that by simp
    have "?resp (shortlist s) = take k (shortlist s) @ ?resp (drop k (shortlist s))"
      by (metis all append_take_drop_id filter_append)
    then show ?thesis using len by (simp add: gc)
  qed
  have near: "id_val (xor_distance (peer_node_id p) target) \<le> id_val (xor_distance (cand_id c) target)"
    if p: "p \<in> set (map cand_peer (take k (shortlist s)))" and c: "c \<in> set (drop k (shortlist s))" for p c
    using p sorted_take_le_drop [OF wf_sorted [OF wf] _ c, unfolded tgt]
    by (auto simp: cand_dist_def id_val_le_iff)
  have "k \<le> length (?resp (take k (shortlist s))) \<or> (\<forall>c \<in> set (shortlist s). cand_state c \<noteq> UNQUERIED)"
    using assms(2) by (auto simp: is_complete_eq k filter_empty_conv)
  moreover have "LookupSession_get_closest k s = take k [cand_peer c. c \<leftarrow> shortlist s, cand_state c = RESPONDED]"
    by (simp add: gc concat take_map)
  moreover have "\<forall>p \<in> set (LookupSession_get_closest k s). \<forall>c \<in> set (drop k (shortlist s)).
        id_val (xor_distance (peer_node_id p) target) \<le> id_val (xor_distance (cand_id c) target)"
    if "k \<le> length (?resp (take k (shortlist s)))"
    using top [OF that] near by simp
  ultimately show ?thesis using none top by blast
qed

definition lookup_test_asked :: LookupSession where
  "lookup_test_asked = snd (LookupSession_pick_next_queries lookup_test)"

definition lookup_test_done :: LookupSession where
  "lookup_test_done = LookupSession_on_response 9 (test_id 6) []
     (LookupSession_on_response 7 (test_id 4) [] lookup_test_asked)"

lemma lookup_test_asked_eq:
  "shortlist lookup_test_asked = map (\<lambda>(n, st). \<lparr>cand_peer = \<lparr>peer_node_id = test_id n,
      peer_address = \<lparr>host = ''h'', port = 4000\<rparr>\<rparr>, cand_state = st\<rparr>)
     [(4, IN_FLIGHT), (6, IN_FLIGHT), (9, UNQUERIED)]"
  by code_simp

lemma on_response_no_peers:
  "shortlist (LookupSession_on_response now nid [] s) =
     update_first (\<lambda>c. cand_id c = nid) (\<lambda>c. c\<lparr>cand_state := RESPONDED\<rparr>) (shortlist s)"
  "ls_k (LookupSession_on_response now nid [] s) = ls_k s"
  by (simp_all add: LookupSession_on_response_def LookupSession_add_candidates_def set_candidate_state_def Let_def)

lemma lookup_test_done_complete: "LookupSession_is_complete lookup_test_done"
proof -
  have "test_id 4 \<noteq> test_id 6" "test_id 9 \<noteq> test_id 6" by code_simp+
  moreover have "ls_k lookup_test_asked = 2"
    using reachable_params [OF lookup_test_reachable LookupSession_wf_new]
    by (simp add: lookup_test_asked_def pick_next_queries_eq Let_def LookupSession_new_def)
  ultimately show ?thesis
    by (simp add: is_complete_eq LookupSession_in_flight_count_def lookup_test_done_def on_response_no_peers
        lookup_test_asked_eq numeral_2_eq_2)
qed

theorem LookupSession_complete_answer_witness:
  "LookupSession_is_complete lookup_test_done \<and>
   LookupSession_get_closest 2 lookup_test_done =
     take 2 [cand_peer c. c \<leftarrow> shortlist lookup_test_done, cand_state c = RESPONDED]"
proof -
  have "LookupSession_step lookup_test lookup_test_asked"
    unfolding lookup_test_asked_def by (rule LookupSession_step.pick)
  moreover have "LookupSession_step lookup_test_asked (LookupSession_on_response 7 (test_id 4) [] lookup_test_asked)"
    by (rule LookupSession_step.response)
  moreover have "LookupSession_step (LookupSession_on_response 7 (test_id 4) [] lookup_test_asked) lookup_test_done"
    unfolding lookup_test_done_def by (rule LookupSession_step.response)
  ultimately have "LookupSession_reachable lookup_test lookup_test_done"
    by (blast intro: converse_rtranclp_into_rtranclp)
  with lookup_test_reachable have
    reach: "LookupSession_reachable (LookupSession_new (test_id 5) (test_id 1) 2 2 0 zero_barray) lookup_test_done"
    by (rule rtranclp_trans)
  note answer = LookupSession_complete_answer [OF reach lookup_test_done_complete zero_less_numeral]
  from lookup_test_done_complete conjunct1 [OF conjunct2 [OF answer]] show ?thesis by (rule conjI)
qed

end
