(* ===== verification/Sodium.thy ===== *)
theory Sodium
  imports P2P_Prelude
begin

text \<open>
  The interface to libsodium, which is not part of the repository. Every operation that calls it
  takes a record \<open>so\<close> of the functions it uses; a failing call (non-zero return value) is \<open>None\<close>.
  Random bytes are arguments of the operations that draw them. The predicates \<open>sodium_ready\<close>,
  \<open>ed25519_correct\<close>, \<open>x25519_agrees\<close> and \<open>aead_correct\<close> state what the library documents; properties
  that rely on them have them as hypotheses. \<open>toy_sodium\<close> is a concrete instance for the witnesses,
  with no cryptographic strength.
\<close>

section \<open>Exceptions\<close>

datatype exn = runtime_error string | invalid_argument string | filesystem_error string | out_of_range string

type_synonym 'a throwing = "exn + 'a"

definition throw_bind :: "'a throwing \<Rightarrow> ('a \<Rightarrow> 'b throwing) \<Rightarrow> 'b throwing" where
  "throw_bind r f = (case r of Inl e \<Rightarrow> Inl e | Inr x \<Rightarrow> f x)"

lemma throw_bind_simps [simp]: "throw_bind (Inr x) f = f x" "throw_bind (Inl e) f = Inl e"
  by (simp_all add: throw_bind_def)

lemma throw_bind_Inr_iff: "throw_bind r f = Inr y \<longleftrightarrow> (\<exists>x. r = Inr x \<and> f x = Inr y)"
  by (cases r) simp_all

section \<open>The library's functions\<close>

type_synonym public_key = "32 barray"
type_synonym secret_key = "64 barray"
type_synonym signature = "64 barray"

record sodium =
  sodium_init :: int
  crypto_hash_sha256 :: "bytes \<Rightarrow> 32 barray"
  crypto_sign_ed25519_keypair :: "32 barray \<Rightarrow> public_key \<times> secret_key"
  crypto_sign_ed25519_detached :: "bytes \<Rightarrow> secret_key \<Rightarrow> signature option"
  crypto_sign_ed25519_verify_detached :: "signature \<Rightarrow> bytes \<Rightarrow> public_key \<Rightarrow> bool"
  crypto_scalarmult_base :: "32 barray \<Rightarrow> 32 barray option"
  crypto_scalarmult :: "32 barray \<Rightarrow> 32 barray \<Rightarrow> 32 barray option"
  crypto_auth_hmacsha256 :: "bytes \<Rightarrow> bytes \<Rightarrow> 32 barray"
  crypto_aead_encrypt :: "bytes \<Rightarrow> bytes \<Rightarrow> 12 barray \<Rightarrow> 32 barray \<Rightarrow> bytes option"
  crypto_aead_decrypt :: "bytes \<Rightarrow> bytes \<Rightarrow> 12 barray \<Rightarrow> 32 barray \<Rightarrow> bytes option"

text \<open>Initialisation succeeded (\<^verbatim>\<open>sodium_init() >= 0\<close>).\<close>

definition sodium_ready :: "sodium \<Rightarrow> bool" where
  "sodium_ready so \<longleftrightarrow> 0 \<le> sodium_init so"

text \<open>
  Ed25519: signing with a generated secret key succeeds and the signature verifies under the
  public key; the secret key is the seed followed by the public key.
\<close>

definition ed25519_correct :: "sodium \<Rightarrow> bool" where
  "ed25519_correct so \<longleftrightarrow>
     (\<forall>seed m. \<exists>sig. crypto_sign_ed25519_detached so m (snd (crypto_sign_ed25519_keypair so seed)) = Some sig \<and>
        crypto_sign_ed25519_verify_detached so sig m (fst (crypto_sign_ed25519_keypair so seed))) \<and>
     (\<forall>seed. drop 32 (bytes_of (snd (crypto_sign_ed25519_keypair so seed))) =
        bytes_of (fst (crypto_sign_ed25519_keypair so seed)))"

text \<open>X25519: both ends of a Diffie-Hellman exchange compute the same value.\<close>

definition x25519_agrees :: "sodium \<Rightarrow> bool" where
  "x25519_agrees so \<longleftrightarrow>
     (\<forall>a b pa pb. crypto_scalarmult_base so a = Some pa \<longrightarrow> crypto_scalarmult_base so b = Some pb \<longrightarrow>
        crypto_scalarmult so a pb = crypto_scalarmult so b pa)"

text \<open>ChaCha20-Poly1305: encryption succeeds, adds a 16-byte tag, and decryption inverts it.\<close>

definition aead_correct :: "sodium \<Rightarrow> bool" where
  "aead_correct so \<longleftrightarrow>
     (\<forall>p aad n k. \<exists>c. crypto_aead_encrypt so p aad n k = Some c \<and> length c = length p + 16 \<and>
        crypto_aead_decrypt so c aad n k = Some p)"

section \<open>A concrete instance\<close>

definition toy_sodium :: sodium where
  "toy_sodium =
     \<lparr>sodium_init = 0,
      crypto_hash_sha256 = (\<lambda>m. barray_of m),
      crypto_sign_ed25519_keypair = (\<lambda>seed. (seed, barray_of (bytes_of seed @ bytes_of seed))),
      crypto_sign_ed25519_detached = (\<lambda>m sk. Some (barray_of (drop 32 (bytes_of sk) @ m))),
      crypto_sign_ed25519_verify_detached = (\<lambda>sig m pk. sig = barray_of (bytes_of pk @ m)),
      crypto_scalarmult_base = (\<lambda>a. Some a),
      crypto_scalarmult = (\<lambda>a b. Some (barray_of (map2 (\<lambda>x y. x + y) (bytes_of a) (bytes_of b)))),
      crypto_auth_hmacsha256 = (\<lambda>k m. barray_of (rev m @ k)),
      crypto_aead_encrypt = (\<lambda>p aad n k. Some (p @ replicate 16 0)),
      crypto_aead_decrypt = (\<lambda>c aad n k.
        if drop (length c - 16) c = replicate 16 0 then Some (take (length c - 16) c) else None)\<rparr>"

lemma toy_sodium_ready: "sodium_ready toy_sodium"
  by (simp add: sodium_ready_def toy_sodium_def)

lemma toy_sodium_ed25519: "ed25519_correct toy_sodium"
  by (simp add: ed25519_correct_def toy_sodium_def bytes_of_barray_of_exact)

lemma toy_sodium_x25519: "x25519_agrees toy_sodium"
proof -
  have "map2 (\<lambda>x y. x + y) xs ys = map2 (\<lambda>x y. x + y) ys xs" for xs ys :: bytes
    by (induction xs ys rule: list_induct2') (auto simp: add.commute)
  then show ?thesis by (simp add: x25519_agrees_def toy_sodium_def)
qed

lemma toy_sodium_aead: "aead_correct toy_sodium"
  by (simp add: aead_correct_def toy_sodium_def)

end
