(* ===== verification/Identity.thy ===== *)
theory Identity
  imports Common_Types Sodium
begin

text \<open>
  Model of \<^verbatim>\<open>src/identity/node_id.{hpp,cpp}\<close> and \<^verbatim>\<open>keypair.{hpp,cpp}\<close>: node ids as the SHA-256 of
  the Ed25519 public key, the DHT keys, aliases, and the identity key pair with its two files.
  The file system is the record \<open>filesystem\<close>: the contents of the files by directory and name,
  which directories can be created, which files can be opened and which paths can be examined; the sources do not test
  whether a write to an open file succeeded, and here it does. The destructor and the
  moves of a key pair, which wipe its secret key, are in \<open>Key_Lifecycle\<close>.
\<close>

section \<open>Node ids and DHT keys\<close>

definition sha256 :: "sodium \<Rightarrow> bytes \<Rightarrow> 32 barray" where
  "sha256 so data = crypto_hash_sha256 so data"

definition sha256_string :: "sodium \<Rightarrow> string \<Rightarrow> 32 barray" where
  "sha256_string so s = sha256 so (string_bytes s)"

definition compute_node_id :: "sodium \<Rightarrow> public_key \<Rightarrow> NodeID" where
  "compute_node_id so pk = sha256 so (bytes_of pk)"

definition verify_node_id :: "sodium \<Rightarrow> NodeID \<Rightarrow> public_key \<Rightarrow> bool" where
  "verify_node_id so claimed pk \<longleftrightarrow> bytes_of claimed = bytes_of (compute_node_id so pk)"

definition is_closer :: "NodeID \<Rightarrow> NodeID \<Rightarrow> bool" where
  "is_closer dist_a dist_b \<longleftrightarrow> dist_a < dist_b"

definition sort_by_distance :: "PeerInfo list \<Rightarrow> NodeID \<Rightarrow> PeerInfo list" where
  "sort_by_distance peers target = sort_key (\<lambda>p. xor_distance target (peer_node_id p)) peers"

definition alias_whitespace :: string where
  "alias_whitespace = [CHR '' '', CHR 0x09, CHR 0x0A, CHR 0x0D]"

definition identity_normalize_alias :: "string \<Rightarrow> string" where
  "identity_normalize_alias a =
     (case (find_first_not_of alias_whitespace a, find_last_not_of alias_whitespace a) of
        (Some start, Some stop) \<Rightarrow> map (\<lambda>i. tolower (a ! i)) [start..<Suc stop]
      | _ \<Rightarrow> [])"

definition compute_record_key :: "sodium \<Rightarrow> NodeID \<Rightarrow> NodeID" where
  "compute_record_key so nid = sha256_string so (''node:'' @ NodeID_to_hex nid)"

definition compute_alias_key :: "sodium \<Rightarrow> string \<Rightarrow> NodeID" where
  "compute_alias_key so a = sha256_string so (''alias:'' @ identity_normalize_alias a)"

section \<open>Key pairs\<close>

record Keypair =
  kp_public_key :: public_key
  kp_secret_key :: secret_key

definition Keypair_node_id :: "sodium \<Rightarrow> Keypair \<Rightarrow> NodeID" where
  "Keypair_node_id so kp = compute_node_id so (kp_public_key kp)"

definition Keypair_generate :: "sodium \<Rightarrow> 32 barray \<Rightarrow> Keypair throwing" where
  "Keypair_generate so seed =
     (if sodium_init so < 0 then Inl (runtime_error ''Failed to initialize libsodium'')
      else case crypto_sign_ed25519_keypair so seed of
        (pk, sk) \<Rightarrow> Inr \<lparr>kp_public_key = pk, kp_secret_key = sk\<rparr>)"

definition Keypair_sign :: "sodium \<Rightarrow> bytes \<Rightarrow> Keypair \<Rightarrow> signature throwing" where
  "Keypair_sign so message kp =
     (case crypto_sign_ed25519_detached so message (kp_secret_key kp) of
        None \<Rightarrow> Inl (runtime_error ''Ed25519 signing failed'')
      | Some sig \<Rightarrow> Inr sig)"

definition Keypair_verify :: "sodium \<Rightarrow> signature \<Rightarrow> bytes \<Rightarrow> public_key \<Rightarrow> bool" where
  "Keypair_verify so sig message pk \<longleftrightarrow> crypto_sign_ed25519_verify_detached so sig message pk"

definition RequestID_generate :: "sodium \<Rightarrow> RequestID \<Rightarrow> RequestID throwing" where
  "RequestID_generate so rand =
     (if sodium_init so < 0 then Inl (runtime_error ''Failed to initialize libsodium'') else Inr rand)"

section \<open>The identity files\<close>

type_synonym path = "string \<times> string"

record filesystem =
  fs_files :: "path \<rightharpoonup> bytes"
  fs_can_create :: "string \<Rightarrow> bool"
  fs_can_write :: "path \<Rightarrow> bool"
  fs_can_read :: "path \<Rightarrow> bool"
  fs_can_stat :: "path \<Rightarrow> bool"

definition path_string :: "path \<Rightarrow> string" where
  "path_string p = (case p of (dir, name) \<Rightarrow>
     if dir = [] then name else if last dir = CHR ''/'' then dir @ name else dir @ ''/'' @ name)"

text \<open>
  \<^verbatim>\<open>std::filesystem::exists\<close>, the overload that throws when the path cannot be examined (a directory on
  the way that may not be searched, a name that is too long). A file that can be read can be examined.
\<close>

definition fs_exists :: "filesystem \<Rightarrow> path \<Rightarrow> bool throwing" where
  "fs_exists fs p =
     (if fs_can_stat fs p \<or> fs_can_read fs p then Inr (fs_files fs p \<noteq> None)
      else Inl (filesystem_error (path_string p)))"

text \<open>Opening a file and reading \<open>n\<close> bytes; \<open>None\<close> when it cannot be opened or is too short.\<close>

definition read_bytes :: "filesystem \<Rightarrow> path \<Rightarrow> nat \<Rightarrow> bytes option" where
  "read_bytes fs p n =
     (case fs_files fs p of
        Some content \<Rightarrow> if fs_can_read fs p \<and> n \<le> length content then Some (take n content) else None
      | None \<Rightarrow> None)"

definition Keypair_load :: "filesystem \<Rightarrow> string \<Rightarrow> Keypair option throwing" where
  "Keypair_load fs dir =
     (let pub_path = (dir, ''identity.pub''); key_path = (dir, ''identity.key'') in
      throw_bind (fs_exists fs pub_path) (\<lambda>pub_there.
      throw_bind (if pub_there then fs_exists fs key_path else Inr False) (\<lambda>both_there.
      Inr (if \<not> both_there then None
      else case read_bytes fs pub_path 32 of
        None \<Rightarrow> None
      | Some pk \<Rightarrow>
          (case read_bytes fs key_path 64 of
             None \<Rightarrow> None
           | Some sk \<Rightarrow>
               if take 32 (drop 32 sk) \<noteq> pk then None
               else Some \<lparr>kp_public_key = barray_of pk, kp_secret_key = barray_of sk\<rparr>)))))"

definition write_file :: "filesystem \<Rightarrow> path \<Rightarrow> bytes \<Rightarrow> filesystem" where
  "write_file fs p content = fs\<lparr>fs_files := (fs_files fs)(p \<mapsto> content)\<rparr>"

definition Keypair_save :: "filesystem \<Rightarrow> string \<Rightarrow> Keypair \<Rightarrow> unit throwing \<times> filesystem" where
  "Keypair_save fs dir kp =
     (let pub_path = (dir, ''identity.pub''); key_path = (dir, ''identity.key'') in
      if \<not> fs_can_create fs dir then (Inl (filesystem_error dir), fs)
      else if \<not> fs_can_write fs pub_path
      then (Inl (runtime_error (''Cannot write '' @ path_string pub_path)), fs)
      else let fs1 = write_file fs pub_path (bytes_of (kp_public_key kp)) in
      if \<not> fs_can_write fs1 key_path
      then (Inl (runtime_error (''Cannot write '' @ path_string key_path)), fs1)
      else (Inr (), write_file fs1 key_path (bytes_of (kp_secret_key kp))))"

definition Keypair_load_or_generate ::
  "sodium \<Rightarrow> 32 barray \<Rightarrow> filesystem \<Rightarrow> string \<Rightarrow> Keypair throwing \<times> filesystem" where
  "Keypair_load_or_generate so seed fs dir =
     (case Keypair_load fs dir of
        Inl e \<Rightarrow> (Inl e, fs)
      | Inr (Some kp) \<Rightarrow> (Inr kp, fs)
      | Inr None \<Rightarrow>
          (case Keypair_generate so seed of
             Inl e \<Rightarrow> (Inl e, fs)
           | Inr kp \<Rightarrow>
               (case Keypair_save fs dir kp of
                  (Inl e, fs') \<Rightarrow> (Inl e, fs')
                | (Inr _, fs') \<Rightarrow> (Inr kp, fs'))))"

section \<open>Lemmas\<close>

lemma verify_node_id_iff: "verify_node_id so nid pk \<longleftrightarrow> nid = compute_node_id so pk"
  by (simp add: verify_node_id_def barray_eq_iff)

lemma identity_normalize_alias_eq: "identity_normalize_alias a = map tolower (trim alias_whitespace a)"
proof (cases a rule: trim_cases [of alias_whitespace])
  case 1
  then show ?thesis by (simp add: identity_normalize_alias_def)
next
  case (2 start stop)
  have "map (\<lambda>i. a ! i) [start..<Suc stop] = take (stop - start + 1) (drop start a)"
    using 2(3,4) by (intro nth_equalityI) (auto simp del: upt_Suc)
  then have "map (\<lambda>i. tolower (a ! i)) [start..<Suc stop] = map tolower (trim alias_whitespace a)"
    using 2(5) by (metis (no_types, lifting) comp_apply list.map_comp map_eq_conv)
  with 2 show ?thesis by (simp add: identity_normalize_alias_def del: upt_Suc)
qed

lemma tolower_whitespace [simp]: "tolower c \<in> set alias_whitespace \<longleftrightarrow> c \<in> set alias_whitespace"
proof -
  have "d \<in> set alias_whitespace \<longleftrightarrow> (of_char d :: nat) \<in> {32, 9, 10, 13}" for d
    using of_char_eq_iff [of d "CHR '' ''", where 'a = nat] of_char_eq_iff [of d "CHR 0x09", where 'a = nat]
      of_char_eq_iff [of d "CHR 0x0A", where 'a = nat] of_char_eq_iff [of d "CHR 0x0D", where 'a = nat]
    by (simp add: alias_whitespace_def)
  then show ?thesis by (auto simp: tolower_def)
qed

lemma trim_idem_lower:
  "trim alias_whitespace (map tolower (trim alias_whitespace a)) = map tolower (trim alias_whitespace a)"
proof (cases a rule: trim_cases [of alias_whitespace])
  case (2 start stop)
  let ?t = "map tolower (trim alias_whitespace a)"
  have "?t \<noteq> []" "hd ?t \<notin> set alias_whitespace" "last ?t \<notin> set alias_whitespace"
    using 2 by (simp_all add: hd_map last_map)
  then have "dropWhile (\<lambda>c. c \<in> set alias_whitespace) ?t = ?t"
    "dropWhile (\<lambda>c. c \<in> set alias_whitespace) (rev ?t) = rev ?t"
    by (simp_all add: dropWhile_eq_self_iff hd_rev)
  then show ?thesis by (simp add: trim_def)
next
  case 1
  then show ?thesis by simp
qed

lemma generate_keypair_layout:
  assumes "ed25519_correct so" "Keypair_generate so seed = Inr kp"
  shows "drop 32 (bytes_of (kp_secret_key kp)) = bytes_of (kp_public_key kp)"
    and "\<exists>sig. Keypair_sign so m kp = Inr sig \<and> Keypair_verify so sig m (kp_public_key kp)"
proof -
  from assms(2) have kp: "kp = \<lparr>kp_public_key = fst (crypto_sign_ed25519_keypair so seed),
      kp_secret_key = snd (crypto_sign_ed25519_keypair so seed)\<rparr>"
    by (auto simp: Keypair_generate_def split: if_splits prod.splits)
  show "drop 32 (bytes_of (kp_secret_key kp)) = bytes_of (kp_public_key kp)"
    using assms(1) by (simp add: kp ed25519_correct_def)
  obtain sig where "crypto_sign_ed25519_detached so m (snd (crypto_sign_ed25519_keypair so seed)) = Some sig"
    "crypto_sign_ed25519_verify_detached so sig m (fst (crypto_sign_ed25519_keypair so seed))"
    using assms(1) unfolding ed25519_correct_def by blast
  then show "\<exists>sig. Keypair_sign so m kp = Inr sig \<and> Keypair_verify so sig m (kp_public_key kp)"
    by (simp add: kp Keypair_sign_def Keypair_verify_def)
qed

lemma load_after_save:
  assumes "Keypair_save fs dir kp = (Inr (), fs')"
    and "drop 32 (bytes_of (kp_secret_key kp)) = bytes_of (kp_public_key kp)"
    and "fs_can_read fs (dir, ''identity.pub'')" "fs_can_read fs (dir, ''identity.key'')"
  shows "Keypair_load fs' dir = Inr (Some kp)"
proof -
  have fs': "fs' = write_file (write_file fs (dir, ''identity.pub'') (bytes_of (kp_public_key kp)))
      (dir, ''identity.key'') (bytes_of (kp_secret_key kp))"
    using assms(1) by (auto simp: Keypair_save_def Let_def split: if_splits)
  show ?thesis
    using assms(2-4) by (simp add: fs' write_file_def Keypair_load_def fs_exists_def read_bytes_def Let_def)
qed

section \<open>Properties\<close>

definition test_fs :: filesystem where
  "test_fs = \<lparr>fs_files = (\<lambda>_. None), fs_can_create = (\<lambda>_. True), fs_can_write = (\<lambda>_. True),
     fs_can_read = (\<lambda>_. True), fs_can_stat = (\<lambda>_. True)\<rparr>"

text \<open>
  C37. A node keeps its identity: whatever key pair \<^verbatim>\<open>load_or_generate\<close> returned (loaded, or
  generated and saved), every later call on the same directory returns the same key pair and
  leaves the files alone, whatever random seed it would have used; and the second half of its
  secret key is its public key.
\<close>

theorem Keypair_identity_persists:
  assumes "ed25519_correct so"
    and "fs_can_read fs (dir, ''identity.pub'')" and "fs_can_read fs (dir, ''identity.key'')"
    and "Keypair_load_or_generate so seed fs dir = (Inr kp, fs')"
  shows "(\<forall>seed'. Keypair_load_or_generate so seed' fs' dir = (Inr kp, fs')) \<and>
    drop 32 (bytes_of (kp_secret_key kp)) = bytes_of (kp_public_key kp)"
proof (cases "case Keypair_load fs dir of Inr (Some k) \<Rightarrow> Some k | _ \<Rightarrow> None")
  case None
  with assms(4) have gen: "Keypair_generate so seed = Inr kp" and save: "Keypair_save fs dir kp = (Inr (), fs')"
    by (auto simp: Keypair_load_or_generate_def split: sum.splits prod.splits option.splits)
  note layout = generate_keypair_layout(1) [OF assms(1) gen]
  from load_after_save [OF save layout assms(2,3)] layout show ?thesis
    by (simp add: Keypair_load_or_generate_def)
next
  case (Some k)
  then have loaded: "Keypair_load fs dir = Inr (Some k)" by (auto split: sum.splits option.splits)
  with assms(4) have "kp = k" "fs' = fs" by (auto simp: Keypair_load_or_generate_def)
  moreover from loaded have "drop 32 (bytes_of (kp_secret_key k)) = bytes_of (kp_public_key k)"
    by (auto simp: Keypair_load_def fs_exists_def read_bytes_def Let_def split: if_splits option.splits)
  ultimately show ?thesis using loaded by (simp add: Keypair_load_or_generate_def)
qed

theorem Keypair_identity_persists_witness:
  "\<exists>kp fs'. Keypair_load_or_generate toy_sodium (barray_of [7]) test_fs ''data'' = (Inr kp, fs') \<and>
     Keypair_load_or_generate toy_sodium (barray_of [8]) fs' ''data'' = (Inr kp, fs')"
proof -
  let ?r = "Keypair_load_or_generate toy_sodium (barray_of [7]) test_fs ''data''"
  obtain kp fs' where r: "?r = (Inr kp, fs')"
    by (simp add: Keypair_load_or_generate_def Keypair_load_def fs_exists_def Keypair_generate_def Keypair_save_def
        toy_sodium_def test_fs_def write_file_def)
  have "fs_can_read test_fs (''data'', ''identity.pub'')" "fs_can_read test_fs (''data'', ''identity.key'')"
    by (simp_all add: test_fs_def)
  from Keypair_identity_persists [OF toy_sodium_ed25519 this r] r show ?thesis by blast
qed

end
