(* ===== verification/Json.thy ===== *)
theory Json
  imports Common_Types "HOL-Library.Finite_Map" "HOL-Library.Monad_Syntax"
begin

text \<open>
  The interface to nlohmann::json, which is not part of the repository: the values the sources
  build and read, with objects as finite maps, and the library functions the sources call, which
  are a parameter \<open>jl\<close> of every operation that uses them. A function that can throw returns an
  option, with \<open>None\<close> for the exception; every codec of the sources catches it and reports failure.

  The documented behaviour the codecs rely on is stated by \<open>cbor_roundtrip jl j\<close> (for one value
  \<open>j\<close>), and by \<open>json_laws jl\<close> for the accessors: \<^verbatim>\<open>contains\<close> and \<^verbatim>\<open>operator[]\<close> on objects,
  \<^verbatim>\<open>get<T>\<close> on values of the matching type and its \<^verbatim>\<open>type_error\<close> on strings, binaries and booleans
  of another type, \<^verbatim>\<open>value\<close> with its default for a missing key and its \<^verbatim>\<open>type_error\<close> on values that
  are not objects. How \<^verbatim>\<open>get\<close> converts numbers of another size or sign is left open.
\<close>

datatype json =
    JNull
  | JBool bool
  | JInt int
  | JUInt u64
  | JFloat int
  | JString string
  | JBinary bytes
  | JArray "json list"
  | JObject "(string, json) fmap"

record json_lib =
  to_cbor :: "json \<Rightarrow> bytes"
  from_cbor :: "bytes \<Rightarrow> json option"
  j_contains :: "json \<Rightarrow> string \<Rightarrow> bool"
  j_at :: "json \<Rightarrow> string \<Rightarrow> json"
  j_is_array :: "json \<Rightarrow> bool"
  j_is_binary :: "json \<Rightarrow> bool"
  j_items :: "json \<Rightarrow> json list"
  get_string :: "json \<Rightarrow> string option"
  get_binary :: "json \<Rightarrow> bytes option"
  get_bool :: "json \<Rightarrow> bool option"
  get_u8 :: "json \<Rightarrow> u8 option"
  get_u16 :: "json \<Rightarrow> u16 option"
  get_u64 :: "json \<Rightarrow> u64 option"
  value_string :: "json \<Rightarrow> string \<Rightarrow> string \<Rightarrow> string option"
  value_u16 :: "json \<Rightarrow> string \<Rightarrow> u16 \<Rightarrow> u16 option"

definition json_obj :: "(string \<times> json) list \<Rightarrow> json" where
  "json_obj kvs = JObject (fmap_of_list kvs)"

definition cbor_roundtrip :: "json_lib \<Rightarrow> json \<Rightarrow> bool" where
  "cbor_roundtrip jl j \<longleftrightarrow> to_cbor jl j \<noteq> [] \<and> from_cbor jl (to_cbor jl j) = Some j"

section \<open>Documented behaviour of the accessors\<close>

definition json_object_laws :: "json_lib \<Rightarrow> bool" where
  "json_object_laws jl \<longleftrightarrow>
     (\<forall>m k. j_contains jl (JObject m) k \<longleftrightarrow> fmlookup m k \<noteq> None) \<and>
     (\<forall>j k. j_contains jl j k \<longrightarrow> (\<exists>m. j = JObject m)) \<and>
     (\<forall>m k v. fmlookup m k = Some v \<longrightarrow> j_at jl (JObject m) k = v) \<and>
     (\<forall>m k d. value_string jl (JObject m) k d =
        (case fmlookup m k of None \<Rightarrow> Some d | Some v \<Rightarrow> get_string jl v)) \<and>
     (\<forall>m k d. value_u16 jl (JObject m) k d =
        (case fmlookup m k of None \<Rightarrow> Some d | Some v \<Rightarrow> get_u16 jl v)) \<and>
     (\<forall>j k d. value_string jl j k d \<noteq> None \<longrightarrow> (\<exists>m. j = JObject m)) \<and>
     (\<forall>j k d. value_u16 jl j k d \<noteq> None \<longrightarrow> (\<exists>m. j = JObject m))"

definition json_get_laws :: "json_lib \<Rightarrow> bool" where
  "json_get_laws jl \<longleftrightarrow>
     (\<forall>j s. get_string jl j = Some s \<longleftrightarrow> j = JString s) \<and>
     (\<forall>j b. get_binary jl j = Some b \<longleftrightarrow> j = JBinary b) \<and>
     (\<forall>j b. get_bool jl j = Some b \<longleftrightarrow> j = JBool b) \<and>
     (\<forall>n. get_u8 jl (JUInt (ucast n)) = Some n) \<and>
     (\<forall>n. get_u16 jl (JUInt (ucast n)) = Some n) \<and>
     (\<forall>n. get_u64 jl (JUInt n) = Some n)"

definition json_array_laws :: "json_lib \<Rightarrow> bool" where
  "json_array_laws jl \<longleftrightarrow>
     (\<forall>j. j_is_array jl j \<longleftrightarrow> (\<exists>xs. j = JArray xs)) \<and>
     (\<forall>j. j_is_binary jl j \<longleftrightarrow> (\<exists>b. j = JBinary b)) \<and>
     (\<forall>xs. j_items jl (JArray xs) = xs)"

definition json_laws :: "json_lib \<Rightarrow> bool" where
  "json_laws jl \<longleftrightarrow> json_object_laws jl \<and> json_get_laws jl \<and> json_array_laws jl"

named_theorems json_law_simps \<open>rewrite rules that hold under the accessor laws\<close>

lemma jl_contains_obj [json_law_simps]:
  "json_laws jl \<Longrightarrow> j_contains jl (json_obj kvs) k \<longleftrightarrow> map_of kvs k \<noteq> None"
  by (simp add: json_laws_def json_object_laws_def json_obj_def fmlookup_of_list)

lemma jl_at_obj [json_law_simps]:
  "json_laws jl \<Longrightarrow> map_of kvs k = Some v \<Longrightarrow> j_at jl (json_obj kvs) k = v"
  by (simp add: json_laws_def json_object_laws_def json_obj_def fmlookup_of_list)

lemma jl_value_string_obj [json_law_simps]:
  "json_laws jl \<Longrightarrow> value_string jl (json_obj kvs) k d =
     (case map_of kvs k of None \<Rightarrow> Some d | Some v \<Rightarrow> get_string jl v)"
  by (simp add: json_laws_def json_object_laws_def json_obj_def fmlookup_of_list)

lemma jl_value_u16_obj [json_law_simps]:
  "json_laws jl \<Longrightarrow> value_u16 jl (json_obj kvs) k d =
     (case map_of kvs k of None \<Rightarrow> Some d | Some v \<Rightarrow> get_u16 jl v)"
  by (simp add: json_laws_def json_object_laws_def json_obj_def fmlookup_of_list)

lemma jl_get [json_law_simps]:
  assumes "json_laws jl"
  shows "get_string jl (JString s) = Some s" "get_binary jl (JBinary b) = Some b" "get_bool jl (JBool c) = Some c"
    "get_u8 jl (JUInt (ucast w8)) = Some w8" "get_u16 jl (JUInt (ucast w16)) = Some w16"
    "get_u64 jl (JUInt w64) = Some w64"
  using assms by (auto simp: json_laws_def json_get_laws_def)

lemma jl_get_iff:
  assumes "json_laws jl"
  shows "get_string jl j = Some s \<longleftrightarrow> j = JString s" "get_binary jl j = Some b \<longleftrightarrow> j = JBinary b"
    "get_bool jl j = Some c \<longleftrightarrow> j = JBool c"
  using assms by (auto simp: json_laws_def json_get_laws_def)

lemma jl_array [json_law_simps]:
  assumes "json_laws jl"
  shows "j_is_array jl (JArray xs)" "j_items jl (JArray xs) = xs" "j_is_binary jl (JBinary b)"
  using assms by (auto simp: json_laws_def json_array_laws_def)

section \<open>Reading fields\<close>

text \<open>
  \<open>guard c\<close> is \<^verbatim>\<open>if (!c) return false\<close> in a function whose failure is \<open>None\<close>. The two \<open>parse\<close>
  functions are \<^verbatim>\<open>if (!from_hex(s, out)) return false\<close>; the initial value of \<^verbatim>\<open>out\<close> is not read.
\<close>

definition guard :: "bool \<Rightarrow> unit option" where
  "guard c = (if c then Some () else None)"

definition parse_NodeID :: "string \<Rightarrow> NodeID option" where
  "parse_NodeID s = (case NodeID_from_hex s zero_barray of (ok, nid) \<Rightarrow> if ok then Some nid else None)"

definition parse_RequestID :: "string \<Rightarrow> RequestID option" where
  "parse_RequestID s = (case RequestID_from_hex s zero_barray of (ok, rid) \<Rightarrow> if ok then Some rid else None)"

lemma guard_simps [simp]: "guard True = Some ()" "guard False = None"
  by (simp_all add: guard_def)

lemma guard_Some [simp]: "guard c = Some x \<longleftrightarrow> c"
  by (simp add: guard_def)

lemma parse_NodeID_to_hex [simp]: "parse_NodeID (NodeID_to_hex nid) = Some nid"
  by (simp add: parse_NodeID_def NodeID_to_hex_def NodeID_from_hex_def array_from_hex_to_hex)

lemma parse_RequestID_to_hex [simp]: "parse_RequestID (RequestID_to_hex rid) = Some rid"
  by (simp add: parse_RequestID_def RequestID_to_hex_def RequestID_from_hex_def array_from_hex_to_hex)

section \<open>A concrete instance\<close>

text \<open>The documented accessors, with given CBOR conversions.\<close>

fun obj_lookup :: "json \<Rightarrow> string \<Rightarrow> json option" where
  "obj_lookup (JObject m) k = fmlookup m k"
| "obj_lookup _ k = None"

definition is_obj :: "json \<Rightarrow> bool" where
  "is_obj j \<longleftrightarrow> (case j of JObject _ \<Rightarrow> True | _ \<Rightarrow> False)"

definition plain_json :: "(json \<Rightarrow> bytes) \<Rightarrow> (bytes \<Rightarrow> json option) \<Rightarrow> json_lib" where
  "plain_json enc dec =
     \<lparr>to_cbor = enc, from_cbor = dec,
      j_contains = (\<lambda>j k. obj_lookup j k \<noteq> None),
      j_at = (\<lambda>j k. case obj_lookup j k of Some v \<Rightarrow> v | None \<Rightarrow> JNull),
      j_is_array = (\<lambda>j. case j of JArray _ \<Rightarrow> True | _ \<Rightarrow> False),
      j_is_binary = (\<lambda>j. case j of JBinary _ \<Rightarrow> True | _ \<Rightarrow> False),
      j_items = (\<lambda>j. case j of JArray xs \<Rightarrow> xs | _ \<Rightarrow> []),
      get_string = (\<lambda>j. case j of JString s \<Rightarrow> Some s | _ \<Rightarrow> None),
      get_binary = (\<lambda>j. case j of JBinary b \<Rightarrow> Some b | _ \<Rightarrow> None),
      get_bool = (\<lambda>j. case j of JBool b \<Rightarrow> Some b | _ \<Rightarrow> None),
      get_u8 = (\<lambda>j. case j of JUInt n \<Rightarrow> Some (ucast n) | _ \<Rightarrow> None),
      get_u16 = (\<lambda>j. case j of JUInt n \<Rightarrow> Some (ucast n) | _ \<Rightarrow> None),
      get_u64 = (\<lambda>j. case j of JUInt n \<Rightarrow> Some n | _ \<Rightarrow> None),
      value_string = (\<lambda>j k d. if is_obj j
        then (case obj_lookup j k of None \<Rightarrow> Some d | Some (JString s) \<Rightarrow> Some s | Some _ \<Rightarrow> None) else None),
      value_u16 = (\<lambda>j k d. if is_obj j
        then (case obj_lookup j k of None \<Rightarrow> Some d | Some (JUInt n) \<Rightarrow> Some (ucast n) | Some _ \<Rightarrow> None) else None)\<rparr>"

lemma ucast_ucast_widen:
  "LENGTH('a) \<le> LENGTH('b) \<Longrightarrow> (ucast (ucast (w :: 'a::len word) :: 'b::len word) :: 'a word) = w"
  by (rule bit_word_eqI) (auto simp: bit_simps)

lemma plain_json_laws: "json_laws (plain_json enc dec)"
proof -
  have "json_object_laws (plain_json enc dec)"
    unfolding json_object_laws_def plain_json_def
    by (auto simp: is_obj_def split: json.splits option.splits elim!: obj_lookup.elims)
  moreover have "json_get_laws (plain_json enc dec)"
    unfolding json_get_laws_def plain_json_def by (auto simp: ucast_ucast_widen split: json.splits)
  moreover have "json_array_laws (plain_json enc dec)"
    unfolding json_array_laws_def plain_json_def by (auto split: json.splits)
  ultimately show ?thesis by (simp add: json_laws_def)
qed

text \<open>Instances whose CBOR form carries the one value \<open>j\<close>, or the two values \<open>j1\<close> and \<open>j2\<close>.\<close>

definition toy_json2 :: "json \<Rightarrow> json \<Rightarrow> json_lib" where
  "toy_json2 j1 j2 = plain_json (\<lambda>j. if j = j1 then [1] else [2])
     (\<lambda>b. if b = [1] then Some j1 else if b = [2] then Some j2 else None)"

definition toy_json :: "json \<Rightarrow> json_lib" where
  "toy_json j = toy_json2 j j"

lemma toy_json2_laws: "json_laws (toy_json2 j1 j2)"
  by (simp add: toy_json2_def plain_json_laws)

lemma toy_json_laws: "json_laws (toy_json j)"
  by (simp add: toy_json_def toy_json2_laws)

lemma toy_json2_roundtrip:
  "cbor_roundtrip (toy_json2 j1 j2) j1" "cbor_roundtrip (toy_json2 j1 j2) j2"
  by (simp_all add: cbor_roundtrip_def toy_json2_def plain_json_def)

lemma toy_json_roundtrip: "cbor_roundtrip (toy_json j) j"
  by (simp add: toy_json_def toy_json2_roundtrip)

end
