(* ===== verification/Node_Record.thy ===== *)
theory Node_Record
  imports Identity Json
begin

text \<open>
  Model of \<^verbatim>\<open>src/dht/node_record.hpp\<close> and \<^verbatim>\<open>node_record.cpp\<close>: the signed address records, their
  canonical byte form, signing, verification, validation, and the DHT keys of nodes and aliases.
  Times are 64-bit seconds, so \<^verbatim>\<open>current_time_sec + SKEW_TOLERANCE\<close> wraps. The CBOR form
  (\<^verbatim>\<open>to_cbor\<close>, \<^verbatim>\<open>from_cbor\<close>) is built on the JSON library parameter \<open>jl\<close>.
\<close>

datatype RecordValidationError =
    ValidationNone
  | InvalidSize
  | IdentityMismatch
  | InvalidSignature
  | Expired
  | NotYetValid
  | EmptyAddresses
  | InvalidAddress
  | RollbackDetected

record NodeRecord =
  rec_node_id :: NodeID
  identity_public_key :: public_key
  addresses :: "PeerAddress list"
  sequence_number :: u64
  issued_at :: u64
  expires_at :: u64
  rec_alias :: string
  rec_signature :: signature

section \<open>Operations\<close>

fun record_validation_error_name :: "RecordValidationError \<Rightarrow> string" where
  "record_validation_error_name ValidationNone = ''None''"
| "record_validation_error_name InvalidSize = ''InvalidSize''"
| "record_validation_error_name IdentityMismatch = ''IdentityMismatch''"
| "record_validation_error_name InvalidSignature = ''InvalidSignature''"
| "record_validation_error_name Expired = ''Expired''"
| "record_validation_error_name NotYetValid = ''NotYetValid''"
| "record_validation_error_name EmptyAddresses = ''EmptyAddresses''"
| "record_validation_error_name InvalidAddress = ''InvalidAddress''"
| "record_validation_error_name RollbackDetected = ''RollbackDetected''"

definition node_record_key :: "sodium \<Rightarrow> NodeID \<Rightarrow> NodeID" where
  "node_record_key so nid = crypto_hash_sha256 so (string_bytes ''node:'' @ bytes_of nid)"

definition normalize_alias :: "string \<Rightarrow> string" where
  "normalize_alias a =
     (case find_first_not_of alias_whitespace a of
        None \<Rightarrow> []
      | Some start \<Rightarrow>
          (case find_last_not_of alias_whitespace a of
             Some stop \<Rightarrow> map tolower (substr start (stop - start + 1) a)
           | None \<Rightarrow> []))"

definition alias_record_key :: "sodium \<Rightarrow> string \<Rightarrow> NodeID" where
  "alias_record_key so a = crypto_hash_sha256 so (string_bytes ''alias:'' @ string_bytes (normalize_alias a))"

definition append_address :: "PeerAddress \<Rightarrow> bytes" where
  "append_address a =
     be_bytes 2 (of_nat (length (host a)) :: u16) @ string_bytes (host a) @ be_bytes 2 (port a)"

definition canonical_bytes :: "NodeRecord \<Rightarrow> bytes" where
  "canonical_bytes r =
     bytes_of (rec_node_id r) @ bytes_of (identity_public_key r) @
     be_bytes 8 (sequence_number r) @ be_bytes 8 (issued_at r) @ be_bytes 8 (expires_at r) @
     be_bytes 2 (of_nat (length (rec_alias r)) :: u16) @ string_bytes (rec_alias r) @
     be_bytes 2 (of_nat (length (addresses r)) :: u16) @ concat (map append_address (addresses r))"

definition NodeRecord_sign :: "sodium \<Rightarrow> Keypair \<Rightarrow> NodeRecord \<Rightarrow> NodeRecord throwing" where
  "NodeRecord_sign so kp r =
     (let r1 = r\<lparr>rec_node_id := Keypair_node_id so kp, identity_public_key := kp_public_key kp\<rparr>
      in throw_bind (Keypair_sign so (canonical_bytes r1) kp) (\<lambda>sig. Inr (r1\<lparr>rec_signature := sig\<rparr>)))"

definition NodeRecord_verify_signature :: "sodium \<Rightarrow> NodeRecord \<Rightarrow> bool" where
  "NodeRecord_verify_signature so r \<longleftrightarrow>
     (if \<not> verify_node_id so (rec_node_id r) (identity_public_key r) then False
      else Keypair_verify so (rec_signature r) (canonical_bytes r) (identity_public_key r))"

definition SKEW_TOLERANCE :: u64 where
  "SKEW_TOLERANCE = 30"

definition NodeRecord_is_time_valid :: "u64 \<Rightarrow> NodeRecord \<Rightarrow> bool" where
  "NodeRecord_is_time_valid now r \<longleftrightarrow>
     (if now + SKEW_TOLERANCE < issued_at r then False
      else if expires_at r < now then False
      else True)"

definition NodeRecord_validate :: "sodium \<Rightarrow> u64 \<Rightarrow> NodeRecord \<Rightarrow> RecordValidationError" where
  "NodeRecord_validate so now r =
     (if 256 < length (rec_alias r) \<or> 16 < length (addresses r) then InvalidSize
      else if addresses r = [] then EmptyAddresses
      else if list_ex (\<lambda>a. host a = [] \<or> port a = 0) (addresses r) then InvalidAddress
      else if now + SKEW_TOLERANCE < issued_at r then NotYetValid
      else if expires_at r < now then Expired
      else if \<not> verify_node_id so (rec_node_id r) (identity_public_key r) then IdentityMismatch
      else if \<not> NodeRecord_verify_signature so r then InvalidSignature
      else ValidationNone)"

definition address_json :: "PeerAddress \<Rightarrow> json" where
  "address_json a = json_obj [(''host'', JString (host a)), (''port'', JUInt (ucast (port a)))]"

definition record_json :: "NodeRecord \<Rightarrow> json" where
  "record_json r = json_obj
     [(''node_id'', JString (NodeID_to_hex (rec_node_id r))),
      (''public_key'', JBinary (bytes_of (identity_public_key r))),
      (''seq'', JUInt (sequence_number r)), (''issued_at'', JUInt (issued_at r)),
      (''expires_at'', JUInt (expires_at r)), (''alias'', JString (rec_alias r)),
      (''sig'', JBinary (bytes_of (rec_signature r))),
      (''addrs'', JArray (map address_json (addresses r)))]"

definition NodeRecord_to_cbor :: "json_lib \<Rightarrow> NodeRecord \<Rightarrow> bytes" where
  "NodeRecord_to_cbor jl r = to_cbor jl (record_json r)"

text \<open>The loop over the address items; a \<^verbatim>\<open>value\<close> that throws ends it.\<close>

fun parse_addresses :: "json_lib \<Rightarrow> json list \<Rightarrow> PeerAddress list option" where
  "parse_addresses jl [] = Some []"
| "parse_addresses jl (item # items) = do {
     h \<leftarrow> value_string jl item ''host'' '''';
     p \<leftarrow> value_u16 jl item ''port'' 0;
     as \<leftarrow> parse_addresses jl items;
     Some (\<lparr>host = h, port = p\<rparr> # as)
   }"

definition NodeRecord_from_cbor :: "json_lib \<Rightarrow> bytes \<Rightarrow> NodeRecord option" where
  "NodeRecord_from_cbor jl bs = do {
     guard (bs \<noteq> []);
     j \<leftarrow> from_cbor jl bs;
     guard (list_all (j_contains jl j)
       [''node_id'', ''public_key'', ''seq'', ''issued_at'', ''expires_at'', ''sig'', ''addrs'']);
     nid_hex \<leftarrow> get_string jl (j_at jl j ''node_id'');
     nid \<leftarrow> parse_NodeID nid_hex;
     pk \<leftarrow> get_binary jl (j_at jl j ''public_key'');
     guard (length pk = 32);
     sq \<leftarrow> get_u64 jl (j_at jl j ''seq'');
     issued \<leftarrow> get_u64 jl (j_at jl j ''issued_at'');
     expires \<leftarrow> get_u64 jl (j_at jl j ''expires_at'');
     al \<leftarrow> value_string jl j ''alias'' '''';
     sig \<leftarrow> get_binary jl (j_at jl j ''sig'');
     guard (length sig = 64);
     addrs \<leftarrow> parse_addresses jl (j_items jl (j_at jl j ''addrs''));
     Some \<lparr>rec_node_id = nid, identity_public_key = barray_of pk, addresses = addrs, sequence_number = sq,
           issued_at = issued, expires_at = expires, rec_alias = al, rec_signature = barray_of sig\<rparr>
   }"

section \<open>Lemmas\<close>

lemma normalize_alias_eq: "normalize_alias a = map tolower (trim alias_whitespace a)"
proof (cases a rule: trim_cases [of alias_whitespace])
  case (2 start stop)
  then show ?thesis by (simp add: normalize_alias_def substr_def)
qed (simp add: normalize_alias_def)

lemma append_address_inject:
  assumes "length (host a) < 2 ^ 16" "length (host b) < 2 ^ 16"
    and "append_address a @ r = append_address b @ r'"
  shows "a = (b :: PeerAddress) \<and> r = r'"
proof -
  from assms(3) have "be_bytes 2 (of_nat (length (host a)) :: u16) @ string_bytes (host a) @ be_bytes 2 (port a) @ r =
    be_bytes 2 (of_nat (length (host b)) :: u16) @ string_bytes (host b) @ be_bytes 2 (port b) @ r'"
    by (simp add: append_address_def)
  from length_prefixed_inject [OF assms(1,2) this]
  have "host a = host b" "be_bytes 2 (port a) = be_bytes 2 (port b)" "r = r'"
    by (auto simp: append_eq_append_conv)
  then show ?thesis by (simp add: be16_inject)
qed

lemma addresses_inject:
  assumes "length as = length bs" "\<forall>a \<in> set as \<union> set bs. length (host a) < 2 ^ 16"
    and "concat (map append_address as) @ r = concat (map append_address bs) @ r'"
  shows "as = (bs :: PeerAddress list)"
  using assms
proof (induction as bs rule: list_induct2)
  case (Cons a as b bs)
  then have "a = b \<and> concat (map append_address as) @ r = concat (map append_address bs) @ r'"
    by (intro append_address_inject) auto
  with Cons show ?case by auto
qed simp

definition canonical_sizes :: "NodeRecord \<Rightarrow> bool" where
  "canonical_sizes r \<longleftrightarrow> length (rec_alias r) < 2 ^ 16 \<and> length (addresses r) < 2 ^ 16 \<and>
     (\<forall>a \<in> set (addresses r). length (host a) < 2 ^ 16)"

lemma canonical_bytes_fields:
  assumes "canonical_sizes r" "canonical_sizes r'" "canonical_bytes r = canonical_bytes r'"
  shows "rec_node_id r = rec_node_id r' \<and> identity_public_key r = identity_public_key r' \<and>
    sequence_number r = sequence_number r' \<and> issued_at r = issued_at r' \<and> expires_at r = expires_at r' \<and>
    rec_alias r = rec_alias r' \<and> addresses r = addresses r'"
proof -
  from assms(3) have fixed: "bytes_of (rec_node_id r) = bytes_of (rec_node_id r')"
      "bytes_of (identity_public_key r) = bytes_of (identity_public_key r')"
      "be_bytes 8 (sequence_number r) = be_bytes 8 (sequence_number r')"
      "be_bytes 8 (issued_at r) = be_bytes 8 (issued_at r')" "be_bytes 8 (expires_at r) = be_bytes 8 (expires_at r')"
    and rest: "be_bytes 2 (of_nat (length (rec_alias r)) :: u16) @ string_bytes (rec_alias r) @
      be_bytes 2 (of_nat (length (addresses r)) :: u16) @ concat (map append_address (addresses r)) =
      be_bytes 2 (of_nat (length (rec_alias r')) :: u16) @ string_bytes (rec_alias r') @
      be_bytes 2 (of_nat (length (addresses r')) :: u16) @ concat (map append_address (addresses r'))"
    by (auto simp: canonical_bytes_def append_eq_append_conv)
  have "rec_alias r = rec_alias r'" and
    addrs: "be_bytes 2 (of_nat (length (addresses r)) :: u16) @ concat (map append_address (addresses r)) =
      be_bytes 2 (of_nat (length (addresses r')) :: u16) @ concat (map append_address (addresses r'))"
    using length_prefixed_inject [OF _ _ rest] assms(1,2) by (auto simp: canonical_sizes_def)
  then have "length (addresses r) = length (addresses r')"
    and cc: "concat (map append_address (addresses r)) @ [] = concat (map append_address (addresses r')) @ []"
    using assms(1,2) by (auto simp: append_eq_append_conv canonical_sizes_def be16_length_inject)
  then have "addresses r = addresses r'"
    using assms(1,2) by (intro addresses_inject [OF _ _ cc]) (auto simp: canonical_sizes_def)
  with fixed \<open>rec_alias r = rec_alias r'\<close> show ?thesis
    by (simp add: be64_inject bytes_of_inject)
qed

lemma validate_None_iff:
  "NodeRecord_validate so now r = ValidationNone \<longleftrightarrow>
    length (rec_alias r) \<le> 256 \<and> length (addresses r) \<le> 16 \<and> addresses r \<noteq> [] \<and>
    (\<forall>a \<in> set (addresses r). host a \<noteq> [] \<and> port a \<noteq> 0) \<and>
    NodeRecord_is_time_valid now r \<and> NodeRecord_verify_signature so r"
  by (auto simp: NodeRecord_validate_def NodeRecord_is_time_valid_def NodeRecord_verify_signature_def list_ex_iff)

lemma parse_addresses_json:
  "json_laws jl \<Longrightarrow> parse_addresses jl (map address_json as) = Some as"
  by (induction as) (simp_all add: address_json_def json_law_simps)

lemma NodeRecord_from_to_cbor:
  assumes "json_laws jl" "cbor_roundtrip jl (record_json r)"
  shows "NodeRecord_from_cbor jl (NodeRecord_to_cbor jl r) = Some r"
proof -
  have cb: "to_cbor jl (record_json r) \<noteq> []" "from_cbor jl (to_cbor jl (record_json r)) = Some (record_json r)"
    using assms(2) by (simp_all add: cbor_roundtrip_def)
  show ?thesis
    using assms(1) unfolding NodeRecord_from_cbor_def NodeRecord_to_cbor_def
    by (simp add: cb) (simp add: record_json_def json_law_simps parse_addresses_json)
qed

section \<open>Properties\<close>

definition test_record :: NodeRecord where
  "test_record =
     \<lparr>rec_node_id = zero_barray, identity_public_key = zero_barray,
      addresses = [\<lparr>host = ''10.0.0.1'', port = 4000\<rparr>], sequence_number = 1, issued_at = 100,
      expires_at = 280, rec_alias = ''alice'', rec_signature = zero_barray\<rparr>"

definition test_keypair :: Keypair where
  "test_keypair = \<lparr>kp_public_key = barray_of [5], kp_secret_key = barray_of (bytes_of (barray_of [5] :: public_key) @ [5])\<rparr>"

lemma test_keypair_generated: "Keypair_generate toy_sodium (barray_of [5]) = Inr test_keypair"
  by code_simp

text \<open>
  The signed byte form determines the record: two records whose alias, address count and host
  names are shorter than \<open>2\<^sup>1\<^sup>6\<close> and that have the same canonical bytes agree in every field
  except the signature.
\<close>

theorem canonical_bytes_injective:
  assumes "canonical_sizes r" "canonical_sizes r'" "canonical_bytes r = canonical_bytes r'"
  shows "r\<lparr>rec_signature := s\<rparr> = r'\<lparr>rec_signature := s\<rparr>"
  using canonical_bytes_fields [OF assms] by simp

theorem canonical_bytes_injective_witness:
  "canonical_bytes test_record = canonical_bytes (test_record\<lparr>rec_signature := barray_of [1]\<rparr>) \<and>
   test_record\<lparr>rec_signature := zero_barray\<rparr> = (test_record\<lparr>rec_signature := barray_of [1]\<rparr>)\<lparr>rec_signature := zero_barray\<rparr>"
proof -
  let ?r' = "test_record\<lparr>rec_signature := barray_of [1]\<rparr>"
  have sizes: "canonical_sizes test_record" "canonical_sizes ?r'"
    by (simp_all add: canonical_sizes_def test_record_def)
  have eq: "canonical_bytes test_record = canonical_bytes ?r'" by (simp add: canonical_bytes_def)
  from canonical_bytes_injective [OF sizes eq] eq show ?thesis by blast
qed

text \<open>The two address lists of the collision: all their bytes are 1.\<close>

definition ones :: "nat \<Rightarrow> PeerAddress" where
  "ones n = \<lparr>host = replicate n (CHR 0x01), port = 0x0101\<rparr>"

lemma append_address_ones:
  "append_address (ones n) = be_bytes 2 (of_nat n :: u16) @ replicate (n + 2) 1"
proof -
  have "be_bytes 2 (0x0101 :: u16) = [1, 1]" by code_simp
  then have port: "be_bytes 2 (0x0101 :: u16) = replicate 2 1" by (simp add: numeral_2_eq_2)
  have host: "string_bytes (replicate n (CHR 0x01)) = replicate n 1" by (simp add: string_bytes_def)
  show ?thesis
    by (simp only: append_address_def ones_def PeerAddress.simps length_replicate port host replicate_add)
qed

text \<open>
  The host lengths are cut to 16 bits without a check, and validation does not bound them. There
  are two records with different address lists, one naming a host the other does not, that
  have the same canonical bytes; so any signature valid for one is valid for the other, and
  validation accepts both or neither.
\<close>

theorem canonical_bytes_collision:
  "let r1 = test_record\<lparr>addresses := [ones 65537, ones 257]\<rparr>;
       r2 = test_record\<lparr>addresses := [ones 1, ones 65793]\<rparr>
   in addresses r1 \<noteq> addresses r2 \<and> canonical_bytes r1 = canonical_bytes r2 \<and>
      (\<forall>so now sig pk nid.
         let f = (\<lambda>r. r\<lparr>rec_signature := sig, identity_public_key := pk, rec_node_id := nid\<rparr>)
         in NodeRecord_validate so now (f r1) = NodeRecord_validate so now (f r2))"
proof -
  have len: "be_bytes 2 (of_nat 65537 :: u16) = [0, 1]" "be_bytes 2 (of_nat 1 :: u16) = [0, 1]"
    "be_bytes 2 (of_nat 257 :: u16) = [1, 1]" "be_bytes 2 (of_nat 65793 :: u16) = [1, 1]"
    by (simp_all only: of_nat_numeral of_nat_1) (code_simp+)
  have two: "[1, 1 :: u8] = replicate 2 1" by (simp add: numeral_2_eq_2)
  have "concat (map append_address [ones 65537, ones 257]) = [0, 1] @ replicate 65539 1 @ replicate 2 1 @ replicate 259 1"
    "concat (map append_address [ones 1, ones 65793]) = [0, 1] @ replicate 3 1 @ replicate 2 1 @ replicate 65795 1"
    by (simp_all only: list.map concat.simps append_address_ones len two append_Nil2 append_assoc) (simp_all add: numeral_3_eq_3)
  then have addrs: "concat (map append_address [ones 65537, ones 257]) = concat (map append_address [ones 1, ones 65793])"
    by (simp only: flip: replicate_add) simp
  have can: "canonical_bytes (r\<lparr>addresses := [ones 65537, ones 257]\<rparr>) =
    canonical_bytes (r\<lparr>addresses := [ones 1, ones 65793]\<rparr>)" for r
    using addrs by (simp add: canonical_bytes_def)
  have can': "canonical_bytes (r\<lparr>addresses := [ones 65537, ones 257], rec_signature := sig,
      identity_public_key := pk, rec_node_id := nid\<rparr>) =
    canonical_bytes (r\<lparr>addresses := [ones 1, ones 65793], rec_signature := sig,
      identity_public_key := pk, rec_node_id := nid\<rparr>)" for r sig pk nid
    using addrs by (simp add: canonical_bytes_def)
  have port: "port (ones n) \<noteq> 0" "n \<noteq> 0 \<Longrightarrow> host (ones n) \<noteq> []" for n by (simp_all add: ones_def)
  have "length (host (ones 65537)) \<noteq> length (host (ones 1))" by (simp add: ones_def)
  then have "ones 65537 \<noteq> ones 1" by metis
  then show ?thesis
    using can [of test_record] can' [where r = test_record]
    by (simp add: Let_def NodeRecord_validate_def NodeRecord_verify_signature_def port)
qed

text \<open>
  Publishing works: a record with acceptable sizes and addresses, signed by a freshly generated
  key pair, passes full validation at every time of its validity window, and carries the node
  id that belongs to the key.
\<close>

theorem NodeRecord_sign_validates:
  assumes "ed25519_correct so" and "Keypair_generate so seed = Inr kp"
    and "length (rec_alias r) \<le> 256" and "addresses r \<noteq> []" and "length (addresses r) \<le> 16"
    and "\<forall>a \<in> set (addresses r). host a \<noteq> [] \<and> port a \<noteq> 0"
    and "unat (issued_at r) \<le> unat now + 30" and "unat now + 30 < 2 ^ 64" and "now \<le> expires_at r"
  shows "\<exists>r'. NodeRecord_sign so kp r = Inr r' \<and> NodeRecord_validate so now r' = ValidationNone \<and>
    rec_node_id r' = compute_node_id so (identity_public_key r') \<and>
    addresses r' = addresses r \<and> rec_alias r' = rec_alias r \<and> sequence_number r' = sequence_number r"
proof -
  let ?r1 = "r\<lparr>rec_node_id := Keypair_node_id so kp, identity_public_key := kp_public_key kp\<rparr>"
  obtain sig where sig: "Keypair_sign so (canonical_bytes ?r1) kp = Inr sig"
    "Keypair_verify so sig (canonical_bytes ?r1) (kp_public_key kp)"
    using generate_keypair_layout(2) [OF assms(1,2)] by blast
  let ?r' = "?r1\<lparr>rec_signature := sig\<rparr>"
  have "canonical_bytes ?r' = canonical_bytes ?r1" by (simp add: canonical_bytes_def)
  then have "NodeRecord_verify_signature so ?r'"
    using sig(2) by (simp add: NodeRecord_verify_signature_def verify_node_id_iff Keypair_node_id_def)
  moreover have "unat (now + SKEW_TOLERANCE) = unat now + 30"
    using assms(8) by (simp add: SKEW_TOLERANCE_def unat_word_ariths)
  then have "NodeRecord_is_time_valid now ?r'"
    using assms(7,9) by (simp add: NodeRecord_is_time_valid_def word_less_nat_alt not_less word_le_nat_alt)
  ultimately have "NodeRecord_validate so now ?r' = ValidationNone"
    using assms(3-6) by (simp add: validate_None_iff)
  moreover have "NodeRecord_sign so kp r = Inr ?r'" using sig(1) by (simp add: NodeRecord_sign_def Let_def)
  ultimately show ?thesis by (auto simp: Keypair_node_id_def)
qed

theorem NodeRecord_sign_validates_witness:
  "\<exists>r'. NodeRecord_sign toy_sodium test_keypair test_record = Inr r' \<and>
     NodeRecord_validate toy_sodium 100 r' = ValidationNone"
  using NodeRecord_sign_validates [OF toy_sodium_ed25519 test_keypair_generated,
      where r = test_record and now = 100]
  by (auto simp: test_record_def)

text \<open>
  What an accepted record guarantees: its node id is the hash of its key, its signature verifies
  over the canonical bytes, the time is within the validity window (with 30 seconds of skew,
  for clocks that do not overflow), and it has 1 to 16 usable addresses. The two tests the code
  makes for the window, in \<^verbatim>\<open>validate\<close> and in \<^verbatim>\<open>is_time_valid\<close>, agree.
\<close>

theorem NodeRecord_validate_sound:
  assumes "NodeRecord_validate so now r = ValidationNone"
  shows "rec_node_id r = crypto_hash_sha256 so (bytes_of (identity_public_key r)) \<and>
    crypto_sign_ed25519_verify_detached so (rec_signature r) (canonical_bytes r) (identity_public_key r) \<and>
    unat now \<le> unat (expires_at r) \<and>
    (unat now + 30 < 2 ^ 64 \<longrightarrow> unat (issued_at r) \<le> unat now + 30) \<and>
    NodeRecord_is_time_valid now r \<and>
    length (addresses r) \<in> {1..16} \<and> length (rec_alias r) \<le> 256 \<and>
    (\<forall>a \<in> set (addresses r). host a \<noteq> [] \<and> port a \<noteq> 0)"
proof -
  note v = assms [unfolded validate_None_iff]
  have "unat (issued_at r) \<le> unat now + 30" if "unat now + 30 < 2 ^ 64"
  proof -
    have "unat (now + SKEW_TOLERANCE) = unat now + 30"
      using that by (simp add: SKEW_TOLERANCE_def unat_word_ariths)
    with v show ?thesis
      by (auto simp: NodeRecord_is_time_valid_def word_less_nat_alt split: if_splits)
  qed
  moreover have "rec_node_id r = crypto_hash_sha256 so (bytes_of (identity_public_key r))"
    "crypto_sign_ed25519_verify_detached so (rec_signature r) (canonical_bytes r) (identity_public_key r)"
    using v by (auto simp: NodeRecord_verify_signature_def verify_node_id_iff compute_node_id_def sha256_def
        Keypair_verify_def split: if_splits)
  moreover have "unat now \<le> unat (expires_at r)"
    using v by (auto simp: NodeRecord_is_time_valid_def word_less_nat_alt split: if_splits)
  moreover have "1 \<le> length (addresses r)" using v by (simp add: Suc_le_eq)
  ultimately show ?thesis using v by simp
qed

theorem NodeRecord_validate_sound_witness:
  "\<exists>r. NodeRecord_validate toy_sodium 100 r = ValidationNone \<and> NodeRecord_is_time_valid 100 r"
proof -
  have "NodeRecord_validate toy_sodium 100 (the (case NodeRecord_sign toy_sodium test_keypair test_record of
      Inr r \<Rightarrow> Some r | Inl _ \<Rightarrow> None)) = ValidationNone" by code_simp
  with NodeRecord_validate_sound [OF this] show ?thesis by blast
qed

text \<open>
  Aliases: the DHT component and the identity component normalise in two different ways (a
  substring against an index loop) with the same result, so both derive the same alias key;
  the result has no surrounding white space and normalising it again changes nothing. For node
  keys the two components hash different bytes: the raw node id (37 bytes with its prefix) and
  its hex form (69 bytes).
\<close>

theorem record_keys_agree:
  "normalize_alias a = identity_normalize_alias a \<and>
   alias_record_key so a = compute_alias_key so a \<and>
   normalize_alias (normalize_alias a) = normalize_alias a \<and>
   (normalize_alias a \<noteq> [] \<longrightarrow> hd (normalize_alias a) \<notin> set alias_whitespace \<and>
      last (normalize_alias a) \<notin> set alias_whitespace) \<and>
   (\<exists>m1 m2. node_record_key so nid = crypto_hash_sha256 so m1 \<and> compute_record_key so nid = crypto_hash_sha256 so m2 \<and>
      length m1 = 37 \<and> length m2 = 69)"
proof -
  have eq: "normalize_alias a = identity_normalize_alias a"
    by (simp add: normalize_alias_eq identity_normalize_alias_eq)
  moreover have "alias_record_key so a = compute_alias_key so a"
    by (simp only: eq alias_record_key_def compute_alias_key_def sha256_string_def sha256_def string_bytes_append)
  moreover have "normalize_alias (normalize_alias a) = normalize_alias a"
    by (simp add: normalize_alias_eq trim_idem_lower)
  moreover have "hd (normalize_alias a) \<notin> set alias_whitespace \<and> last (normalize_alias a) \<notin> set alias_whitespace"
    if "normalize_alias a \<noteq> []"
    using that by (cases a rule: trim_cases [of alias_whitespace]) (simp_all add: normalize_alias_eq hd_map last_map)
  moreover have "length (string_bytes (''node:'' @ NodeID_to_hex nid)) = 69"
    by (simp add: NodeID_to_hex_def length_array_to_hex)
  moreover have "length (string_bytes ''node:'' @ bytes_of nid) = 37" by simp
  ultimately show ?thesis
    unfolding node_record_key_def compute_record_key_def sha256_string_def sha256_def by blast
qed

theorem record_keys_agree_witness:
  "normalize_alias '' Alice '' = ''alice'' \<and> normalize_alias (normalize_alias '' Alice '') = normalize_alias '' Alice ''"
proof
  show "normalize_alias '' Alice '' = ''alice''" by code_simp
  show "normalize_alias (normalize_alias '' Alice '') = normalize_alias '' Alice ''"
    using record_keys_agree [of "'' Alice ''" toy_sodium zero_barray] by blast
qed

end
