(* ===== verification/Record_Store.thy ===== *)
theory Record_Store
  imports Node_Record "HOL-Library.AList"
begin

text \<open>
  Model of \<^verbatim>\<open>src/dht/record_store.hpp\<close> and \<^verbatim>\<open>record_store.cpp\<close>: the local store of DHT records with
  its anti-rollback table. The hash map \<^verbatim>\<open>records_\<close> is an association list, whose order stands
  for the map's iteration order; that order is unspecified in C++, and the lemmas hold for every
  list with distinct keys. \<open>StoreOp\<close> and \<open>store_exec\<close> give the operations as data, for runs;
  the locale \<open>monotone_log\<close> is the anti-rollback contract.
\<close>

record RecordStore =
  records :: "(NodeID \<times> NodeRecord) list"
  highest_seq_tab :: "NodeID \<rightharpoonup> u64"

section \<open>Operations\<close>

definition RecordStore_new :: RecordStore where
  "RecordStore_new = \<lparr>records = [], highest_seq_tab = Map.empty\<rparr>"

definition RecordStore_put ::
  "sodium \<Rightarrow> NodeID \<Rightarrow> NodeRecord \<Rightarrow> u64 \<Rightarrow> RecordStore \<Rightarrow> RecordValidationError \<times> RecordStore" where
  "RecordStore_put so key r now st =
     (let err = NodeRecord_validate so now r in
      if err \<noteq> ValidationNone then (err, st)
      else if (case highest_seq_tab st key of Some s \<Rightarrow> sequence_number r \<le> s | None \<Rightarrow> False)
      then (RollbackDetected, st)
      else if (case map_of (records st) key of Some old \<Rightarrow> sequence_number r \<le> sequence_number old | None \<Rightarrow> False)
      then (RollbackDetected, st)
      else (ValidationNone,
            st\<lparr>records := AList.update key r (records st),
               highest_seq_tab := (highest_seq_tab st)(key \<mapsto> sequence_number r)\<rparr>))"

definition RecordStore_get :: "NodeID \<Rightarrow> u64 \<Rightarrow> RecordStore \<Rightarrow> NodeRecord option \<times> RecordStore" where
  "RecordStore_get key now st =
     (case map_of (records st) key of
        None \<Rightarrow> (None, st)
      | Some r \<Rightarrow>
          if \<not> NodeRecord_is_time_valid now r
          then (None, st\<lparr>records := AList.delete key (records st)\<rparr>)
          else (Some r, st))"

text \<open>
  The scanning loop of \<^verbatim>\<open>get_by_node_id\<close> and \<^verbatim>\<open>get_by_alias\<close>: drop the entries that are not valid
  now, stop at the first match.
\<close>

fun scan_records ::
  "u64 \<Rightarrow> (NodeRecord \<Rightarrow> bool) \<Rightarrow> (NodeID \<times> NodeRecord) list \<Rightarrow> NodeRecord option \<times> (NodeID \<times> NodeRecord) list" where
  "scan_records now P [] = (None, [])"
| "scan_records now P ((k, r) # rs) =
     (if \<not> NodeRecord_is_time_valid now r then scan_records now P rs
      else if P r then (Some r, (k, r) # rs)
      else (case scan_records now P rs of (res, rs') \<Rightarrow> (res, (k, r) # rs')))"

definition RecordStore_get_by_node_id :: "sodium \<Rightarrow> NodeID \<Rightarrow> u64 \<Rightarrow> RecordStore \<Rightarrow> NodeRecord option \<times> RecordStore" where
  "RecordStore_get_by_node_id so nid now st =
     (case RecordStore_get (node_record_key so nid) now st of
        (Some r, st1) \<Rightarrow> (Some r, st1)
      | (None, st1) \<Rightarrow>
          (case scan_records now (\<lambda>r. rec_node_id r = nid) (records st1) of
             (res, rs) \<Rightarrow> (res, st1\<lparr>records := rs\<rparr>)))"

definition RecordStore_get_by_alias :: "sodium \<Rightarrow> string \<Rightarrow> u64 \<Rightarrow> RecordStore \<Rightarrow> NodeRecord option \<times> RecordStore" where
  "RecordStore_get_by_alias so a now st =
     (let norm = normalize_alias a in
      if norm = [] then (None, st)
      else case RecordStore_get (alias_record_key so a) now st of
        (Some r, st1) \<Rightarrow> (Some r, st1)
      | (None, st1) \<Rightarrow>
          (case scan_records now (\<lambda>r. normalize_alias (rec_alias r) = norm) (records st1) of
             (res, rs) \<Rightarrow> (res, st1\<lparr>records := rs\<rparr>)))"

fun purge_loop :: "u64 \<Rightarrow> (NodeID \<times> NodeRecord) list \<Rightarrow> nat \<Rightarrow> nat \<times> (NodeID \<times> NodeRecord) list" where
  "purge_loop now [] purged = (purged, [])"
| "purge_loop now ((k, r) # rs) purged =
     (if \<not> NodeRecord_is_time_valid now r then purge_loop now rs (purged + 1)
      else (case purge_loop now rs purged of (n, rs') \<Rightarrow> (n, (k, r) # rs')))"

definition RecordStore_purge_expired :: "u64 \<Rightarrow> RecordStore \<Rightarrow> nat \<times> RecordStore" where
  "RecordStore_purge_expired now st =
     (case purge_loop now (records st) 0 of (n, rs) \<Rightarrow> (n, st\<lparr>records := rs\<rparr>))"

definition RecordStore_size :: "RecordStore \<Rightarrow> nat" where
  "RecordStore_size st = length (records st)"

definition RecordStore_clear :: "RecordStore \<Rightarrow> RecordStore" where
  "RecordStore_clear st = st\<lparr>records := [], highest_seq_tab := Map.empty\<rparr>"

section \<open>The loops in closed form\<close>

abbreviation valid_entry :: "u64 \<Rightarrow> NodeID \<times> NodeRecord \<Rightarrow> bool" where
  "valid_entry now e \<equiv> NodeRecord_is_time_valid now (snd e)"

lemma purge_loop_eq:
  "purge_loop now rs n = (n + length (filter (\<lambda>e. \<not> valid_entry now e) rs), filter (valid_entry now) rs)"
  by (induction now rs n rule: purge_loop.induct) auto

lemma scan_records_result:
  "fst (scan_records now P rs) = map_option snd (List.find (\<lambda>e. valid_entry now e \<and> P (snd e)) rs)"
  by (induction now P rs rule: scan_records.induct) (auto split: prod.splits)

text \<open>What the loop leaves are entries of the store, among them all that are still valid.\<close>

lemma scan_records_subset: "set (snd (scan_records now P rs)) \<subseteq> set rs"
proof (induction rs)
  case (Cons e rs)
  then show ?case by (cases e) (auto split: prod.splits)
qed simp

lemma scan_records_keeps: "e \<in> set rs \<Longrightarrow> valid_entry now e \<Longrightarrow> e \<in> set (snd (scan_records now P rs))"
proof (induction rs)
  case (Cons d rs)
  then show ?case by (cases d) (auto split: prod.splits)
qed simp

lemma scan_records_distinct: "distinct (map fst rs) \<Longrightarrow> distinct (map fst (snd (scan_records now P rs)))"
proof (induction rs)
  case (Cons e rs)
  have "fst ` set (snd (scan_records now P rs)) \<subseteq> fst ` set rs"
    using scan_records_subset by (rule image_mono)
  with Cons.prems have "fst e \<notin> fst ` set (snd (scan_records now P rs))" by auto
  with Cons show ?case by (cases e, cases "scan_records now P rs") simp
qed simp

section \<open>Invariant\<close>

text \<open>
  Keys are distinct; the sequence table has, for every stored record, exactly its number; every
  stored record has a verified signature and the sizes validation demands.
\<close>

definition RecordStore_wf :: "sodium \<Rightarrow> RecordStore \<Rightarrow> bool" where
  "RecordStore_wf so st \<longleftrightarrow>
     distinct (map fst (records st)) \<and>
     (\<forall>(k, r) \<in> set (records st). highest_seq_tab st k = Some (sequence_number r) \<and>
        NodeRecord_verify_signature so r)"

lemma RecordStore_wf_new: "RecordStore_wf so RecordStore_new"
  by (simp add: RecordStore_wf_def RecordStore_new_def)

text \<open>An operation that only drops entries keeps the invariant.\<close>

lemma RecordStore_wf_drop:
  "RecordStore_wf so st \<Longrightarrow> set rs \<subseteq> set (records st) \<Longrightarrow> distinct (map fst rs) \<Longrightarrow>
   RecordStore_wf so (st\<lparr>records := rs\<rparr>)"
  by (auto simp: RecordStore_wf_def)

definition store_kept :: "u64 \<Rightarrow> RecordStore \<Rightarrow> RecordStore \<Rightarrow> bool" where
  "store_kept now st st' \<longleftrightarrow>
     highest_seq_tab st' = highest_seq_tab st \<and> set (records st') \<subseteq> set (records st) \<and>
     (\<forall>e \<in> set (records st). valid_entry now e \<longrightarrow> e \<in> set (records st')) \<and>
     (distinct (map fst (records st)) \<longrightarrow> distinct (map fst (records st')))"

lemma store_kept_refl [simp]: "store_kept now st st"
  by (simp add: store_kept_def)

lemma store_kept_trans: "store_kept now s t \<Longrightarrow> store_kept now t u \<Longrightarrow> store_kept now s u"
  by (auto simp: store_kept_def)

lemma store_kept_wf: "store_kept now st st' \<Longrightarrow> RecordStore_wf so st \<Longrightarrow> RecordStore_wf so st'"
  by (auto simp: store_kept_def RecordStore_wf_def)

lemma scan_kept: "store_kept now st (st\<lparr>records := snd (scan_records now P (records st))\<rparr>)"
  by (simp add: store_kept_def scan_records_subset scan_records_keeps scan_records_distinct)

lemma purge_kept: "store_kept now st (snd (RecordStore_purge_expired now st))"
  by (auto simp: store_kept_def RecordStore_purge_expired_def purge_loop_eq distinct_map_filter)

lemma get_kept:
  assumes "distinct (map fst (records st))"
  shows "store_kept now st (snd (RecordStore_get key now st))"
proof (cases "map_of (records st) key")
  case None
  then show ?thesis by (simp add: RecordStore_get_def)
next
  case (Some r)
  have "e \<in> set (AList.delete key (records st))"
    if "e \<in> set (records st)" "valid_entry now e" "\<not> NodeRecord_is_time_valid now r" for e
  proof -
    have "fst e \<noteq> key"
      using that Some assms by (metis eq_key_imp_eq_value map_of_SomeD prod.collapse)
    with that(1) show ?thesis by (auto simp: AList.delete_eq split: prod.splits)
  qed
  with Some show ?thesis
    by (auto simp: RecordStore_get_def store_kept_def AList.delete_eq distinct_map_filter)
qed

lemma get_result: "fst (RecordStore_get key now st) = Some r \<longleftrightarrow>
    map_of (records st) key = Some r \<and> NodeRecord_is_time_valid now r"
  by (auto simp: RecordStore_get_def split: option.splits)

lemma get_by_node_id_kept:
  assumes "distinct (map fst (records st))"
  shows "store_kept now st (snd (RecordStore_get_by_node_id so nid now st))"
  using get_kept [OF assms, of now "node_record_key so nid"] scan_kept
  by (auto simp: RecordStore_get_by_node_id_def intro: store_kept_trans split: prod.splits option.splits)
    (metis snd_conv store_kept_trans)

lemma get_by_alias_kept:
  assumes "distinct (map fst (records st))"
  shows "store_kept now st (snd (RecordStore_get_by_alias so a now st))"
  using get_kept [OF assms, of now "alias_record_key so a"] scan_kept
  by (auto simp: RecordStore_get_by_alias_def Let_def intro: store_kept_trans split: prod.splits option.splits)
    (metis snd_conv store_kept_trans)

text \<open>Under the invariant the second rollback test of \<^verbatim>\<open>put\<close> never fires on its own.\<close>

lemma put_eq:
  assumes "RecordStore_wf so st"
  shows "RecordStore_put so key r now st =
    (if NodeRecord_validate so now r \<noteq> ValidationNone then (NodeRecord_validate so now r, st)
     else if (\<exists>s. highest_seq_tab st key = Some s \<and> sequence_number r \<le> s) then (RollbackDetected, st)
     else (ValidationNone, st\<lparr>records := AList.update key r (records st),
       highest_seq_tab := (highest_seq_tab st)(key \<mapsto> sequence_number r)\<rparr>))"
proof -
  have "highest_seq_tab st key = Some (sequence_number old)" if "map_of (records st) key = Some old" for old
    using assms that by (auto simp: RecordStore_wf_def dest: map_of_SomeD)
  then show ?thesis
    by (auto simp: RecordStore_put_def Let_def split: option.splits)
qed

lemma put_wf:
  assumes wf: "RecordStore_wf so st"
  shows "RecordStore_wf so (snd (RecordStore_put so key r now st))"
proof (cases "fst (RecordStore_put so key r now st) = ValidationNone")
  case True
  then have val: "NodeRecord_validate so now r = ValidationNone"
    and st': "snd (RecordStore_put so key r now st) = st\<lparr>records := AList.update key r (records st),
       highest_seq_tab := (highest_seq_tab st)(key \<mapsto> sequence_number r)\<rparr>"
    by (auto simp: put_eq [OF wf] split: if_splits)
  have "highest_seq_tab st k = Some (sequence_number q) \<and> NodeRecord_verify_signature so q"
    if "(k, q) \<in> set (AList.update key r (records st))" "k \<noteq> key" for k q
  proof -
    have "map_of (AList.update key r (records st)) k = Some q"
      using that wf by (simp add: RecordStore_wf_def distinct_update)
    with that(2) wf show ?thesis by (auto simp: update_conv RecordStore_wf_def dest: map_of_SomeD)
  qed
  moreover have "q = r" if "(key, q) \<in> set (AList.update key r (records st))" for q
  proof -
    have "map_of (AList.update key r (records st)) key = Some q"
      using that wf by (simp add: RecordStore_wf_def distinct_update)
    then show ?thesis by (simp add: update_conv)
  qed
  ultimately have "((highest_seq_tab st)(key \<mapsto> sequence_number r)) k = Some (sequence_number q) \<and>
      NodeRecord_verify_signature so q" if "(k, q) \<in> set (AList.update key r (records st))" for k q
    using that val by (cases "k = key") (auto simp: validate_None_iff)
  then show ?thesis
    using wf by (auto simp: st' RecordStore_wf_def distinct_update)
next
  case False
  then have "snd (RecordStore_put so key r now st) = st" by (auto simp: put_eq [OF wf] split: if_splits)
  with wf show ?thesis by simp
qed

section \<open>Runs and the anti-rollback contract\<close>

datatype StoreOp =
    Put NodeID NodeRecord u64
  | Get NodeID u64
  | GetByNodeId NodeID u64
  | GetByAlias string u64
  | PurgeExpired u64
  | Clear

text \<open>\<open>store_exec\<close> runs one call; an accepted \<^verbatim>\<open>put\<close> is reported as its key and sequence number.\<close>

fun store_exec :: "sodium \<Rightarrow> StoreOp \<Rightarrow> RecordStore \<Rightarrow> RecordStore \<times> (NodeID \<times> u64) option" where
  "store_exec so (Put key r now) st =
     (case RecordStore_put so key r now st of
        (err, st') \<Rightarrow> (st', if err = ValidationNone then Some (key, sequence_number r) else None))"
| "store_exec so (Get key now) st = (snd (RecordStore_get key now st), None)"
| "store_exec so (GetByNodeId nid now) st = (snd (RecordStore_get_by_node_id so nid now st), None)"
| "store_exec so (GetByAlias a now) st = (snd (RecordStore_get_by_alias so a now st), None)"
| "store_exec so (PurgeExpired now) st = (snd (RecordStore_purge_expired now st), None)"
| "store_exec so Clear st = (RecordStore_clear st, None)"

text \<open>A run collects what its calls report, in order.\<close>

fun run_log :: "('op \<Rightarrow> 's \<Rightarrow> 's \<times> 'l option) \<Rightarrow> 'op list \<Rightarrow> 's \<Rightarrow> 's \<times> 'l list" where
  "run_log exec [] s = (s, [])"
| "run_log exec (op # ops) s =
     (case exec op s of (s1, l) \<Rightarrow>
        case run_log exec ops s1 of (s2, ls) \<Rightarrow> (s2, (case l of Some x \<Rightarrow> x # ls | None \<Rightarrow> ls)))"

locale monotone_log =
  fixes exec :: "'op \<Rightarrow> 's \<Rightarrow> 's \<times> ('k \<times> 'v::linorder) option"
    and bound :: "'s \<Rightarrow> 'k \<Rightarrow> 'v option"
    and resets :: "'op \<Rightarrow> bool"
    and invar :: "'s \<Rightarrow> bool"
  assumes exec_invar: "invar s \<Longrightarrow> invar (fst (exec op s))"
    and exec_silent: "\<lbrakk>invar s; \<not> resets op; exec op s = (s', None)\<rbrakk> \<Longrightarrow> bound s' = bound s"
    and exec_log: "\<lbrakk>invar s; exec op s = (s', Some (k, v))\<rbrakk> \<Longrightarrow>
      bound s' = (bound s)(k \<mapsto> v) \<and> (\<forall>b. bound s k = Some b \<longrightarrow> b < v)"
begin

lemma run_invar: "invar s \<Longrightarrow> invar (fst (run_log exec ops s))"
proof (induction ops arbitrary: s)
  case (Cons op ops)
  have "fst (run_log exec (op # ops) s) = fst (run_log exec ops (fst (exec op s)))"
    by (simp split: prod.splits)
  with Cons exec_invar [of s op] show ?case by metis
qed simp

lemma run_increasing:
  "invar s \<Longrightarrow> \<forall>op \<in> set ops. \<not> resets op \<Longrightarrow> run_log exec ops s = (s', ls) \<Longrightarrow>
    sorted_wrt (\<lambda>a b. fst a = fst b \<longrightarrow> snd a < snd b) ls \<and>
    (\<forall>(k, v) \<in> set ls. \<forall>b. bound s k = Some b \<longrightarrow> b < v)"
proof (induction ops arbitrary: s ls)
  case (Cons op ops)
  obtain s1 l where step: "exec op s = (s1, l)" by fastforce
  obtain s2 ls1 where rest: "run_log exec ops s1 = (s2, ls1)" by fastforce
  have inv: "invar s1" using exec_invar [OF Cons.prems(1), of op] step by simp
  note IH = Cons.IH [OF inv]
  have quiet: "\<not> resets op" "\<forall>op \<in> set ops. \<not> resets op" using Cons.prems(2) by auto
  have s2: "s2 = s'" and ls: "ls = (case l of Some x \<Rightarrow> x # ls1 | None \<Rightarrow> ls1)"
    using Cons.prems(3) step rest by auto
  show ?case
  proof (cases l)
    case None
    with IH rest s2 ls exec_silent [OF Cons.prems(1) quiet(1)] quiet step show ?thesis by simp
  next
    case (Some kv)
    obtain k v where kv: "kv = (k, v)" by fastforce
    have b: "bound s1 = (bound s)(k \<mapsto> v)" "\<forall>b. bound s k = Some b \<longrightarrow> b < v"
      using exec_log [OF Cons.prems(1)] step Some kv by auto
    have late: "\<forall>(k', v') \<in> set ls1. \<forall>b. bound s1 k' = Some b \<longrightarrow> b < v'"
      and inc: "sorted_wrt (\<lambda>a b. fst a = fst b \<longrightarrow> snd a < snd b) ls1"
      using IH rest s2 quiet by auto
    have "b < v'" if "(k', v') \<in> set ls1" "bound s k' = Some b" for k' v' b
      using late that b by (cases "k' = k") (force simp: b(1))+
    moreover have "v < v'" if "(k, v') \<in> set ls1" for v'
      using late that by (auto simp: b(1))
    ultimately show ?thesis using inc b(2) by (auto simp: ls Some kv)
  qed
qed simp

lemma run_bound:
  "invar s \<Longrightarrow> \<forall>op \<in> set ops. \<not> resets op \<Longrightarrow> run_log exec ops s = (s', ls) \<Longrightarrow>
    (\<forall>v. (k, v) \<in> set ls \<or> bound s k = Some v \<longrightarrow> (\<exists>b. bound s' k = Some b \<and> v \<le> b)) \<and>
    (\<forall>b. bound s' k = Some b \<longrightarrow> (k, b) \<in> set ls \<or> bound s k = Some b)"
proof (induction ops arbitrary: s ls)
  case (Cons op ops)
  obtain s1 l where step: "exec op s = (s1, l)" by fastforce
  obtain ls1 where rest: "run_log exec ops s1 = (s', ls1)"
    and ls: "ls = (case l of Some x \<Rightarrow> x # ls1 | None \<Rightarrow> ls1)"
    using Cons.prems(3) step by (auto split: prod.splits)
  have inv: "invar s1" using exec_invar [OF Cons.prems(1), of op] step by simp
  have quiet: "\<not> resets op" "\<forall>op \<in> set ops. \<not> resets op" using Cons.prems(2) by auto
  note IH = Cons.IH [OF inv quiet(2) rest]
  show ?case
  proof (cases l)
    case None
    with IH ls exec_silent [OF Cons.prems(1) quiet(1)] step show ?thesis by simp
  next
    case (Some kv)
    obtain k1 v1 where kv: "kv = (k1, v1)" by fastforce
    have b: "bound s1 = (bound s)(k1 \<mapsto> v1)" "\<forall>b. bound s k1 = Some b \<longrightarrow> b < v1"
      using exec_log [OF Cons.prems(1)] step Some kv by auto
    show ?thesis
    proof (cases "k = k1")
      case True
      then obtain b' where "bound s' k = Some b'" "v1 \<le> b'" using IH b(1) by auto
      with IH b True show ?thesis by (fastforce simp: ls Some kv dest: order_trans [of _ v1 b'])
    next
      case False
      with IH b show ?thesis by (auto simp: ls Some kv)
    qed
  qed
qed simp

end

lemma store_exec_wf:
  assumes wf: "RecordStore_wf so st"
  shows "RecordStore_wf so (fst (store_exec so op st))"
proof -
  have d: "distinct (map fst (records st))" using wf by (simp add: RecordStore_wf_def)
  show ?thesis
  proof (cases op)
    case (Put key r now)
    with put_wf [OF wf, of key r now] show ?thesis by (auto split: prod.splits)
  next
    case (Get key now)
    with store_kept_wf [OF get_kept [OF d] wf] show ?thesis by simp
  next
    case (GetByNodeId nid now)
    with store_kept_wf [OF get_by_node_id_kept [OF d] wf] show ?thesis by simp
  next
    case (GetByAlias a now)
    with store_kept_wf [OF get_by_alias_kept [OF d] wf] show ?thesis by simp
  next
    case (PurgeExpired now)
    with store_kept_wf [OF purge_kept wf] show ?thesis by simp
  next
    case Clear
    then show ?thesis by (simp add: RecordStore_clear_def RecordStore_wf_def)
  qed
qed

lemma store_exec_seq:
  assumes "RecordStore_wf so st"
  shows "op \<noteq> Clear \<Longrightarrow> store_exec so op st = (st', None) \<Longrightarrow> highest_seq_tab st' = highest_seq_tab st"
    and "store_exec so op st = (st', Some (k, v)) \<Longrightarrow> highest_seq_tab st' = (highest_seq_tab st)(k \<mapsto> v) \<and>
      (\<forall>b. highest_seq_tab st k = Some b \<longrightarrow> b < v)"
proof -
  have d: "distinct (map fst (records st))" using assms by (simp add: RecordStore_wf_def)
  show "op \<noteq> Clear \<Longrightarrow> store_exec so op st = (st', None) \<Longrightarrow> highest_seq_tab st' = highest_seq_tab st"
    using get_kept [OF d] get_by_node_id_kept [OF d] get_by_alias_kept [OF d] purge_kept [of _ st]
    by (cases op) (auto simp: put_eq [OF assms] store_kept_def split: if_splits prod.splits)
  show "store_exec so op st = (st', Some (k, v)) \<Longrightarrow> highest_seq_tab st' = (highest_seq_tab st)(k \<mapsto> v) \<and>
      (\<forall>b. highest_seq_tab st k = Some b \<longrightarrow> b < v)"
    by (cases op) (auto simp: put_eq [OF assms] not_le split: if_splits prod.splits)
qed

interpretation rs: monotone_log "store_exec so" highest_seq_tab "\<lambda>op. op = Clear" "RecordStore_wf so" for so
  by unfold_locales (fact store_exec_wf, fact store_exec_seq(1), fact store_exec_seq(2))

lemma scan_records_found:
  assumes "fst (scan_records now P rs) = Some r"
  shows "r \<in> snd ` set rs \<and> NodeRecord_is_time_valid now r \<and> P r"
proof -
  from assms obtain e where "List.find (\<lambda>e. valid_entry now e \<and> P (snd e)) rs = Some e" "r = snd e"
    by (auto simp: scan_records_result)
  then show ?thesis by (auto simp: find_Some_iff)
qed

lemma lookup_result_stored:
  assumes "distinct (map fst (records st))"
    and "fst (RecordStore_get key now st) = Some r \<or> fst (RecordStore_get_by_node_id so nid now st) = Some r \<or>
         fst (RecordStore_get_by_alias so a now st) = Some r"
  shows "r \<in> snd ` set (records st) \<and> NodeRecord_is_time_valid now r"
proof -
  have direct: "r \<in> snd ` set (records st) \<and> NodeRecord_is_time_valid now r"
    if "fst (RecordStore_get k now st) = Some r" for k
    using that by (force simp: get_result dest: map_of_SomeD)
  have scan: "r \<in> snd ` set (records st) \<and> NodeRecord_is_time_valid now r"
    if "fst (scan_records now P (records (snd (RecordStore_get k now st)))) = Some r" for P k
    using scan_records_found [OF that] get_kept [OF assms(1), of now k] by (auto simp: store_kept_def)
  have gen: "r \<in> snd ` set (records st) \<and> NodeRecord_is_time_valid now r"
    if "fst (case RecordStore_get k now st of (Some r, st1) \<Rightarrow> (Some r, st1)
      | (None, st1) \<Rightarrow> (case scan_records now P (records st1) of (res, rs) \<Rightarrow> (res, st1\<lparr>records := rs\<rparr>))) = Some r" for P k
    using that direct [of k] scan [of P k] by (auto split: prod.splits option.splits)
  from assms(2) direct [of key] gen show ?thesis
    by (auto simp: RecordStore_get_by_node_id_def RecordStore_get_by_alias_def Let_def split: if_splits)
qed

text \<open>
  As long as the store is not cleared, its sequence table is what the log says: an entry per
  logged key, the greatest number of the key.
\<close>

lemma store_log_highest:
  assumes "run_log (store_exec so) ops RecordStore_new = (st, log)" and "Clear \<notin> set ops"
  shows "(\<forall>s. (k, s) \<in> set log \<longrightarrow> (\<exists>b. highest_seq_tab st k = Some b \<and> s \<le> b)) \<and>
    (\<forall>b. highest_seq_tab st k = Some b \<longrightarrow> (k, b) \<in> set log)"
  using rs.run_bound [OF RecordStore_wf_new _ assms(1)] assms(2) by (auto simp: RecordStore_new_def)

section \<open>Properties\<close>

definition signed_test_record :: "u64 \<Rightarrow> NodeRecord" where
  "signed_test_record n =
     (let r = test_record\<lparr>sequence_number := n, rec_node_id := compute_node_id toy_sodium (kp_public_key test_keypair),
                identity_public_key := kp_public_key test_keypair\<rparr>
      in r\<lparr>rec_signature := barray_of (bytes_of (kp_public_key test_keypair) @ canonical_bytes r)\<rparr>)"

definition test_store :: RecordStore where
  "test_store = snd (RecordStore_put toy_sodium (barray_of [1]) (signed_test_record 3) 100 RecordStore_new)"

text \<open>
  C27. Anti-rollback. Take any store that a run of calls on a new store can produce (stores, look-ups of
  every kind, purges and clears, at any times), and any further calls on it that do not clear it: the
  sequence numbers accepted for one key in the further calls are strictly increasing, also across
  the expiry and removal of records, and each exceeds the number the table held for the key before.
  \<^verbatim>\<open>clear\<close>, which forgets the numbers with the records, is the only call that lets one start again.
\<close>

theorem RecordStore_no_rollback:
  assumes "run_log (store_exec so) before RecordStore_new = (st, log0)"
    and "run_log (store_exec so) after st = (st', log)" and "Clear \<notin> set after"
  shows "sorted_wrt (\<lambda>(k, s) (k', s'). k = k' \<longrightarrow> s < s') log \<and>
    (\<forall>k s b. (k, s) \<in> set log \<and> highest_seq_tab st k = Some b \<longrightarrow> b < s) \<and>
    (\<forall>k s. (k, s) \<in> set log0 \<and> Clear \<notin> set before \<longrightarrow> (\<exists>b. highest_seq_tab st k = Some b \<and> s \<le> b)) \<and>
    (\<forall>k s. (k, s) \<in> set log \<longrightarrow> (\<exists>b. highest_seq_tab st' k = Some b \<and> s \<le> b))"
proof -
  have wf: "RecordStore_wf so st"
    using rs.run_invar [OF RecordStore_wf_new, of so before] assms(1) by simp
  have quiet: "\<forall>op \<in> set after. op \<noteq> Clear" using assms(3) by blast
  have inc: "sorted_wrt (\<lambda>a b. fst a = fst b \<longrightarrow> snd a < snd b) log"
    and above: "\<forall>(k, v) \<in> set log. \<forall>b. highest_seq_tab st k = Some b \<longrightarrow> b < v"
    using rs.run_increasing [OF wf quiet assms(2)] by blast+
  have "sorted_wrt (\<lambda>(k, s) (k', s'). k = k' \<longrightarrow> s < s') log"
    using inc by (rule sorted_wrt_mono_rel [rotated]) auto
  then show ?thesis
    using above store_log_highest [OF assms(1)] rs.run_bound [OF wf quiet assms(2)] by blast
qed

theorem RecordStore_no_rollback_witness:
  "\<exists>st0 log0 st log. run_log (store_exec toy_sodium) [Put (barray_of [1]) (signed_test_record 9) 100, Clear] RecordStore_new
       = (st0, log0) \<and>
     run_log (store_exec toy_sodium) [Put (barray_of [1]) (signed_test_record 3) 100, PurgeExpired 300,
       Put (barray_of [1]) (signed_test_record 3) 100, Put (barray_of [1]) (signed_test_record 4) 100] st0
       = (st, log) \<and> log = [(barray_of [1], 3), (barray_of [1], 4)] \<and>
     sorted_wrt (\<lambda>(k, s) (k', s'). k = k' \<longrightarrow> s < s') log"
proof -
  let ?first = "run_log (store_exec toy_sodium) [Put (barray_of [1]) (signed_test_record 9) 100, Clear] RecordStore_new"
  let ?run = "run_log (store_exec toy_sodium) [Put (barray_of [1]) (signed_test_record 3) 100, PurgeExpired 300,
       Put (barray_of [1]) (signed_test_record 3) 100, Put (barray_of [1]) (signed_test_record 4) 100]"
  obtain st0 log0 where run0: "?first = (st0, log0)" by fastforce
  obtain st log where run: "?run st0 = (st, log)" by fastforce
  have "snd (?run (fst ?first)) = [(barray_of [1], 3), (barray_of [1], 4)]" by code_simp
  then have log: "log = [(barray_of [1], 3), (barray_of [1], 4)]" using run run0 by simp
  have "sorted_wrt (\<lambda>(k, s) (k', s'). k = k' \<longrightarrow> s < s') log"
    using RecordStore_no_rollback [OF run0 run] by simp
  with run0 run log show ?thesis by blast
qed

text \<open>
  The store and its look-ups, for every store a run can produce. A rejected record leaves the
  store as it was. An accepted record is what \<^verbatim>\<open>get\<close> returns for its key as long as it is valid
  and nothing newer was stored, and no other key is affected. As long as the store was not cleared,
  \<^verbatim>\<open>put\<close> accepts exactly the valid records whose number exceeds every number accepted for the key.
\<close>

theorem RecordStore_put_get:
  assumes "run_log (store_exec so) ops RecordStore_new = (st, log)" and "Clear \<notin> set ops"
    and "RecordStore_put so key r now st = (err, st')"
  shows "(err = ValidationNone \<longleftrightarrow>
       NodeRecord_validate so now r = ValidationNone \<and> (\<forall>s. (key, s) \<in> set log \<longrightarrow> s < sequence_number r)) \<and>
    (err \<noteq> ValidationNone \<longrightarrow> st' = st \<and> err \<in> {NodeRecord_validate so now r, RollbackDetected}) \<and>
    (err = ValidationNone \<longrightarrow>
       (\<forall>t. fst (RecordStore_get key t st') = (if NodeRecord_is_time_valid t r then Some r else None)) \<and>
       (\<forall>k t. k \<noteq> key \<longrightarrow> fst (RecordStore_get k t st') = fst (RecordStore_get k t st)))"
proof -
  have wf: "RecordStore_wf so st"
    using rs.run_invar [OF RecordStore_wf_new, of so ops] assms(1) by simp
  have hi: "(\<exists>s. highest_seq_tab st key = Some s \<and> sequence_number r \<le> s) \<longleftrightarrow>
      (\<exists>s. (key, s) \<in> set log \<and> sequence_number r \<le> s)"
    using store_log_highest [OF assms(1,2), of key] by force
  have get: "fst (RecordStore_get k t s) = (case map_of (records s) k of None \<Rightarrow> None
      | Some q \<Rightarrow> if NodeRecord_is_time_valid t q then Some q else None)" for k t s
    by (simp add: RecordStore_get_def split: option.splits)
  show ?thesis
    using assms(3) hi by (auto simp: put_eq [OF wf] get update_conv not_le split: if_splits)
qed

lemma test_store_run:
  "run_log (store_exec toy_sodium) [Put (barray_of [1]) (signed_test_record 3) 100] RecordStore_new
     = (test_store, [(barray_of [1], 3)])"
proof -
  have "fst (RecordStore_put toy_sodium (barray_of [1]) (signed_test_record 3) 100 RecordStore_new) = ValidationNone"
    by code_simp
  moreover have "sequence_number (signed_test_record n) = n" for n
    by (simp add: signed_test_record_def Let_def)
  ultimately show ?thesis by (auto simp: test_store_def split: prod.splits)
qed

theorem RecordStore_put_get_witness:
  "fst (RecordStore_put toy_sodium (barray_of [1]) (signed_test_record 4) 100 test_store) = ValidationNone \<and>
   fst (RecordStore_get (barray_of [1]) 101 (snd (RecordStore_put toy_sodium (barray_of [1]) (signed_test_record 4) 100 test_store)))
     = Some (signed_test_record 4)"
proof -
  let ?p = "RecordStore_put toy_sodium (barray_of [1]) (signed_test_record 4) 100 test_store"
  have ok: "fst ?p = ValidationNone" by code_simp
  have valid: "NodeRecord_is_time_valid 101 (signed_test_record 4)" by code_simp
  have "?p = (fst ?p, snd ?p)" by simp
  from RecordStore_put_get [OF test_store_run _ this] ok valid show ?thesis by simp
qed

text \<open>
  C33. Look-ups never serve an unverified or outdated record: in every store a run can produce, whatever
  \<^verbatim>\<open>get\<close>, \<^verbatim>\<open>get_by_node_id\<close> or \<^verbatim>\<open>get_by_alias\<close> returns has a node id that is the hash of its key, a
  signature that verifies, and is valid at the time of the look-up. They never change the
  sequence table and drop only entries that are not valid at that time.
\<close>

theorem RecordStore_lookup_sound:
  assumes "run_log (store_exec so) ops RecordStore_new = (st, log)"
    and "(res, st') = RecordStore_get key now st \<or> (res, st') = RecordStore_get_by_node_id so nid now st \<or>
         (res, st') = RecordStore_get_by_alias so a now st"
  shows "(\<forall>r. res = Some r \<longrightarrow> NodeRecord_verify_signature so r \<and> NodeRecord_is_time_valid now r) \<and>
    highest_seq_tab st' = highest_seq_tab st \<and> set (records st') \<subseteq> set (records st) \<and>
    (\<forall>(k, r) \<in> set (records st). NodeRecord_is_time_valid now r \<longrightarrow> (k, r) \<in> set (records st'))"
proof -
  have wf: "RecordStore_wf so st"
    using rs.run_invar [OF RecordStore_wf_new, of so ops] assms(1) by simp
  then have d: "distinct (map fst (records st))" by (simp add: RecordStore_wf_def)
  have kept: "store_kept now st st'"
    using assms(2) get_kept [OF d, of now key] get_by_node_id_kept [OF d, of now so nid]
      get_by_alias_kept [OF d, of now so a] by (metis snd_conv)
  have "r \<in> snd ` set (records st) \<and> NodeRecord_is_time_valid now r" if "res = Some r" for r
    using assms(2) that lookup_result_stored [OF d] by (metis fst_conv)
  moreover have "NodeRecord_verify_signature so r" if "r \<in> snd ` set (records st)" for r
    using that wf by (auto simp: RecordStore_wf_def)
  ultimately show ?thesis using kept by (auto simp: store_kept_def)
qed

theorem RecordStore_lookup_sound_witness:
  "\<exists>res st'. RecordStore_get_by_alias toy_sodium ''ALICE '' 150 test_store = (res, st') \<and>
     res = Some (signed_test_record 3) \<and> NodeRecord_verify_signature toy_sodium (signed_test_record 3)"
proof -
  obtain res st' where eq: "RecordStore_get_by_alias toy_sodium ''ALICE '' 150 test_store = (res, st')" by fastforce
  have "fst (RecordStore_get_by_alias toy_sodium ''ALICE '' 150 test_store) = Some (signed_test_record 3)" by code_simp
  then have res: "res = Some (signed_test_record 3)" by (simp add: eq)
  have "(res, st') = RecordStore_get zero_barray 150 test_store \<or>
      (res, st') = RecordStore_get_by_node_id toy_sodium zero_barray 150 test_store \<or>
      (res, st') = RecordStore_get_by_alias toy_sodium ''ALICE '' 150 test_store" using eq by simp
  from RecordStore_lookup_sound [OF test_store_run this] res eq show ?thesis by blast
qed

text \<open>
  \<^verbatim>\<open>put\<close> does not tie the key to the record: a valid record of any node is accepted under the
  key of another node that has no entry yet, and \<^verbatim>\<open>get_by_node_id\<close> for that other node then
  returns it.
\<close>

theorem RecordStore_get_by_node_id_foreign:
  assumes "RecordStore_wf so st" and "NodeRecord_validate so now r = ValidationNone"
    and "highest_seq_tab st (node_record_key so victim) = None"
  shows "\<exists>st'. RecordStore_put so (node_record_key so victim) r now st = (ValidationNone, st') \<and>
    fst (RecordStore_get_by_node_id so victim now st') = Some r"
proof -
  have "NodeRecord_is_time_valid now r" using assms(2) by (simp add: validate_None_iff)
  with assms show ?thesis
    by (auto simp: put_eq RecordStore_get_by_node_id_def RecordStore_get_def update_conv)
qed

theorem RecordStore_get_by_node_id_foreign_witness:
  "\<exists>st'. RecordStore_put toy_sodium (node_record_key toy_sodium zero_barray) (signed_test_record 3) 100 RecordStore_new
       = (ValidationNone, st') \<and>
     fst (RecordStore_get_by_node_id toy_sodium zero_barray 100 st') = Some (signed_test_record 3) \<and>
     rec_node_id (signed_test_record 3) \<noteq> zero_barray"
proof -
  have "NodeRecord_validate toy_sodium 100 (signed_test_record 3) = ValidationNone" by code_simp
  moreover have "rec_node_id (signed_test_record 3) \<noteq> zero_barray" by code_simp
  moreover have "highest_seq_tab RecordStore_new (node_record_key toy_sodium zero_barray) = None"
    by (simp add: RecordStore_new_def)
  ultimately show ?thesis using RecordStore_get_by_node_id_foreign [OF RecordStore_wf_new] by blast
qed

end
