(* ===== verification/Dht_Messages.thy ===== *)
theory Dht_Messages
  imports Node_Record "HOL-Library.Sublist"
begin

text \<open>
  Model of \<^verbatim>\<open>src/dht/dht_messages.hpp\<close> and \<^verbatim>\<open>dht_messages.cpp\<close>: the FIND_NODE, STORE and FIND_VALUE
  messages and their CBOR codecs. A deserialiser that returns false, because of a check or of a
  caught exception, is \<open>None\<close>; the out parameter it may have half written then is not read by any
  caller. Only \<open>deserialize_find_value_response\<close> can succeed without writing every field, so it
  takes the initial value of its out parameter.
\<close>

record FindNodeRequest =
  fnq_target :: NodeID
  fnq_sender :: PeerInfo

record FindNodeResponse =
  fnr_closest_nodes :: "PeerInfo list"

record StoreRequest =
  sq_key :: NodeID
  sq_record :: NodeRecord
  sq_sender :: PeerInfo

record StoreResponse =
  sr_key :: NodeID
  sr_success :: bool
  sr_message :: string

record FindValueRequest =
  fvq_key :: NodeID
  fvq_sender :: PeerInfo

record FindValueResponse =
  fvr_key :: NodeID
  fvr_has_value :: bool
  fvr_record :: "NodeRecord option"
  fvr_closest_nodes :: "PeerInfo list"

definition peer_of :: "NodeID \<Rightarrow> string \<Rightarrow> u16 \<Rightarrow> PeerInfo" where
  "peer_of nid h p = \<lparr>peer_node_id = nid, peer_address = \<lparr>host = h, port = p\<rparr>\<rparr>"

definition peer_json :: "PeerInfo \<Rightarrow> json" where
  "peer_json p = json_obj
     [(''node_id'', JString (NodeID_to_hex (peer_node_id p))),
      (''host'', JString (host (peer_address p))), (''port'', JUInt (ucast (port (peer_address p))))]"

section \<open>FIND\_NODE\<close>

definition find_node_request_json :: "FindNodeRequest \<Rightarrow> json" where
  "find_node_request_json req = json_obj
     [(''target'', JString (NodeID_to_hex (fnq_target req))), (''sender'', peer_json (fnq_sender req))]"

definition serialize_find_node_request :: "json_lib \<Rightarrow> FindNodeRequest \<Rightarrow> bytes" where
  "serialize_find_node_request jl req = to_cbor jl (find_node_request_json req)"

definition deserialize_find_node_request :: "json_lib \<Rightarrow> bytes \<Rightarrow> FindNodeRequest option" where
  "deserialize_find_node_request jl payload = do {
     guard (payload \<noteq> []);
     j \<leftarrow> from_cbor jl payload;
     guard (j_contains jl j ''target'' \<and> j_contains jl j ''sender'');
     target_hex \<leftarrow> get_string jl (j_at jl j ''target'');
     target \<leftarrow> parse_NodeID target_hex;
     let sender_j = j_at jl j ''sender'';
     guard (j_contains jl sender_j ''node_id'' \<and> j_contains jl sender_j ''host'' \<and> j_contains jl sender_j ''port'');
     nid_hex \<leftarrow> get_string jl (j_at jl sender_j ''node_id'');
     nid \<leftarrow> parse_NodeID nid_hex;
     h \<leftarrow> get_string jl (j_at jl sender_j ''host'');
     p \<leftarrow> get_u16 jl (j_at jl sender_j ''port'');
     Some \<lparr>fnq_target = target, fnq_sender = peer_of nid h p\<rparr>
   }"

definition find_node_response_json :: "FindNodeResponse \<Rightarrow> json" where
  "find_node_response_json resp = json_obj [(''nodes'', JArray (map peer_json (fnr_closest_nodes resp)))]"

definition serialize_find_node_response :: "json_lib \<Rightarrow> FindNodeResponse \<Rightarrow> bytes" where
  "serialize_find_node_response jl resp = to_cbor jl (find_node_response_json resp)"

text \<open>The loop over the items: an item without the three fields or with a bad id is skipped; a
  field of the wrong type throws and ends the whole message.\<close>

fun parse_nodes :: "json_lib \<Rightarrow> json list \<Rightarrow> PeerInfo list option" where
  "parse_nodes jl [] = Some []"
| "parse_nodes jl (item # items) =
     (if \<not> j_contains jl item ''node_id'' \<or> \<not> j_contains jl item ''host'' \<or> \<not> j_contains jl item ''port''
      then parse_nodes jl items
      else do {
        nid_hex \<leftarrow> get_string jl (j_at jl item ''node_id'');
        case parse_NodeID nid_hex of
          None \<Rightarrow> parse_nodes jl items
        | Some nid \<Rightarrow> do {
            h \<leftarrow> get_string jl (j_at jl item ''host'');
            p \<leftarrow> get_u16 jl (j_at jl item ''port'');
            ps \<leftarrow> parse_nodes jl items;
            Some (peer_of nid h p # ps)
          }
      })"

definition deserialize_find_node_response :: "json_lib \<Rightarrow> bytes \<Rightarrow> FindNodeResponse option" where
  "deserialize_find_node_response jl payload = do {
     guard (payload \<noteq> []);
     j \<leftarrow> from_cbor jl payload;
     guard (j_contains jl j ''nodes'' \<and> j_is_array jl (j_at jl j ''nodes''));
     ps \<leftarrow> parse_nodes jl (j_items jl (j_at jl j ''nodes''));
     Some \<lparr>fnr_closest_nodes = ps\<rparr>
   }"

section \<open>STORE\<close>

definition store_request_json :: "json_lib \<Rightarrow> StoreRequest \<Rightarrow> json" where
  "store_request_json jl req = json_obj
     [(''key'', JString (NodeID_to_hex (sq_key req))), (''sender'', peer_json (sq_sender req)),
      (''record'', JBinary (NodeRecord_to_cbor jl (sq_record req)))]"

definition serialize_store_request :: "json_lib \<Rightarrow> StoreRequest \<Rightarrow> bytes" where
  "serialize_store_request jl req = to_cbor jl (store_request_json jl req)"

text \<open>The sender of STORE and FIND\_VALUE requests is read with defaults.\<close>

definition parse_sender :: "json_lib \<Rightarrow> json \<Rightarrow> PeerInfo option" where
  "parse_sender jl sender_j = do {
     nid_hex \<leftarrow> value_string jl sender_j ''node_id'' '''';
     nid \<leftarrow> parse_NodeID nid_hex;
     h \<leftarrow> value_string jl sender_j ''host'' '''';
     p \<leftarrow> value_u16 jl sender_j ''port'' 0;
     Some (peer_of nid h p)
   }"

definition deserialize_store_request :: "json_lib \<Rightarrow> bytes \<Rightarrow> StoreRequest option" where
  "deserialize_store_request jl payload = do {
     guard (payload \<noteq> []);
     j \<leftarrow> from_cbor jl payload;
     guard (j_contains jl j ''key'' \<and> j_contains jl j ''sender'' \<and> j_contains jl j ''record'');
     key_hex \<leftarrow> get_string jl (j_at jl j ''key'');
     key \<leftarrow> parse_NodeID key_hex;
     sender \<leftarrow> parse_sender jl (j_at jl j ''sender'');
     rec_bytes \<leftarrow> get_binary jl (j_at jl j ''record'');
     r \<leftarrow> NodeRecord_from_cbor jl rec_bytes;
     Some \<lparr>sq_key = key, sq_record = r, sq_sender = sender\<rparr>
   }"

definition store_response_json :: "StoreResponse \<Rightarrow> json" where
  "store_response_json resp = json_obj
     [(''key'', JString (NodeID_to_hex (sr_key resp))), (''success'', JBool (sr_success resp)),
      (''message'', JString (sr_message resp))]"

definition serialize_store_response :: "json_lib \<Rightarrow> StoreResponse \<Rightarrow> bytes" where
  "serialize_store_response jl resp = to_cbor jl (store_response_json resp)"

definition deserialize_store_response :: "json_lib \<Rightarrow> bytes \<Rightarrow> StoreResponse option" where
  "deserialize_store_response jl payload = do {
     guard (payload \<noteq> []);
     j \<leftarrow> from_cbor jl payload;
     guard (j_contains jl j ''key'' \<and> j_contains jl j ''success'');
     key_hex \<leftarrow> get_string jl (j_at jl j ''key'');
     key \<leftarrow> parse_NodeID key_hex;
     ok \<leftarrow> get_bool jl (j_at jl j ''success'');
     msg \<leftarrow> value_string jl j ''message'' '''';
     Some \<lparr>sr_key = key, sr_success = ok, sr_message = msg\<rparr>
   }"

section \<open>FIND\_VALUE\<close>

definition find_value_request_json :: "FindValueRequest \<Rightarrow> json" where
  "find_value_request_json req = json_obj
     [(''key'', JString (NodeID_to_hex (fvq_key req))), (''sender'', peer_json (fvq_sender req))]"

definition serialize_find_value_request :: "json_lib \<Rightarrow> FindValueRequest \<Rightarrow> bytes" where
  "serialize_find_value_request jl req = to_cbor jl (find_value_request_json req)"

definition deserialize_find_value_request :: "json_lib \<Rightarrow> bytes \<Rightarrow> FindValueRequest option" where
  "deserialize_find_value_request jl payload = do {
     guard (payload \<noteq> []);
     j \<leftarrow> from_cbor jl payload;
     guard (j_contains jl j ''key'' \<and> j_contains jl j ''sender'');
     key_hex \<leftarrow> get_string jl (j_at jl j ''key'');
     key \<leftarrow> parse_NodeID key_hex;
     sender \<leftarrow> parse_sender jl (j_at jl j ''sender'');
     Some \<lparr>fvq_key = key, fvq_sender = sender\<rparr>
   }"

definition find_value_response_json :: "json_lib \<Rightarrow> FindValueResponse \<Rightarrow> json" where
  "find_value_response_json jl resp =
     (let base = [(''key'', JString (NodeID_to_hex (fvr_key resp))), (''has_value'', JBool (fvr_has_value resp))] in
      case (fvr_has_value resp, fvr_record resp) of
        (True, Some r) \<Rightarrow> json_obj (base @ [(''record'', JBinary (NodeRecord_to_cbor jl r))])
      | _ \<Rightarrow> json_obj (base @ [(''nodes'', JArray (map peer_json (fvr_closest_nodes resp)))]))"

definition serialize_find_value_response :: "json_lib \<Rightarrow> FindValueResponse \<Rightarrow> bytes" where
  "serialize_find_value_response jl resp = to_cbor jl (find_value_response_json jl resp)"

text \<open>The loop over the items, here with defaults: only an item with a bad id is skipped.\<close>

fun parse_nodes_default :: "json_lib \<Rightarrow> json list \<Rightarrow> PeerInfo list option" where
  "parse_nodes_default jl [] = Some []"
| "parse_nodes_default jl (item # items) = do {
     nid_hex \<leftarrow> value_string jl item ''node_id'' '''';
     case parse_NodeID nid_hex of
       None \<Rightarrow> parse_nodes_default jl items
     | Some nid \<Rightarrow> do {
         h \<leftarrow> value_string jl item ''host'' '''';
         p \<leftarrow> value_u16 jl item ''port'' 0;
         ps \<leftarrow> parse_nodes_default jl items;
         Some (peer_of nid h p # ps)
       }
   }"

definition FindValueResponse_default :: FindValueResponse where
  "FindValueResponse_default =
     \<lparr>fvr_key = zero_barray, fvr_has_value = False, fvr_record = None, fvr_closest_nodes = []\<rparr>"

definition deserialize_find_value_response ::
  "json_lib \<Rightarrow> bytes \<Rightarrow> FindValueResponse \<Rightarrow> FindValueResponse option" where
  "deserialize_find_value_response jl payload out = do {
     guard (payload \<noteq> []);
     j \<leftarrow> from_cbor jl payload;
     guard (j_contains jl j ''key'' \<and> j_contains jl j ''has_value'');
     key_hex \<leftarrow> get_string jl (j_at jl j ''key'');
     key \<leftarrow> parse_NodeID key_hex;
     hv \<leftarrow> get_bool jl (j_at jl j ''has_value'');
     let out1 = out\<lparr>fvr_key := key, fvr_has_value := hv\<rparr>;
     if hv \<and> j_contains jl j ''record'' then do {
       rec_bytes \<leftarrow> get_binary jl (j_at jl j ''record'');
       Some (out1\<lparr>fvr_record := NodeRecord_from_cbor jl rec_bytes, fvr_closest_nodes := []\<rparr>)
     }
     else if j_contains jl j ''nodes'' \<and> j_is_array jl (j_at jl j ''nodes'') then do {
       ps \<leftarrow> parse_nodes_default jl (j_items jl (j_at jl j ''nodes''));
       Some (out1\<lparr>fvr_record := None, fvr_closest_nodes := ps\<rparr>)
     }
     else Some out1
   }"

section \<open>Lemmas\<close>

lemma peer_of_fields [simp]: "peer_of (peer_node_id p) (host (peer_address p)) (port (peer_address p)) = p"
  by (simp add: peer_of_def)

lemma peer_json_read [json_law_simps]:
  assumes "json_laws jl"
  shows "j_contains jl (peer_json p) ''node_id''" "j_contains jl (peer_json p) ''host''"
    "j_contains jl (peer_json p) ''port''"
    "get_string jl (j_at jl (peer_json p) ''node_id'') = Some (NodeID_to_hex (peer_node_id p))"
    "get_string jl (j_at jl (peer_json p) ''host'') = Some (host (peer_address p))"
    "get_u16 jl (j_at jl (peer_json p) ''port'') = Some (port (peer_address p))"
    "parse_sender jl (peer_json p) = Some p"
  using assms by (simp_all add: peer_json_def parse_sender_def json_law_simps)

lemma parse_nodes_json [json_law_simps]: "json_laws jl \<Longrightarrow> parse_nodes jl (map peer_json ps) = Some ps"
  by (induction ps) (simp_all add: json_law_simps)

lemma parse_nodes_default_json [json_law_simps]:
  "json_laws jl \<Longrightarrow> parse_nodes_default jl (map peer_json ps) = Some ps"
proof (induction ps)
  case (Cons p ps)
  then have "value_string jl (peer_json p) ''node_id'' '''' = Some (NodeID_to_hex (peer_node_id p))"
    "value_string jl (peer_json p) ''host'' '''' = Some (host (peer_address p))"
    "value_u16 jl (peer_json p) ''port'' 0 = Some (port (peer_address p))"
    by (simp_all add: peer_json_def json_law_simps)
  with Cons show ?case by simp
qed simp

lemmas dht_codec_defs =
  serialize_find_node_request_def deserialize_find_node_request_def
  serialize_find_node_response_def deserialize_find_node_response_def
  serialize_store_request_def deserialize_store_request_def
  serialize_store_response_def deserialize_store_response_def
  serialize_find_value_request_def deserialize_find_value_request_def
  serialize_find_value_response_def deserialize_find_value_response_def

lemma find_node_codecs_inverse:
  assumes "json_laws jl"
  shows "cbor_roundtrip jl (find_node_request_json q) \<Longrightarrow>
      deserialize_find_node_request jl (serialize_find_node_request jl q) = Some q"
    and "cbor_roundtrip jl (find_node_response_json r) \<Longrightarrow>
      deserialize_find_node_response jl (serialize_find_node_response jl r) = Some r"
  using assms
  by (simp_all add: cbor_roundtrip_def dht_codec_defs)
    (simp_all add: find_node_request_json_def find_node_response_json_def json_law_simps)

lemma store_codecs_inverse:
  assumes "json_laws jl"
  shows "cbor_roundtrip jl (record_json (sq_record q)) \<Longrightarrow> cbor_roundtrip jl (store_request_json jl q) \<Longrightarrow>
      deserialize_store_request jl (serialize_store_request jl q) = Some q"
    and "cbor_roundtrip jl (store_response_json r) \<Longrightarrow>
      deserialize_store_response jl (serialize_store_response jl r) = Some r"
  using assms NodeRecord_from_to_cbor [of jl "sq_record q"]
  by (simp_all add: cbor_roundtrip_def dht_codec_defs)
    (simp_all add: store_request_json_def store_response_json_def json_law_simps)

text \<open>What a FIND\_VALUE response carries: the record, or the closest nodes, never both.\<close>

definition carried_response :: "FindValueResponse \<Rightarrow> FindValueResponse" where
  "carried_response r =
     (if fvr_has_value r \<and> fvr_record r \<noteq> None then r\<lparr>fvr_closest_nodes := []\<rparr> else r\<lparr>fvr_record := None\<rparr>)"

lemma find_value_codecs_inverse:
  assumes "json_laws jl"
  shows "cbor_roundtrip jl (find_value_request_json q) \<Longrightarrow>
      deserialize_find_value_request jl (serialize_find_value_request jl q) = Some q"
    and "(\<And>x. fvr_record r = Some x \<Longrightarrow> cbor_roundtrip jl (record_json x)) \<Longrightarrow>
      cbor_roundtrip jl (find_value_response_json jl r) \<Longrightarrow>
      deserialize_find_value_response jl (serialize_find_value_response jl r) out = Some (carried_response r)"
proof -
  show "cbor_roundtrip jl (find_value_request_json q) \<Longrightarrow>
      deserialize_find_value_request jl (serialize_find_value_request jl q) = Some q"
    using assms by (simp add: cbor_roundtrip_def dht_codec_defs) (simp add: find_value_request_json_def json_law_simps)
  assume x: "\<And>x. fvr_record r = Some x \<Longrightarrow> cbor_roundtrip jl (record_json x)"
    and rt: "cbor_roundtrip jl (find_value_response_json jl r)"
  have x': "fvr_record r = Some x \<Longrightarrow> NodeRecord_from_cbor jl (NodeRecord_to_cbor jl x) = Some x" for x
    using NodeRecord_from_to_cbor [OF assms x] by simp
  show "deserialize_find_value_response jl (serialize_find_value_response jl r) out = Some (carried_response r)"
    using assms rt x'
    by (cases "fvr_has_value r"; cases "fvr_record r")
      (simp_all add: cbor_roundtrip_def dht_codec_defs,
       simp_all add: find_value_response_json_def carried_response_def json_law_simps Let_def)
qed

section \<open>Properties\<close>

text \<open>
  C23. The DHT messages survive the wire: every deserialiser inverts its serialiser, for messages of
  all kinds, provided the JSON library behaves as documented on the value sent. A FIND\_VALUE
  response carries either the record or the closest nodes: a record that is not flagged by
  \<^verbatim>\<open>has_value\<close>, and nodes beside a flagged record, are not sent; the initial value of the out
  parameter does not matter.
\<close>

theorem dht_codecs_roundtrip:
  assumes "json_laws jl"
  shows "(cbor_roundtrip jl (find_node_request_json fq) \<longrightarrow>
      deserialize_find_node_request jl (serialize_find_node_request jl fq) = Some fq) \<and>
    (cbor_roundtrip jl (find_node_response_json fr) \<longrightarrow>
      deserialize_find_node_response jl (serialize_find_node_response jl fr) = Some fr) \<and>
    (cbor_roundtrip jl (record_json (sq_record sq)) \<and> cbor_roundtrip jl (store_request_json jl sq) \<longrightarrow>
      deserialize_store_request jl (serialize_store_request jl sq) = Some sq) \<and>
    (cbor_roundtrip jl (store_response_json sr) \<longrightarrow>
      deserialize_store_response jl (serialize_store_response jl sr) = Some sr) \<and>
    (cbor_roundtrip jl (find_value_request_json vq) \<longrightarrow>
      deserialize_find_value_request jl (serialize_find_value_request jl vq) = Some vq) \<and>
    ((\<forall>x. fvr_record vr = Some x \<longrightarrow> cbor_roundtrip jl (record_json x)) \<and>
      cbor_roundtrip jl (find_value_response_json jl vr) \<longrightarrow>
      deserialize_find_value_response jl (serialize_find_value_response jl vr) out = Some (carried_response vr))"
  using find_node_codecs_inverse [OF assms] store_codecs_inverse [OF assms] find_value_codecs_inverse [OF assms]
  by simp

definition test_store_request :: StoreRequest where
  "test_store_request = \<lparr>sq_key = barray_of [9], sq_record = test_record, sq_sender = peer_of (barray_of [7]) ''10.0.0.2'' 4001\<rparr>"

definition test_store_json :: json where
  "test_store_json = json_obj
     [(''key'', JString (NodeID_to_hex (barray_of [9]))), (''sender'', peer_json (sq_sender test_store_request)),
      (''record'', JBinary [1])]"

theorem dht_codecs_roundtrip_witness:
  "let jl = toy_json2 (record_json test_record) test_store_json
   in deserialize_store_request jl (serialize_store_request jl test_store_request) = Some test_store_request"
proof -
  let ?jl = "toy_json2 (record_json test_record) test_store_json"
  have "store_request_json ?jl test_store_request = test_store_json"
    by (simp add: store_request_json_def test_store_json_def test_store_request_def NodeRecord_to_cbor_def
        toy_json2_def plain_json_def)
  then have "cbor_roundtrip ?jl (record_json (sq_record test_store_request)) \<and>
    cbor_roundtrip ?jl (store_request_json ?jl test_store_request)"
    using toy_json2_roundtrip [of "record_json test_record" test_store_json] by (simp add: test_store_request_def)
  with dht_codecs_roundtrip [OF toy_json2_laws, where sq = test_store_request] show ?thesis unfolding Let_def by blast
qed

lemma parse_NodeID_hex:
  "parse_NodeID hex = Some nid \<Longrightarrow> length hex = 64 \<and> list_all is_hex_digit hex"
  using array_from_hex_accepts [of hex "zero_barray :: NodeID"]
  by (auto simp: parse_NodeID_def NodeID_from_hex_def split: prod.splits if_splits)

text \<open>
  What it means that a value was read from a received document. An identifier is the 64 hex
  digits of a string field; a peer is an identifier with a host and a port, each either of the right
  type or absent; a record has an identifier, binary fields of the exact sizes of a key and of
  a signature, and its numbers.
\<close>

definition reads_id :: "json_lib \<Rightarrow> json \<Rightarrow> string \<Rightarrow> NodeID \<Rightarrow> bool" where
  "reads_id jl j k nid \<longleftrightarrow> (\<exists>hex. j_contains jl j k \<and> j_at jl j k = JString hex \<and> length hex = 64 \<and> list_all is_hex_digit hex \<and>
     parse_NodeID hex = Some nid)"

definition reads_peer :: "json_lib \<Rightarrow> json \<Rightarrow> PeerInfo \<Rightarrow> bool" where
  "reads_peer jl j p \<longleftrightarrow> reads_id jl j ''node_id'' (peer_node_id p) \<and>
     (if j_contains jl j ''host'' then j_at jl j ''host'' = JString (host (peer_address p)) else host (peer_address p) = []) \<and>
     (if j_contains jl j ''port'' then get_u16 jl (j_at jl j ''port'') = Some (port (peer_address p)) else port (peer_address p) = 0)"

definition reads_peers :: "json_lib \<Rightarrow> json \<Rightarrow> PeerInfo list \<Rightarrow> bool" where
  "reads_peers jl j ps \<longleftrightarrow> (\<exists>items sub. j = JArray items \<and> subseq sub items \<and> list_all2 (reads_peer jl) sub ps)"

definition reads_record :: "json_lib \<Rightarrow> bytes \<Rightarrow> NodeRecord \<Rightarrow> bool" where
  "reads_record jl bs r \<longleftrightarrow> (\<exists>j. bs \<noteq> [] \<and> from_cbor jl bs = Some j \<and> reads_id jl j ''node_id'' (rec_node_id r) \<and>
     j_at jl j ''public_key'' = JBinary (bytes_of (identity_public_key r)) \<and>
     j_at jl j ''sig'' = JBinary (bytes_of (rec_signature r)) \<and>
     get_u64 jl (j_at jl j ''seq'') = Some (sequence_number r) \<and>
     get_u64 jl (j_at jl j ''issued_at'') = Some (issued_at r) \<and>
     get_u64 jl (j_at jl j ''expires_at'') = Some (expires_at r))"

lemma reads_idI:
  "json_laws jl \<Longrightarrow> j_contains jl j k \<Longrightarrow> get_string jl (j_at jl j k) = Some hex \<Longrightarrow> parse_NodeID hex = Some nid \<Longrightarrow> reads_id jl j k nid"
  by (auto simp: reads_id_def jl_get_iff dest: parse_NodeID_hex)

lemma value_string_cases:
  assumes "json_laws jl" "value_string jl j k d = Some h"
  shows "if j_contains jl j k then j_at jl j k = JString h else h = d"
proof -
  from assms obtain m where m: "j = JObject m" unfolding json_laws_def json_object_laws_def by (metis option.distinct(1))
  have read: "value_string jl (JObject m) k d = (case fmlookup m k of None \<Rightarrow> Some d | Some v \<Rightarrow> get_string jl v)"
    and at: "\<And>v. fmlookup m k = Some v \<Longrightarrow> j_at jl (JObject m) k = v"
    and has: "j_contains jl (JObject m) k \<longleftrightarrow> fmlookup m k \<noteq> None"
    using assms(1) by (auto simp: json_laws_def json_object_laws_def)
  show ?thesis
    using assms(2) by (cases "fmlookup m k") (auto simp: m read at has jl_get_iff [OF assms(1)])
qed

lemma value_u16_cases:
  assumes "json_laws jl" "value_u16 jl j k d = Some n"
  shows "if j_contains jl j k then get_u16 jl (j_at jl j k) = Some n else n = d"
proof -
  from assms obtain m where m: "j = JObject m" unfolding json_laws_def json_object_laws_def by (metis option.distinct(1))
  have read: "value_u16 jl (JObject m) k d = (case fmlookup m k of None \<Rightarrow> Some d | Some v \<Rightarrow> get_u16 jl v)"
    and at: "\<And>v. fmlookup m k = Some v \<Longrightarrow> j_at jl (JObject m) k = v"
    and has: "j_contains jl (JObject m) k \<longleftrightarrow> fmlookup m k \<noteq> None"
    using assms(1) by (auto simp: json_laws_def json_object_laws_def)
  show ?thesis
    using assms(2) by (cases "fmlookup m k") (auto simp: m read at has)
qed

text \<open>Reading with defaults: the default of an identifier is no identifier.\<close>

lemma reads_peer_default:
  assumes "json_laws jl" "value_string jl j ''node_id'' '''' = Some hex" "parse_NodeID hex = Some nid"
    "value_string jl j ''host'' '''' = Some h" "value_u16 jl j ''port'' 0 = Some p"
  shows "reads_peer jl j (peer_of nid h p)"
proof -
  have "length hex = 64" using parse_NodeID_hex [OF assms(3)] by simp
  then have "j_contains jl j ''node_id'' \<and> j_at jl j ''node_id'' = JString hex"
    using value_string_cases [OF assms(1,2)] by (auto split: if_splits)
  with assms(1,3) have "reads_id jl j ''node_id'' nid" by (auto intro: reads_idI simp: jl_get)
  with value_string_cases [OF assms(1,4)] value_u16_cases [OF assms(1,5)] show ?thesis
    by (simp add: reads_peer_def peer_of_def)
qed

lemma parse_sender_reads:
  assumes "json_laws jl" "parse_sender jl j = Some p"
  shows "reads_peer jl j p"
  using assms(2) by (auto simp: parse_sender_def bind_eq_Some_conv intro: reads_peer_default [OF assms(1)])

lemma parse_nodes_reads:
  assumes "json_laws jl"
  shows "parse_nodes jl items = Some ps \<Longrightarrow> \<exists>sub. subseq sub items \<and> list_all2 (reads_peer jl) sub ps"
proof (induction items arbitrary: ps)
  case (Cons item items)
  show ?case
  proof (cases "parse_nodes jl items = Some ps")
    case True
    with Cons.IH show ?thesis by (meson list_emb_Cons)
  next
    case False
    with Cons.prems obtain hex nid h p ps' where f: "get_string jl (j_at jl item ''node_id'') = Some hex"
      "parse_NodeID hex = Some nid" "get_string jl (j_at jl item ''host'') = Some h"
      "get_u16 jl (j_at jl item ''port'') = Some p"
      "j_contains jl item ''node_id''" "j_contains jl item ''host''" "j_contains jl item ''port''"
      and ps: "parse_nodes jl items = Some ps'" "ps = peer_of nid h p # ps'"
      by (auto simp: bind_eq_Some_conv split: if_splits option.splits)
    have "reads_peer jl item (peer_of nid h p)"
      using f reads_idI [OF assms f(5,1,2)] by (simp add: reads_peer_def peer_of_def jl_get_iff [OF assms])
    with Cons.IH [OF ps(1)] ps(2) show ?thesis by (meson list.rel_intros(2) subseq_Cons2)
  qed
qed simp

lemma parse_nodes_default_reads:
  assumes "json_laws jl"
  shows "parse_nodes_default jl items = Some ps \<Longrightarrow> \<exists>sub. subseq sub items \<and> list_all2 (reads_peer jl) sub ps"
proof (induction items arbitrary: ps)
  case (Cons item items)
  show ?case
  proof (cases "parse_nodes_default jl items = Some ps")
    case True
    with Cons.IH show ?thesis by (meson list_emb_Cons)
  next
    case False
    with Cons.prems obtain hex nid h p ps' where "value_string jl item ''node_id'' '''' = Some hex"
      "parse_NodeID hex = Some nid" "value_string jl item ''host'' '''' = Some h" "value_u16 jl item ''port'' 0 = Some p"
      and ps: "parse_nodes_default jl items = Some ps'" "ps = peer_of nid h p # ps'"
      by (auto simp: bind_eq_Some_conv split: option.splits)
    then have "reads_peer jl item (peer_of nid h p)" by (intro reads_peer_default [OF assms])
    with Cons.IH [OF ps(1)] ps(2) show ?thesis by (meson list.rel_intros(2) subseq_Cons2)
  qed
qed simp

lemma j_is_array_items:
  assumes "json_laws jl" "j_is_array jl j"
  obtains items where "j = JArray items" "j_items jl j = items"
  using assms by (auto simp: json_laws_def json_array_laws_def)

lemma NodeRecord_from_cbor_reads:
  assumes "json_laws jl" "NodeRecord_from_cbor jl bs = Some r"
  shows "reads_record jl bs r"
  using assms(2) reads_idI [OF assms(1)]
  by (auto simp: NodeRecord_from_cbor_def reads_record_def bind_eq_Some_conv jl_get_iff(2) [OF assms(1)])

text \<open>The fields of a FIND\_VALUE response, by the branch the decoder took.\<close>

lemma find_value_response_reads:
  assumes jl: "json_laws jl" and dec: "deserialize_find_value_response jl payload FindValueResponse_default = Some vr"
  shows "\<exists>j. payload \<noteq> [] \<and> from_cbor jl payload = Some j \<and> reads_id jl j ''key'' (fvr_key vr) \<and>
    j_at jl j ''has_value'' = JBool (fvr_has_value vr) \<and>
    (\<forall>r. fvr_record vr = Some r \<longrightarrow> fvr_has_value vr \<and> fvr_closest_nodes vr = [] \<and>
       (\<exists>bs. j_at jl j ''record'' = JBinary bs \<and> reads_record jl bs r)) \<and>
    (fvr_closest_nodes vr \<noteq> [] \<longrightarrow> reads_peers jl (j_at jl j ''nodes'') (fvr_closest_nodes vr))"
proof -
  from dec obtain j hex key hv where j: "payload \<noteq> []" "from_cbor jl payload = Some j" "j_contains jl j ''key''"
    and key: "get_string jl (j_at jl j ''key'') = Some hex" "parse_NodeID hex = Some key"
    and hv: "get_bool jl (j_at jl j ''has_value'') = Some hv"
    and rest: "(if hv \<and> j_contains jl j ''record'' then do {
       rec_bytes \<leftarrow> get_binary jl (j_at jl j ''record'');
       Some (FindValueResponse_default\<lparr>fvr_key := key, fvr_has_value := hv,
         fvr_record := NodeRecord_from_cbor jl rec_bytes, fvr_closest_nodes := []\<rparr>)
     }
     else if j_contains jl j ''nodes'' \<and> j_is_array jl (j_at jl j ''nodes'') then do {
       ps \<leftarrow> parse_nodes_default jl (j_items jl (j_at jl j ''nodes''));
       Some (FindValueResponse_default\<lparr>fvr_key := key, fvr_has_value := hv, fvr_record := None, fvr_closest_nodes := ps\<rparr>)
     }
     else Some (FindValueResponse_default\<lparr>fvr_key := key, fvr_has_value := hv\<rparr>)) = Some vr"
    by (auto simp: deserialize_find_value_response_def bind_eq_Some_conv Let_def)
  have id: "reads_id jl j ''key'' key" using reads_idI [OF jl j(3) key] .
  consider bs where "hv" "j_at jl j ''record'' = JBinary bs"
      "vr = \<lparr>fvr_key = key, fvr_has_value = hv, fvr_record = NodeRecord_from_cbor jl bs, fvr_closest_nodes = []\<rparr>"
    | ps where "j_is_array jl (j_at jl j ''nodes'')" "parse_nodes_default jl (j_items jl (j_at jl j ''nodes'')) = Some ps"
      "vr = \<lparr>fvr_key = key, fvr_has_value = hv, fvr_record = None, fvr_closest_nodes = ps\<rparr>"
    | "vr = \<lparr>fvr_key = key, fvr_has_value = hv, fvr_record = None, fvr_closest_nodes = []\<rparr>"
    using rest by (auto simp: FindValueResponse_default_def bind_eq_Some_conv jl_get_iff(2) [OF jl] split: if_splits)
  then show ?thesis
  proof cases
    case 1
    with j id hv NodeRecord_from_cbor_reads [OF jl] show ?thesis by (auto simp: jl_get_iff(3) [OF jl])
  next
    case 2
    obtain items where "j_at jl j ''nodes'' = JArray items" "j_items jl (j_at jl j ''nodes'') = items"
      by (rule j_is_array_items [OF jl 2(1)])
    with 2 parse_nodes_default_reads [OF jl] have "reads_peers jl (j_at jl j ''nodes'') ps" by (simp add: reads_peers_def)
    with 2 j id hv show ?thesis by (auto simp: jl_get_iff(3) [OF jl])
  next
    case 3
    with j id hv show ?thesis by (auto simp: jl_get_iff(3) [OF jl])
  qed
qed

text \<open>
  C24. Malformed data does not become identifiers, contacts or records: what each of the six
  deserialisers accepts. No empty payload is accepted, nor one that is no CBOR document. Every
  identifier (target, key, sender, contact, record) is read from 64 hex digits of a string field; the
  contacts of a response are items of the array \<^verbatim>\<open>nodes\<close>, in order, each used at most once; hosts
  and ports are fields of the right type, or absent where the decoder has a default (empty and 0); a
  record has a key and a signature of exactly 32 and 64 bytes, in binary fields. A FIND\_VALUE response
  yields a record only with \<^verbatim>\<open>has_value\<close> set and then no contacts.
\<close>

theorem dht_decoding_well_formed:
  assumes "json_laws jl"
  shows "(deserialize_find_node_request jl payload = Some fq \<longrightarrow>
      (\<exists>j. payload \<noteq> [] \<and> from_cbor jl payload = Some j \<and> reads_id jl j ''target'' (fnq_target fq) \<and>
         reads_peer jl (j_at jl j ''sender'') (fnq_sender fq))) \<and>
    (deserialize_find_node_response jl payload = Some fr \<longrightarrow>
      (\<exists>j. payload \<noteq> [] \<and> from_cbor jl payload = Some j \<and> reads_peers jl (j_at jl j ''nodes'') (fnr_closest_nodes fr))) \<and>
    (deserialize_store_request jl payload = Some sq \<longrightarrow>
      (\<exists>j bs. payload \<noteq> [] \<and> from_cbor jl payload = Some j \<and> reads_id jl j ''key'' (sq_key sq) \<and>
         reads_peer jl (j_at jl j ''sender'') (sq_sender sq) \<and>
         j_at jl j ''record'' = JBinary bs \<and> reads_record jl bs (sq_record sq))) \<and>
    (deserialize_store_response jl payload = Some sr \<longrightarrow>
      (\<exists>j. payload \<noteq> [] \<and> from_cbor jl payload = Some j \<and> reads_id jl j ''key'' (sr_key sr) \<and>
         j_at jl j ''success'' = JBool (sr_success sr))) \<and>
    (deserialize_find_value_request jl payload = Some vq \<longrightarrow>
      (\<exists>j. payload \<noteq> [] \<and> from_cbor jl payload = Some j \<and> reads_id jl j ''key'' (fvq_key vq) \<and>
         reads_peer jl (j_at jl j ''sender'') (fvq_sender vq))) \<and>
    (deserialize_find_value_response jl payload FindValueResponse_default = Some vr \<longrightarrow>
      (\<exists>j. payload \<noteq> [] \<and> from_cbor jl payload = Some j \<and> reads_id jl j ''key'' (fvr_key vr) \<and>
         j_at jl j ''has_value'' = JBool (fvr_has_value vr) \<and>
         (\<forall>r. fvr_record vr = Some r \<longrightarrow> fvr_has_value vr \<and> fvr_closest_nodes vr = [] \<and>
            (\<exists>bs. j_at jl j ''record'' = JBinary bs \<and> reads_record jl bs r)) \<and>
         (fvr_closest_nodes vr \<noteq> [] \<longrightarrow> reads_peers jl (j_at jl j ''nodes'') (fvr_closest_nodes vr))))"
proof (intro conjI impI)
  assume "deserialize_find_node_request jl payload = Some fq"
  then obtain j hex target nid_hex nid h p where j: "payload \<noteq> []" "from_cbor jl payload = Some j"
      "j_contains jl j ''target''" "get_string jl (j_at jl j ''target'') = Some hex" "parse_NodeID hex = Some target"
    and s: "j_contains jl (j_at jl j ''sender'') ''node_id''"
      "get_string jl (j_at jl (j_at jl j ''sender'') ''node_id'') = Some nid_hex" "parse_NodeID nid_hex = Some nid"
      "j_contains jl (j_at jl j ''sender'') ''host''" "get_string jl (j_at jl (j_at jl j ''sender'') ''host'') = Some h"
      "j_contains jl (j_at jl j ''sender'') ''port''" "get_u16 jl (j_at jl (j_at jl j ''sender'') ''port'') = Some p"
    and fq: "fq = \<lparr>fnq_target = target, fnq_sender = peer_of nid h p\<rparr>"
    by (auto simp: deserialize_find_node_request_def bind_eq_Some_conv Let_def)
  have "reads_peer jl (j_at jl j ''sender'') (peer_of nid h p)"
    using reads_idI [OF assms s(1-3)] s by (simp add: reads_peer_def peer_of_def jl_get_iff(1) [OF assms])
  with j fq reads_idI [OF assms j(3-5)]
  show "\<exists>j. payload \<noteq> [] \<and> from_cbor jl payload = Some j \<and> reads_id jl j ''target'' (fnq_target fq) \<and>
         reads_peer jl (j_at jl j ''sender'') (fnq_sender fq)" by auto
next
  assume "deserialize_find_node_response jl payload = Some fr"
  then obtain j where j: "payload \<noteq> []" "from_cbor jl payload = Some j" "j_is_array jl (j_at jl j ''nodes'')"
    and ps: "parse_nodes jl (j_items jl (j_at jl j ''nodes'')) = Some (fnr_closest_nodes fr)"
    by (auto simp: deserialize_find_node_response_def bind_eq_Some_conv)
  obtain items where "j_at jl j ''nodes'' = JArray items" "j_items jl (j_at jl j ''nodes'') = items"
    by (rule j_is_array_items [OF assms j(3)])
  with parse_nodes_reads [OF assms ps] j
  show "\<exists>j. payload \<noteq> [] \<and> from_cbor jl payload = Some j \<and> reads_peers jl (j_at jl j ''nodes'') (fnr_closest_nodes fr)"
    by (auto simp: reads_peers_def)
next
  assume "deserialize_store_request jl payload = Some sq"
  then show "\<exists>j bs. payload \<noteq> [] \<and> from_cbor jl payload = Some j \<and> reads_id jl j ''key'' (sq_key sq) \<and>
         reads_peer jl (j_at jl j ''sender'') (sq_sender sq) \<and>
         j_at jl j ''record'' = JBinary bs \<and> reads_record jl bs (sq_record sq)"
    using reads_idI [OF assms] parse_sender_reads [OF assms] NodeRecord_from_cbor_reads [OF assms]
    by (auto simp: deserialize_store_request_def bind_eq_Some_conv jl_get_iff(2) [OF assms])
next
  assume "deserialize_store_response jl payload = Some sr"
  then show "\<exists>j. payload \<noteq> [] \<and> from_cbor jl payload = Some j \<and> reads_id jl j ''key'' (sr_key sr) \<and>
         j_at jl j ''success'' = JBool (sr_success sr)"
    using reads_idI [OF assms]
    by (auto simp: deserialize_store_response_def bind_eq_Some_conv jl_get_iff(3) [OF assms])
next
  assume "deserialize_find_value_request jl payload = Some vq"
  then show "\<exists>j. payload \<noteq> [] \<and> from_cbor jl payload = Some j \<and> reads_id jl j ''key'' (fvq_key vq) \<and>
         reads_peer jl (j_at jl j ''sender'') (fvq_sender vq)"
    using reads_idI [OF assms] parse_sender_reads [OF assms]
    by (auto simp: deserialize_find_value_request_def bind_eq_Some_conv)
qed (rule find_value_response_reads [OF assms])

theorem dht_decoding_well_formed_witness:
  "let jl = toy_json2 (record_json test_record) test_store_json
   in \<exists>j bs. from_cbor jl [2] = Some j \<and> reads_id jl j ''key'' (sq_key test_store_request) \<and>
        reads_peer jl (j_at jl j ''sender'') (sq_sender test_store_request) \<and>
        j_at jl j ''record'' = JBinary bs \<and> reads_record jl bs test_record"
proof -
  let ?jl = "toy_json2 (record_json test_record) test_store_json"
  have json: "store_request_json ?jl test_store_request = test_store_json"
    by (simp add: store_request_json_def test_store_json_def test_store_request_def NodeRecord_to_cbor_def
        toy_json2_def plain_json_def)
  then have rt: "cbor_roundtrip ?jl (record_json (sq_record test_store_request))"
    "cbor_roundtrip ?jl (store_request_json ?jl test_store_request)"
    using toy_json2_roundtrip [of "record_json test_record" test_store_json] by (simp_all add: test_store_request_def)
  have dec: "deserialize_store_request ?jl (serialize_store_request ?jl test_store_request) = Some test_store_request"
    by (rule store_codecs_inverse(1) [OF toy_json2_laws rt])
  have "from_cbor ?jl (serialize_store_request ?jl test_store_request) = Some test_store_json"
    using rt(2) by (simp add: serialize_store_request_def cbor_roundtrip_def json)
  moreover have "from_cbor ?jl [2] = Some test_store_json" by (simp add: toy_json2_def plain_json_def)
  moreover have "sq_record test_store_request = test_record" by (simp add: test_store_request_def)
  ultimately show ?thesis
    using dht_decoding_well_formed [OF toy_json2_laws, THEN conjunct2, THEN conjunct2, THEN conjunct1, rule_format, OF dec]
    unfolding Let_def by auto
qed

end
