(* ===== verification/Crypto_Utils.thy ===== *)
theory Crypto_Utils
  imports Common_Types Sodium
begin

text \<open>
  Model of \<^verbatim>\<open>src/security/crypto_utils.hpp\<close> and \<^verbatim>\<open>crypto_utils.cpp\<close>: X25519 key pairs and the
  Diffie-Hellman step with its all-zero check, HMAC and HKDF, the derivation of the two
  directional session keys, AEAD nonces, and the AEAD wrappers. The multi-part HMAC calls
  \<^verbatim>\<open>init\<close>, \<^verbatim>\<open>update\<close>, \<^verbatim>\<open>final\<close> are one application to the concatenation of the parts. Destructors
  only wipe memory and are left out.
\<close>

definition AEAD_TAG_SIZE :: nat where "AEAD_TAG_SIZE = 16"

definition ensure_sodium_initialized :: "sodium \<Rightarrow> unit throwing" where
  "ensure_sodium_initialized so =
     (if sodium_init so < 0 then Inl (runtime_error ''Failed to initialize libsodium'') else Inr ())"

section \<open>X25519\<close>

record X25519Keypair =
  x_public_key :: "32 barray"
  x_secret_key :: "32 barray"

definition X25519Keypair_generate :: "sodium \<Rightarrow> 32 barray \<Rightarrow> X25519Keypair throwing" where
  "X25519Keypair_generate so rand =
     throw_bind (ensure_sodium_initialized so) (\<lambda>_.
       case crypto_scalarmult_base so rand of
         None \<Rightarrow> Inl (runtime_error ''Failed to generate X25519 public key'')
       | Some pk \<Rightarrow> Inr \<lparr>x_public_key = pk, x_secret_key = rand\<rparr>)"

definition x25519_diffie_hellman :: "sodium \<Rightarrow> 32 barray \<Rightarrow> 32 barray \<Rightarrow> 32 barray option throwing" where
  "x25519_diffie_hellman so my_secret_key peer_public_key =
     throw_bind (ensure_sodium_initialized so) (\<lambda>_.
       case crypto_scalarmult so my_secret_key peer_public_key of
         None \<Rightarrow> Inr None
       | Some shared_secret \<Rightarrow>
           let diff = foldl (\<lambda>d b. d OR b) 0 (bytes_of shared_secret)
           in if diff = 0 then Inr None else Inr (Some shared_secret))"

definition generate_nonce :: "sodium \<Rightarrow> 32 barray \<Rightarrow> 32 barray throwing" where
  "generate_nonce so rand = throw_bind (ensure_sodium_initialized so) (\<lambda>_. Inr rand)"

section \<open>HKDF\<close>

definition hmac_sha256 :: "sodium \<Rightarrow> bytes \<Rightarrow> bytes \<Rightarrow> 32 barray throwing" where
  "hmac_sha256 so key data =
     throw_bind (ensure_sodium_initialized so) (\<lambda>_. Inr (crypto_auth_hmacsha256 so key data))"

definition hkdf_extract :: "sodium \<Rightarrow> bytes option \<Rightarrow> bytes \<Rightarrow> 32 barray throwing" where
  "hkdf_extract so salt ikm =
     (let effective_salt = (case salt of Some s \<Rightarrow> s | None \<Rightarrow> replicate 32 0)
      in hmac_sha256 so effective_salt ikm)"

text \<open>The loop of \<^verbatim>\<open>hkdf_expand\<close>: \<open>t_prev\<close> is the last block (empty at first).\<close>

function hkdf_loop :: "sodium \<Rightarrow> 32 barray \<Rightarrow> bytes \<Rightarrow> nat \<Rightarrow> bytes \<Rightarrow> u8 \<Rightarrow> bytes \<Rightarrow> bytes" where
  "hkdf_loop so prk info len t_prev counter okm =
     (if length okm < len
      then let t = bytes_of (crypto_auth_hmacsha256 so (bytes_of prk) (t_prev @ info @ [counter]));
               to_copy = min (len - length okm) (length t)
           in hkdf_loop so prk info len t (counter + 1) (okm @ take to_copy t)
      else okm)"
  by auto
termination
  by (relation "measure (\<lambda>(so, prk, info, len, t_prev, counter, okm). len - length okm)") auto

declare hkdf_loop.simps [simp del]

definition hkdf_expand :: "sodium \<Rightarrow> 32 barray \<Rightarrow> string \<Rightarrow> nat \<Rightarrow> bytes throwing" where
  "hkdf_expand so prk info len =
     (if 255 * 32 < len then Inl (invalid_argument ''HKDF-Expand requested length too large'')
      else Inr (hkdf_loop so prk (string_bytes info) len [] 1 []))"

record SessionKeys =
  key_a_to_b :: "32 barray"
  key_b_to_a :: "32 barray"

definition derive_session_keys :: "sodium \<Rightarrow> 32 barray \<Rightarrow> 32 barray \<Rightarrow> 32 barray \<Rightarrow> SessionKeys throwing" where
  "derive_session_keys so shared_secret nonce_a nonce_b =
     (let salt = bytes_of nonce_a @ bytes_of nonce_b in
      throw_bind (hkdf_extract so (Some salt) (bytes_of shared_secret)) (\<lambda>prk.
      throw_bind (hkdf_expand so prk ''p2p-ake-session-keys-v1'' 64) (\<lambda>okm.
        Inr \<lparr>key_a_to_b = barray_of (take 32 okm), key_b_to_a = barray_of (take 32 (drop 32 okm))\<rparr>)))"

section \<open>AEAD\<close>

definition construct_aead_nonce :: "u64 \<Rightarrow> 12 barray" where
  "construct_aead_nonce seq = barray_of (replicate 4 0 @ be_bytes 8 seq)"

definition chacha20_poly1305_encrypt :: "sodium \<Rightarrow> bytes \<Rightarrow> bytes \<Rightarrow> 12 barray \<Rightarrow> 32 barray \<Rightarrow> bytes throwing" where
  "chacha20_poly1305_encrypt so plaintext aad nonce key =
     throw_bind (ensure_sodium_initialized so) (\<lambda>_.
       case crypto_aead_encrypt so plaintext aad nonce key of
         None \<Rightarrow> Inl (runtime_error ''ChaCha20-Poly1305 encryption failed'')
       | Some c \<Rightarrow> Inr c)"

definition chacha20_poly1305_decrypt :: "sodium \<Rightarrow> bytes \<Rightarrow> bytes \<Rightarrow> 12 barray \<Rightarrow> 32 barray \<Rightarrow> bytes option throwing" where
  "chacha20_poly1305_decrypt so ciphertext_and_tag aad nonce key =
     throw_bind (ensure_sodium_initialized so) (\<lambda>_.
       if length ciphertext_and_tag < AEAD_TAG_SIZE then Inr None
       else Inr (crypto_aead_decrypt so ciphertext_and_tag aad nonce key))"

section \<open>Lemmas\<close>

lemma ensure_ready: "sodium_ready so \<Longrightarrow> ensure_sodium_initialized so = Inr ()"
  by (simp add: ensure_sodium_initialized_def sodium_ready_def)

lemma foldl_or_eq_0: "foldl (\<lambda>d b. d OR b) a bs = 0 \<longleftrightarrow> a = (0 :: u8) \<and> (\<forall>b \<in> set bs. b = 0)"
  by (induction bs arbitrary: a) (auto simp: or_eq_0_iff)

lemma zero_barray_iff: "(\<forall>b \<in> set (bytes_of x). b = 0) \<longleftrightarrow> x = (zero_barray :: 'n::len barray)"
proof
  assume "\<forall>b \<in> set (bytes_of x). b = 0"
  then have "bytes_of x = replicate LENGTH('n) 0" by (metis length_bytes_of replicate_length_same)
  then show "x = zero_barray" by (simp add: barray_eq_iff bytes_of_zero_barray)
qed (simp add: bytes_of_zero_barray)

lemma diffie_hellman_eq:
  "sodium_ready so \<Longrightarrow> x25519_diffie_hellman so sk pk =
     Inr (case crypto_scalarmult so sk pk of Some s \<Rightarrow> if s = zero_barray then None else Some s | None \<Rightarrow> None)"
  by (auto simp: x25519_diffie_hellman_def ensure_ready Let_def foldl_or_eq_0 zero_barray_iff split: option.splits)

text \<open>The blocks \<open>T(i)\<close> of RFC 5869.\<close>

fun hkdf_block :: "sodium \<Rightarrow> 32 barray \<Rightarrow> bytes \<Rightarrow> nat \<Rightarrow> bytes" where
  "hkdf_block so prk info 0 = []"
| "hkdf_block so prk info (Suc i) =
     bytes_of (crypto_auth_hmacsha256 so (bytes_of prk) (hkdf_block so prk info i @ info @ [of_nat (Suc i)]))"

definition hkdf_blocks :: "sodium \<Rightarrow> 32 barray \<Rightarrow> bytes \<Rightarrow> nat \<Rightarrow> bytes" where
  "hkdf_blocks so prk info n = concat (map (hkdf_block so prk info) [1..<Suc n])"

lemma hkdf_blocks_Suc: "hkdf_blocks so prk info (Suc n) = hkdf_blocks so prk info n @ hkdf_block so prk info (Suc n)"
  by (simp add: hkdf_blocks_def)

lemma length_hkdf_blocks [simp]: "length (hkdf_blocks so prk info n) = 32 * n"
  by (induction n) (simp_all add: hkdf_blocks_Suc, simp add: hkdf_blocks_def)

lemma hkdf_loop_eq:
  assumes "len \<le> 32 * n"
  shows "hkdf_loop so prk info len (hkdf_block so prk info i) (of_nat (Suc i)) (take len (hkdf_blocks so prk info i)) =
    take len (hkdf_blocks so prk info (max i n))"
  using assms
proof (induction "n - i" arbitrary: i)
  case 0
  then have "len \<le> 32 * i" "max i n = i" by auto
  then show ?case by (simp add: hkdf_loop.simps)
next
  case (Suc d)
  let ?okm = "take len (hkdf_blocks so prk info i)"
  show ?case
  proof (cases "length ?okm < len")
    case True
    then have okm: "?okm = hkdf_blocks so prk info i" and i: "32 * i < len" by auto
    have step: "?okm @ take (min (len - length ?okm) 32) (hkdf_block so prk info (Suc i)) =
        take len (hkdf_blocks so prk info (Suc i))"
      using i by (simp add: hkdf_blocks_Suc del: hkdf_block.simps) (simp add: min_def)
    have c: "(of_nat (Suc i) :: u8) + 1 = of_nat (Suc (Suc i))" by simp
    have "hkdf_loop so prk info len (hkdf_block so prk info i) (of_nat (Suc i)) ?okm =
        hkdf_loop so prk info len (hkdf_block so prk info (Suc i)) (of_nat (Suc (Suc i)))
          (?okm @ take (min (len - length ?okm) 32) (hkdf_block so prk info (Suc i)))"
      unfolding hkdf_loop.simps [of so prk info len "hkdf_block so prk info i"] Let_def c using True i by simp
    also have "\<dots> = take len (hkdf_blocks so prk info (max (Suc i) n))"
      unfolding step using Suc by (intro Suc.hyps(1)) auto
    finally show ?thesis using Suc.hyps(2) by (simp add: max_def split: if_splits)
  next
    case False
    then have le: "len \<le> 32 * i" by simp
    have "take len (hkdf_blocks so prk info (i + k)) = take len (hkdf_blocks so prk info i)" for k
      by (induction k) (use le in \<open>simp_all add: hkdf_blocks_Suc\<close>)
    from this [of "max i n - i"] False show ?thesis by (simp add: hkdf_loop.simps)
  qed
qed

lemma hkdf_expand_eq:
  assumes "len \<le> 32 * n" "n \<le> 255"
  shows "hkdf_expand so prk info len = Inr (take len (hkdf_blocks so prk (string_bytes info) n))"
proof -
  have "hkdf_loop so prk (string_bytes info) len [] 1 [] = take len (hkdf_blocks so prk (string_bytes info) n)"
    using hkdf_loop_eq [OF assms(1), of so prk "string_bytes info" 0] by (simp add: hkdf_blocks_def)
  with assms show ?thesis by (simp add: hkdf_expand_def)
qed

lemma derive_session_keys_eq:
  assumes "sodium_ready so"
  shows "derive_session_keys so ss na nb =
    (let prk = crypto_auth_hmacsha256 so (bytes_of na @ bytes_of nb) (bytes_of ss);
         info = string_bytes ''p2p-ake-session-keys-v1''
     in Inr \<lparr>key_a_to_b = barray_of (hkdf_block so prk info 1), key_b_to_a = barray_of (hkdf_block so prk info 2)\<rparr>)"
proof -
  have two: "hkdf_blocks so prk info 2 = hkdf_block so prk info 1 @ hkdf_block so prk info 2" for prk info
    by (simp add: hkdf_blocks_def numeral_2_eq_2)
  have len: "length (hkdf_block so prk info (Suc i)) = 32" for prk info i by simp
  have ex: "hkdf_expand so prk info 64 =
      Inr (hkdf_block so prk (string_bytes info) 1 @ hkdf_block so prk (string_bytes info) 2)" for prk info
  proof -
    have "take 64 (hkdf_blocks so prk (string_bytes info) 2) = hkdf_blocks so prk (string_bytes info) 2" by simp
    with hkdf_expand_eq [of 64 2 so prk info] show ?thesis by (simp only: two)
  qed
  have parts: "take 32 (hkdf_block so prk info 1 @ r) = hkdf_block so prk info 1"
      "drop 32 (hkdf_block so prk info 1 @ r) = r"
      "take 32 (hkdf_block so prk info 2) = hkdf_block so prk info 2" for prk info r
    using len [of prk info 0] len [of prk info 1] by (simp_all add: numeral_2_eq_2 del: hkdf_block.simps)
  show ?thesis
    by (simp only: derive_session_keys_def hkdf_extract_def hmac_sha256_def ensure_ready [OF assms] Let_def
        option.case throw_bind_simps ex parts)
qed

section \<open>Properties\<close>

text \<open>
  C36. \<^verbatim>\<open>hkdf_expand\<close> is HKDF-Expand of RFC 5869: for every length up to \<open>255 * 32\<close> the loop ends and
  returns the first bytes of \<open>T(1) || T(2) || ...\<close>, where \<open>T(i) = HMAC(prk, T(i-1) || info || i)\<close>
  with the counter in one byte; greater lengths are refused. With it the two session keys are
  the blocks \<open>T(1)\<close> and \<open>T(2)\<close>.
\<close>

theorem hkdf_expand_is_rfc5869:
  "(len \<le> 255 * 32 \<longrightarrow>
     (\<exists>okm. hkdf_expand so prk info len = Inr okm \<and> length okm = len \<and>
        okm = take len (concat (map (hkdf_block so prk (string_bytes info)) [1..<256])))) \<and>
   (255 * 32 < len \<longrightarrow> hkdf_expand so prk info len = Inl (invalid_argument ''HKDF-Expand requested length too large'')) \<and>
   (sodium_ready so \<longrightarrow>
     (\<exists>keys. derive_session_keys so ss na nb = Inr keys \<and>
        (let prk' = crypto_auth_hmacsha256 so (bytes_of na @ bytes_of nb) (bytes_of ss) in
         bytes_of (key_a_to_b keys) = hkdf_block so prk' (string_bytes ''p2p-ake-session-keys-v1'') 1 \<and>
         bytes_of (key_b_to_a keys) = hkdf_block so prk' (string_bytes ''p2p-ake-session-keys-v1'') 2)))"
proof (intro conjI impI)
  assume "len \<le> 255 * 32"
  then have "hkdf_expand so prk info len = Inr (take len (hkdf_blocks so prk (string_bytes info) 255))"
    by (intro hkdf_expand_eq) simp_all
  moreover have "hkdf_blocks so prk (string_bytes info) 255 =
      concat (map (hkdf_block so prk (string_bytes info)) [1..<256])"
    by (simp only: hkdf_blocks_def) simp
  moreover have "length (take len (hkdf_blocks so prk (string_bytes info) 255)) = len"
    using \<open>len \<le> 255 * 32\<close> by simp
  ultimately show "\<exists>okm. hkdf_expand so prk info len = Inr okm \<and> length okm = len \<and>
        okm = take len (concat (map (hkdf_block so prk (string_bytes info)) [1..<256]))" by metis
next
  assume "sodium_ready so"
  let ?prk = "crypto_auth_hmacsha256 so (bytes_of na @ bytes_of nb) (bytes_of ss)"
  have blk: "bytes_of (barray_of (hkdf_block so prk info (Suc i)) :: 32 barray) = hkdf_block so prk info (Suc i)"
    for prk info i by (rule bytes_of_barray_of_exact) simp
  show "\<exists>keys. derive_session_keys so ss na nb = Inr keys \<and>
        (let prk' = crypto_auth_hmacsha256 so (bytes_of na @ bytes_of nb) (bytes_of ss) in
         bytes_of (key_a_to_b keys) = hkdf_block so prk' (string_bytes ''p2p-ake-session-keys-v1'') 1 \<and>
         bytes_of (key_b_to_a keys) = hkdf_block so prk' (string_bytes ''p2p-ake-session-keys-v1'') 2)"
    unfolding derive_session_keys_eq [OF \<open>sodium_ready so\<close>] Let_def
    by (intro exI conjI, rule refl)
      (simp_all only: SessionKeys.simps numeral_2_eq_2 One_nat_def blk)
qed (simp add: hkdf_expand_def)

theorem hkdf_expand_is_rfc5869_witness:
  "\<exists>okm. hkdf_expand toy_sodium (barray_of [3]) ''ctx'' 40 = Inr okm \<and> length okm = 40"
proof -
  have "(40 :: nat) \<le> 255 * 32" by simp
  with hkdf_expand_is_rfc5869 [of 40 toy_sodium "barray_of [3]" "''ctx''" zero_barray zero_barray zero_barray]
  show ?thesis by blast
qed

text \<open>
  AEAD nonces do not repeat: different 64-bit sequence numbers give different nonces, and
  \<^verbatim>\<open>construct_aead_nonce\<close> has the documented layout, four zero bytes and the number in big-endian order.
\<close>

theorem aead_nonce_unique:
  "(construct_aead_nonce s = construct_aead_nonce t \<longleftrightarrow> s = t) \<and>
   bytes_of (construct_aead_nonce s) = replicate 4 0 @ be_bytes 8 s \<and>
   be_word (drop 4 (bytes_of (construct_aead_nonce s))) = s"
proof -
  have b: "bytes_of (construct_aead_nonce u) = replicate 4 0 @ be_bytes 8 u" for u
    unfolding construct_aead_nonce_def by (rule bytes_of_barray_of_exact) simp
  have "construct_aead_nonce s = construct_aead_nonce t \<longleftrightarrow> s = t"
    by (simp only: barray_eq_iff b same_append_eq be64_inject)
  moreover have "be_word (be_bytes 8 s) = s" by (rule be_word_be_bytes) simp
  ultimately show ?thesis by (simp add: b)
qed

end
