(* ===== verification/Ake_Messages.thy ===== *)
theory Ake_Messages
  imports Identity Crypto_Utils Json
begin

text \<open>
  Model of \<^verbatim>\<open>src/security/ake_messages.hpp\<close> and \<^verbatim>\<open>ake_messages.cpp\<close>: the handshake messages, their
  transcripts and their CBOR codecs (a deserialiser that returns false is \<open>None\<close>). All transcript fields have fixed lengths, so a transcript determines them;
  the two transcripts start with different labels and have different lengths, so a signature for
  one cannot be used for the other.
\<close>

record HandshakeInit =
  hi_version :: u8
  hi_node_id :: NodeID
  hi_identity_public_key :: public_key
  hi_ephemeral_public_key :: "32 barray"
  hi_nonce :: "32 barray"

record HandshakeResponse =
  hr_session_id :: RequestID
  hr_node_id :: NodeID
  hr_identity_public_key :: public_key
  hr_ephemeral_public_key :: "32 barray"
  hr_nonce :: "32 barray"
  hr_signature :: signature

record HandshakeComplete =
  hc_session_id :: RequestID
  hc_signature :: signature

definition compute_transcript_b ::
  "HandshakeInit \<Rightarrow> RequestID \<Rightarrow> NodeID \<Rightarrow> public_key \<Rightarrow> 32 barray \<Rightarrow> 32 barray \<Rightarrow> bytes" where
  "compute_transcript_b init sid resp_node_id resp_identity_pub resp_ephemeral_pub resp_nonce =
     string_bytes ''P2P-AKE-V1-RESP'' @
     bytes_of (hi_node_id init) @ bytes_of (hi_identity_public_key init) @
     bytes_of (hi_ephemeral_public_key init) @ bytes_of (hi_nonce init) @
     bytes_of sid @ bytes_of resp_node_id @ bytes_of resp_identity_pub @
     bytes_of resp_ephemeral_pub @ bytes_of resp_nonce"

definition compute_transcript_a :: "bytes \<Rightarrow> bytes" where
  "compute_transcript_a transcript_b = string_bytes ''P2P-AKE-V1-COMP'' @ transcript_b"

section \<open>Codecs\<close>

definition extract_binary :: "json_lib \<Rightarrow> json \<Rightarrow> string \<Rightarrow> 'n::len barray option" where
  "extract_binary jl j field =
     (if \<not> j_contains jl j field \<or> \<not> j_is_binary jl (j_at jl j field) then None
      else do {
        b \<leftarrow> get_binary jl (j_at jl j field);
        if length b \<noteq> LENGTH('n) then None else Some (barray_of b)
      })"

definition to_binary_json :: "'n::len barray \<Rightarrow> json" where
  "to_binary_json arr = JBinary (bytes_of arr)"

definition handshake_init_json :: "HandshakeInit \<Rightarrow> json" where
  "handshake_init_json msg = json_obj
     [(''ver'', JUInt (ucast (hi_version msg))), (''node_id'', JString (NodeID_to_hex (hi_node_id msg))),
      (''id_pk'', to_binary_json (hi_identity_public_key msg)),
      (''eph_pk'', to_binary_json (hi_ephemeral_public_key msg)), (''nonce'', to_binary_json (hi_nonce msg))]"

definition serialize_handshake_init :: "json_lib \<Rightarrow> HandshakeInit \<Rightarrow> bytes" where
  "serialize_handshake_init jl msg = to_cbor jl (handshake_init_json msg)"

definition deserialize_handshake_init :: "json_lib \<Rightarrow> bytes \<Rightarrow> HandshakeInit option" where
  "deserialize_handshake_init jl payload = do {
     guard (payload \<noteq> []);
     j \<leftarrow> from_cbor jl payload;
     guard (j_contains jl j ''ver'' \<and> j_contains jl j ''node_id'');
     ver \<leftarrow> get_u8 jl (j_at jl j ''ver'');
     nid_hex \<leftarrow> get_string jl (j_at jl j ''node_id'');
     nid \<leftarrow> parse_NodeID nid_hex;
     id_pk \<leftarrow> extract_binary jl j ''id_pk'';
     eph_pk \<leftarrow> extract_binary jl j ''eph_pk'';
     nonce \<leftarrow> extract_binary jl j ''nonce'';
     Some \<lparr>hi_version = ver, hi_node_id = nid, hi_identity_public_key = id_pk,
           hi_ephemeral_public_key = eph_pk, hi_nonce = nonce\<rparr>
   }"

definition handshake_response_json :: "HandshakeResponse \<Rightarrow> json" where
  "handshake_response_json msg = json_obj
     [(''sid'', JString (RequestID_to_hex (hr_session_id msg))),
      (''node_id'', JString (NodeID_to_hex (hr_node_id msg))),
      (''id_pk'', to_binary_json (hr_identity_public_key msg)),
      (''eph_pk'', to_binary_json (hr_ephemeral_public_key msg)),
      (''nonce'', to_binary_json (hr_nonce msg)), (''sig'', to_binary_json (hr_signature msg))]"

definition serialize_handshake_response :: "json_lib \<Rightarrow> HandshakeResponse \<Rightarrow> bytes" where
  "serialize_handshake_response jl msg = to_cbor jl (handshake_response_json msg)"

definition deserialize_handshake_response :: "json_lib \<Rightarrow> bytes \<Rightarrow> HandshakeResponse option" where
  "deserialize_handshake_response jl payload = do {
     guard (payload \<noteq> []);
     j \<leftarrow> from_cbor jl payload;
     guard (j_contains jl j ''sid'' \<and> j_contains jl j ''node_id'');
     sid_hex \<leftarrow> get_string jl (j_at jl j ''sid'');
     sid \<leftarrow> parse_RequestID sid_hex;
     nid_hex \<leftarrow> get_string jl (j_at jl j ''node_id'');
     nid \<leftarrow> parse_NodeID nid_hex;
     id_pk \<leftarrow> extract_binary jl j ''id_pk'';
     eph_pk \<leftarrow> extract_binary jl j ''eph_pk'';
     nonce \<leftarrow> extract_binary jl j ''nonce'';
     sig \<leftarrow> extract_binary jl j ''sig'';
     Some \<lparr>hr_session_id = sid, hr_node_id = nid, hr_identity_public_key = id_pk,
           hr_ephemeral_public_key = eph_pk, hr_nonce = nonce, hr_signature = sig\<rparr>
   }"

definition handshake_complete_json :: "HandshakeComplete \<Rightarrow> json" where
  "handshake_complete_json msg = json_obj
     [(''sid'', JString (RequestID_to_hex (hc_session_id msg))), (''sig'', to_binary_json (hc_signature msg))]"

definition serialize_handshake_complete :: "json_lib \<Rightarrow> HandshakeComplete \<Rightarrow> bytes" where
  "serialize_handshake_complete jl msg = to_cbor jl (handshake_complete_json msg)"

definition deserialize_handshake_complete :: "json_lib \<Rightarrow> bytes \<Rightarrow> HandshakeComplete option" where
  "deserialize_handshake_complete jl payload = do {
     guard (payload \<noteq> []);
     j \<leftarrow> from_cbor jl payload;
     guard (j_contains jl j ''sid'');
     sid_hex \<leftarrow> get_string jl (j_at jl j ''sid'');
     sid \<leftarrow> parse_RequestID sid_hex;
     sig \<leftarrow> extract_binary jl j ''sig'';
     Some \<lparr>hc_session_id = sid, hc_signature = sig\<rparr>
   }"

section \<open>Lemmas and properties\<close>

lemma extract_binary_obj [json_law_simps]:
  "json_laws jl \<Longrightarrow> map_of kvs field = Some (to_binary_json (arr :: 'n::len barray)) \<Longrightarrow>
   extract_binary jl (json_obj kvs) field = Some arr"
  by (simp add: extract_binary_def to_binary_json_def json_law_simps)

lemma handshake_codecs_inverse:
  assumes "json_laws jl"
  shows "cbor_roundtrip jl (handshake_init_json i) \<Longrightarrow>
      deserialize_handshake_init jl (serialize_handshake_init jl i) = Some i"
    and "cbor_roundtrip jl (handshake_response_json r) \<Longrightarrow>
      deserialize_handshake_response jl (serialize_handshake_response jl r) = Some r"
    and "cbor_roundtrip jl (handshake_complete_json c) \<Longrightarrow>
      deserialize_handshake_complete jl (serialize_handshake_complete jl c) = Some c"
  using assms
  by (simp_all add: cbor_roundtrip_def serialize_handshake_init_def deserialize_handshake_init_def
      serialize_handshake_response_def deserialize_handshake_response_def
      serialize_handshake_complete_def deserialize_handshake_complete_def)
    (simp_all add: handshake_init_json_def handshake_response_json_def handshake_complete_json_def json_law_simps)

lemma transcript_b_inject:
  "compute_transcript_b i sid n p e o' = compute_transcript_b i' sid' n' p' e' o'' \<Longrightarrow>
   hi_node_id i = hi_node_id i' \<and> hi_identity_public_key i = hi_identity_public_key i' \<and>
   hi_ephemeral_public_key i = hi_ephemeral_public_key i' \<and> hi_nonce i = hi_nonce i' \<and>
   sid = sid' \<and> n = n' \<and> p = p' \<and> e = e' \<and> o' = o''"
  by (simp add: compute_transcript_b_def append_eq_append_conv bytes_of_inject)

text \<open>
  The signed transcripts bind the handshake: equal responder transcripts mean equal node ids,
  identity keys, ephemeral keys and nonces of both sides and the same session id; equal initiator
  transcripts mean equal responder transcripts; and no responder transcript is an initiator
  transcript.
\<close>

theorem transcripts_bind:
  "(compute_transcript_b i sid n p e o' = compute_transcript_b i' sid' n' p' e' o'' \<longleftrightarrow>
     (hi_node_id i, hi_identity_public_key i, hi_ephemeral_public_key i, hi_nonce i, sid, n, p, e, o') =
     (hi_node_id i', hi_identity_public_key i', hi_ephemeral_public_key i', hi_nonce i', sid', n', p', e', o'')) \<and>
   (compute_transcript_a t = compute_transcript_a t' \<longleftrightarrow> t = t') \<and>
   compute_transcript_b i sid n p e o' \<noteq> compute_transcript_a t \<and>
   length (compute_transcript_b i sid n p e o') = 287"
proof -
  have "compute_transcript_b i sid n p e o' \<noteq> compute_transcript_a t"
  proof
    assume "compute_transcript_b i sid n p e o' = compute_transcript_a t"
    then have "take 15 (compute_transcript_b i sid n p e o') = take 15 (compute_transcript_a t)" by simp
    then have "string_bytes ''P2P-AKE-V1-RESP'' = string_bytes ''P2P-AKE-V1-COMP''"
      by (simp add: compute_transcript_b_def compute_transcript_a_def)
    then show False by simp
  qed
  moreover have "compute_transcript_b i sid n p e o' = compute_transcript_b i' sid' n' p' e' o'' \<longleftrightarrow>
     (hi_node_id i, hi_identity_public_key i, hi_ephemeral_public_key i, hi_nonce i, sid, n, p, e, o') =
     (hi_node_id i', hi_identity_public_key i', hi_ephemeral_public_key i', hi_nonce i', sid', n', p', e', o'')"
    using transcript_b_inject [of i sid n p e o' i' sid' n' p' e' o''] by (auto simp: compute_transcript_b_def)
  ultimately show ?thesis by (simp add: compute_transcript_a_def compute_transcript_b_def)
qed

text \<open>
  C25. The handshake messages survive the wire: each deserialiser inverts its serialiser when the
  JSON library behaves as documented on the value sent; and what a deserialiser accepts as key,
  nonce or signature has exactly the size of its array, taken from a binary field.
\<close>

theorem handshake_codecs_roundtrip:
  assumes "json_laws jl"
  shows "(cbor_roundtrip jl (handshake_init_json i) \<longrightarrow>
      deserialize_handshake_init jl (serialize_handshake_init jl i) = Some i) \<and>
    (cbor_roundtrip jl (handshake_response_json r) \<longrightarrow>
      deserialize_handshake_response jl (serialize_handshake_response jl r) = Some r) \<and>
    (cbor_roundtrip jl (handshake_complete_json c) \<longrightarrow>
      deserialize_handshake_complete jl (serialize_handshake_complete jl c) = Some c) \<and>
    (extract_binary jl j field = Some (arr :: 'n::len barray) \<longleftrightarrow>
      j_contains jl j field \<and> j_at jl j field = JBinary (bytes_of arr))"
proof -
  have "extract_binary jl j field = Some arr \<longleftrightarrow> j_contains jl j field \<and> j_at jl j field = JBinary (bytes_of arr)"
    using assms
    by (auto simp: extract_binary_def json_law_simps bind_eq_Some_conv jl_get_iff split: if_splits intro: exI [of _ "bytes_of arr"])
  with handshake_codecs_inverse [OF assms] show ?thesis by blast
qed

theorem handshake_codecs_roundtrip_witness:
  "let i = \<lparr>hi_version = 1, hi_node_id = barray_of [1], hi_identity_public_key = barray_of [2],
            hi_ephemeral_public_key = barray_of [3], hi_nonce = barray_of [4]\<rparr>;
       jl = toy_json (handshake_init_json i)
   in deserialize_handshake_init jl (serialize_handshake_init jl i) = Some i"
  using handshake_codecs_roundtrip [OF toy_json_laws] toy_json_roundtrip unfolding Let_def by blast

end
