(* ===== verification/Replay_Cache.thy ===== *)
theory Replay_Cache
  imports P2P_Prelude
begin

text \<open>
  Model of \<^verbatim>\<open>src/security/replay_cache.hpp\<close> and \<^verbatim>\<open>replay_cache.cpp\<close>: the sliding-window
  anti-replay filter over 64-bit sequence numbers. The bitmap-clearing loop
  \<^verbatim>\<open>for (s = highest_seq_ + 1; s <= seq; ++s)\<close> is a \<open>partial_function (option)\<close>, because it
  does not end when \<open>seq\<close> is the greatest 64-bit number; \<open>None\<close> is a call that never returns.
  The invariant \<open>ReplayCache_inv\<close> relates the bitmap to the set of accepted numbers; the
  locale \<open>replay_filter\<close> is the contract the secure session relies on.
\<close>

record ReplayCache =
  window_size :: nat
  highest_seq :: u64
  initialized :: bool
  window_bitmap :: "bool list"

section \<open>Operations\<close>

definition ReplayCache_new :: "nat \<Rightarrow> ReplayCache" where
  "ReplayCache_new w =
     (let ws = max w 32
      in \<lparr>window_size = ws, highest_seq = 0, initialized = False, window_bitmap = replicate ws False\<rparr>)"

partial_function (option) clear_range :: "nat \<Rightarrow> u64 \<Rightarrow> u64 \<Rightarrow> bool list \<Rightarrow> bool list option" where
  "clear_range w s seq bm =
     (if s \<le> seq then clear_range w (s + 1) seq (bm[unat s mod w := False]) else Some bm)"

declare clear_range.simps [code]

definition ReplayCache_update_and_check :: "u64 \<Rightarrow> ReplayCache \<Rightarrow> (bool \<times> ReplayCache) option" where
  "ReplayCache_update_and_check seq c =
     (let w = window_size c; idx = unat seq mod w in
      if \<not> initialized c
      then Some (True, c\<lparr>initialized := True, highest_seq := seq,
                         window_bitmap := (window_bitmap c)[idx := True]\<rparr>)
      else if highest_seq c < seq
      then let diff = seq - highest_seq c in
           case (if w \<le> unat diff then Some (map (\<lambda>_. False) (window_bitmap c))
                 else clear_range w (highest_seq c + 1) seq (window_bitmap c)) of
             None \<Rightarrow> None
           | Some bm \<Rightarrow> Some (True, c\<lparr>highest_seq := seq, window_bitmap := bm[idx := True]\<rparr>)
      else if w \<le> unat (highest_seq c - seq) then Some (False, c)
      else if window_bitmap c ! idx then Some (False, c)
      else Some (True, c\<lparr>window_bitmap := (window_bitmap c)[idx := True]\<rparr>))"

definition ReplayCache_check :: "u64 \<Rightarrow> ReplayCache \<Rightarrow> bool" where
  "ReplayCache_check seq c \<longleftrightarrow>
     (if \<not> initialized c then True
      else if highest_seq c < seq then True
      else if window_size c \<le> unat (highest_seq c - seq) then False
      else \<not> window_bitmap c ! (unat seq mod window_size c))"

definition ReplayCache_reset :: "ReplayCache \<Rightarrow> ReplayCache" where
  "ReplayCache_reset c =
     c\<lparr>initialized := False, highest_seq := 0, window_bitmap := map (\<lambda>_. False) (window_bitmap c)\<rparr>"

section \<open>The clearing loop\<close>

text \<open>The loop clears exactly the residues of the numbers it passes, when it ends.\<close>

lemma clear_range_returns:
  assumes "unat seq < 2 ^ 64 - 1"
  shows "clear_range w s seq bm = Some (fold (\<lambda>t bm. bm[t mod w := False]) [unat s..<Suc (unat seq)] bm)"
proof (induction "Suc (unat seq) - unat s" arbitrary: s bm)
  case 0
  then have "\<not> s \<le> seq" by (simp add: word_le_nat_alt)
  with 0 show ?case by (simp add: clear_range.simps)
next
  case (Suc n)
  then have le: "s \<le> seq" by (simp add: word_le_nat_alt)
  then have s1: "unat (s + 1) = Suc (unat s)"
    using assms by (simp add: word_le_nat_alt unat_word_ariths)
  have "[unat s..<Suc (unat seq)] = unat s # [Suc (unat s)..<Suc (unat seq)]"
    using le by (intro upt_conv_Cons) (simp add: word_le_nat_alt)
  with Suc.hyps(1) [of "s + 1"] Suc.hyps(2) le s1 show ?case
    by (simp add: clear_range.simps [of w s])
qed

text \<open>When \<open>seq\<close> is the greatest number, \<^verbatim>\<open>s <= seq\<close> holds for ever.\<close>

lemma clear_range_diverges: "clear_range w s (- 1) bm = None"
proof (rule ccontr)
  assume "clear_range w s (- 1) bm \<noteq> None"
  then obtain r where "clear_range w s (- 1) bm = Some r" by blast
  then have "(- 1 :: u64) \<noteq> - 1"
  proof (rule clear_range.raw_induct [where P = "\<lambda>w s seq bm r. seq \<noteq> - 1", rotated])
    fix f w s seq bm r
    assume IH: "\<And>w s seq bm r. f w s seq bm = Some r \<Longrightarrow> seq \<noteq> (- 1 :: u64)"
      and eq: "(if s \<le> seq then f w (s + 1) seq (bm[unat s mod w := False]) else Some bm) = Some r"
    show "seq \<noteq> - 1"
    proof
      assume "seq = - 1"
      with eq have "f w (s + 1) seq (bm[unat s mod w := False]) = Some r" by simp
      from IH [OF this] \<open>seq = - 1\<close> show False by simp
    qed
  qed
  then show False by simp
qed

lemma length_fold_clear [simp]: "length (fold (\<lambda>t bm. bm[t mod w := False]) ts bm) = length bm"
  by (induction ts arbitrary: bm) auto

lemma nth_fold_clear:
  "i < length bm \<Longrightarrow> fold (\<lambda>t bm. bm[t mod w := False]) ts bm ! i \<longleftrightarrow> bm ! i \<and> (\<forall>t \<in> set ts. t mod w \<noteq> i)"
proof (induction ts arbitrary: bm)
  case (Cons t ts)
  then show ?case by (cases "t mod w = i") auto
qed simp

section \<open>Invariant\<close>

text \<open>
  \<open>ReplayCache_inv c S\<close>: \<open>S\<close> is the set of numbers accepted so far; within the window below
  the highest number the bitmap tells exactly which numbers are in \<open>S\<close>.
\<close>

definition in_window :: "ReplayCache \<Rightarrow> u64 \<Rightarrow> bool" where
  "in_window c s \<longleftrightarrow> s \<le> highest_seq c \<and> unat (highest_seq c) < unat s + window_size c"

definition ReplayCache_inv :: "ReplayCache \<Rightarrow> u64 set \<Rightarrow> bool" where
  "ReplayCache_inv c S \<longleftrightarrow>
     0 < window_size c \<and> length (window_bitmap c) = window_size c \<and>
     (if initialized c
      then highest_seq c \<in> S \<and> (\<forall>s \<in> S. s \<le> highest_seq c) \<and>
           (\<forall>s. in_window c s \<longrightarrow> (window_bitmap c ! (unat s mod window_size c) \<longleftrightarrow> s \<in> S))
      else S = {} \<and> (\<forall>i < window_size c. \<not> window_bitmap c ! i))"

lemma mod_eq_within_window:
  fixes a b w :: nat
  assumes "a mod w = b mod w" "a < b + w" "b < a + w"
  shows "a = b"
proof (rule ccontr)
  assume "a \<noteq> b"
  then consider "a < b" | "b < a" by linarith
  then show False
  proof cases
    case 1
    with assms(1) have "w dvd b - a" by (metis mod_eq_dvd_iff_nat less_imp_le)
    with 1 assms(3) show False using dvd_imp_le [of w "b - a"] by linarith
  next
    case 2
    with assms(1) have "w dvd a - b" by (metis mod_eq_dvd_iff_nat less_imp_le)
    with 2 assms(2) show False using dvd_imp_le [of w "a - b"] by linarith
  qed
qed

lemma ReplayCache_inv_new: "ReplayCache_inv (ReplayCache_new w) {}"
  by (simp add: ReplayCache_inv_def ReplayCache_new_def Let_def)

lemma ReplayCache_inv_reset: "ReplayCache_inv c S \<Longrightarrow> ReplayCache_inv (ReplayCache_reset c) {}"
  by (simp add: ReplayCache_inv_def ReplayCache_reset_def)

text \<open>The bitmap that an advance of the window leaves.\<close>

definition advanced_bitmap :: "u64 \<Rightarrow> ReplayCache \<Rightarrow> bool list" where
  "advanced_bitmap seq c =
     (if window_size c \<le> unat (seq - highest_seq c) then map (\<lambda>_. False) (window_bitmap c)
      else fold (\<lambda>t bm. bm[t mod window_size c := False])
        [Suc (unat (highest_seq c))..<Suc (unat seq)] (window_bitmap c))"

text \<open>When a call returns at all.\<close>

definition ReplayCache_terminates :: "u64 \<Rightarrow> ReplayCache \<Rightarrow> bool" where
  "ReplayCache_terminates seq c \<longleftrightarrow>
     \<not> (initialized c \<and> seq = - 1 \<and> highest_seq c < seq \<and> unat (seq - highest_seq c) < window_size c)"

lemma unat_less_max: "seq \<noteq> - 1 \<Longrightarrow> unat (seq :: u64) < 2 ^ 64 - 1"
proof -
  assume "seq \<noteq> - 1"
  moreover have "unat (- 1 :: u64) = 2 ^ 64 - 1" by (simp add: unsigned_minus_1_eq_mask mask_eq_exp_minus_1)
  ultimately have "unat seq \<noteq> 2 ^ 64 - 1" by (metis word_unat_eq_iff)
  moreover have "unat seq < 2 ^ 64" using unsigned_less [of seq, where 'a = nat] by simp
  ultimately show ?thesis by linarith
qed

lemma unat_succ_less: "a < b \<Longrightarrow> unat (a + 1) = Suc (unat (a :: u64))"
proof -
  assume "a < b"
  then have "unat a < unat b" by (simp add: word_less_nat_alt)
  moreover have "unat b < 2 ^ 64" using unsigned_less [of b, where 'a = nat] by simp
  ultimately show ?thesis by (simp add: unat_word_ariths)
qed

lemma update_and_check_eq:
  "ReplayCache_update_and_check seq c =
    (if \<not> ReplayCache_terminates seq c then None
     else if \<not> initialized c
     then Some (True, c\<lparr>initialized := True, highest_seq := seq,
       window_bitmap := (window_bitmap c)[unat seq mod window_size c := True]\<rparr>)
     else if highest_seq c < seq
     then Some (True, c\<lparr>highest_seq := seq,
       window_bitmap := (advanced_bitmap seq c)[unat seq mod window_size c := True]\<rparr>)
     else if in_window c seq \<and> \<not> window_bitmap c ! (unat seq mod window_size c)
     then Some (True, c\<lparr>window_bitmap := (window_bitmap c)[unat seq mod window_size c := True]\<rparr>)
     else Some (False, c))"
proof (cases "initialized c \<and> highest_seq c < seq")
  case True
  show ?thesis
  proof (cases "seq = - 1")
    case False
    with True show ?thesis
      using clear_range_returns [OF unat_less_max [OF False]] unat_succ_less [of "highest_seq c" seq]
      by (simp add: ReplayCache_update_and_check_def ReplayCache_terminates_def advanced_bitmap_def Let_def)
  qed (use True in \<open>auto simp: ReplayCache_update_and_check_def ReplayCache_terminates_def
      advanced_bitmap_def Let_def clear_range_diverges not_le not_less\<close>)
next
  case False
  have "window_size c \<le> unat (highest_seq c - seq) \<longleftrightarrow> \<not> in_window c seq" if "seq \<le> highest_seq c"
    using that by (auto simp: in_window_def unat_sub word_le_nat_alt)
  with False show ?thesis
    by (auto simp: ReplayCache_update_and_check_def ReplayCache_terminates_def Let_def not_less)
qed

lemma check_eq:
  "ReplayCache_check seq c \<longleftrightarrow>
    \<not> initialized c \<or> highest_seq c < seq \<or>
    in_window c seq \<and> \<not> window_bitmap c ! (unat seq mod window_size c)"
proof -
  have "window_size c \<le> unat (highest_seq c - seq) \<longleftrightarrow> \<not> in_window c seq" if "seq \<le> highest_seq c"
    using that by (auto simp: in_window_def unat_sub word_le_nat_alt)
  then show ?thesis by (auto simp: ReplayCache_check_def not_less)
qed

text \<open>Advancing the window keeps what the bitmap says about the numbers that stay in it.\<close>

lemma advanced_bitmap_inv:
  assumes inv: "ReplayCache_inv c S" and init: "initialized c" and adv: "highest_seq c < seq"
    and win: "s \<le> seq" "unat seq < unat s + window_size c" "s \<noteq> seq"
  shows "advanced_bitmap seq c ! (unat s mod window_size c) \<longleftrightarrow> s \<in> S"
proof -
  let ?w = "window_size c" and ?h = "highest_seq c" and ?i = "unat s mod window_size c"
  have w: "0 < ?w" "length (window_bitmap c) = ?w" and h: "\<forall>s \<in> S. s \<le> ?h"
    and bits: "\<And>s. in_window c s \<Longrightarrow> window_bitmap c ! (unat s mod ?w) \<longleftrightarrow> s \<in> S"
    using inv init by (auto simp: ReplayCache_inv_def)
  have diff: "unat (seq - ?h) = unat seq - unat ?h"
    using adv by (intro unat_sub) simp
  have lt: "unat ?h < unat seq" using adv by (simp add: word_less_nat_alt)
  show ?thesis
  proof (cases "s \<le> ?h")
    case True
    then have "unat s \<le> unat ?h" by (simp add: word_le_nat_alt)
    then have small: "unat (seq - ?h) < ?w" and iw: "in_window c s"
      using win lt True by (auto simp: diff in_window_def)
    have "t mod ?w \<noteq> ?i" if "Suc (unat ?h) \<le> t" "t \<le> unat seq" for t
      using mod_eq_within_window [of t ?w "unat s"] that \<open>unat s \<le> unat ?h\<close> win(2) by auto
    with small w bits [OF iw] show ?thesis
      by (simp add: advanced_bitmap_def nth_fold_clear not_le del: upt_Suc)
  next
    case False
    then have "s \<notin> S" using h by auto
    moreover have "unat ?h < unat s" "unat s \<le> unat seq"
      using False win(1) by (simp_all add: word_le_nat_alt)
    ultimately show ?thesis
      using w by (auto simp: advanced_bitmap_def nth_fold_clear simp del: upt_Suc)
  qed
qed

lemma length_advanced_bitmap [simp]: "length (advanced_bitmap seq c) = length (window_bitmap c)"
  by (simp add: advanced_bitmap_def)

text \<open>Two different numbers of one window never share a bit.\<close>

lemma in_window_bit_distinct:
  assumes "in_window c s" "in_window c t" "s \<noteq> t"
  shows "unat s mod window_size c \<noteq> unat t mod window_size c"
  using assms mod_eq_within_window [of "unat s" "window_size c" "unat t"]
  by (auto simp: in_window_def word_le_nat_alt word_unat_eq_iff)

text \<open>The three cases in which a number is accepted: the first one, one above the window, one inside it.\<close>

lemma accept_first:
  assumes inv: "ReplayCache_inv c S" and "\<not> initialized c"
  shows "ReplayCache_inv (c\<lparr>initialized := True, highest_seq := seq,
    window_bitmap := (window_bitmap c)[unat seq mod window_size c := True]\<rparr>) (insert seq S)"
    (is "ReplayCache_inv ?c' _")
proof -
  let ?w = "window_size c" and ?i = "unat seq mod window_size c"
  have w: "0 < ?w" "length (window_bitmap c) = ?w" "?i < ?w" and none: "\<forall>i < ?w. \<not> window_bitmap c ! i" and S: "S = {}"
    using assms by (auto simp: ReplayCache_inv_def)
  have "(window_bitmap c)[?i := True] ! (unat s mod ?w) \<longleftrightarrow> s = seq" if "in_window ?c' s" for s
    using in_window_bit_distinct [OF that, of seq] none w by (cases "s = seq") (auto simp: in_window_def)
  with w S show ?thesis by (simp add: ReplayCache_inv_def)
qed

lemma accept_above:
  assumes inv: "ReplayCache_inv c S" "initialized c" and above: "highest_seq c < seq"
  shows "ReplayCache_inv (c\<lparr>highest_seq := seq,
    window_bitmap := (advanced_bitmap seq c)[unat seq mod window_size c := True]\<rparr>) (insert seq S)"
    (is "ReplayCache_inv ?c' _")
proof -
  let ?w = "window_size c" and ?i = "unat seq mod window_size c"
  have w: "0 < ?w" "length (window_bitmap c) = ?w" "?i < ?w" and le: "\<forall>s \<in> S. s \<le> highest_seq c"
    using inv by (auto simp: ReplayCache_inv_def)
  have "(advanced_bitmap seq c)[?i := True] ! (unat s mod ?w) \<longleftrightarrow> s \<in> insert seq S" if s: "in_window ?c' s" for s
  proof (cases "s = seq")
    case False
    then have "unat s mod ?w \<noteq> ?i"
      using in_window_bit_distinct [OF s, of seq] w by (auto simp: in_window_def)
    with False s advanced_bitmap_inv [OF inv above, of s] show ?thesis by (auto simp: in_window_def)
  qed (use w in simp)
  with above inv(2) w le show ?thesis by (auto simp: ReplayCache_inv_def)
qed

lemma accept_inside:
  assumes inv: "ReplayCache_inv c S" "initialized c" and inside: "\<not> highest_seq c < seq" "in_window c seq" "seq \<notin> S"
  shows "ReplayCache_inv (c\<lparr>window_bitmap := (window_bitmap c)[unat seq mod window_size c := True]\<rparr>) (insert seq S)"
proof -
  let ?w = "window_size c" and ?i = "unat seq mod window_size c"
  have w: "0 < ?w" "length (window_bitmap c) = ?w" "?i < ?w"
    and bits: "\<And>s. in_window c s \<Longrightarrow> window_bitmap c ! (unat s mod ?w) \<longleftrightarrow> s \<in> S"
    and S: "\<forall>s \<in> S. s \<le> highest_seq c" "highest_seq c \<in> S"
    using inv by (auto simp: ReplayCache_inv_def)
  have "(window_bitmap c)[?i := True] ! (unat s mod ?w) \<longleftrightarrow> s \<in> insert seq S" if s: "in_window c s" for s
    using in_window_bit_distinct [OF s, of seq] inside bits [OF s] w by (cases "s = seq") auto
  with inside inv(2) w S show ?thesis by (auto simp: ReplayCache_inv_def in_window_def)
qed

lemma update_and_check_inv:
  assumes inv: "ReplayCache_inv c S" and ret: "ReplayCache_update_and_check seq c = Some (ok, c')"
  shows "ReplayCache_inv c' (if ok then insert seq S else S)"
    and "ok \<longleftrightarrow> \<not> initialized c \<or> highest_seq c < seq \<or> in_window c seq \<and> seq \<notin> S"
proof -
  note ret = ret [unfolded update_and_check_eq]
  have bit: "window_bitmap c ! (unat seq mod window_size c) \<longleftrightarrow> seq \<in> S" if "initialized c" "in_window c seq"
    using inv that by (auto simp: ReplayCache_inv_def)
  consider "\<not> initialized c" | "initialized c" "highest_seq c < seq"
    | "initialized c" "\<not> highest_seq c < seq" "in_window c seq" "seq \<notin> S"
    | "initialized c" "\<not> highest_seq c < seq" "\<not> (in_window c seq \<and> seq \<notin> S)" by blast
  then have "ReplayCache_inv c' (if ok then insert seq S else S) \<and>
    (ok \<longleftrightarrow> \<not> initialized c \<or> highest_seq c < seq \<or> in_window c seq \<and> seq \<notin> S)"
  proof cases
    case 1
    with ret accept_first [OF inv] show ?thesis by (auto split: if_splits)
  next
    case 2
    with ret accept_above [OF inv] show ?thesis by (auto split: if_splits)
  next
    case 3
    with ret bit accept_inside [OF inv] show ?thesis by (auto split: if_splits)
  next
    case 4
    with ret bit have "\<not> ok" "c' = c" by (auto split: if_splits)
    with 4 inv show ?thesis by auto
  qed
  then show "ReplayCache_inv c' (if ok then insert seq S else S)"
    and "ok \<longleftrightarrow> \<not> initialized c \<or> highest_seq c < seq \<or> in_window c seq \<and> seq \<notin> S" by blast+
qed

lemma update_and_check_fresh:
  assumes "ReplayCache_inv c S" "ReplayCache_update_and_check seq c = Some (True, c')"
  shows "seq \<notin> S"
  using update_and_check_inv(2) [OF assms] assms(1)
  by (auto simp: ReplayCache_inv_def split: if_splits)

section \<open>The contract of a replay filter\<close>

text \<open>
  \<open>run_filter f ks c\<close> offers the numbers \<open>ks\<close> one after the other and collects the accepted
  ones; it is \<open>None\<close> when one of the calls does not return.
\<close>

fun run_filter :: "('k \<Rightarrow> 's \<Rightarrow> (bool \<times> 's) option) \<Rightarrow> 'k list \<Rightarrow> 's \<Rightarrow> ('k list \<times> 's) option" where
  "run_filter f [] c = Some ([], c)"
| "run_filter f (k # ks) c =
     (case f k c of None \<Rightarrow> None
      | Some (ok, c') \<Rightarrow>
          (case run_filter f ks c' of None \<Rightarrow> None
           | Some (acc, c'') \<Rightarrow> Some (if ok then k # acc else acc, c'')))"

locale replay_filter =
  fixes admit :: "'k \<Rightarrow> 's \<Rightarrow> (bool \<times> 's) option"
    and seen :: "'s \<Rightarrow> 'k set \<Rightarrow> bool"
  assumes admit_seen: "\<lbrakk>seen c S; admit k c = Some (ok, c')\<rbrakk> \<Longrightarrow> seen c' (if ok then insert k S else S)"
    and admit_fresh: "\<lbrakk>seen c S; admit k c = Some (True, c')\<rbrakk> \<Longrightarrow> k \<notin> S"
begin

lemma run_seen:
  "\<lbrakk>seen c S; run_filter admit ks c = Some (acc, c')\<rbrakk>
     \<Longrightarrow> seen c' (S \<union> set acc) \<and> distinct acc \<and> set acc \<inter> S = {}"
proof (induction ks arbitrary: c S acc c')
  case (Cons k ks)
  from Cons.prems(2) obtain ok c1 acc1 where
    step: "admit k c = Some (ok, c1)" and rest: "run_filter admit ks c1 = Some (acc1, c')"
    and acc: "acc = (if ok then k # acc1 else acc1)"
    by (auto split: option.splits prod.splits)
  note IH = Cons.IH [OF admit_seen [OF Cons.prems(1) step] rest]
  show ?case
  proof (cases ok)
    case True
    with IH acc admit_fresh [OF Cons.prems(1)] step show ?thesis by auto
  next
    case False
    with IH acc show ?thesis by simp
  qed
qed simp

lemma second_rejected:
  assumes "seen c S" "admit k c = Some (True, c1)" "run_filter admit ks c1 = Some (acc, c2)"
    "admit k c2 = Some (ok, c3)"
  shows "\<not> ok"
proof -
  have "seen c1 (insert k S)" using admit_seen [OF assms(1,2)] by simp
  from run_seen [OF this assms(3)] have "seen c2 (insert k S \<union> set acc)" by blast
  from admit_fresh [OF this, of k c3] assms(4) show ?thesis by auto
qed

end

interpretation rc: replay_filter ReplayCache_update_and_check ReplayCache_inv
  by unfold_locales (fact update_and_check_inv(1), fact update_and_check_fresh)

section \<open>Properties\<close>

definition test_cache :: ReplayCache where
  "test_cache = the (map_option snd (run_filter ReplayCache_update_and_check [7, 5, 9] (ReplayCache_new 4)))"

text \<open>
  C28. The anti-replay guarantee: start from a new cache (or one that was reset), offer any
  sequence of numbers; the numbers \<^verbatim>\<open>update_and_check\<close> accepts are pairwise different,
  duplicates are dropped whatever lies between the two copies.
\<close>

theorem ReplayCache_no_replay:
  assumes "c = ReplayCache_new w \<or> (\<exists>ks0 acc0 c0. run_filter ReplayCache_update_and_check ks0 (ReplayCache_new w)
        = Some (acc0, c0) \<and> c = ReplayCache_reset c0)"
    and "run_filter ReplayCache_update_and_check ks c = Some (acc, c')"
  shows "distinct acc \<and> (\<forall>k d. k \<in> set acc \<longrightarrow> ReplayCache_update_and_check k c' \<noteq> Some (True, d))"
proof -
  have inv: "ReplayCache_inv c {}"
    using assms(1) rc.run_seen [OF ReplayCache_inv_new] ReplayCache_inv_new ReplayCache_inv_reset by metis
  from rc.run_seen [OF inv assms(2)] have "ReplayCache_inv c' (set acc)" "distinct acc" by simp_all
  with update_and_check_fresh show ?thesis by blast
qed

theorem ReplayCache_no_replay_witness:
  "run_filter ReplayCache_update_and_check [7, 5, 7, 9, 5, 100, 7] (ReplayCache_new 4)
     = Some ([7, 5, 9, 100], \<lparr>window_size = 32, highest_seq = 100, initialized = True,
         window_bitmap = (replicate 32 False)[4 := True]\<rparr>)
   \<and> distinct [7, 5, 9, 100 :: u64]"
proof
  show run: "run_filter ReplayCache_update_and_check [7, 5, 7, 9, 5, 100, 7] (ReplayCache_new 4)
     = Some ([7, 5, 9, 100], \<lparr>window_size = 32, highest_seq = 100, initialized = True,
         window_bitmap = (replicate 32 False)[4 := True]\<rparr>)" by code_simp
  show "distinct [7, 5, 9, 100 :: u64]"
    using ReplayCache_no_replay [OF disjI1 [OF refl] run] by blast
qed

text \<open>
  The exact verdict of \<^verbatim>\<open>update_and_check\<close> when it returns, in terms of the set \<open>S\<close> of the
  numbers accepted so far: a first number and a number above the highest are accepted, a number
  of the window is accepted iff it was not accepted before, and an older number is refused; an
  accepted number joins \<open>S\<close>. The read-only \<^verbatim>\<open>check\<close> gives the same verdict.
\<close>

theorem ReplayCache_verdict:
  assumes "ReplayCache_inv c S" "ReplayCache_update_and_check seq c = Some (ok, c')"
  shows "(ok \<longleftrightarrow> \<not> initialized c \<or> highest_seq c < seq \<or>
            unat (highest_seq c) - unat seq < window_size c \<and> seq \<notin> S) \<and>
         (ReplayCache_check seq c \<longleftrightarrow> ok) \<and>
         ReplayCache_inv c' (if ok then insert seq S else S) \<and> window_size c' = window_size c \<and>
         (\<not> ok \<longrightarrow> c' = c)"
proof -
  have iff: "in_window c seq \<longleftrightarrow> unat (highest_seq c) - unat seq < window_size c" if "\<not> highest_seq c < seq"
    using that by (auto simp: in_window_def word_le_nat_alt word_less_nat_alt)
  have "window_size c' = window_size c \<and> (\<not> ok \<longrightarrow> c' = c) \<and> (ReplayCache_check seq c \<longleftrightarrow> ok)"
    using assms(2) by (auto simp: update_and_check_eq check_eq split: if_splits)
  with update_and_check_inv [OF assms] iff show ?thesis by blast
qed

lemma test_cache_inv: "ReplayCache_inv test_cache {5, 7, 9}"
proof -
  have run: "run_filter ReplayCache_update_and_check [7, 5, 9] (ReplayCache_new 4) = Some ([7, 5, 9], test_cache)"
    by code_simp
  have "{7, 5, 9} = {5, 7, 9 :: u64}" by auto
  with rc.run_seen [OF ReplayCache_inv_new run] show ?thesis by simp
qed

theorem ReplayCache_verdict_witness:
  "ReplayCache_update_and_check 6 test_cache =
     Some (True, test_cache\<lparr>window_bitmap := (window_bitmap test_cache)[6 := True]\<rparr>) \<and>
   ReplayCache_check 6 test_cache"
proof
  show step: "ReplayCache_update_and_check 6 test_cache =
     Some (True, test_cache\<lparr>window_bitmap := (window_bitmap test_cache)[6 := True]\<rparr>)" by code_simp
  show "ReplayCache_check 6 test_cache"
    using ReplayCache_verdict [OF test_cache_inv step] by blast
qed

text \<open>
  C35. When \<^verbatim>\<open>update_and_check\<close> returns. It always does, with one exception: an initialised cache
  whose highest number lies less than a window below \<open>2\<^sup>6\<^sup>4 - 1\<close>, offered \<open>2\<^sup>6\<^sup>4 - 1\<close> itself. There
  the loop \<^verbatim>\<open>for (s = highest_seq_ + 1; s <= seq; ++s)\<close> wraps around and never ends, with the
  mutex held.
\<close>

theorem ReplayCache_returns_iff:
  "ReplayCache_update_and_check seq c \<noteq> None \<longleftrightarrow>
     \<not> (initialized c \<and> seq = - 1 \<and> highest_seq c \<noteq> - 1 \<and> unat (seq - highest_seq c) < window_size c)"
proof -
  have "highest_seq c < - 1 \<longleftrightarrow> highest_seq c \<noteq> - 1"
    by (metis word_order.not_eq_extremum)
  then show ?thesis
    by (auto simp: update_and_check_eq ReplayCache_terminates_def)
qed

end
