(* ===== verification/Wire_Frame.thy ===== *)
theory Wire_Frame
  imports Common_Types Json
begin

text \<open>
  Model of \<^verbatim>\<open>src/transport/message_types.hpp\<close>, \<^verbatim>\<open>frame.hpp\<close> and \<^verbatim>\<open>frame.cpp\<close>: the 24-byte frame header,
  serialisation, and the incremental parser. Message types and flags are enumerations with a
  fixed underlying integer type, so every byte (every 16-bit word) is a value of theirs.
  \<open>drain\<close> is the loop around \<^verbatim>\<open>next_frame\<close> that the connection runs after each read.
\<close>

type_synonym MessageType = u8
type_synonym FrameFlags = u16

section \<open>Message types and flags\<close>

definition PING :: MessageType where "PING = 0x01"
definition PONG :: MessageType where "PONG = 0x02"
definition FIND_NODE_REQUEST :: MessageType where "FIND_NODE_REQUEST = 0x10"
definition FIND_NODE_RESPONSE :: MessageType where "FIND_NODE_RESPONSE = 0x11"
definition STORE_REQUEST :: MessageType where "STORE_REQUEST = 0x12"
definition STORE_RESPONSE :: MessageType where "STORE_RESPONSE = 0x13"
definition FIND_VALUE_REQUEST :: MessageType where "FIND_VALUE_REQUEST = 0x14"
definition FIND_VALUE_RESPONSE :: MessageType where "FIND_VALUE_RESPONSE = 0x15"
definition TUNNEL_BUILD :: MessageType where "TUNNEL_BUILD = 0x20"
definition TUNNEL_BUILD_OK :: MessageType where "TUNNEL_BUILD_OK = 0x21"
definition TUNNEL_BUILD_FAIL :: MessageType where "TUNNEL_BUILD_FAIL = 0x22"
definition TUNNEL_DATA :: MessageType where "TUNNEL_DATA = 0x30"
definition TUNNEL_ACK :: MessageType where "TUNNEL_ACK = 0x31"
definition TUNNEL_CLOSE :: MessageType where "TUNNEL_CLOSE = 0x32"
definition TUNNEL_HEARTBEAT :: MessageType where "TUNNEL_HEARTBEAT = 0x33"
definition APP_MESSAGE :: MessageType where "APP_MESSAGE = 0x40"
definition APP_ACK :: MessageType where "APP_ACK = 0x41"
definition APP_FILE_META :: MessageType where "APP_FILE_META = 0x42"
definition APP_FILE_BLOCK :: MessageType where "APP_FILE_BLOCK = 0x43"
definition APP_FILE_ACK :: MessageType where "APP_FILE_ACK = 0x44"
definition APP_FILE_COMPLETE :: MessageType where "APP_FILE_COMPLETE = 0x45"
definition HANDSHAKE_INIT :: MessageType where "HANDSHAKE_INIT = 0x50"
definition HANDSHAKE_RESPONSE :: MessageType where "HANDSHAKE_RESPONSE = 0x51"
definition HANDSHAKE_COMPLETE :: MessageType where "HANDSHAKE_COMPLETE = 0x52"
definition ERROR_TYPE :: MessageType where "ERROR_TYPE = 0xFF"

definition FLAG_NONE :: FrameFlags where "FLAG_NONE = 0x0000"
definition IS_RESPONSE :: FrameFlags where "IS_RESPONSE = 0x0001"
definition IS_ERROR :: FrameFlags where "IS_ERROR = 0x0002"
definition IS_ENCRYPTED :: FrameFlags where "IS_ENCRYPTED = 0x0004"
definition IS_FRAGMENT :: FrameFlags where "IS_FRAGMENT = 0x0008"
definition HAS_MORE :: FrameFlags where "HAS_MORE = 0x0010"

definition flags_or :: "FrameFlags \<Rightarrow> FrameFlags \<Rightarrow> FrameFlags" where
  "flags_or a b = a OR b"

definition flag_set :: "FrameFlags \<Rightarrow> FrameFlags \<Rightarrow> bool" where
  "flag_set a b \<longleftrightarrow> a AND b \<noteq> 0"

definition message_type_names :: "(MessageType \<times> string) list" where
  "message_type_names =
     [(PING, ''PING''), (PONG, ''PONG''),
      (FIND_NODE_REQUEST, ''FIND_NODE_REQUEST''), (FIND_NODE_RESPONSE, ''FIND_NODE_RESPONSE''),
      (STORE_REQUEST, ''STORE_REQUEST''), (STORE_RESPONSE, ''STORE_RESPONSE''),
      (FIND_VALUE_REQUEST, ''FIND_VALUE_REQUEST''), (FIND_VALUE_RESPONSE, ''FIND_VALUE_RESPONSE''),
      (TUNNEL_BUILD, ''TUNNEL_BUILD''), (TUNNEL_BUILD_OK, ''TUNNEL_BUILD_OK''),
      (TUNNEL_BUILD_FAIL, ''TUNNEL_BUILD_FAIL''), (TUNNEL_DATA, ''TUNNEL_DATA''),
      (TUNNEL_ACK, ''TUNNEL_ACK''), (TUNNEL_CLOSE, ''TUNNEL_CLOSE''), (TUNNEL_HEARTBEAT, ''TUNNEL_HEARTBEAT''),
      (APP_MESSAGE, ''APP_MESSAGE''), (APP_ACK, ''APP_ACK''), (APP_FILE_META, ''APP_FILE_META''),
      (APP_FILE_BLOCK, ''APP_FILE_BLOCK''), (APP_FILE_ACK, ''APP_FILE_ACK''),
      (APP_FILE_COMPLETE, ''APP_FILE_COMPLETE''), (HANDSHAKE_INIT, ''HANDSHAKE_INIT''),
      (HANDSHAKE_RESPONSE, ''HANDSHAKE_RESPONSE''), (HANDSHAKE_COMPLETE, ''HANDSHAKE_COMPLETE''),
      (ERROR_TYPE, ''ERROR'')]"

definition message_type_name :: "MessageType \<Rightarrow> string" where
  "message_type_name t = (case map_of message_type_names t of Some n \<Rightarrow> n | None \<Rightarrow> ''UNKNOWN'')"

section \<open>Frames\<close>

definition PROTOCOL_VERSION :: u8 where "PROTOCOL_VERSION = 1"

definition MAX_FRAME_PAYLOAD :: u32 where "MAX_FRAME_PAYLOAD = 65536"

definition FRAME_HEADER_SIZE :: nat where "FRAME_HEADER_SIZE = 24"

datatype FrameError = IncompleteHeader | IncompletePayload | UnsupportedVersion | PayloadTooLarge | InvalidType

fun frame_error_name :: "FrameError \<Rightarrow> string" where
  "frame_error_name IncompleteHeader = ''IncompleteHeader''"
| "frame_error_name IncompletePayload = ''IncompletePayload''"
| "frame_error_name UnsupportedVersion = ''UnsupportedVersion''"
| "frame_error_name PayloadTooLarge = ''PayloadTooLarge''"
| "frame_error_name InvalidType = ''InvalidType''"

record Frame =
  frame_version :: u8
  frame_type :: MessageType
  frame_flags :: FrameFlags
  frame_request_id :: RequestID
  frame_payload :: bytes

definition Frame_default :: Frame where
  "Frame_default = \<lparr>frame_version = PROTOCOL_VERSION, frame_type = ERROR_TYPE, frame_flags = FLAG_NONE,
     frame_request_id = zero_barray, frame_payload = []\<rparr>"

definition Frame_new :: "MessageType \<Rightarrow> RequestID \<Rightarrow> Frame" where
  "Frame_new t rid = Frame_default\<lparr>frame_type := t, frame_request_id := rid\<rparr>"

definition Frame_wire_size :: "Frame \<Rightarrow> nat" where
  "Frame_wire_size f = FRAME_HEADER_SIZE + length (frame_payload f)"

definition Frame_serialize :: "Frame \<Rightarrow> bytes" where
  "Frame_serialize f =
     [frame_version f] @ [frame_type f] @ be_bytes 2 (frame_flags f) @ bytes_of (frame_request_id f) @
     be_bytes 4 (of_nat (length (frame_payload f)) :: u32) @ frame_payload f"

definition Frame_make_ping :: "RequestID \<Rightarrow> Frame" where
  "Frame_make_ping rid = Frame_default\<lparr>frame_type := PING, frame_request_id := rid\<rparr>"

definition Frame_make_pong :: "RequestID \<Rightarrow> Frame" where
  "Frame_make_pong rid = Frame_default\<lparr>frame_type := PONG, frame_flags := IS_RESPONSE, frame_request_id := rid\<rparr>"

definition Frame_make_error :: "json_lib \<Rightarrow> RequestID \<Rightarrow> string \<Rightarrow> Frame" where
  "Frame_make_error jl rid message =
     Frame_default\<lparr>frame_type := ERROR_TYPE, frame_flags := flags_or IS_RESPONSE IS_ERROR,
       frame_request_id := rid, frame_payload := to_cbor jl (json_obj [(''error'', JString message)])\<rparr>"

section \<open>Parser\<close>

record FrameParser =
  expected_version :: u8
  max_payload :: u32
  fp_buffer :: bytes

definition FrameParser_new :: "u8 \<Rightarrow> u32 \<Rightarrow> FrameParser" where
  "FrameParser_new v m = \<lparr>expected_version = v, max_payload = m, fp_buffer = []\<rparr>"

definition FrameParser_feed :: "bytes \<Rightarrow> FrameParser \<Rightarrow> FrameParser" where
  "FrameParser_feed data p = p\<lparr>fp_buffer := fp_buffer p @ data\<rparr>"

definition FrameParser_next_frame :: "FrameParser \<Rightarrow> (FrameError + Frame) \<times> FrameParser" where
  "FrameParser_next_frame p =
     (let buf = fp_buffer p in
      if length buf < FRAME_HEADER_SIZE then (Inl IncompleteHeader, p)
      else
        let version = buf ! 0;
            msg_type = buf ! 1;
            flags = be_word (take 2 (drop 2 buf));
            rid = barray_of (take 16 (drop 4 buf));
            payload_len = (be_word (take 4 (drop 20 buf)) :: u32)
        in if version \<noteq> expected_version p
           then (Inl UnsupportedVersion, p\<lparr>fp_buffer := drop FRAME_HEADER_SIZE buf\<rparr>)
           else if max_payload p < payload_len
           then (Inl PayloadTooLarge, p\<lparr>fp_buffer := drop FRAME_HEADER_SIZE buf\<rparr>)
           else
             let total_size = FRAME_HEADER_SIZE + unat payload_len
             in if length buf < total_size then (Inl IncompletePayload, p)
                else (Inr \<lparr>frame_version = version, frame_type = msg_type, frame_flags = flags,
                           frame_request_id = rid,
                           frame_payload = (if 0 < payload_len
                             then take (total_size - FRAME_HEADER_SIZE) (drop FRAME_HEADER_SIZE buf) else [])\<rparr>,
                      p\<lparr>fp_buffer := drop total_size buf\<rparr>))"

definition FrameParser_has_pending_data :: "FrameParser \<Rightarrow> bool" where
  "FrameParser_has_pending_data p \<longleftrightarrow> fp_buffer p \<noteq> []"

definition FrameParser_buffered_bytes :: "FrameParser \<Rightarrow> nat" where
  "FrameParser_buffered_bytes p = length (fp_buffer p)"

definition FrameParser_reset :: "FrameParser \<Rightarrow> FrameParser" where
  "FrameParser_reset p = p\<lparr>fp_buffer := []\<rparr>"

definition FrameParser_set_expected_version :: "u8 \<Rightarrow> FrameParser \<Rightarrow> FrameParser" where
  "FrameParser_set_expected_version v p = p\<lparr>expected_version := v\<rparr>"

definition FrameParser_set_max_payload :: "u32 \<Rightarrow> FrameParser \<Rightarrow> FrameParser" where
  "FrameParser_set_max_payload m p = p\<lparr>max_payload := m\<rparr>"

section \<open>One parsing step\<close>

text \<open>The header of a buffer, read as the code reads it.\<close>

definition payload_len_of :: "bytes \<Rightarrow> nat" where
  "payload_len_of buf = unat (be_word (take 4 (drop 20 buf)) :: u32)"

definition frame_of :: "bytes \<Rightarrow> Frame" where
  "frame_of buf = \<lparr>frame_version = buf ! 0, frame_type = buf ! 1, frame_flags = be_word (take 2 (drop 2 buf)),
     frame_request_id = barray_of (take 16 (drop 4 buf)),
     frame_payload = take (payload_len_of buf) (drop 24 buf)\<rparr>"

lemma next_frame_eq:
  "FrameParser_next_frame p =
    (let buf = fp_buffer p; n = payload_len_of buf in
     if length buf < 24 then (Inl IncompleteHeader, p)
     else if buf ! 0 \<noteq> expected_version p then (Inl UnsupportedVersion, p\<lparr>fp_buffer := drop 24 buf\<rparr>)
     else if unat (max_payload p) < n then (Inl PayloadTooLarge, p\<lparr>fp_buffer := drop 24 buf\<rparr>)
     else if length buf < 24 + n then (Inl IncompletePayload, p)
     else (Inr (frame_of buf), p\<lparr>fp_buffer := drop (24 + n) buf\<rparr>))"
  by (auto simp: FrameParser_next_frame_def payload_len_of_def frame_of_def FRAME_HEADER_SIZE_def Let_def
      word_less_nat_alt)

text \<open>Bytes that arrive later do not change a decision that was taken.\<close>

lemma header_append:
  assumes "24 \<le> length buf"
  shows "payload_len_of (buf @ d) = payload_len_of buf" "(buf @ d) ! 0 = buf ! 0"
    "24 + payload_len_of buf \<le> length buf \<Longrightarrow> frame_of (buf @ d) = frame_of buf"
  using assms by (auto simp: payload_len_of_def frame_of_def nth_append)

lemma next_frame_feed_ok:
  "FrameParser_next_frame p = (Inr f, p') \<Longrightarrow>
   FrameParser_next_frame (FrameParser_feed d p) = (Inr f, FrameParser_feed d p')"
  by (auto simp: next_frame_eq FrameParser_feed_def header_append Let_def split: if_splits)

definition incomplete :: "FrameError \<Rightarrow> bool" where
  "incomplete e \<longleftrightarrow> e = IncompleteHeader \<or> e = IncompletePayload"

lemma next_frame_feed_fatal:
  "FrameParser_next_frame p = (Inl e, p') \<Longrightarrow> \<not> incomplete e \<Longrightarrow>
   FrameParser_next_frame (FrameParser_feed d p) = (Inl e, FrameParser_feed d p')"
  by (auto simp: next_frame_eq FrameParser_feed_def header_append incomplete_def Let_def split: if_splits)

lemma next_frame_incomplete: "FrameParser_next_frame p = (Inl e, p') \<Longrightarrow> incomplete e \<Longrightarrow> p' = p"
  by (auto simp: next_frame_eq incomplete_def Let_def split: if_splits)

lemma next_frame_consumes:
  "FrameParser_next_frame p = (Inr f, p') \<Longrightarrow> length (fp_buffer p') + 24 \<le> length (fp_buffer p)"
  by (auto simp: next_frame_eq Let_def split: if_splits)

lemma next_frame_config:
  "FrameParser_next_frame p = (r, p') \<Longrightarrow> expected_version p' = expected_version p \<and> max_payload p' = max_payload p"
  by (auto simp: next_frame_eq Let_def split: if_splits)

section \<open>Streams\<close>

text \<open>
  The loop of \<^verbatim>\<open>TcpConnection::process_incoming\<close>, as far as parsing goes: extract frames until the
  parser reports an error. It ends because each frame consumes its header.
\<close>

function drain :: "FrameParser \<Rightarrow> Frame list \<times> FrameError \<times> FrameParser" where
  "drain p =
     (case FrameParser_next_frame p of
        (Inl e, p') \<Rightarrow> ([], e, p')
      | (Inr f, p') \<Rightarrow> (case drain p' of (fs, r) \<Rightarrow> (f # fs, r)))"
  by auto
termination
  by (relation "measure (\<lambda>p. length (fp_buffer p))") (auto dest!: next_frame_consumes [OF sym])

declare drain.simps [simp del]

text \<open>Reads arrive in chunks; reading stops after an error other than an incomplete frame.\<close>

fun receive :: "bytes list \<Rightarrow> FrameParser \<Rightarrow> Frame list \<times> FrameError option \<times> FrameParser" where
  "receive [] p = ([], None, p)"
| "receive (c # cs) p =
     (case drain (FrameParser_feed c p) of
        (fs, e, p1) \<Rightarrow>
          if incomplete e then (case receive cs p1 of (gs, r) \<Rightarrow> (fs @ gs, r)) else (fs, Some e, p1))"

lemma drain_feed:
  "drain (FrameParser_feed d p) =
    (case drain p of (fs, e, p1) \<Rightarrow>
       if incomplete e then (case drain (FrameParser_feed d p1) of (gs, r) \<Rightarrow> (fs @ gs, r))
       else (fs, e, FrameParser_feed d p1))"
proof (induction p rule: drain.induct)
  case (1 p)
  obtain r p' where nx: "FrameParser_next_frame p = (r, p')" by fastforce
  show ?case
  proof (cases r)
    case (Inl e)
    show ?thesis
    proof (cases "incomplete e")
      case True
      with nx Inl have "p' = p" by (simp add: next_frame_incomplete)
      with nx Inl True have "drain p = ([], e, p)" by (simp add: drain.simps)
      with True show ?thesis by (simp split: prod.splits)
    next
      case False
      with nx Inl next_frame_feed_fatal [of p e p' d]
      have "drain p = ([], e, p')" "drain (FrameParser_feed d p) = ([], e, FrameParser_feed d p')"
        by (simp_all add: drain.simps)
      with False show ?thesis by simp
    qed
  next
    case (Inr f)
    with nx next_frame_feed_ok [of p f p' d]
    have "drain p = (case drain p' of (fs, r) \<Rightarrow> (f # fs, r))"
      "drain (FrameParser_feed d p) = (case drain (FrameParser_feed d p') of (fs, r) \<Rightarrow> (f # fs, r))"
      by (simp_all add: drain.simps)
    with 1 [OF nx [symmetric] Inr] show ?thesis by (auto split: prod.splits)
  qed
qed

lemma feed_feed: "FrameParser_feed c2 (FrameParser_feed c1 p) = FrameParser_feed (c1 @ c2) p"
  by (simp add: FrameParser_feed_def)

lemma drain_incomplete_fixed: "drain p = (fs, e, p1) \<Longrightarrow> incomplete e \<Longrightarrow> drain p1 = ([], e, p1)"
proof (induction p arbitrary: fs rule: drain.induct)
  case (1 p)
  obtain r p' where nx: "FrameParser_next_frame p = (r, p')" by fastforce
  show ?case
  proof (cases r)
    case (Inl e')
    with nx 1(2) have "e' = e" "p1 = p'" by (auto simp: drain.simps [of p])
    with nx Inl 1(3) next_frame_incomplete [of p e p'] show ?thesis by (simp add: drain.simps)
  next
    case (Inr f)
    with nx 1(2) obtain gs where "drain p' = (gs, e, p1)" by (auto simp: drain.simps [of p] split: prod.splits)
    from 1(1) [OF nx [symmetric] Inr this 1(3)] show ?thesis .
  qed
qed

text \<open>Chunks make no difference.\<close>

lemma receive_eq_drain:
  assumes "drain p = ([], e0, p)" "incomplete e0" "cs \<noteq> []"
  shows "receive cs p = (case drain (FrameParser_feed (concat cs) p) of (fs, e, p1) \<Rightarrow>
    if incomplete e then (fs, None, p1) else (fs, Some e, snd (snd (receive cs p))))"
  using assms
proof (induction cs arbitrary: p e0)
  case (Cons c cs)
  obtain fs e p1 where d: "drain (FrameParser_feed c p) = (fs, e, p1)" by (cases "drain (FrameParser_feed c p)")
  show ?case
  proof (cases "incomplete e")
    case False
    with d drain_feed [of "concat cs" "FrameParser_feed c p"] show ?thesis by (simp add: feed_feed)
  next
    case True
    note fixed = drain_incomplete_fixed [OF d True]
    show ?thesis
    proof (cases cs)
      case Nil
      with d True show ?thesis by simp
    next
      case (Cons c' cs')
      with Cons.IH [OF fixed True] have IH: "receive cs p1 = (case drain (FrameParser_feed (concat cs) p1) of (fs, e, p1') \<Rightarrow>
        if incomplete e then (fs, None, p1') else (fs, Some e, snd (snd (receive cs p1))))" by simp
      show ?thesis
        using d True IH drain_feed [of "concat cs" "FrameParser_feed c p"]
        by (auto simp: feed_feed split: prod.splits)
    qed
  qed
qed simp

section \<open>Serialised frames\<close>

definition sendable :: "u8 \<Rightarrow> u32 \<Rightarrow> Frame \<Rightarrow> bool" where
  "sendable v m f \<longleftrightarrow> frame_version f = v \<and> length (frame_payload f) \<le> unat m"

lemma serialize_header:
  assumes "length (frame_payload f) < 2 ^ 32"
  shows "payload_len_of (Frame_serialize f @ d) = length (frame_payload f)"
    "frame_of (Frame_serialize f @ d) = f" "(Frame_serialize f @ d) ! 0 = frame_version f"
proof -
  have len: "(be_word (be_bytes 4 (of_nat (length (frame_payload f)) :: u32)) :: u32) = of_nat (length (frame_payload f))"
    "(be_word (be_bytes 2 (frame_flags f)) :: u16) = frame_flags f"
    by (simp_all add: be_word_be_bytes)
  show n: "payload_len_of (Frame_serialize f @ d) = length (frame_payload f)"
    using assms by (simp add: payload_len_of_def Frame_serialize_def len unat_of_nat take_bit_eq_mod
        numeral_eq_Suc [symmetric])
  show "frame_of (Frame_serialize f @ d) = f"
    using n by (simp add: frame_of_def Frame_serialize_def len)
  show "(Frame_serialize f @ d) ! 0 = frame_version f" by (simp add: Frame_serialize_def)
qed

lemma sendable_length: "sendable v m f \<Longrightarrow> length (frame_payload f) < 2 ^ 32"
proof -
  assume "sendable v m f"
  moreover have "unat m < 2 ^ 32" using unsigned_less [of m, where 'a = nat] by simp
  ultimately show ?thesis unfolding sendable_def by linarith
qed

lemma length_serialize: "length (Frame_serialize f) = 24 + length (frame_payload f)"
  by (simp add: Frame_serialize_def)

lemma next_frame_serialize:
  assumes "sendable (expected_version p) (max_payload p) f" "fp_buffer p = Frame_serialize f @ d"
  shows "FrameParser_next_frame p = (Inr f, p\<lparr>fp_buffer := d\<rparr>)"
  using assms(1) serialize_header [OF sendable_length [OF assms(1)], of d]
  by (simp add: next_frame_eq Let_def assms(2) length_serialize sendable_def)

text \<open>The bytes of a complete frame are the serialisation of what the parser reads from them.\<close>

lemma serialize_frame_of:
  assumes "24 + payload_len_of buf \<le> length buf"
  shows "Frame_serialize (frame_of buf) = take (24 + payload_len_of buf) buf"
proof -
  let ?n = "payload_len_of buf"
  have n: "(of_nat ?n :: u32) = be_word (take 4 (drop 20 buf))" by (simp add: payload_len_of_def)
  have w4: "be_bytes 4 (be_word (take 4 (drop 20 buf)) :: u32) = take 4 (drop 20 buf)"
    "be_bytes 2 (be_word (take 2 (drop 2 buf)) :: u16) = take 2 (drop 2 buf)"
    using assms by (auto intro!: be_bytes_be_word)
  have rid: "bytes_of (barray_of (take 16 (drop 4 buf)) :: RequestID) = take 16 (drop 4 buf)"
    using assms by (intro bytes_of_barray_of_exact) simp
  have "length (take ?n (drop 24 buf)) = ?n" using assms by simp
  then have "Frame_serialize (frame_of buf) = [buf ! 0, buf ! 1] @ take 2 (drop 2 buf) @ take 16 (drop 4 buf) @
      take 4 (drop 20 buf) @ take ?n (drop 24 buf)"
    unfolding Frame_serialize_def frame_of_def Frame.simps by (simp only: n w4 rid) simp
  moreover have "[buf ! 0, buf ! 1] = take 2 buf"
    using assms by (intro nth_equalityI) (auto simp: less_Suc_eq nth_append numeral_2_eq_2)
  moreover have "take (a + b) buf = take a buf @ take b (drop a buf)" for a b by (rule take_add)
  from this [of 24 ?n] this [of 20 4] this [of 4 16] this [of 2 2]
  have "take (24 + ?n) buf = take 2 buf @ take 2 (drop 2 buf) @ take 16 (drop 4 buf) @ take 4 (drop 20 buf) @
      take ?n (drop 24 buf)" by simp
  ultimately show ?thesis by simp
qed

lemma next_frame_ok_iff:
  "FrameParser_next_frame p = (Inr f, p') \<longleftrightarrow>
    sendable (expected_version p) (max_payload p) f \<and>
    fp_buffer p = Frame_serialize f @ fp_buffer p' \<and> p' = p\<lparr>fp_buffer := fp_buffer p'\<rparr>"
proof
  assume r: "FrameParser_next_frame p = (Inr f, p')"
  let ?buf = "fp_buffer p"
  from r have f: "f = frame_of ?buf" and p': "p' = p\<lparr>fp_buffer := drop (24 + payload_len_of ?buf) ?buf\<rparr>"
    and len: "24 + payload_len_of ?buf \<le> length ?buf" and v: "?buf ! 0 = expected_version p"
    and m: "payload_len_of ?buf \<le> unat (max_payload p)"
    by (auto simp: next_frame_eq Let_def split: if_splits)
  from len v m have "sendable (expected_version p) (max_payload p) f"
    by (simp add: f sendable_def frame_of_def)
  moreover have "?buf = Frame_serialize f @ fp_buffer p'"
    using serialize_frame_of [OF len] by (simp add: f p')
  ultimately show "sendable (expected_version p) (max_payload p) f \<and>
    ?buf = Frame_serialize f @ fp_buffer p' \<and> p' = p\<lparr>fp_buffer := fp_buffer p'\<rparr>" by (simp add: p')
next
  assume "sendable (expected_version p) (max_payload p) f \<and>
    fp_buffer p = Frame_serialize f @ fp_buffer p' \<and> p' = p\<lparr>fp_buffer := fp_buffer p'\<rparr>"
  with next_frame_serialize show "FrameParser_next_frame p = (Inr f, p')" by metis
qed

lemma drain_serialized:
  "\<forall>f \<in> set fs. sendable v m f \<Longrightarrow>
   drain (FrameParser_feed (concat (map Frame_serialize fs)) (FrameParser_new v m)) =
     (fs, IncompleteHeader, FrameParser_new v m)"
proof (induction fs)
  case Nil
  show ?case by (simp add: drain.simps next_frame_eq FrameParser_feed_def FrameParser_new_def)
next
  case (Cons f fs)
  let ?p = "FrameParser_feed (concat (map Frame_serialize (f # fs))) (FrameParser_new v m)"
  let ?p' = "FrameParser_feed (concat (map Frame_serialize fs)) (FrameParser_new v m)"
  have "FrameParser_next_frame ?p = (Inr f, ?p\<lparr>fp_buffer := concat (map Frame_serialize fs)\<rparr>)"
    using Cons.prems by (intro next_frame_serialize) (simp_all add: FrameParser_feed_def FrameParser_new_def)
  moreover have "?p\<lparr>fp_buffer := concat (map Frame_serialize fs)\<rparr> = ?p'"
    by (simp add: FrameParser_feed_def FrameParser_new_def)
  ultimately have "FrameParser_next_frame ?p = (Inr f, ?p')" by simp
  with Cons show ?case unfolding drain.simps [of ?p] by simp
qed

lemma drain_new: "drain (FrameParser_new v m) = ([], IncompleteHeader, FrameParser_new v m)"
  by (simp add: drain.simps next_frame_eq FrameParser_new_def)

lemma receive_serialized:
  assumes "\<forall>f \<in> set fs. frame_version f = v \<and> length (frame_payload f) \<le> unat m"
    and "concat chunks = concat (map Frame_serialize fs)"
  shows "receive chunks (FrameParser_new v m) = (fs, None, FrameParser_new v m)"
proof (cases "chunks = []")
  case True
  with assms(2) have "concat (map Frame_serialize fs) = []" by simp
  then have "fs = []" by (cases fs) (simp_all add: Frame_serialize_def)
  with True show ?thesis by simp
next
  case False
  have "\<forall>f \<in> set fs. sendable v m f" using assms(1) by (simp add: sendable_def)
  note drained = drain_serialized [OF this]
  have inc: "incomplete IncompleteHeader" by (simp add: incomplete_def)
  show ?thesis
    by (subst receive_eq_drain [OF drain_new inc False]) (simp add: assms(2) drained inc)
qed

section \<open>Properties\<close>

definition test_frame :: Frame where
  "test_frame = (Frame_new STORE_REQUEST (barray_of [9, 8]))\<lparr>frame_payload := [1, 2, 3]\<rparr>"

text \<open>
  C30. The transport delivers what was sent: serialise any frames of the expected version whose
  payloads fit, cut the byte stream into arbitrary chunks, and feed the chunks one by one to a
  new parser, extracting frames after each; the frames come out unchanged, in order, with no
  error and an empty buffer.
\<close>

theorem FrameParser_stream_roundtrip:
  assumes "\<forall>f \<in> set fs. frame_version f = v \<and> length (frame_payload f) \<le> unat m"
    and "concat chunks = concat (map Frame_serialize fs)"
  shows "receive chunks (FrameParser_new v m) = (fs, None, FrameParser_new v m)"
  using assms by (rule receive_serialized)

theorem FrameParser_stream_roundtrip_witness:
  "receive [take 10 (Frame_serialize test_frame), drop 10 (Frame_serialize test_frame)] (FrameParser_new 1 65536)
     = ([test_frame], None, FrameParser_new 1 65536)"
  by (rule FrameParser_stream_roundtrip)
    (simp_all add: test_frame_def Frame_new_def Frame_default_def PROTOCOL_VERSION_def)

text \<open>
  Chunking is irrelevant for every input, also a malformed one: two ways to cut the same bytes
  give the same frames and the same final error, if any.
\<close>

theorem FrameParser_chunking_irrelevant:
  assumes "concat cs = concat cs'" and "cs \<noteq> []" and "cs' \<noteq> []"
  shows "fst (receive cs (FrameParser_new v m)) = fst (receive cs' (FrameParser_new v m)) \<and>
    fst (snd (receive cs (FrameParser_new v m))) = fst (snd (receive cs' (FrameParser_new v m)))"
proof -
  have "fst (receive ds (FrameParser_new v m)) = fst (drain (FrameParser_feed (concat ds) (FrameParser_new v m))) \<and>
    fst (snd (receive ds (FrameParser_new v m))) =
      (let e = fst (snd (drain (FrameParser_feed (concat ds) (FrameParser_new v m)))) in if incomplete e then None else Some e)"
    if "ds \<noteq> []" for ds
    by (subst (1 2) receive_eq_drain [OF drain_new _ that]) (auto simp: incomplete_def Let_def split: prod.splits)
  with assms show ?thesis by simp
qed

theorem FrameParser_chunking_irrelevant_witness:
  "fst (receive [[1, 2], [3] @ replicate 30 0] (FrameParser_new 1 65536)) =
   fst (receive [[1], [2, 3], replicate 30 0] (FrameParser_new 1 65536))"
  using FrameParser_chunking_irrelevant [of "[[1, 2], [3] @ replicate 30 0]" "[[1], [2, 3], replicate 30 0]" 1 65536]
  by simp

text \<open>
  One call of \<^verbatim>\<open>next_frame\<close>, on every branch. It returns a frame exactly when the buffer starts
  with the serialisation of a frame of the expected version and an allowed size, and consumes
  exactly these bytes. An incomplete header or payload consumes nothing; a wrong version or an
  oversized payload consumes the 24 header bytes. No other error occurs: the parser never
  reports an unknown message type.
\<close>

theorem FrameParser_next_frame_spec:
  "(FrameParser_next_frame p = (Inr f, p') \<longleftrightarrow>
      frame_version f = expected_version p \<and> length (frame_payload f) \<le> unat (max_payload p) \<and>
      fp_buffer p = Frame_serialize f @ fp_buffer p' \<and> p' = p\<lparr>fp_buffer := fp_buffer p'\<rparr>) \<and>
   (FrameParser_next_frame p = (Inl e, p') \<longrightarrow>
      (e = IncompleteHeader \<and> length (fp_buffer p) < 24 \<and> p' = p) \<or>
      (e = IncompletePayload \<and> 24 \<le> length (fp_buffer p) \<and> p' = p) \<or>
      (e = UnsupportedVersion \<and> fp_buffer p ! 0 \<noteq> expected_version p \<and> p' = p\<lparr>fp_buffer := drop 24 (fp_buffer p)\<rparr>) \<or>
      (e = PayloadTooLarge \<and> fp_buffer p ! 0 = expected_version p \<and> p' = p\<lparr>fp_buffer := drop 24 (fp_buffer p)\<rparr>))"
  using next_frame_ok_iff [of p f p']
  by (auto simp: sendable_def next_frame_eq Let_def split: if_splits)

theorem FrameParser_next_frame_spec_witness:
  "let p = FrameParser_feed (Frame_serialize test_frame @ [7]) (FrameParser_new 1 65536);
       p' = FrameParser_feed [7] (FrameParser_new 1 65536)
   in FrameParser_next_frame p = (Inr test_frame, p')"
  using FrameParser_next_frame_spec [of "FrameParser_feed (Frame_serialize test_frame @ [7]) (FrameParser_new 1 65536)"
      test_frame "FrameParser_feed [7] (FrameParser_new 1 65536)"]
  by (simp add: FrameParser_feed_def FrameParser_new_def test_frame_def Frame_new_def Frame_default_def PROTOCOL_VERSION_def Let_def)

end
