(* ===== verification/Secure_Session.thy ===== *)
theory Secure_Session
  imports Ake_Messages Replay_Cache Wire_Frame
begin

text \<open>
  Model of \<^verbatim>\<open>src/security/secure_session.hpp\<close> and \<^verbatim>\<open>secure_session.cpp\<close>: the handshake state machine
  and the AEAD protection of frames. Every operation returns its result and the session it
  leaves; a thrown exception is \<open>Inl\<close> with the session as it was at the throw. \<open>decrypt_frame\<close>
  is \<open>None\<close> when the replay cache does not return. The random bytes an operation draws (an
  ephemeral secret key, a nonce, a session id) are its first arguments.
\<close>

datatype SessionRole = Initiator | Responder

datatype SessionState = Uninitialized | HandshakeInitSent | HandshakeRespSent | Active | Closed | Failed

fun session_state_name :: "SessionState \<Rightarrow> string" where
  "session_state_name Uninitialized = ''Uninitialized''"
| "session_state_name HandshakeInitSent = ''HandshakeInitSent''"
| "session_state_name HandshakeRespSent = ''HandshakeRespSent''"
| "session_state_name Active = ''Active''"
| "session_state_name Closed = ''Closed''"
| "session_state_name Failed = ''Failed''"

record SecureSession =
  ss_state :: SessionState
  ss_role :: SessionRole
  session_id :: RequestID
  ss_peer_node_id :: NodeID
  peer_identity_pub :: public_key
  eph_keypair :: "X25519Keypair option"
  local_nonce :: "32 barray"
  peer_nonce :: "32 barray"
  saved_init :: "HandshakeInit option"
  transcript_b :: bytes
  tx_key :: "32 barray"
  rx_key :: "32 barray"
  tx_seq :: u64
  replay_cache :: ReplayCache

section \<open>Operations\<close>

definition SecureSession_new :: SecureSession where
  "SecureSession_new =
     \<lparr>ss_state = Uninitialized, ss_role = Initiator, session_id = zero_barray, ss_peer_node_id = zero_barray,
      peer_identity_pub = zero_barray, eph_keypair = None, local_nonce = zero_barray, peer_nonce = zero_barray,
      saved_init = None, transcript_b = [], tx_key = zero_barray, rx_key = zero_barray, tx_seq = 0,
      replay_cache = ReplayCache_new 256\<rparr>"

definition SecureSession_is_active :: "SecureSession \<Rightarrow> bool" where
  "SecureSession_is_active s \<longleftrightarrow> ss_state s = Active"

definition initiate_handshake ::
  "sodium \<Rightarrow> 32 barray \<Rightarrow> 32 barray \<Rightarrow> Keypair \<Rightarrow> SecureSession \<Rightarrow> HandshakeInit throwing \<times> SecureSession" where
  "initiate_handshake so rand_eph rand_nonce local_keypair s =
     (let s1 = s\<lparr>ss_role := Initiator\<rparr> in
      case X25519Keypair_generate so rand_eph of
        Inl e \<Rightarrow> (Inl e, s1)
      | Inr eph \<Rightarrow>
          (let s2 = s1\<lparr>eph_keypair := Some eph\<rparr> in
           case generate_nonce so rand_nonce of
             Inl e \<Rightarrow> (Inl e, s2)
           | Inr nonce \<Rightarrow>
               (let init = \<lparr>hi_version = 1, hi_node_id = Keypair_node_id so local_keypair,
                            hi_identity_public_key = kp_public_key local_keypair,
                            hi_ephemeral_public_key = x_public_key eph, hi_nonce = nonce\<rparr>
                in (Inr init, s2\<lparr>local_nonce := nonce, saved_init := Some init, ss_state := HandshakeInitSent\<rparr>))))"

definition process_handshake_response ::
  "sodium \<Rightarrow> HandshakeResponse \<Rightarrow> Keypair \<Rightarrow> SecureSession \<Rightarrow> HandshakeComplete option throwing \<times> SecureSession" where
  "process_handshake_response so resp local_keypair s =
     (case (ss_state s, saved_init s, eph_keypair s) of
        (HandshakeInitSent, Some init, Some eph) \<Rightarrow>
          if \<not> verify_node_id so (hr_node_id resp) (hr_identity_public_key resp)
          then (Inr None, s\<lparr>ss_state := Failed\<rparr>)
          else
            let tb = compute_transcript_b init (hr_session_id resp) (hr_node_id resp)
                       (hr_identity_public_key resp) (hr_ephemeral_public_key resp) (hr_nonce resp);
                s1 = s\<lparr>transcript_b := tb\<rparr>
            in if \<not> Keypair_verify so (hr_signature resp) tb (hr_identity_public_key resp)
               then (Inr None, s1\<lparr>ss_state := Failed\<rparr>)
               else
                 (case x25519_diffie_hellman so (x_secret_key eph) (hr_ephemeral_public_key resp) of
                    Inl e \<Rightarrow> (Inl e, s1)
                  | Inr None \<Rightarrow> (Inr None, s1\<lparr>ss_state := Failed\<rparr>)
                  | Inr (Some shared_secret) \<Rightarrow>
                      (let s2 = s1\<lparr>peer_nonce := hr_nonce resp\<rparr> in
                       case derive_session_keys so shared_secret (local_nonce s2) (peer_nonce s2) of
                         Inl e \<Rightarrow> (Inl e, s2)
                       | Inr keys \<Rightarrow>
                           (let s3 = s2\<lparr>tx_key := key_a_to_b keys, rx_key := key_b_to_a keys,
                                        session_id := hr_session_id resp, ss_peer_node_id := hr_node_id resp,
                                        peer_identity_pub := hr_identity_public_key resp\<rparr>
                            in case Keypair_sign so (compute_transcript_a tb) local_keypair of
                                 Inl e \<Rightarrow> (Inl e, s3)
                               | Inr sig_a \<Rightarrow>
                                   (Inr (Some \<lparr>hc_session_id = session_id s3, hc_signature = sig_a\<rparr>),
                                    s3\<lparr>ss_state := Active\<rparr>))))
      | _ \<Rightarrow> (Inr None, s\<lparr>ss_state := Failed\<rparr>))"

definition process_handshake_init ::
  "sodium \<Rightarrow> 32 barray \<Rightarrow> 32 barray \<Rightarrow> RequestID \<Rightarrow> HandshakeInit \<Rightarrow> Keypair \<Rightarrow> SecureSession
     \<Rightarrow> HandshakeResponse option throwing \<times> SecureSession" where
  "process_handshake_init so rand_eph rand_nonce rand_sid init local_keypair s =
     (if hi_version init \<noteq> 1 then (Inr None, s\<lparr>ss_state := Failed\<rparr>)
      else if \<not> verify_node_id so (hi_node_id init) (hi_identity_public_key init)
      then (Inr None, s\<lparr>ss_state := Failed\<rparr>)
      else
        let s1 = s\<lparr>ss_role := Responder, ss_peer_node_id := hi_node_id init,
                   peer_identity_pub := hi_identity_public_key init, peer_nonce := hi_nonce init\<rparr> in
        case X25519Keypair_generate so rand_eph of
          Inl e \<Rightarrow> (Inl e, s1)
        | Inr eph \<Rightarrow>
            (let s2 = s1\<lparr>eph_keypair := Some eph\<rparr> in
             case generate_nonce so rand_nonce of
               Inl e \<Rightarrow> (Inl e, s2)
             | Inr nonce \<Rightarrow>
                 (let s3 = s2\<lparr>local_nonce := nonce\<rparr> in
                  case RequestID_generate so rand_sid of
                    Inl e \<Rightarrow> (Inl e, s3)
                  | Inr sid \<Rightarrow>
                      (let s4 = s3\<lparr>session_id := sid\<rparr> in
                       case x25519_diffie_hellman so (x_secret_key eph) (hi_ephemeral_public_key init) of
                         Inl e \<Rightarrow> (Inl e, s4)
                       | Inr None \<Rightarrow> (Inr None, s4\<lparr>ss_state := Failed\<rparr>)
                       | Inr (Some shared_secret) \<Rightarrow>
                           (case derive_session_keys so shared_secret (hi_nonce init) nonce of
                              Inl e \<Rightarrow> (Inl e, s4)
                            | Inr keys \<Rightarrow>
                                (let tb = compute_transcript_b init sid (Keypair_node_id so local_keypair)
                                            (kp_public_key local_keypair) (x_public_key eph) nonce;
                                     s5 = s4\<lparr>tx_key := key_b_to_a keys, rx_key := key_a_to_b keys, transcript_b := tb\<rparr>
                                 in case Keypair_sign so tb local_keypair of
                                      Inl e \<Rightarrow> (Inl e, s5)
                                    | Inr sig_b \<Rightarrow>
                                        (Inr (Some \<lparr>hr_session_id = sid, hr_node_id = Keypair_node_id so local_keypair,
                                                    hr_identity_public_key = kp_public_key local_keypair,
                                                    hr_ephemeral_public_key = x_public_key eph, hr_nonce = nonce,
                                                    hr_signature = sig_b\<rparr>),
                                         s5\<lparr>ss_state := HandshakeRespSent\<rparr>)))))))"

definition process_handshake_complete ::
  "sodium \<Rightarrow> HandshakeComplete \<Rightarrow> SecureSession \<Rightarrow> bool \<times> SecureSession" where
  "process_handshake_complete so cmp s =
     (if ss_state s \<noteq> HandshakeRespSent then (False, s\<lparr>ss_state := Failed\<rparr>)
      else if hc_session_id cmp \<noteq> session_id s then (False, s\<lparr>ss_state := Failed\<rparr>)
      else if \<not> Keypair_verify so (hc_signature cmp) (compute_transcript_a (transcript_b s)) (peer_identity_pub s)
      then (False, s\<lparr>ss_state := Failed\<rparr>)
      else (True, s\<lparr>ss_state := Active\<rparr>))"

definition build_frame_aad :: "Frame \<Rightarrow> u32 \<Rightarrow> 24 barray" where
  "build_frame_aad f payload_len =
     barray_of ([frame_version f, frame_type f] @ be_bytes 2 (frame_flags f) @ bytes_of (frame_request_id f) @
       be_bytes 4 payload_len)"

definition encrypt_frame :: "sodium \<Rightarrow> Frame \<Rightarrow> SecureSession \<Rightarrow> bool throwing \<times> Frame \<times> SecureSession" where
  "encrypt_frame so f s =
     (if ss_state s \<noteq> Active then (Inr False, f, s)
      else
        let seq = tx_seq s + 1;
            s1 = s\<lparr>tx_seq := seq\<rparr>;
            nonce = construct_aead_nonce seq;
            f1 = f\<lparr>frame_flags := flags_or (frame_flags f) IS_ENCRYPTED\<rparr>;
            enc_payload_len = (of_nat (8 + length (frame_payload f1) + AEAD_TAG_SIZE) :: u32);
            aad = build_frame_aad f1 enc_payload_len
        in case chacha20_poly1305_encrypt so (frame_payload f1) (bytes_of aad) nonce (tx_key s1) of
             Inl e \<Rightarrow> (Inl e, f1, s1)
           | Inr ciphertext \<Rightarrow> (Inr True, f1\<lparr>frame_payload := be_bytes 8 seq @ ciphertext\<rparr>, s1))"

definition decrypt_frame ::
  "sodium \<Rightarrow> Frame \<Rightarrow> SecureSession \<Rightarrow> (bool throwing \<times> Frame \<times> SecureSession) option" where
  "decrypt_frame so f s =
     (if ss_state s \<noteq> Active then Some (Inr False, f, s)
      else if \<not> flag_set (frame_flags f) IS_ENCRYPTED then Some (Inr False, f, s)
      else if length (frame_payload f) < 8 + AEAD_TAG_SIZE then Some (Inr False, f, s)
      else
        let seq = be_word (take 8 (frame_payload f)) in
        case ReplayCache_update_and_check seq (replay_cache s) of
          None \<Rightarrow> None
        | Some (ok, cache) \<Rightarrow>
            (let s1 = s\<lparr>replay_cache := cache\<rparr> in
             if \<not> ok then Some (Inr False, f, s1)
             else
               let nonce = construct_aead_nonce seq;
                   aad = build_frame_aad f (of_nat (length (frame_payload f)))
               in case chacha20_poly1305_decrypt so (drop 8 (frame_payload f)) (bytes_of aad) nonce (rx_key s1) of
                    Inl e \<Rightarrow> Some (Inl e, f, s1)
                  | Inr None \<Rightarrow> Some (Inr False, f, s1)
                  | Inr (Some plaintext) \<Rightarrow>
                      Some (Inr True, f\<lparr>frame_payload := plaintext,
                                        frame_flags := frame_flags f AND NOT IS_ENCRYPTED\<rparr>, s1)))"

definition SecureSession_close :: "SecureSession \<Rightarrow> SecureSession" where
  "SecureSession_close s = s\<lparr>ss_state := Closed\<rparr>"

section \<open>The handshake on its success path\<close>

lemmas ready_defs = ensure_ready X25519Keypair_generate_def generate_nonce_def RequestID_generate_def

lemma initiate_ok:
  assumes "sodium_ready so" "crypto_scalarmult_base so rand_eph = Some pub"
  shows "initiate_handshake so rand_eph rand_nonce kp s =
    (let init = \<lparr>hi_version = 1, hi_node_id = Keypair_node_id so kp, hi_identity_public_key = kp_public_key kp,
                 hi_ephemeral_public_key = pub, hi_nonce = rand_nonce\<rparr>
     in (Inr init, s\<lparr>ss_role := Initiator, eph_keypair := Some \<lparr>x_public_key = pub, x_secret_key = rand_eph\<rparr>,
           local_nonce := rand_nonce, saved_init := Some init, ss_state := HandshakeInitSent\<rparr>))"
  using assms by (simp add: initiate_handshake_def ready_defs Let_def)

lemma process_init_ok:
  assumes "sodium_ready so" "crypto_scalarmult_base so rand_eph = Some pub"
    and "hi_version init = 1" "hi_node_id init = compute_node_id so (hi_identity_public_key init)"
    and "crypto_scalarmult so rand_eph (hi_ephemeral_public_key init) = Some ss" "ss \<noteq> zero_barray"
    and "derive_session_keys so ss (hi_nonce init) rand_nonce = Inr keys"
    and "tb = compute_transcript_b init rand_sid (Keypair_node_id so kp) (kp_public_key kp) pub rand_nonce"
    and "Keypair_sign so tb kp = Inr sig"
  shows "process_handshake_init so rand_eph rand_nonce rand_sid init kp s =
    (Inr (Some \<lparr>hr_session_id = rand_sid, hr_node_id = Keypair_node_id so kp, hr_identity_public_key = kp_public_key kp,
           hr_ephemeral_public_key = pub, hr_nonce = rand_nonce, hr_signature = sig\<rparr>),
     s\<lparr>ss_role := Responder, ss_peer_node_id := hi_node_id init, peer_identity_pub := hi_identity_public_key init,
       peer_nonce := hi_nonce init, eph_keypair := Some \<lparr>x_public_key = pub, x_secret_key = rand_eph\<rparr>,
       local_nonce := rand_nonce, session_id := rand_sid, tx_key := key_b_to_a keys, rx_key := key_a_to_b keys,
       transcript_b := tb, ss_state := HandshakeRespSent\<rparr>)"
proof -
  have "\<not> sodium_init so < 0" using assms(1) by (simp add: sodium_ready_def)
  with assms show ?thesis
    by (simp add: process_handshake_init_def ready_defs verify_node_id_iff diffie_hellman_eq Let_def)
qed

lemma process_response_ok:
  assumes "sodium_ready so" "ss_state s = HandshakeInitSent" "saved_init s = Some init" "eph_keypair s = Some eph"
    and "hr_node_id resp = compute_node_id so (hr_identity_public_key resp)"
    and "tb = compute_transcript_b init (hr_session_id resp) (hr_node_id resp)
                       (hr_identity_public_key resp) (hr_ephemeral_public_key resp) (hr_nonce resp)"
    and "Keypair_verify so (hr_signature resp) tb (hr_identity_public_key resp)"
    and "crypto_scalarmult so (x_secret_key eph) (hr_ephemeral_public_key resp) = Some ss" "ss \<noteq> zero_barray"
    and "derive_session_keys so ss (local_nonce s) (hr_nonce resp) = Inr keys"
    and "Keypair_sign so (compute_transcript_a tb) kp = Inr sig"
  shows "process_handshake_response so resp kp s =
    (Inr (Some \<lparr>hc_session_id = hr_session_id resp, hc_signature = sig\<rparr>),
     s\<lparr>transcript_b := tb, peer_nonce := hr_nonce resp, tx_key := key_a_to_b keys, rx_key := key_b_to_a keys,
       session_id := hr_session_id resp, ss_peer_node_id := hr_node_id resp,
       peer_identity_pub := hr_identity_public_key resp, ss_state := Active\<rparr>)"
  using assms by (simp add: process_handshake_response_def verify_node_id_iff diffie_hellman_eq Let_def)

section \<open>Frame protection\<close>

lemma flag_or_set: "flag_set (flags_or x IS_ENCRYPTED) IS_ENCRYPTED"
proof -
  have "bit ((x OR 4) AND (4 :: u16)) 2" by (simp add: bit_simps)
  then show ?thesis by (auto simp: flag_set_def flags_or_def IS_ENCRYPTED_def)
qed

lemma flag_or_clear: "\<not> flag_set x IS_ENCRYPTED \<Longrightarrow> flags_or x IS_ENCRYPTED AND NOT IS_ENCRYPTED = x"
proof -
  assume "\<not> flag_set x IS_ENCRYPTED"
  then have z: "x AND IS_ENCRYPTED = 0" by (simp add: flag_set_def)
  show ?thesis
  proof (rule bit_eqI)
    fix n
    have "\<not> (bit x n \<and> bit IS_ENCRYPTED n)" using z by (metis bit_0_eq bit_and_iff bot_apply bot_bool_def)
    moreover assume "possible_bit TYPE(u16) n"
    ultimately show "bit (flags_or x IS_ENCRYPTED AND NOT IS_ENCRYPTED) n = bit x n"
      by (auto simp: flags_or_def bit_simps)
  qed
qed

text \<open>What the sender puts on the wire, when its session is active.\<close>

lemma encrypt_frame_ok:
  assumes "sodium_ready so" "aead_correct so" "ss_state s = Active"
  obtains c where "encrypt_frame so f s =
      (Inr True, f\<lparr>frame_flags := flags_or (frame_flags f) IS_ENCRYPTED, frame_payload := be_bytes 8 (tx_seq s + 1) @ c\<rparr>,
       s\<lparr>tx_seq := tx_seq s + 1\<rparr>)"
    and "length c = length (frame_payload f) + 16"
    and "crypto_aead_decrypt so c
      (bytes_of (build_frame_aad (f\<lparr>frame_flags := flags_or (frame_flags f) IS_ENCRYPTED\<rparr>)
         (of_nat (8 + length (frame_payload f) + 16))))
      (construct_aead_nonce (tx_seq s + 1)) (tx_key s) = Some (frame_payload f)"
proof -
  let ?aad = "bytes_of (build_frame_aad (f\<lparr>frame_flags := flags_or (frame_flags f) IS_ENCRYPTED\<rparr>)
         (of_nat (8 + length (frame_payload f) + 16)))"
  let ?n = "construct_aead_nonce (tx_seq s + 1)"
  obtain c where c: "crypto_aead_encrypt so (frame_payload f) ?aad ?n (tx_key s) = Some c"
    "length c = length (frame_payload f) + 16" "crypto_aead_decrypt so c ?aad ?n (tx_key s) = Some (frame_payload f)"
    using assms(2) unfolding aead_correct_def by blast
  have "encrypt_frame so f s =
      (Inr True, f\<lparr>frame_flags := flags_or (frame_flags f) IS_ENCRYPTED, frame_payload := be_bytes 8 (tx_seq s + 1) @ c\<rparr>,
       s\<lparr>tx_seq := tx_seq s + 1\<rparr>)"
    using assms(1,3) c(1)
    by (simp add: encrypt_frame_def chacha20_poly1305_encrypt_def ensure_ready Let_def AEAD_TAG_SIZE_def)
  with c(2,3) that show thesis by blast
qed

lemma build_frame_aad_payload [simp]: "build_frame_aad (f\<lparr>frame_payload := x\<rparr>) n = build_frame_aad f n"
  by (simp add: build_frame_aad_def)

lemma decrypt_frame_accepted:
  assumes "sodium_ready so" "ss_state r = Active" "flag_set (frame_flags g) IS_ENCRYPTED"
    and "frame_payload g = be_bytes 8 q @ c" "16 \<le> length c"
    and "ReplayCache_update_and_check q (replay_cache r) = Some (True, c')"
    and "crypto_aead_decrypt so c (bytes_of (build_frame_aad g (of_nat (length (frame_payload g)))))
      (construct_aead_nonce q) (rx_key r) = Some p"
  shows "decrypt_frame so g r =
    Some (Inr True, g\<lparr>frame_payload := p, frame_flags := frame_flags g AND NOT IS_ENCRYPTED\<rparr>, r\<lparr>replay_cache := c'\<rparr>)"
proof -
  have seq: "(be_word (take 8 (frame_payload g)) :: u64) = q" and rest: "drop 8 (frame_payload g) = c"
    using be_word_be_bytes [of 8 q] by (simp_all add: assms(4))
  have "\<not> length (frame_payload g) < 8 + AEAD_TAG_SIZE" "\<not> length c < AEAD_TAG_SIZE"
    using assms(4,5) by (simp_all add: AEAD_TAG_SIZE_def)
  with assms(2,3,6,7) show ?thesis
    by (simp add: decrypt_frame_def seq rest Let_def chacha20_poly1305_decrypt_def ensure_ready [OF assms(1)])
qed

lemma decrypt_encrypted:
  assumes ready: "sodium_ready so" "aead_correct so" and act: "ss_state s = Active" "ss_state r = Active"
    and key: "rx_key r = tx_key s" and plain: "\<not> flag_set (frame_flags f) IS_ENCRYPTED"
    and cache: "ReplayCache_update_and_check (tx_seq s + 1) (replay_cache r) = Some (True, c')"
  obtains g where "encrypt_frame so f s = (Inr True, g, s\<lparr>tx_seq := tx_seq s + 1\<rparr>)"
    and "decrypt_frame so g r = Some (Inr True, f, r\<lparr>replay_cache := c'\<rparr>)"
proof -
  obtain c where enc: "encrypt_frame so f s =
      (Inr True, f\<lparr>frame_flags := flags_or (frame_flags f) IS_ENCRYPTED, frame_payload := be_bytes 8 (tx_seq s + 1) @ c\<rparr>,
       s\<lparr>tx_seq := tx_seq s + 1\<rparr>)" and len: "length c = length (frame_payload f) + 16"
    and dec: "crypto_aead_decrypt so c
      (bytes_of (build_frame_aad (f\<lparr>frame_flags := flags_or (frame_flags f) IS_ENCRYPTED\<rparr>)
         (of_nat (8 + length (frame_payload f) + 16))))
      (construct_aead_nonce (tx_seq s + 1)) (tx_key s) = Some (frame_payload f)"
    using encrypt_frame_ok [OF ready act(1)] by metis
  let ?g = "f\<lparr>frame_flags := flags_or (frame_flags f) IS_ENCRYPTED, frame_payload := be_bytes 8 (tx_seq s + 1) @ c\<rparr>"
  have "decrypt_frame so ?g r = Some (Inr True, ?g\<lparr>frame_payload := frame_payload f,
      frame_flags := frame_flags ?g AND NOT IS_ENCRYPTED\<rparr>, r\<lparr>replay_cache := c'\<rparr>)"
    using dec act(2) key cache len flag_or_set [of "frame_flags f"]
    by (intro decrypt_frame_accepted [OF ready(1)]) (simp_all add: add.commute)
  also have "?g\<lparr>frame_payload := frame_payload f, frame_flags := frame_flags ?g AND NOT IS_ENCRYPTED\<rparr> = f"
    using flag_or_clear [OF plain] by simp
  finally have "decrypt_frame so ?g r = Some (Inr True, f, r\<lparr>replay_cache := c'\<rparr>)" .
  with enc that show thesis by blast
qed

fun encrypt_all :: "sodium \<Rightarrow> Frame list \<Rightarrow> SecureSession \<Rightarrow> (Frame list \<times> SecureSession) option" where
  "encrypt_all so [] s = Some ([], s)"
| "encrypt_all so (f # fs) s =
     (case encrypt_frame so f s of
        (Inr True, g, s') \<Rightarrow> map_option (\<lambda>(gs, s''). (g # gs, s'')) (encrypt_all so fs s')
      | _ \<Rightarrow> None)"

fun decrypt_all :: "sodium \<Rightarrow> Frame list \<Rightarrow> SecureSession \<Rightarrow> (Frame list \<times> SecureSession) option" where
  "decrypt_all so [] s = Some ([], s)"
| "decrypt_all so (g # gs) s =
     (case decrypt_frame so g s of
        Some (Inr True, f, s') \<Rightarrow> map_option (\<lambda>(fs, s''). (f # fs, s'')) (decrypt_all so gs s')
      | _ \<Rightarrow> None)"

text \<open>The receiver is ready for what the sender sends next.\<close>

definition in_sync :: "SecureSession \<Rightarrow> SecureSession \<Rightarrow> bool" where
  "in_sync s r \<longleftrightarrow> ss_state s = Active \<and> ss_state r = Active \<and> rx_key r = tx_key s \<and>
     (initialized (replay_cache r) \<longrightarrow> highest_seq (replay_cache r) \<le> tx_seq s)"

lemma next_seq_accepted:
  assumes "initialized c \<longrightarrow> highest_seq c \<le> n" "unat n + 1 < 2 ^ 64 - 1"
  obtains c' where "ReplayCache_update_and_check (n + 1) c = Some (True, c')" "highest_seq c' = n + 1"
proof -
  have un: "unat (n + 1) = unat n + 1" using assms(2) by (simp add: unat_word_ariths)
  have "n + 1 \<noteq> - 1"
  proof
    assume "n + 1 = - 1"
    then have "unat (n + 1) = unat (- 1 :: u64)" by (rule arg_cong)
    also have "\<dots> = 2 ^ 64 - 1" by (simp add: unsigned_minus_1_eq_mask mask_eq_exp_minus_1)
    finally have "unat (n + 1) = 2 ^ 64 - 1" .
    with un assms(2) show False by simp
  qed
  then have "ReplayCache_terminates (n + 1) c" by (simp add: ReplayCache_terminates_def)
  moreover have "highest_seq c < n + 1" if "initialized c"
    using that assms(1) un by (simp add: word_less_nat_alt word_le_nat_alt)
  ultimately have "\<exists>c'. ReplayCache_update_and_check (n + 1) c = Some (True, c') \<and> highest_seq c' = n + 1"
    by (cases "initialized c") (simp_all add: update_and_check_eq)
  with that show thesis by blast
qed

lemma channel_delivers:
  assumes "sodium_ready so" "aead_correct so" "in_sync s r"
    and "\<forall>f \<in> set fs. \<not> flag_set (frame_flags f) IS_ENCRYPTED" "unat (tx_seq s) + length fs < 2 ^ 64 - 1"
  shows "\<exists>gs s' r'. encrypt_all so fs s = Some (gs, s') \<and> decrypt_all so gs r = Some (fs, r') \<and> in_sync s' r' \<and>
    unat (tx_seq s') = unat (tx_seq s) + length fs"
  using assms(3-)
proof (induction fs arbitrary: s r)
  case Nil
  then show ?case by simp
next
  case (Cons f fs)
  obtain c' where c': "ReplayCache_update_and_check (tx_seq s + 1) (replay_cache r) = Some (True, c')"
    "highest_seq c' = tx_seq s + 1"
    using next_seq_accepted [of "replay_cache r" "tx_seq s"] Cons.prems by (auto simp: in_sync_def)
  let ?s1 = "s\<lparr>tx_seq := tx_seq s + 1\<rparr>" and ?r1 = "r\<lparr>replay_cache := c'\<rparr>"
  obtain g where g: "encrypt_frame so f s = (Inr True, g, ?s1)" "decrypt_frame so g r = Some (Inr True, f, ?r1)"
    using decrypt_encrypted [OF assms(1,2) _ _ _ _ c'(1)] Cons.prems by (auto simp: in_sync_def)
  have sync: "in_sync ?s1 ?r1" using Cons.prems c'(2) by (simp add: in_sync_def)
  have un: "unat (tx_seq ?s1) = Suc (unat (tx_seq s))"
    using Cons.prems(3) by (simp add: unat_word_ariths)
  obtain gs s' r' where "encrypt_all so fs ?s1 = Some (gs, s')" "decrypt_all so gs ?r1 = Some (fs, r')" "in_sync s' r'"
    "unat (tx_seq s') = unat (tx_seq ?s1) + length fs"
    using Cons.IH [OF sync] Cons.prems un by auto
  with g un show ?case by (intro exI [of _ "g # gs"] exI [of _ s'] exI [of _ r']) simp
qed

section \<open>Replays\<close>

definition frame_seq :: "Frame \<Rightarrow> u64" where
  "frame_seq g = be_word (take 8 (frame_payload g))"

text \<open>
  The one case in which \<^verbatim>\<open>decrypt_frame\<close> does not return: a marked frame with the number \<open>2\<^sup>6\<^sup>4 - 1\<close>, offered to
  an active session whose replay window already stands less than its width below that number. The
  replay check comes before the authentication, so the frame need not be authentic.
\<close>

definition hangs_on :: "SecureSession \<Rightarrow> Frame \<Rightarrow> bool" where
  "hangs_on ses g \<longleftrightarrow> ss_state ses = Active \<and> flag_set (frame_flags g) IS_ENCRYPTED \<and> frame_seq g = - 1 \<and>
     initialized (replay_cache ses) \<and> highest_seq (replay_cache ses) \<noteq> - 1 \<and>
     unat (- 1 - highest_seq (replay_cache ses)) < window_size (replay_cache ses)"

lemma decrypt_frame_hangs: "decrypt_frame so g ses = None \<Longrightarrow> hangs_on ses g"
  by (auto simp: decrypt_frame_def hangs_on_def frame_seq_def update_and_check_eq ReplayCache_terminates_def Let_def
      split: if_splits option.splits sum.splits)

text \<open>Did \<^verbatim>\<open>decrypt_frame\<close> accept the frame, and the session it leaves.\<close>

definition decrypt_admit :: "sodium \<Rightarrow> Frame \<Rightarrow> SecureSession \<Rightarrow> (bool \<times> SecureSession) option" where
  "decrypt_admit so g s = map_option (\<lambda>(res, f, s'). (res = Inr True, s')) (decrypt_frame so g s)"

definition session_seen :: "SecureSession \<Rightarrow> Frame set \<Rightarrow> bool" where
  "session_seen s F \<longleftrightarrow> inj_on frame_seq F \<and> (\<exists>S. ReplayCache_inv (replay_cache s) S \<and> frame_seq ` F \<subseteq> S)"

lemma decrypt_admit_cases:
  assumes "decrypt_admit so g s = Some (ok, s')"
  obtains "\<not> ok" "s' = s"
  | acc c' where "ReplayCache_update_and_check (frame_seq g) (replay_cache s) = Some (acc, c')"
    "s' = s\<lparr>replay_cache := c'\<rparr>" "ok \<Longrightarrow> acc"
proof (cases "ss_state s \<noteq> Active \<or> \<not> flag_set (frame_flags g) IS_ENCRYPTED \<or>
    length (frame_payload g) < 8 + AEAD_TAG_SIZE")
  case True
  then have "decrypt_frame so g s = Some (Inr False, g, s)" by (auto simp: decrypt_frame_def)
  with assms that(1) show thesis by (simp add: decrypt_admit_def)
next
  case False
  show thesis
  proof (cases "ReplayCache_update_and_check (frame_seq g) (replay_cache s)")
    case None
    with False assms show thesis by (simp add: decrypt_admit_def decrypt_frame_def frame_seq_def)
  next
    case (Some r)
    obtain acc c' where r: "r = (acc, c')" by fastforce
    have "s' = s\<lparr>replay_cache := c'\<rparr> \<and> (ok \<longrightarrow> acc)"
      using False Some assms
      by (cases acc) (auto simp: r decrypt_admit_def decrypt_frame_def frame_seq_def Let_def
          split: sum.splits option.splits)
    with Some r that(2) show thesis by blast
  qed
qed

interpretation sr: replay_filter "decrypt_admit so" session_seen for so
proof
  fix c S k ok c'
  assume seen: "session_seen c S" and step: "decrypt_admit so k c = Some (ok, c')"
  from seen obtain T where T: "inj_on frame_seq S" "ReplayCache_inv (replay_cache c) T" "frame_seq ` S \<subseteq> T"
    by (auto simp: session_seen_def)
  from step show "session_seen c' (if ok then insert k S else S)"
  proof (cases rule: decrypt_admit_cases)
    case 1
    with seen show ?thesis by simp
  next
    case (2 acc d)
    have inv: "ReplayCache_inv d (if acc then insert (frame_seq k) T else T)"
      using update_and_check_inv(1) [OF T(2) 2(1)] .
    have "frame_seq k \<notin> frame_seq ` S" if ok
      using update_and_check_fresh [OF T(2)] 2(1,3) T(3) that by auto
    with inv T 2 show ?thesis by (auto simp: session_seen_def split: if_splits)
  qed
next
  fix c S k c'
  assume seen: "session_seen c S" and step: "decrypt_admit so k c = Some (True, c')"
  from seen obtain T where T: "ReplayCache_inv (replay_cache c) T" "frame_seq ` S \<subseteq> T"
    by (auto simp: session_seen_def)
  from step show "k \<notin> S"
  proof (cases rule: decrypt_admit_cases)
    case (2 acc d)
    with update_and_check_fresh [OF T(1)] T(2) show ?thesis by auto
  qed simp
qed

section \<open>The state machine\<close>

text \<open>
  Calls that return, in any order and with any arguments. \<open>session_auth\<close>: an active session has
  seen a signature of its peer over a transcript of this handshake, and the peer's node id is
  the hash of its key.
\<close>

inductive SecureSession_step :: "sodium \<Rightarrow> SecureSession \<Rightarrow> SecureSession \<Rightarrow> bool" for so where
  initiate: "initiate_handshake so r1 r2 kp s = (Inr init, s') \<Longrightarrow> SecureSession_step so s s'"
| response: "process_handshake_response so resp kp s = (Inr res, s') \<Longrightarrow> SecureSession_step so s s'"
| init: "process_handshake_init so r1 r2 r3 init kp s = (Inr res', s') \<Longrightarrow> SecureSession_step so s s'"
| complete: "process_handshake_complete so cmp s = (ok, s') \<Longrightarrow> SecureSession_step so s s'"
| encrypt: "encrypt_frame so f s = (Inr ok, g, s') \<Longrightarrow> SecureSession_step so s s'"
| decrypt: "decrypt_frame so f s = Some (Inr ok, g, s') \<Longrightarrow> SecureSession_step so s s'"
| close: "SecureSession_step so s (SecureSession_close s)"

definition session_auth :: "sodium \<Rightarrow> SecureSession \<Rightarrow> bool" where
  "session_auth so s \<longleftrightarrow>
     (ss_state s \<in> {HandshakeRespSent, Active} \<longrightarrow> ss_peer_node_id s = compute_node_id so (peer_identity_pub s)) \<and>
     (ss_state s = Active \<longrightarrow>
       (\<exists>sig. Keypair_verify so sig (transcript_b s) (peer_identity_pub s) \<or>
              Keypair_verify so sig (compute_transcript_a (transcript_b s)) (peer_identity_pub s)))"

lemma initiate_state:
  "initiate_handshake so r1 r2 kp s = (Inr init, s') \<Longrightarrow> ss_state s' = HandshakeInitSent"
  by (auto simp: initiate_handshake_def Let_def split: sum.splits)

lemma process_response_result:
  assumes "process_handshake_response so resp kp s = (Inr res, s')"
  shows "(res = None \<and> ss_state s' = Failed) \<or>
    (res \<noteq> None \<and> ss_state s = HandshakeInitSent \<and> ss_state s' = Active \<and> ss_peer_node_id s' = hr_node_id resp \<and>
     peer_identity_pub s' = hr_identity_public_key resp \<and> session_id s' = hr_session_id resp \<and>
     ss_peer_node_id s' = compute_node_id so (peer_identity_pub s') \<and>
     (\<exists>init. saved_init s = Some init \<and> transcript_b s' = compute_transcript_b init (hr_session_id resp) (hr_node_id resp)
        (hr_identity_public_key resp) (hr_ephemeral_public_key resp) (hr_nonce resp)) \<and>
     Keypair_verify so (hr_signature resp) (transcript_b s') (peer_identity_pub s'))"
  using assms
  by (auto simp: process_handshake_response_def verify_node_id_iff Let_def
      split: SessionState.splits option.splits if_splits sum.splits)

lemma process_init_result:
  assumes "process_handshake_init so r1 r2 r3 init kp s = (Inr res, s')"
  shows "(res = None \<and> ss_state s' = Failed) \<or>
    (res \<noteq> None \<and> ss_state s' = HandshakeRespSent \<and> ss_peer_node_id s' = hi_node_id init \<and>
     peer_identity_pub s' = hi_identity_public_key init \<and> session_id s' = r3 \<and>
     ss_peer_node_id s' = compute_node_id so (peer_identity_pub s'))"
  using assms
  by (auto simp: process_handshake_init_def RequestID_generate_def verify_node_id_iff Let_def
      split: option.splits if_splits sum.splits)

lemma process_complete_result:
  assumes "process_handshake_complete so cmp s = (ok, s')"
  shows "(\<not> ok \<and> s' = s\<lparr>ss_state := Failed\<rparr>) \<or>
    (ok \<and> ss_state s = HandshakeRespSent \<and> hc_session_id cmp = session_id s \<and> s' = s\<lparr>ss_state := Active\<rparr> \<and>
     Keypair_verify so (hc_signature cmp) (compute_transcript_a (transcript_b s)) (peer_identity_pub s))"
  using assms by (auto simp: process_handshake_complete_def split: if_splits)

lemma encrypt_keeps:
  "encrypt_frame so f s = (res, g, s') \<Longrightarrow> s' = s \<or> ss_state s = Active \<and> s' = s\<lparr>tx_seq := tx_seq s + 1\<rparr>"
  by (auto simp: encrypt_frame_def Let_def split: if_splits sum.splits)

lemma decrypt_keeps:
  assumes "decrypt_frame so f s = Some (res, g, s')"
  obtains c where "s' = s\<lparr>replay_cache := c\<rparr>"
proof -
  have "decrypt_admit so f s = Some (res = Inr True, s')" using assms by (simp add: decrypt_admit_def)
  then show thesis
  proof (cases rule: decrypt_admit_cases)
    case 1
    with that [of "replay_cache s"] show thesis by simp
  qed (use that in blast)
qed

lemma session_auth_step:
  assumes "SecureSession_step so s s'" "session_auth so s"
  shows "session_auth so s'"
  using assms
proof (induction rule: SecureSession_step.induct)
  case (initiate r1 r2 kp s init s')
  then show ?case by (simp add: session_auth_def initiate_state)
next
  case (response resp kp s res s')
  with process_response_result [OF response(1)] show ?case by (auto simp: session_auth_def)
next
  case (init r1 r2 r3 init kp s res s')
  with process_init_result [OF init(1)] show ?case by (auto simp: session_auth_def)
next
  case (complete cmp s ok s')
  with process_complete_result [OF complete(1)] show ?case by (auto simp: session_auth_def)
next
  case (encrypt f s ok g s')
  with encrypt_keeps [OF encrypt(1)] show ?case by (auto simp: session_auth_def)
next
  case (decrypt f s ok g s')
  from decrypt(1) obtain c where "s' = s\<lparr>replay_cache := c\<rparr>" by (rule decrypt_keeps)
  with decrypt(2) show ?case by (simp add: session_auth_def)
next
  case (close s)
  then show ?case by (simp add: session_auth_def SecureSession_close_def)
qed

lemma session_auth_reachable: "(SecureSession_step so)\<^sup>*\<^sup>* SecureSession_new s \<Longrightarrow> session_auth so s"
proof (induction rule: rtranclp_induct)
  case base
  show ?case by (simp add: session_auth_def SecureSession_new_def)
next
  case (step s s')
  then show ?case by (blast intro: session_auth_step)
qed

lemma handshake_tx_seq:
  assumes "initiate_handshake so ra na ka SecureSession_new = (Inr init, a1)"
    "process_handshake_init so rb nb sid init' kb SecureSession_new = (Inr (Some resp), b1)"
    "process_handshake_response so resp' ka a1 = (Inr (Some cmp), a2)"
    "process_handshake_complete so cmp' b1 = (True, b2)"
  shows "tx_seq a2 = 0" "tx_seq b2 = 0"
proof -
  have "tx_seq a1 = 0"
    using assms(1) by (auto simp: initiate_handshake_def SecureSession_new_def Let_def split: sum.splits)
  moreover have "tx_seq a2 = tx_seq a1"
    using assms(3) by (auto simp: process_handshake_response_def Let_def
        split: SessionState.splits option.splits if_splits sum.splits)
  moreover have "tx_seq b1 = 0"
    using assms(2) by (auto simp: process_handshake_init_def SecureSession_new_def Let_def
        split: option.splits if_splits sum.splits)
  moreover have "tx_seq b2 = tx_seq b1"
    using assms(4) by (auto simp: process_handshake_complete_def split: if_splits)
  ultimately show "tx_seq a2 = 0" "tx_seq b2 = 0" by simp_all
qed

section \<open>Properties\<close>

lemma honest_handshake:
  assumes ready: "sodium_ready so" "ed25519_correct so" "x25519_agrees so"
    and keys: "Keypair_generate so seed_a = Inr ka" "Keypair_generate so seed_b = Inr kb"
    and eph: "crypto_scalarmult_base so ra = Some pa" "crypto_scalarmult_base so rb = Some pb"
    and dh: "crypto_scalarmult so ra pb = Some ss" "ss \<noteq> zero_barray"
  shows "\<exists>init a1 resp b1 cmp a2 b2.
    initiate_handshake so ra na ka SecureSession_new = (Inr init, a1) \<and>
    process_handshake_init so rb nb sid init kb SecureSession_new = (Inr (Some resp), b1) \<and>
    process_handshake_response so resp ka a1 = (Inr (Some cmp), a2) \<and>
    process_handshake_complete so cmp b1 = (True, b2) \<and>
    ss_state a2 = Active \<and> ss_state b2 = Active \<and>
    tx_key a2 = rx_key b2 \<and> rx_key a2 = tx_key b2 \<and>
    session_id a2 = sid \<and> session_id b2 = sid \<and>
    ss_peer_node_id a2 = Keypair_node_id so kb \<and> peer_identity_pub a2 = kp_public_key kb \<and>
    ss_peer_node_id b2 = Keypair_node_id so ka \<and> peer_identity_pub b2 = kp_public_key ka \<and>
    in_sync a2 b2 \<and> in_sync b2 a2"
proof -
  let ?init = "\<lparr>hi_version = 1, hi_node_id = Keypair_node_id so ka, hi_identity_public_key = kp_public_key ka,
                 hi_ephemeral_public_key = pa, hi_nonce = na\<rparr>"
  let ?tb = "compute_transcript_b ?init sid (Keypair_node_id so kb) (kp_public_key kb) pb nb"
  obtain a1 where a1: "initiate_handshake so ra na ka SecureSession_new = (Inr ?init, a1)"
    "ss_state a1 = HandshakeInitSent" "saved_init a1 = Some ?init"
    "eph_keypair a1 = Some \<lparr>x_public_key = pa, x_secret_key = ra\<rparr>" "local_nonce a1 = na"
    "\<not> initialized (replay_cache a1)"
    using initiate_ok [OF ready(1) eph(1), of na ka SecureSession_new]
    by (auto simp: Let_def SecureSession_new_def ReplayCache_new_def)
  have dh': "crypto_scalarmult so rb pa = Some ss"
    using ready(3) eph dh(1) unfolding x25519_agrees_def by metis
  obtain sk where sk: "derive_session_keys so ss na nb = Inr sk"
    by (simp add: derive_session_keys_eq [OF ready(1)] Let_def)
  obtain sig_b where sig_b: "Keypair_sign so ?tb kb = Inr sig_b" "Keypair_verify so sig_b ?tb (kp_public_key kb)"
    using generate_keypair_layout(2) [OF ready(2) keys(2)] by blast
  obtain sig_a where sig_a: "Keypair_sign so (compute_transcript_a ?tb) ka = Inr sig_a"
    "Keypair_verify so sig_a (compute_transcript_a ?tb) (kp_public_key ka)"
    using generate_keypair_layout(2) [OF ready(2) keys(1)] by blast
  let ?resp = "\<lparr>hr_session_id = sid, hr_node_id = Keypair_node_id so kb, hr_identity_public_key = kp_public_key kb,
           hr_ephemeral_public_key = pb, hr_nonce = nb, hr_signature = sig_b\<rparr>"
  obtain b1 where b1: "process_handshake_init so rb nb sid ?init kb SecureSession_new = (Inr (Some ?resp), b1)"
    "ss_state b1 = HandshakeRespSent" "session_id b1 = sid" "transcript_b b1 = ?tb"
    "ss_peer_node_id b1 = Keypair_node_id so ka" "peer_identity_pub b1 = kp_public_key ka"
    "tx_key b1 = key_b_to_a sk" "rx_key b1 = key_a_to_b sk" "\<not> initialized (replay_cache b1)"
    using process_init_ok [OF ready(1) eph(2), of ?init ss nb sk ?tb sid kb sig_b SecureSession_new] dh' dh(2) sk sig_b(1)
    by (auto simp: Keypair_node_id_def SecureSession_new_def ReplayCache_new_def Let_def)
  let ?cmp = "\<lparr>hc_session_id = sid, hc_signature = sig_a\<rparr>"
  obtain a2 where a2: "process_handshake_response so ?resp ka a1 = (Inr (Some ?cmp), a2)"
    "ss_state a2 = Active" "tx_key a2 = key_a_to_b sk" "rx_key a2 = key_b_to_a sk" "session_id a2 = sid"
    "ss_peer_node_id a2 = Keypair_node_id so kb" "peer_identity_pub a2 = kp_public_key kb"
    "\<not> initialized (replay_cache a2)"
    using process_response_ok [OF ready(1) a1(2,3,4), of ?resp ?tb ss sk ka sig_a] sig_b(2) dh sk sig_a(1) a1(5,6)
    by (auto simp: Keypair_node_id_def)
  have b2: "process_handshake_complete so ?cmp b1 = (True, b1\<lparr>ss_state := Active\<rparr>)"
    using b1 sig_a(2) by (simp add: process_handshake_complete_def)
  show ?thesis
    by (rule exI [of _ ?init], rule exI [of _ a1], rule exI [of _ ?resp], rule exI [of _ b1],
        rule exI [of _ ?cmp], rule exI [of _ a2], rule exI [of _ "b1\<lparr>ss_state := Active\<rparr>"])
      (use a1(1) b1 a2 b2 in \<open>simp add: in_sync_def\<close>)
qed

text \<open>
  The handshake works: two nodes with generated identities that exchange the three messages
  both end in the active state, each holds the other's receiving key as its sending key, both have
  the same session id, and each knows the other's node id and public key. (Assumed of libsodium:
  signatures verify, both ends of a Diffie-Hellman exchange agree, and this exchange did not
  yield the all-zero secret.)
\<close>

theorem SecureSession_handshake_agrees:
  assumes "sodium_ready so" and "ed25519_correct so" and "x25519_agrees so"
    and "Keypair_generate so seed_a = Inr ka" and "Keypair_generate so seed_b = Inr kb"
    and "crypto_scalarmult_base so ra = Some pa" and "crypto_scalarmult_base so rb = Some pb"
    and "crypto_scalarmult so ra pb = Some ss" and "ss \<noteq> zero_barray"
  shows "\<exists>init a1 resp b1 cmp a2 b2.
    initiate_handshake so ra na ka SecureSession_new = (Inr init, a1) \<and>
    process_handshake_init so rb nb sid init kb SecureSession_new = (Inr (Some resp), b1) \<and>
    process_handshake_response so resp ka a1 = (Inr (Some cmp), a2) \<and>
    process_handshake_complete so cmp b1 = (True, b2) \<and>
    ss_state a2 = Active \<and> ss_state b2 = Active \<and>
    tx_key a2 = rx_key b2 \<and> rx_key a2 = tx_key b2 \<and>
    session_id a2 = sid \<and> session_id b2 = sid \<and>
    ss_peer_node_id a2 = Keypair_node_id so kb \<and> peer_identity_pub a2 = kp_public_key kb \<and>
    ss_peer_node_id b2 = Keypair_node_id so ka \<and> peer_identity_pub b2 = kp_public_key ka"
  using honest_handshake [OF assms, of na nb sid] by blast

definition test_keys :: "u8 \<Rightarrow> Keypair" where
  "test_keys n = \<lparr>kp_public_key = barray_of [n],
     kp_secret_key = barray_of (bytes_of (barray_of [n] :: public_key) @ [n])\<rparr>"

lemma test_keys_generated: "Keypair_generate toy_sodium (barray_of [n]) = Inr (test_keys n)"
  by (simp add: Keypair_generate_def toy_sodium_def test_keys_def barray_eq_iff)

lemma toy_base: "crypto_scalarmult_base toy_sodium x = Some x"
  by (simp add: toy_sodium_def)

lemma toy_shared:
  "crypto_scalarmult toy_sodium (barray_of [1]) (barray_of [2]) = Some (barray_of [3])" "(barray_of [3] :: 32 barray) \<noteq> zero_barray"
  by code_simp+

theorem SecureSession_handshake_agrees_witness:
  "\<exists>init a1 resp b1 cmp a2 b2.
    initiate_handshake toy_sodium (barray_of [1]) zero_barray (test_keys 5) SecureSession_new = (Inr init, a1) \<and>
    process_handshake_init toy_sodium (barray_of [2]) zero_barray zero_barray init (test_keys 6) SecureSession_new = (Inr (Some resp), b1) \<and>
    process_handshake_response toy_sodium resp (test_keys 5) a1 = (Inr (Some cmp), a2) \<and>
    process_handshake_complete toy_sodium cmp b1 = (True, b2) \<and> tx_key a2 = rx_key b2"
  using SecureSession_handshake_agrees [OF toy_sodium_ready toy_sodium_ed25519 toy_sodium_x25519
      test_keys_generated [of 5] test_keys_generated [of 6] toy_base toy_base toy_shared, of zero_barray zero_barray zero_barray]
  by blast

text \<open>
  Protected frames arrive: between two active sessions whose keys match and whose counters are
  in step, any list of plain frames that is encrypted one by one decrypts one by one to exactly
  the same frames (header flags included), for as long as the counter stays below \<open>2\<^sup>6\<^sup>4 - 1\<close>, and
  the sessions stay in step.
\<close>

theorem SecureSession_channel_roundtrip:
  assumes "sodium_ready so" and "aead_correct so" and "in_sync s r"
    and "\<forall>f \<in> set fs. \<not> flag_set (frame_flags f) IS_ENCRYPTED"
    and "unat (tx_seq s) + length fs < 2 ^ 64 - 1"
  shows "\<exists>gs s' r'. encrypt_all so fs s = Some (gs, s') \<and> decrypt_all so gs r = Some (fs, r') \<and> in_sync s' r' \<and>
    unat (tx_seq s') = unat (tx_seq s) + length fs"
  using assms by (rule channel_delivers)

definition active_test :: SecureSession where
  "active_test = SecureSession_new\<lparr>ss_state := Active\<rparr>"

theorem SecureSession_channel_roundtrip_witness:
  "\<exists>gs s' r'. encrypt_all toy_sodium [test_frame, test_frame] active_test = Some (gs, s') \<and>
     decrypt_all toy_sodium gs active_test = Some ([test_frame, test_frame], r')"
proof -
  have "in_sync active_test active_test"
    by (simp add: in_sync_def active_test_def SecureSession_new_def ReplayCache_new_def Let_def)
  moreover have "\<forall>f \<in> set [test_frame, test_frame]. \<not> flag_set (frame_flags f) IS_ENCRYPTED"
    by (simp add: test_frame_def Frame_new_def Frame_default_def FLAG_NONE_def flag_set_def)
  moreover have "unat (tx_seq active_test) + length [test_frame, test_frame] < 2 ^ 64 - 1"
    by (simp add: active_test_def SecureSession_new_def)
  ultimately show ?thesis
    using SecureSession_channel_roundtrip [OF toy_sodium_ready toy_sodium_aead] by blast
qed

text \<open>
  No frame is accepted twice: offer any encrypted frames to a session that was never used for
  receiving (in any order, duplicated, forged, interleaved); those that \<^verbatim>\<open>decrypt_frame\<close> accepts
  carry pairwise different sequence numbers, and a frame with a number that was accepted before is
  refused.
\<close>

theorem SecureSession_no_replay:
  assumes "replay_cache s = ReplayCache_new 256"
    and "run_filter (decrypt_admit so) gs s = Some (acc, s')"
  shows "distinct (map frame_seq acc) \<and>
    (\<forall>g h f s''. g \<in> set acc \<longrightarrow> frame_seq h = frame_seq g \<longrightarrow> decrypt_frame so h s' \<noteq> Some (Inr True, f, s''))"
proof -
  have "session_seen s {}" using assms(1) ReplayCache_inv_new by (auto simp: session_seen_def)
  from sr.run_seen [OF this assms(2)] have seen: "session_seen s' (set acc)" and "distinct acc" by simp_all
  then have "distinct (map frame_seq acc)" by (simp add: distinct_map session_seen_def)
  moreover have "decrypt_frame so h s' \<noteq> Some (Inr True, f, s'')" if "g \<in> set acc" "frame_seq h = frame_seq g" for g h f s''
  proof
    assume "decrypt_frame so h s' = Some (Inr True, f, s'')"
    then have "decrypt_admit so h s' = Some (True, s'')" by (simp add: decrypt_admit_def)
    then show False
    proof (cases rule: decrypt_admit_cases)
      case (2 a c')
      from seen obtain S where S: "ReplayCache_inv (replay_cache s') S" "frame_seq ` set acc \<subseteq> S"
        by (auto simp: session_seen_def)
      with update_and_check_fresh [OF S(1)] 2 that show False by auto
    qed simp
  qed
  ultimately show ?thesis by blast
qed

definition test_sealed :: "u8 \<Rightarrow> Frame" where
  "test_sealed n = test_frame\<lparr>frame_flags := IS_ENCRYPTED, frame_payload := replicate 7 0 @ [n, 42] @ replicate 16 0\<rparr>"

theorem SecureSession_no_replay_witness:
  "\<exists>s'. run_filter (decrypt_admit toy_sodium) [test_sealed 1, test_sealed 2, test_sealed 1] active_test
      = Some ([test_sealed 1, test_sealed 2], s') \<and> distinct (map frame_seq [test_sealed 1, test_sealed 2])"
proof -
  let ?run = "run_filter (decrypt_admit toy_sodium) [test_sealed 1, test_sealed 2, test_sealed 1] active_test"
  have "map_option fst ?run = Some [test_sealed 1, test_sealed 2]" by code_simp
  then obtain s' where run: "?run = Some ([test_sealed 1, test_sealed 2], s')" by auto
  have "replay_cache active_test = ReplayCache_new 256" by (simp add: active_test_def SecureSession_new_def)
  from SecureSession_no_replay [OF this run] run show ?thesis by blast
qed

text \<open>
  C2. Only authenticated sessions become active. In every session that calls can produce, in any order
  and with any messages: if it is active, its peer's node id is the hash of the peer's public key, and a
  signature verified under that key over a transcript of the handshake. A session becomes active
  only by a response in state HandshakeInitSent or a completion in state HandshakeRespSent, and
  frames are protected only in an active session.
\<close>

theorem SecureSession_active_authenticated:
  assumes "(SecureSession_step so)\<^sup>*\<^sup>* SecureSession_new s"
  shows "(ss_state s = Active \<longrightarrow>
       ss_peer_node_id s = crypto_hash_sha256 so (bytes_of (peer_identity_pub s)) \<and>
       (\<exists>sig m. m \<in> {transcript_b s, compute_transcript_a (transcript_b s)} \<and>
          crypto_sign_ed25519_verify_detached so sig m (peer_identity_pub s))) \<and>
    (\<forall>s'. SecureSession_step so s s' \<and> ss_state s \<noteq> Active \<and> ss_state s' = Active \<longrightarrow>
       ss_state s \<in> {HandshakeInitSent, HandshakeRespSent}) \<and>
    (ss_state s \<noteq> Active \<longrightarrow> (\<forall>f. encrypt_frame so f s = (Inr False, f, s) \<and> decrypt_frame so f s = Some (Inr False, f, s)))"
proof -
  have "ss_state s \<in> {HandshakeInitSent, HandshakeRespSent}"
    if step: "SecureSession_step so s s'" and "ss_state s \<noteq> Active" "ss_state s' = Active" for s'
    using that
  proof (cases rule: SecureSession_step.cases)
    case (initiate r1 r2 kp init)
    with that show ?thesis by (auto dest: initiate_state)
  next
    case (response resp kp res)
    from process_response_result [OF response] that show ?thesis by auto
  next
    case (init r1 r2 r3 init kp res)
    from process_init_result [OF init] that show ?thesis by auto
  next
    case (complete cmp ok)
    from process_complete_result [OF complete] that show ?thesis by auto
  next
    case (encrypt f ok g)
    from encrypt_keeps [OF encrypt] that show ?thesis by auto
  next
    case (decrypt f ok g)
    then obtain c where "s' = s\<lparr>replay_cache := c\<rparr>" by (rule decrypt_keeps)
    with that show ?thesis by simp
  next
    case close
    with that show ?thesis by (simp add: SecureSession_close_def)
  qed
  moreover have "ss_state s = Active \<longrightarrow>
       ss_peer_node_id s = crypto_hash_sha256 so (bytes_of (peer_identity_pub s)) \<and>
       (\<exists>sig m. m \<in> {transcript_b s, compute_transcript_a (transcript_b s)} \<and>
          crypto_sign_ed25519_verify_detached so sig m (peer_identity_pub s))"
    using session_auth_reachable [OF assms]
    by (auto simp: session_auth_def compute_node_id_def sha256_def Keypair_verify_def)
  moreover have "ss_state s \<noteq> Active \<longrightarrow>
      (\<forall>f. encrypt_frame so f s = (Inr False, f, s) \<and> decrypt_frame so f s = Some (Inr False, f, s))"
    by (simp add: encrypt_frame_def decrypt_frame_def)
  ultimately show ?thesis by blast
qed

lemma handshake_test_reachable:
  "\<exists>s. (SecureSession_step toy_sodium)\<^sup>*\<^sup>* SecureSession_new s \<and> ss_state s = Active"
proof -
  obtain init a1 resp b1 cmp b2 where
    "process_handshake_init toy_sodium (barray_of [2]) zero_barray zero_barray init (test_keys 6) SecureSession_new = (Inr (Some resp), b1)"
    "process_handshake_complete toy_sodium cmp b1 = (True, b2)" and act: "ss_state b2 = Active"
    using honest_handshake [OF toy_sodium_ready toy_sodium_ed25519 toy_sodium_x25519
      test_keys_generated [of 5] test_keys_generated [of 6] toy_base toy_base toy_shared, of zero_barray zero_barray zero_barray]
    by blast
  then have "SecureSession_step toy_sodium SecureSession_new b1" "SecureSession_step toy_sodium b1 b2"
    by (blast intro: SecureSession_step.init SecureSession_step.complete)+
  with act show ?thesis by (meson converse_rtranclp_into_rtranclp rtranclp.rtrancl_refl)
qed

theorem SecureSession_active_authenticated_witness:
  "\<exists>s. (SecureSession_step toy_sodium)\<^sup>*\<^sup>* SecureSession_new s \<and> ss_state s = Active \<and>
     ss_peer_node_id s = crypto_hash_sha256 toy_sodium (bytes_of (peer_identity_pub s))"
proof -
  obtain s where reach: "(SecureSession_step toy_sodium)\<^sup>*\<^sup>* SecureSession_new s" and act: "ss_state s = Active"
    using handshake_test_reachable by blast
  from SecureSession_active_authenticated [OF reach] reach act show ?thesis by blast
qed

text \<open>
  The replay window moves before the frame is authenticated: a forged frame with a high sequence number and a
  tag that does not verify is refused, but the window has advanced to its number, and every genuine
  frame more than a window below it is refused from then on.
\<close>

theorem SecureSession_forgery_moves_window:
  assumes "sodium_ready so" and "ss_state s = Active" and "flag_set (frame_flags g) IS_ENCRYPTED"
    and "24 \<le> length (frame_payload g)"
    and "initialized (replay_cache s)" and "highest_seq (replay_cache s) < frame_seq g" and "frame_seq g \<noteq> - 1"
    and "crypto_aead_decrypt so (drop 8 (frame_payload g))
           (bytes_of (build_frame_aad g (of_nat (length (frame_payload g))))) (construct_aead_nonce (frame_seq g)) (rx_key s) = None"
  shows "\<exists>s'. decrypt_frame so g s = Some (Inr False, g, s') \<and> highest_seq (replay_cache s') = frame_seq g \<and>
    (\<forall>h f s''. unat (frame_seq h) + window_size (replay_cache s) \<le> unat (frame_seq g) \<longrightarrow>
       decrypt_frame so h s' \<noteq> Some (Inr True, f, s''))"
proof -
  obtain c' where c': "ReplayCache_update_and_check (frame_seq g) (replay_cache s) = Some (True, c')"
    "highest_seq c' = frame_seq g" "initialized c'" "window_size c' = window_size (replay_cache s)"
    using assms(5-7) by (auto simp: update_and_check_eq ReplayCache_terminates_def)
  let ?s' = "s\<lparr>replay_cache := c'\<rparr>"
  have "decrypt_frame so g s = Some (Inr False, g, ?s')"
    using assms(2-4,8) c'(1)
    by (simp add: decrypt_frame_def AEAD_TAG_SIZE_def frame_seq_def Let_def chacha20_poly1305_decrypt_def
        ensure_ready [OF assms(1)])
  moreover have "decrypt_frame so h ?s' \<noteq> Some (Inr True, f, s'')"
    if low: "unat (frame_seq h) + window_size (replay_cache s) \<le> unat (frame_seq g)" for h f s''
  proof
    assume "decrypt_frame so h ?s' = Some (Inr True, f, s'')"
    then have "decrypt_admit so h ?s' = Some (True, s'')" by (simp add: decrypt_admit_def)
    then show False
    proof (cases rule: decrypt_admit_cases)
      case (2 acc d)
      with c' have "ReplayCache_update_and_check (frame_seq h) c' = Some (True, d)" by simp
      with c' low show False
        by (auto simp: update_and_check_eq in_window_def word_less_nat_alt split: if_splits)
    qed simp
  qed
  ultimately show ?thesis using c'(2) by (intro exI [of _ ?s']) simp
qed

definition test_forged :: Frame where
  "test_forged = test_frame\<lparr>frame_flags := IS_ENCRYPTED, frame_payload := replicate 6 0 @ [2, 0, 42] @ replicate 16 1\<rparr>"

definition used_test :: SecureSession where
  "used_test = active_test\<lparr>replay_cache := (ReplayCache_new 256)\<lparr>initialized := True, highest_seq := 1\<rparr>\<rparr>"

theorem SecureSession_forgery_moves_window_witness:
  "\<exists>s'. decrypt_frame toy_sodium test_forged used_test = Some (Inr False, test_forged, s') \<and>
     decrypt_frame toy_sodium (test_sealed 2) s' \<noteq> Some (Inr True, test_frame, s')"
proof -
  have pre: "ss_state used_test = Active" "flag_set (frame_flags test_forged) IS_ENCRYPTED"
    "24 \<le> length (frame_payload test_forged)" "initialized (replay_cache used_test)"
    "highest_seq (replay_cache used_test) < frame_seq test_forged" "frame_seq test_forged \<noteq> - 1" by code_simp+
  have dec: "crypto_aead_decrypt toy_sodium (drop 8 (frame_payload test_forged))
      (bytes_of (build_frame_aad test_forged (of_nat (length (frame_payload test_forged)))))
      (construct_aead_nonce (frame_seq test_forged)) (rx_key used_test) = None" by code_simp
  have "unat (frame_seq (test_sealed 2)) + window_size (replay_cache used_test) \<le> unat (frame_seq test_forged)"
    by code_simp
  with SecureSession_forgery_moves_window [OF toy_sodium_ready pre dec] show ?thesis by blast
qed

end
