(* ===== verification/Effects.thy ===== *)
theory Effects
  imports Sodium
begin

text \<open>
  Operations that change a shared state and may throw: \<open>('s, 'a) eff\<close> maps a state to a result or an
  exception, and the state it leaves. An exception skips the rest of the operation and keeps the
  changes made so far, as in C++. \<open>keeps P m\<close> says that the operation \<open>m\<close> preserves \<open>P\<close>, whether
  it returns or throws; the collection \<open>keeps_intros\<close> has one rule per combinator, so an invariant
  of a composed operation follows from the invariants of its parts.
\<close>

type_synonym ('s, 'a) eff = "'s \<Rightarrow> 'a throwing \<times> 's"

definition ret :: "'a \<Rightarrow> ('s, 'a) eff" where
  "ret x s = (Inr x, s)"

definition bindE :: "('s, 'a) eff \<Rightarrow> ('a \<Rightarrow> ('s, 'b) eff) \<Rightarrow> ('s, 'b) eff" where
  "bindE m f s = (case m s of (Inl e, s') \<Rightarrow> (Inl e, s') | (Inr x, s') \<Rightarrow> f x s')"

definition thenE :: "('s, 'a) eff \<Rightarrow> ('s, 'b) eff \<Rightarrow> ('s, 'b) eff" where
  "thenE m n = bindE m (\<lambda>_. n)"

definition gets :: "('s \<Rightarrow> 'a) \<Rightarrow> ('s, 'a) eff" where
  "gets f s = (Inr (f s), s)"

definition modify :: "('s \<Rightarrow> 's) \<Rightarrow> ('s, unit) eff" where
  "modify f s = (Inr (), f s)"

definition liftE :: "'a throwing \<Rightarrow> ('s, 'a) eff" where
  "liftE r s = (r, s)"

definition whenE :: "bool \<Rightarrow> ('s, unit) eff \<Rightarrow> ('s, unit) eff" where
  "whenE c m = (if c then m else ret ())"

text \<open>\<^verbatim>\<open>for (x : xs) body(x)\<close>, and \<^verbatim>\<open>try { m } catch (const std::exception&) { h }\<close>.\<close>

primrec forE :: "'a list \<Rightarrow> ('a \<Rightarrow> ('s, unit) eff) \<Rightarrow> ('s, unit) eff" where
  "forE [] body = ret ()"
| "forE (x # xs) body = thenE (body x) (forE xs body)"

definition tryE :: "('s, unit) eff \<Rightarrow> ('s, unit) eff \<Rightarrow> ('s, unit) eff" where
  "tryE m h s = (case m s of (Inl e, s') \<Rightarrow> h s' | (Inr x, s') \<Rightarrow> (Inr x, s'))"

text \<open>Running an operation on a state; the operations it is composed of stay folded.\<close>

lemma thenE_run: "thenE m n s = (case m s of (Inl e, s') \<Rightarrow> (Inl e, s') | (Inr x, s') \<Rightarrow> n s')"
  by (simp add: thenE_def bindE_def)

lemma whenE_run: "whenE c m s = (if c then m s else (Inr (), s))"
  by (simp add: whenE_def ret_def)

lemmas eff_run = ret_def bindE_def thenE_run gets_def modify_def liftE_def whenE_run tryE_def

section \<open>Invariants\<close>

definition keeps :: "('s \<Rightarrow> bool) \<Rightarrow> ('s, 'a) eff \<Rightarrow> bool" where
  "keeps P m \<longleftrightarrow> (\<forall>s. P s \<longrightarrow> P (snd (m s)))"

named_theorems keeps_intros \<open>rules for showing that an operation keeps an invariant\<close>

lemma keepsI: "(\<And>s. P s \<Longrightarrow> P (snd (m s))) \<Longrightarrow> keeps P m"
  by (simp add: keeps_def)

lemma keepsD: "keeps P m \<Longrightarrow> P s \<Longrightarrow> P (snd (m s))"
  by (simp add: keeps_def)

lemma keeps_ret [keeps_intros]: "keeps P (ret x)"
  by (simp add: keeps_def ret_def)

lemma keeps_bindE [keeps_intros]: "keeps P m \<Longrightarrow> (\<And>x. keeps P (f x)) \<Longrightarrow> keeps P (bindE m f)"
  unfolding keeps_def bindE_def by (auto split: prod.splits sum.splits)

lemma keeps_thenE [keeps_intros]: "keeps P m \<Longrightarrow> keeps P n \<Longrightarrow> keeps P (thenE m n)"
  unfolding thenE_def by (intro keeps_bindE)

lemma keeps_gets [keeps_intros]: "keeps P (gets f)"
  by (simp add: keeps_def gets_def)

lemma keeps_modify: "(\<And>s. P s \<Longrightarrow> P (f s)) \<Longrightarrow> keeps P (modify f)"
  by (simp add: keeps_def modify_def)

lemma keeps_liftE [keeps_intros]: "keeps P (liftE r)"
  by (simp add: keeps_def liftE_def)

lemma keeps_if [keeps_intros]: "(c \<Longrightarrow> keeps P m) \<Longrightarrow> (\<not> c \<Longrightarrow> keeps P n) \<Longrightarrow> keeps P (if c then m else n)"
  by simp

lemma keeps_whenE [keeps_intros]: "(c \<Longrightarrow> keeps P m) \<Longrightarrow> keeps P (whenE c m)"
  by (simp add: whenE_def keeps_ret)

lemma keeps_forE [keeps_intros]: "(\<And>x. x \<in> set xs \<Longrightarrow> keeps P (body x)) \<Longrightarrow> keeps P (forE xs body)"
  by (induction xs) (auto intro: keeps_intros)

lemma keeps_tryE [keeps_intros]: "keeps P m \<Longrightarrow> keeps P h \<Longrightarrow> keeps P (tryE m h)"
  unfolding keeps_def tryE_def by (auto split: prod.splits sum.splits)

lemma keeps_option [keeps_intros]:
  "(x = None \<Longrightarrow> keeps P m) \<Longrightarrow> (\<And>y. x = Some y \<Longrightarrow> keeps P (f y)) \<Longrightarrow>
   keeps P (case x of None \<Rightarrow> m | Some y \<Rightarrow> f y)"
  by (cases x) simp_all

lemma keeps_prod [keeps_intros]: "(\<And>a b. x = (a, b) \<Longrightarrow> keeps P (f a b)) \<Longrightarrow> keeps P (case x of (a, b) \<Rightarrow> f a b)"
  by (cases x) simp

lemma keeps_Let [keeps_intros]: "(\<And>y. y = x \<Longrightarrow> keeps P (f y)) \<Longrightarrow> keeps P (let y = x in f y)"
  by simp

lemma keeps_sum [keeps_intros]:
  "(\<And>e. x = Inl e \<Longrightarrow> keeps P (f e)) \<Longrightarrow> (\<And>y. x = Inr y \<Longrightarrow> keeps P (g y)) \<Longrightarrow>
   keeps P (case x of Inl e \<Rightarrow> f e | Inr y \<Rightarrow> g y)"
  by (cases x) simp_all

text \<open>Invariants hold along sequences of operations.\<close>

lemma keeps_foldl: "(\<And>x. keeps P (f x)) \<Longrightarrow> P s \<Longrightarrow> P (foldl (\<lambda>s x. snd (f x s)) s xs)"
  by (induction xs arbitrary: s) (auto dest: keepsD)

end
