(* ===== verification/Tcp_Connection.thy ===== *)
theory Tcp_Connection
  imports Secure_Session Effects
begin

text \<open>
  Model of \<^verbatim>\<open>src/transport/tcp_connection.hpp\<close> and \<^verbatim>\<open>tcp_connection.cpp\<close>: the state machine around one
  asynchronous socket. The socket itself is two flags (whether it is open, and whether the system still
  has a peer for it, which ends when the peer resets the connection) and the remote endpoint it reports
  while both hold; \<open>tc_wire\<close> records the buffers handed to \<^verbatim>\<open>async_write\<close>, in order. The
  completion handlers of \<^verbatim>\<open>async_read_some\<close>, \<^verbatim>\<open>async_write\<close> and the inactivity timer are operations of
  their own. The session is a shared pointer: the connection holds a reference into the store of
  session objects. Handlers that the owner installs are reported as results: a delivered frame, or
  the reason for a disconnect.

  \<^verbatim>\<open>connect\<close> resolves a name and tries the endpoints in turn. What the resolver and the socket calls
  answer is the parameter \<open>tcp_os\<close>, for each attempt by its number; closing the socket of a failed attempt
  is taken to succeed.
\<close>

type_synonym session_ref = nat
type_synonym session_store = "session_ref \<Rightarrow> SecureSession"

record TcpConnection =
  sock_open :: bool
  sock_connected :: bool
  sock_endpoint :: "string \<times> u16"
  tc_parser :: FrameParser
  tc_peer_id :: "NodeID option"
  tc_session :: "session_ref option"
  write_queue :: "bytes list"
  tc_writing :: bool
  io_timeout :: int
  io_timer_armed :: bool
  tc_wire :: "bytes list"

section \<open>Connecting\<close>

type_synonym endpoint = "string \<times> u16"

datatype error_code = In_progress | Would_block | Timed_out | Try_again | System_error int

text \<open>
  The calls of one connection attempt: the error codes of \<^verbatim>\<open>open\<close> and \<^verbatim>\<open>connect\<close> (\<open>None\<close> for success), the
  return value of \<^verbatim>\<open>poll\<close> with its timeout, and the value of \<^verbatim>\<open>SO_ERROR\<close>.
\<close>

record tcp_os =
  os_resolve :: "string \<Rightarrow> u16 \<Rightarrow> endpoint list option"
  os_open :: "nat \<Rightarrow> endpoint \<Rightarrow> error_code option"
  os_connect :: "nat \<Rightarrow> endpoint \<Rightarrow> error_code option"
  os_poll :: "nat \<Rightarrow> endpoint \<Rightarrow> int \<Rightarrow> int"
  os_so_error :: "nat \<Rightarrow> endpoint \<Rightarrow> int"

text \<open>The loop over the endpoints: the one connected to, if any, and the last error code.\<close>

fun connect_loop :: "tcp_os \<Rightarrow> int \<Rightarrow> nat \<Rightarrow> endpoint list \<Rightarrow> error_code option \<Rightarrow> endpoint option \<times> error_code option" where
  "connect_loop os timeout i [] ec = (None, ec)"
| "connect_loop os timeout i (ep # eps) ec =
     (case os_open os i ep of
        Some e \<Rightarrow> connect_loop os timeout (i + 1) eps (Some e)
      | None \<Rightarrow>
          let ec1 = os_connect os i ep in
          if ec1 = Some In_progress \<or> ec1 = Some Would_block
          then let r = os_poll os i ep (sint (word_of_int timeout :: u32)) in
               if 0 < r
               then let so_error = os_so_error os i ep in
                    if so_error = 0 then (Some ep, None)
                    else connect_loop os timeout (i + 1) eps (Some (System_error so_error))
               else if r = 0 then connect_loop os timeout (i + 1) eps (Some Timed_out)
               else connect_loop os timeout (i + 1) eps (Some Try_again)
          else if ec1 = None then (Some ep, None)
          else connect_loop os timeout (i + 1) eps ec1)"

text \<open>The endpoint of the new connection; \<open>None\<close> is the null pointer.\<close>

definition TcpConnection_connect :: "tcp_os \<Rightarrow> string \<Rightarrow> u16 \<Rightarrow> int \<Rightarrow> endpoint option" where
  "TcpConnection_connect os h p timeout =
     (case os_resolve os h p of
        None \<Rightarrow> None
      | Some endpoints \<Rightarrow> fst (connect_loop os timeout 0 endpoints None))"

text \<open>
  What the loop does in terms of single attempts: an endpoint accepts if the socket opens and either
  connects at once or becomes writable in time without an error.
\<close>

definition attempt_accepts :: "tcp_os \<Rightarrow> int \<Rightarrow> nat \<Rightarrow> endpoint \<Rightarrow> bool" where
  "attempt_accepts os timeout i ep \<longleftrightarrow> os_open os i ep = None \<and>
     (os_connect os i ep = None \<or>
      os_connect os i ep \<in> {Some In_progress, Some Would_block} \<and>
      0 < os_poll os i ep (sint (word_of_int timeout :: u32)) \<and> os_so_error os i ep = 0)"

lemma connect_loop_step:
  "fst (connect_loop os timeout i (ep # eps) ec) =
     (if attempt_accepts os timeout i ep then Some ep else fst (connect_loop os timeout (i + 1) eps (snd (connect_loop os timeout i [ep] ec))))"
  by (auto simp: attempt_accepts_def Let_def split: option.split)

lemma connect_loop_first:
  "fst (connect_loop os timeout i eps ec) =
     map_option snd (List.find (\<lambda>(j, ep). attempt_accepts os timeout j ep) (List.enumerate i eps))"
  by (induction eps arbitrary: i ec) (simp_all add: connect_loop_step del: connect_loop.simps(2))

text \<open>
  Connecting to a peer: the connection goes to the first of the resolved endpoints, in the order of
  the resolver, that accepts, and there is none exactly when the name does not resolve or no endpoint
  accepts. An endpoint accepts if its socket opens and either connects at once or becomes writable
  within the timeout with no pending error; every other outcome of the calls only moves on to the
  next endpoint.
\<close>

theorem TcpConnection_connect_first:
  "TcpConnection_connect os h p timeout =
     (case os_resolve os h p of
        None \<Rightarrow> None
      | Some eps \<Rightarrow> map_option snd (List.find (\<lambda>(i, ep). attempt_accepts os timeout i ep) (List.enumerate 0 eps)))"
  by (simp add: TcpConnection_connect_def connect_loop_first split: option.split)

section \<open>Operations\<close>

definition TcpConnection_create :: "string \<times> u16 \<Rightarrow> TcpConnection" where
  "TcpConnection_create ep =
     \<lparr>sock_open = True, sock_connected = True, sock_endpoint = ep, tc_parser = FrameParser_new PROTOCOL_VERSION MAX_FRAME_PAYLOAD,
      tc_peer_id = None, tc_session = None, write_queue = [], tc_writing = False, io_timeout = 10000,
      io_timer_armed = False, tc_wire = []\<rparr>"

definition reset_io_timer :: "TcpConnection \<Rightarrow> TcpConnection" where
  "reset_io_timer c = (if io_timeout c \<le> 0 \<or> \<not> sock_open c then c else c\<lparr>io_timer_armed := True\<rparr>)"

definition TcpConnection_configure :: "u8 \<Rightarrow> u32 \<Rightarrow> int \<Rightarrow> TcpConnection \<Rightarrow> TcpConnection" where
  "TcpConnection_configure version maxp timeout c =
     reset_io_timer (c\<lparr>tc_parser := FrameParser_set_max_payload maxp (FrameParser_set_expected_version version (tc_parser c)),
       io_timeout := timeout\<rparr>)"

text \<open>
  The peer resets the connection: the socket stays open until the connection closes it, but has no
  remote endpoint any more.
\<close>

definition on_peer_reset :: "TcpConnection \<Rightarrow> TcpConnection" where
  "on_peer_reset c = c\<lparr>sock_connected := False\<rparr>"

text \<open>The endpoint calls throw when there is no remote endpoint; the functions then return a fixed value.\<close>

definition remote_ip :: "TcpConnection \<Rightarrow> string" where
  "remote_ip c = (if sock_open c \<and> sock_connected c then fst (sock_endpoint c) else ''127.0.0.1'')"

definition remote_port :: "TcpConnection \<Rightarrow> u16" where
  "remote_port c = (if sock_open c \<and> sock_connected c then snd (sock_endpoint c) else 0)"

definition set_peer_id :: "NodeID \<Rightarrow> TcpConnection \<Rightarrow> TcpConnection" where
  "set_peer_id nid c = c\<lparr>tc_peer_id := Some nid\<rparr>"

definition set_secure_session :: "session_ref \<Rightarrow> TcpConnection \<Rightarrow> TcpConnection" where
  "set_secure_session r c = c\<lparr>tc_session := Some r\<rparr>"

text \<open>\<open>close\<close> returns the reason given to the disconnect handler, if it is called.\<close>

definition TcpConnection_close :: "string \<Rightarrow> TcpConnection \<Rightarrow> string option \<times> TcpConnection" where
  "TcpConnection_close reason c = (if \<not> sock_open c then (None, c) else (Some reason, c\<lparr>sock_open := False\<rparr>))"

text \<open>The inactivity timer fires.\<close>

definition on_io_timer :: "TcpConnection \<Rightarrow> string option \<times> TcpConnection" where
  "on_io_timer c = (if sock_open c then TcpConnection_close ''I/O inactivity timeout'' (c\<lparr>io_timer_armed := False\<rparr>)
     else (None, c\<lparr>io_timer_armed := False\<rparr>))"

definition do_write :: "TcpConnection \<Rightarrow> TcpConnection" where
  "do_write c =
     (if write_queue c = [] then c\<lparr>tc_writing := False\<rparr>
      else c\<lparr>tc_writing := True, tc_wire := tc_wire c @ [hd (write_queue c)]\<rparr>)"

text \<open>The completion handler of \<^verbatim>\<open>async_write\<close>; \<open>Some msg\<close> is an error.\<close>

definition on_written :: "string option \<Rightarrow> TcpConnection \<Rightarrow> string option \<times> TcpConnection" where
  "on_written ec c =
     (case ec of Some msg \<Rightarrow> (Some msg, c) | None \<Rightarrow> (None, do_write (c\<lparr>write_queue := tl (write_queue c)\<rparr>)))"

definition enqueue :: "bytes \<Rightarrow> TcpConnection \<Rightarrow> TcpConnection" where
  "enqueue data c =
     (let was_writing = tc_writing c; c1 = c\<lparr>write_queue := write_queue c @ [data]\<rparr>
      in if \<not> was_writing then do_write c1 else c1)"

definition must_encrypt :: "Frame \<Rightarrow> bool" where
  "must_encrypt f \<longleftrightarrow> \<not> flag_set (frame_flags f) IS_ENCRYPTED \<and>
     frame_type f \<noteq> HANDSHAKE_INIT \<and> frame_type f \<noteq> HANDSHAKE_RESPONSE \<and> frame_type f \<noteq> HANDSHAKE_COMPLETE"

definition session_active :: "session_store \<Rightarrow> TcpConnection \<Rightarrow> session_ref option" where
  "session_active ss c =
     (case tc_session c of
        Some r \<Rightarrow> if SecureSession_is_active (ss r) then Some r else None
      | None \<Rightarrow> None)"

definition TcpConnection_send :: "sodium \<Rightarrow> Frame \<Rightarrow> (session_store \<times> TcpConnection, unit) eff" where
  "TcpConnection_send so f = (\<lambda>(ss, c).
     if \<not> sock_open c then (Inr (), ss, c)
     else
       let c1 = reset_io_timer c in
       case session_active ss c1 of
         Some r \<Rightarrow>
           if must_encrypt f
           then (case encrypt_frame so f (ss r) of
                   (Inl e, f', s') \<Rightarrow> (Inl e, ss(r := s'), c1)
                 | (Inr ok, f', s') \<Rightarrow>
                     if \<not> ok then (Inr (), ss(r := s'), c1)
                     else (Inr (), ss(r := s'), enqueue (Frame_serialize f') c1))
           else (Inr (), ss, enqueue (Frame_serialize f) c1)
       | None \<Rightarrow> (Inr (), ss, enqueue (Frame_serialize f) c1))"

text \<open>
  One round of the loop of \<^verbatim>\<open>process_incoming\<close>. \<open>Deliver\<close> is the call of the frame handler, after
  which the loop goes on; \<open>Need_more\<close> leaves the loop; \<open>Dropped\<close> leaves it after closing, with the
  reason given to the disconnect handler if the socket was open; \<open>Ignored\<close> goes on; \<open>Thrown\<close> is an
  exception; \<open>Hangs\<close> is a replay check that does not return.
\<close>

datatype incoming = Deliver Frame | Need_more | Dropped "string option" | Ignored | Thrown exn | Hangs

definition drop_connection :: "string \<Rightarrow> TcpConnection \<Rightarrow> incoming \<times> TcpConnection" where
  "drop_connection reason c = (case TcpConnection_close reason c of (d, c') \<Rightarrow> (Dropped d, c'))"

definition process_incoming_round ::
  "sodium \<Rightarrow> session_store \<times> TcpConnection \<Rightarrow> incoming \<times> session_store \<times> TcpConnection" where
  "process_incoming_round so = (\<lambda>(ss, c).
     case FrameParser_next_frame (tc_parser c) of
       (Inr f, p) \<Rightarrow>
         (let c1 = c\<lparr>tc_parser := p\<rparr> in
          if flag_set (frame_flags f) IS_ENCRYPTED
          then (case session_active ss c1 of
                  Some r \<Rightarrow>
                    (case decrypt_frame so f (ss r) of
                       None \<Rightarrow> (Hangs, ss, c1)
                     | Some (Inl e, f', s') \<Rightarrow> (Thrown e, ss(r := s'), c1)
                     | Some (Inr ok, f', s') \<Rightarrow>
                         if ok then (Deliver f', ss(r := s'), c1)
                         else (case drop_connection ''Decryption or replay check failed'' c1 of
                                 (i, c2) \<Rightarrow> (i, ss(r := s'), c2)))
                | None \<Rightarrow>
                    (case drop_connection ''Encrypted frame without active secure session'' c1 of
                       (i, c2) \<Rightarrow> (i, ss, c2)))
          else (Deliver f, ss, c1))
     | (Inl err, p) \<Rightarrow>
         (let c1 = c\<lparr>tc_parser := p\<rparr> in
          if err = IncompleteHeader \<or> err = IncompletePayload then (Need_more, ss, c1)
          else if err = UnsupportedVersion \<or> err = PayloadTooLarge
          then (case drop_connection (''Protocol error: '' @ frame_error_name err) c1 of (i, c2) \<Rightarrow> (i, ss, c2))
          else (Ignored, ss, c1)))"

text \<open>
  The completion handler of \<^verbatim>\<open>async_read_some\<close>, up to the loop: on an error the reason for the
  disconnect handler (none when the operation was aborted by \<open>close\<close>), otherwise the bytes are fed.
\<close>

datatype read_result = Read_data bytes | Read_aborted | Read_eof | Read_error string

definition on_read :: "read_result \<Rightarrow> TcpConnection \<Rightarrow> string option \<times> bool \<times> TcpConnection" where
  "on_read r c =
     (case r of
        Read_aborted \<Rightarrow> (None, False, c)
      | Read_eof \<Rightarrow> (Some ''peer closed connection'', False, c)
      | Read_error msg \<Rightarrow> (Some msg, False, c)
      | Read_data bs \<Rightarrow>
          (let c1 = reset_io_timer c in (None, True, c1\<lparr>tc_parser := FrameParser_feed bs (tc_parser c1)\<rparr>)))"

section \<open>The write queue\<close>

text \<open>
  The contract of the write side: an append-only log of accepted buffers and the number of writes
  that completed. \<open>out_abs\<close> relates a connection to it; the buffer at the front of the queue is the
  one being written.
\<close>

record out_log =
  ol_log :: "bytes list"
  ol_done :: nat

definition out_put :: "bytes \<Rightarrow> out_log \<Rightarrow> out_log" where
  "out_put x l = l\<lparr>ol_log := ol_log l @ [x]\<rparr>"

definition out_complete :: "out_log \<Rightarrow> out_log" where
  "out_complete l = l\<lparr>ol_done := ol_done l + 1\<rparr>"

definition writer_wf :: "TcpConnection \<Rightarrow> bool" where
  "writer_wf c \<longleftrightarrow> (tc_writing c \<longleftrightarrow> write_queue c \<noteq> []) \<and>
     (tc_writing c \<longrightarrow> tc_wire c \<noteq> [] \<and> last (tc_wire c) = hd (write_queue c))"

definition out_abs :: "TcpConnection \<Rightarrow> out_log" where
  "out_abs c = \<lparr>ol_log = tc_wire c @ tl (write_queue c),
     ol_done = length (tc_wire c) - (if tc_writing c then 1 else 0)\<rparr>"

lemma writer_wf_create: "writer_wf (TcpConnection_create ep)"
  by (simp add: writer_wf_def TcpConnection_create_def)

lemma enqueue_refines:
  "writer_wf c \<Longrightarrow> writer_wf (enqueue x c) \<and> out_abs (enqueue x c) = out_put x (out_abs c)"
  by (auto simp: writer_wf_def out_abs_def out_put_def enqueue_def do_write_def Let_def)

lemma on_written_refines:
  assumes "writer_wf c" "tc_writing c"
  shows "writer_wf (snd (on_written None c)) \<and> out_abs (snd (on_written None c)) = out_complete (out_abs c)"
proof -
  obtain x q where q: "write_queue c = x # q" using assms by (cases "write_queue c") (auto simp: writer_wf_def)
  obtain w where w: "tc_wire c = w @ [x]"
    using assms q by (cases "tc_wire c" rule: rev_cases) (auto simp: writer_wf_def)
  show ?thesis
    using assms(2) q w by (cases q) (simp_all add: writer_wf_def out_abs_def out_complete_def on_written_def do_write_def)
qed

lemma wire_is_prefix:
  assumes "writer_wf c"
  shows "tc_wire c = take (ol_done (out_abs c) + (if tc_writing c then 1 else 0)) (ol_log (out_abs c))"
proof -
  have "tc_writing c \<Longrightarrow> 0 < length (tc_wire c)" using assms by (simp add: writer_wf_def)
  then show ?thesis by (auto simp: out_abs_def)
qed

text \<open>The same operations as data, for runs.\<close>

datatype write_event = Submit bytes | Written

fun write_exec :: "write_event \<Rightarrow> TcpConnection \<Rightarrow> TcpConnection" where
  "write_exec (Submit x) c = enqueue x c"
| "write_exec Written c = (if tc_writing c then snd (on_written None c) else c)"

fun submitted :: "write_event list \<Rightarrow> bytes list" where
  "submitted [] = []"
| "submitted (Submit x # es) = x # submitted es"
| "submitted (Written # es) = submitted es"

lemma write_run:
  "writer_wf c \<Longrightarrow> writer_wf (fold write_exec es c) \<and>
    ol_log (out_abs (fold write_exec es c)) = ol_log (out_abs c) @ submitted es"
proof (induction es arbitrary: c)
  case (Cons e es)
  have "writer_wf (write_exec e c) \<and> ol_log (out_abs (write_exec e c)) = ol_log (out_abs c) @ submitted [e]"
    using Cons.prems enqueue_refines [of c] on_written_refines [of c]
    by (cases e) (auto simp: out_put_def out_complete_def)
  then show ?case using Cons.IH [of "write_exec e c"] by (cases e) simp_all
qed simp

text \<open>Completions empty the queue.\<close>

lemma drain_queue:
  "writer_wf c \<Longrightarrow> n = length (write_queue c) \<Longrightarrow>
   (let c' = fold write_exec (replicate n Written) c
    in tc_wire c' = ol_log (out_abs c) \<and> \<not> tc_writing c' \<and> write_queue c' = [])"
proof (induction n arbitrary: c)
  case 0
  then show ?case by (simp add: Let_def out_abs_def writer_wf_def)
next
  case (Suc n)
  then have wr: "tc_writing c" by (auto simp: writer_wf_def)
  have "length (write_queue (snd (on_written None c))) = n"
    using Suc.prems(2) by (cases "write_queue c") (auto simp: on_written_def do_write_def)
  moreover have "ol_log (out_abs (snd (on_written None c))) = ol_log (out_abs c)"
    using on_written_refines [OF Suc.prems(1) wr] by (simp add: out_complete_def)
  ultimately show ?case
    using Suc.IH [of "snd (on_written None c)"] on_written_refines [OF Suc.prems(1) wr] wr by simp
qed

text \<open>
  After a write error nothing is written any more: the flag stays set, so later frames are queued
  and never handed to the socket.
\<close>

lemma write_error_wedges:
  assumes "tc_writing c"
  shows "on_written (Some msg) c = (Some msg, c)" "tc_wire (enqueue x c) = tc_wire c" "tc_writing (enqueue x c)"
  using assms by (simp_all add: on_written_def enqueue_def Let_def)

section \<open>Sending and receiving\<close>

lemma reset_io_timer_fields [simp]:
  "sock_open (reset_io_timer c) = sock_open c" "tc_session (reset_io_timer c) = tc_session c"
  "tc_parser (reset_io_timer c) = tc_parser c" "write_queue (reset_io_timer c) = write_queue c"
  "tc_writing (reset_io_timer c) = tc_writing c" "tc_wire (reset_io_timer c) = tc_wire c"
  "tc_peer_id (reset_io_timer c) = tc_peer_id c"
  by (simp_all add: reset_io_timer_def)

lemma enqueue_fields [simp]:
  "sock_open (enqueue x c) = sock_open c" "tc_session (enqueue x c) = tc_session c"
  "tc_parser (enqueue x c) = tc_parser c" "tc_peer_id (enqueue x c) = tc_peer_id c"
  by (simp_all add: enqueue_def do_write_def Let_def)

lemma session_active_iff: "session_active ss c = Some r \<longleftrightarrow> tc_session c = Some r \<and> ss_state (ss r) = Active"
  by (auto simp: session_active_def SecureSession_is_active_def split: option.splits)

lemma session_active_cong: "tc_session c = tc_session d \<Longrightarrow> session_active ss c = session_active ss d"
  by (simp add: session_active_def)

lemma send_plain:
  "sock_open c \<Longrightarrow> session_active ss c = None \<or> \<not> must_encrypt f \<Longrightarrow>
   TcpConnection_send so f (ss, c) = (Inr (), ss, enqueue (Frame_serialize f) (reset_io_timer c))"
  by (auto simp: TcpConnection_send_def Let_def session_active_cong [of "reset_io_timer c" c] split: option.splits)

lemma send_sealed:
  assumes "sock_open c" "session_active ss c = Some r" "must_encrypt f"
    and "encrypt_frame so f (ss r) = (Inr True, g, s')"
  shows "TcpConnection_send so f (ss, c) = (Inr (), ss(r := s'), enqueue (Frame_serialize g) (reset_io_timer c))"
  using assms by (simp add: TcpConnection_send_def Let_def session_active_cong [of "reset_io_timer c" c])

lemma send_keeps_writer:
  assumes "writer_wf c" "TcpConnection_send so f (ss, c) = (r, ss', c')"
  shows "writer_wf c'"
proof -
  have wf: "writer_wf (reset_io_timer c)" using assms(1) by (simp add: writer_wf_def)
  show ?thesis
    using assms enqueue_refines [OF wf]
    by (auto simp: TcpConnection_send_def Let_def wf split: if_splits option.splits prod.splits sum.splits)
qed

definition send_all :: "sodium \<Rightarrow> Frame list \<Rightarrow> session_store \<times> TcpConnection \<Rightarrow> session_store \<times> TcpConnection" where
  "send_all so fs st = fold (\<lambda>f st. snd (TcpConnection_send so f st)) fs st"

lemma encrypt_frame_active:
  "ss_state s = Active \<Longrightarrow> encrypt_frame so f s = (Inr True, g, s') \<Longrightarrow> ss_state s' = Active"
  by (auto simp: encrypt_frame_def Let_def split: sum.splits)

text \<open>
  The frames the other end makes of what arrives: frames in clear as they are, sealed ones opened by
  the session that the connection has.
\<close>

definition open_one :: "sodium \<Rightarrow> session_ref option \<Rightarrow> Frame \<Rightarrow> session_store \<Rightarrow> (Frame \<times> session_store) option" where
  "open_one so ses g tt =
     (if flag_set (frame_flags g) IS_ENCRYPTED
      then (case ses of
              Some q \<Rightarrow> (if SecureSession_is_active (tt q)
                        then (case decrypt_frame so g (tt q) of
                                Some (Inr True, f, t) \<Rightarrow> Some (f, tt(q := t))
                              | _ \<Rightarrow> None)
                        else None)
            | None \<Rightarrow> None)
      else Some (g, tt))"

fun open_all :: "sodium \<Rightarrow> session_ref option \<Rightarrow> Frame list \<Rightarrow> session_store \<Rightarrow> (Frame list \<times> session_store) option" where
  "open_all so ses [] tt = Some ([], tt)"
| "open_all so ses (g # gs) tt =
     (case open_one so ses g tt of
        Some (f, tt1) \<Rightarrow> map_option (\<lambda>(fs, tt2). (f # fs, tt2)) (open_all so ses gs tt1)
      | None \<Rightarrow> None)"

lemma open_all_append:
  "open_all so ses (gs @ hs) tt = Some (ks, tt'') \<longleftrightarrow>
    (\<exists>fs fs' tt'. open_all so ses gs tt = Some (fs, tt') \<and> open_all so ses hs tt' = Some (fs', tt'') \<and> ks = fs @ fs')"
proof (induction gs arbitrary: tt ks)
  case (Cons g gs)
  show ?case by (auto simp: Cons.IH split: option.splits)
qed simp

text \<open>
  Two ends that understand each other: the sender has no active session, or its session is synchronised
  with the one of the other end and has numbers left for \<open>n\<close> frames.
\<close>

definition ends_agree :: "session_store \<Rightarrow> TcpConnection \<Rightarrow> session_store \<Rightarrow> session_ref option \<Rightarrow> nat \<Rightarrow> bool" where
  "ends_agree ss c tt ses n \<longleftrightarrow> session_active ss c = None \<or>
     (\<exists>r q. tc_session c = Some r \<and> ses = Some q \<and> in_sync (ss r) (tt q) \<and> unat (tx_seq (ss r)) + n < 2 ^ 64 - 1)"

definition seal_bytes :: "session_store \<Rightarrow> TcpConnection \<Rightarrow> Frame \<Rightarrow> nat" where
  "seal_bytes ss c f = (if session_active ss c = None \<or> \<not> must_encrypt f then 0 else 24)"

lemma send_one_opens:
  assumes "sodium_ready so" "aead_correct so" "sock_open c" "\<not> flag_set (frame_flags f) IS_ENCRYPTED"
    and agree: "ends_agree ss c tt ses (Suc n)"
  obtains g ss1 tt1 where
    "TcpConnection_send so f (ss, c) = (Inr (), ss1, enqueue (Frame_serialize g) (reset_io_timer c))"
    and "open_one so ses g tt = Some (f, tt1)"
    and "\<And>c'. tc_session c' = tc_session c \<Longrightarrow> ends_agree ss1 c' tt1 ses n"
    and "\<And>c'. tc_session c' = tc_session c \<Longrightarrow> session_active ss1 c' = session_active ss c"
    and "frame_version g = frame_version f" "length (frame_payload g) = length (frame_payload f) + seal_bytes ss c f"
proof (cases "session_active ss c = None \<or> \<not> must_encrypt f")
  case True
  have same: "session_active ss c' = session_active ss c" if "tc_session c' = tc_session c" for c'
    using session_active_cong [OF that] .
  have "ends_agree ss c' tt ses n" if "tc_session c' = tc_session c" for c'
    using agree same [OF that] that unfolding ends_agree_def by auto
  moreover have "open_one so ses f tt = Some (f, tt)" using assms(4) by (simp add: open_one_def)
  moreover have "length (frame_payload f) = length (frame_payload f) + seal_bytes ss c f" using True by (simp add: seal_bytes_def)
  ultimately show thesis
    using that [OF send_plain [OF assms(3) True] _ _ same refl] by blast
next
  case False
  then obtain r q where r: "tc_session c = Some r" and q: "ses = Some q" and sync: "in_sync (ss r) (tt q)"
    and num: "unat (tx_seq (ss r)) + Suc n < 2 ^ 64 - 1"
    using agree by (auto simp: ends_agree_def)
  have act: "session_active ss c = Some r" using r sync by (simp add: session_active_iff in_sync_def)
  have room: "unat (tx_seq (ss r)) + length [f] < 2 ^ 64 - 1" using num by simp
  obtain gs s' t' where ch: "encrypt_all so [f] (ss r) = Some (gs, s')" "decrypt_all so gs (tt q) = Some ([f], t')"
    "in_sync s' t'" "unat (tx_seq s') = unat (tx_seq (ss r)) + length [f]"
    using channel_delivers [OF assms(1,2) sync _ room] assms(4) by auto
  obtain ct where enc: "encrypt_frame so f (ss r) =
      (Inr True, f\<lparr>frame_flags := flags_or (frame_flags f) IS_ENCRYPTED,
         frame_payload := be_bytes 8 (tx_seq (ss r) + 1) @ ct\<rparr>, (ss r)\<lparr>tx_seq := tx_seq (ss r) + 1\<rparr>)"
    and len: "length ct = length (frame_payload f) + 16"
  proof -
    have "ss_state (ss r) = Active" using sync by (simp add: in_sync_def)
    from encrypt_frame_ok [OF assms(1,2) this, of f] that show thesis by metis
  qed
  let ?g = "f\<lparr>frame_flags := flags_or (frame_flags f) IS_ENCRYPTED, frame_payload := be_bytes 8 (tx_seq (ss r) + 1) @ ct\<rparr>"
  have s': "s' = (ss r)\<lparr>tx_seq := tx_seq (ss r) + 1\<rparr>" and gs: "gs = [?g]" using ch(1) enc by auto
  have dec: "decrypt_frame so ?g (tt q) = Some (Inr True, f, t')"
    using ch(2) by (auto simp: gs split: option.splits prod.splits sum.splits bool.splits)
  have opened: "open_one so ses ?g tt = Some (f, tt(q := t'))"
    using dec sync flag_or_set [of "frame_flags f"] by (simp add: open_one_def q SecureSession_is_active_def in_sync_def)
  have "ends_agree (ss(r := s')) c' (tt(q := t')) ses n" if "tc_session c' = tc_session c" for c'
    using that r q ch(3,4) num by (auto simp: ends_agree_def)
  moreover have "session_active (ss(r := s')) c' = session_active ss c" if "tc_session c' = tc_session c" for c'
    using that act r ch(3) by (simp add: session_active_def SecureSession_is_active_def in_sync_def split: if_splits)
  moreover have "length (frame_payload ?g) = length (frame_payload f) + seal_bytes ss c f"
    using False len by (simp add: seal_bytes_def)
  moreover have "frame_version ?g = frame_version f" by simp
  moreover have "TcpConnection_send so f (ss, c) = (Inr (), ss(r := s'), enqueue (Frame_serialize ?g) (reset_io_timer c))"
    using send_sealed [OF assms(3) act _ enc] False s' by blast
  ultimately show thesis using that opened by blast
qed

lemma send_all_opens:
  assumes "sodium_ready so" "aead_correct so" "sock_open c" "writer_wf c"
    and "\<forall>f \<in> set fs. \<not> flag_set (frame_flags f) IS_ENCRYPTED" "ends_agree ss c tt ses (length fs)"
  shows "\<exists>ss' c' gs tt'. send_all so fs (ss, c) = (ss', c') \<and> writer_wf c' \<and>
    ol_log (out_abs c') = ol_log (out_abs c) @ map Frame_serialize gs \<and> open_all so ses gs tt = Some (fs, tt') \<and>
    list_all2 (\<lambda>f g. frame_version g = frame_version f \<and>
      length (frame_payload g) = length (frame_payload f) + seal_bytes ss c f) fs gs"
  using assms(3-)
proof (induction fs arbitrary: ss c tt)
  case Nil
  then show ?case by (simp add: send_all_def)
next
  case (Cons f fs)
  obtain g ss1 tt1 where send: "TcpConnection_send so f (ss, c) = (Inr (), ss1, enqueue (Frame_serialize g) (reset_io_timer c))"
    and op: "open_one so ses g tt = Some (f, tt1)"
    and agree: "\<And>c'. tc_session c' = tc_session c \<Longrightarrow> ends_agree ss1 c' tt1 ses (length fs)"
    and act: "\<And>c'. tc_session c' = tc_session c \<Longrightarrow> session_active ss1 c' = session_active ss c"
    and shape: "frame_version g = frame_version f" "length (frame_payload g) = length (frame_payload f) + seal_bytes ss c f"
  proof -
    have "\<not> flag_set (frame_flags f) IS_ENCRYPTED" "ends_agree ss c tt ses (Suc (length fs))" using Cons.prems(3,4) by simp_all
    from send_one_opens [OF assms(1,2) Cons.prems(1) this] that show thesis by metis
  qed
  let ?c1 = "enqueue (Frame_serialize g) (reset_io_timer c)"
  have wf: "writer_wf (reset_io_timer c)" "out_abs (reset_io_timer c) = out_abs c"
    using Cons.prems(2) by (simp_all add: writer_wf_def out_abs_def)
  have seal: "seal_bytes ss1 ?c1 = seal_bytes ss c" using act [of ?c1] by (simp add: seal_bytes_def fun_eq_iff)
  have "\<exists>ss' c' gs tt'. send_all so fs (ss1, ?c1) = (ss', c') \<and> writer_wf c' \<and>
    ol_log (out_abs c') = ol_log (out_abs ?c1) @ map Frame_serialize gs \<and> open_all so ses gs tt1 = Some (fs, tt') \<and>
    list_all2 (\<lambda>f g. frame_version g = frame_version f \<and>
      length (frame_payload g) = length (frame_payload f) + seal_bytes ss1 ?c1 f) fs gs"
    by (rule Cons.IH) (use Cons.prems enqueue_refines [OF wf(1)] agree [of ?c1] in auto)
  then obtain ss' c' gs tt' where rest: "send_all so fs (ss1, ?c1) = (ss', c')" "writer_wf c'"
    "ol_log (out_abs c') = ol_log (out_abs ?c1) @ map Frame_serialize gs" "open_all so ses gs tt1 = Some (fs, tt')"
    "list_all2 (\<lambda>f g. frame_version g = frame_version f \<and>
      length (frame_payload g) = length (frame_payload f) + seal_bytes ss c f) fs gs"
    unfolding seal by blast
  have "ol_log (out_abs c') = ol_log (out_abs c) @ map Frame_serialize (g # gs)"
    using rest(3) enqueue_refines [OF wf(1), of "Frame_serialize g"] wf(2) by (simp add: out_put_def)
  moreover have "send_all so (f # fs) (ss, c) = (ss', c')" using send rest(1) by (simp add: send_all_def)
  moreover have "open_all so ses (g # gs) tt = Some (f # fs, tt')" using op rest(4) by simp
  ultimately show ?case
    using rest(2,5) shape by (intro exI [of _ ss'] exI [of _ c'] exI [of _ "g # gs"] exI [of _ tt']) simp
qed

lemma round_consumes:
  assumes "process_incoming_round so (ss, c) = (i, ss', c')" "i = Ignored \<or> (\<exists>f. i = Deliver f)"
  shows "length (fp_buffer (tc_parser c')) < length (fp_buffer (tc_parser c))"
proof -
  obtain r p where nx: "FrameParser_next_frame (tc_parser c) = (r, p)" by fastforce
  have "(\<exists>f. r = Inr f) \<and> tc_parser c' = p"
    using assms nx
    by (cases r) (auto simp: process_incoming_round_def Let_def drop_connection_def next_frame_eq
        split: if_splits option.splits prod.splits sum.splits)
  with nx next_frame_consumes [of "tc_parser c"] show ?thesis by fastforce
qed

text \<open>The loop of \<^verbatim>\<open>process_incoming\<close> with a frame handler that only records the frames.\<close>

function process_incoming ::
  "sodium \<Rightarrow> session_store \<times> TcpConnection \<Rightarrow> Frame list \<times> incoming \<times> session_store \<times> TcpConnection" where
  "process_incoming so st =
     (case process_incoming_round so st of
        (Deliver f, st') \<Rightarrow> (case process_incoming so st' of (fs, r) \<Rightarrow> (f # fs, r))
      | (Ignored, st') \<Rightarrow> process_incoming so st'
      | (i, st') \<Rightarrow> ([], i, st'))"
  by auto
termination
  by (relation "measure (\<lambda>(so, ss, c). length (fp_buffer (tc_parser c)))")
    (auto dest: round_consumes [OF sym] simp: eq_commute [of "(_, _, _)" "process_incoming_round _ _"])

declare process_incoming.simps [simp del]

text \<open>Successive reads, as long as the connection wants more data.\<close>

fun read_all :: "sodium \<Rightarrow> bytes list \<Rightarrow> session_store \<times> TcpConnection \<Rightarrow> Frame list \<times> incoming \<times> session_store \<times> TcpConnection" where
  "read_all so [] st = ([], Need_more, st)"
| "read_all so (bs # chunks) (ss, c) =
     (case on_read (Read_data bs) c of (_, _, c1) \<Rightarrow>
        (case process_incoming so (ss, c1) of (fs, i, st') \<Rightarrow>
           if i = Need_more then (case read_all so chunks st' of (gs, r) \<Rightarrow> (fs @ gs, r)) else (fs, i, st')))"

lemma round_opens:
  assumes "FrameParser_next_frame (tc_parser c) = (Inr g, p)" "open_one so (tc_session c) g ss = Some (f, ss1)"
  shows "process_incoming_round so (ss, c) = (Deliver f, ss1, c\<lparr>tc_parser := p\<rparr>)"
  using assms
  by (auto simp: process_incoming_round_def open_one_def session_active_def Let_def
      split: if_splits option.splits prod.splits sum.splits bool.splits)

lemma process_incoming_opens:
  assumes "drain (tc_parser c) = (gs, e, p')" "incomplete e" "open_all so (tc_session c) gs ss = Some (fs, ss')"
  shows "process_incoming so (ss, c) = (fs, Need_more, ss', c\<lparr>tc_parser := p'\<rparr>)"
  using assms
proof (induction gs arbitrary: ss c fs)
  case Nil
  then have nx: "FrameParser_next_frame (tc_parser c) = (Inl e, p')"
    by (auto simp: drain.simps [of "tc_parser c"] split: prod.splits sum.splits)
  from Nil have "fs = []" "ss' = ss" by simp_all
  with nx Nil.prems(2) show ?case
    by (auto simp: process_incoming.simps [of so "(ss, c)"] process_incoming_round_def incomplete_def Let_def)
next
  case (Cons g gs)
  obtain p1 where nx: "FrameParser_next_frame (tc_parser c) = (Inr g, p1)" and dr: "drain p1 = (gs, e, p')"
    using Cons.prems(1) by (auto simp: drain.simps [of "tc_parser c"] split: prod.splits sum.splits)
  obtain f ss1 fs1 where op: "open_one so (tc_session c) g ss = Some (f, ss1)"
    and rest: "open_all so (tc_session c) gs ss1 = Some (fs1, ss')" and fs: "fs = f # fs1"
    using Cons.prems(3) by (auto split: option.splits)
  let ?c1 = "c\<lparr>tc_parser := p1\<rparr>"
  have "process_incoming so (ss1, ?c1) = (fs1, Need_more, ss', ?c1\<lparr>tc_parser := p'\<rparr>)"
    by (rule Cons.IH) (use dr rest Cons.prems in simp_all)
  with round_opens [OF nx op] fs show ?case by (subst process_incoming.simps) simp
qed

lemma read_all_opens:
  assumes "receive chunks (tc_parser c) = (gs, None, p')" "open_all so (tc_session c) gs ss = Some (fs, ss')"
  shows "\<exists>c'. read_all so chunks (ss, c) = (fs, Need_more, ss', c') \<and> sock_open c' = sock_open c"
  using assms
proof (induction chunks arbitrary: ss c gs fs)
  case Nil
  then show ?case by auto
next
  case (Cons bs chunks)
  let ?c0 = "(reset_io_timer c)\<lparr>tc_parser := FrameParser_feed bs (tc_parser c)\<rparr>"
  obtain gs1 e p1 gs2 where dr: "drain (FrameParser_feed bs (tc_parser c)) = (gs1, e, p1)" "incomplete e"
    and rc: "receive chunks p1 = (gs2, None, p')" and gs: "gs = gs1 @ gs2"
    using Cons.prems(1) by (auto split: prod.splits if_splits)
  obtain fs1 fs2 ss1 where d1: "open_all so (tc_session c) gs1 ss = Some (fs1, ss1)"
    and d2: "open_all so (tc_session c) gs2 ss1 = Some (fs2, ss')" and fs: "fs = fs1 @ fs2"
    using Cons.prems(2) unfolding gs open_all_append by blast
  let ?c1 = "?c0\<lparr>tc_parser := p1\<rparr>"
  have step: "process_incoming so (ss, ?c0) = (fs1, Need_more, ss1, ?c1)"
    using dr d1 by (intro process_incoming_opens [where e = e]) auto
  have "\<exists>c'. read_all so chunks (ss1, ?c1) = (fs2, Need_more, ss', c') \<and> sock_open c' = sock_open ?c1"
    by (rule Cons.IH) (use rc d2 in auto)
  with step fs show ?case by (auto simp: on_read_def Let_def)
qed

lemma encrypt_all_shape:
  assumes "sodium_ready so" "aead_correct so" "encrypt_all so fs s = Some (gs, s')"
  shows "list_all2 (\<lambda>f g. frame_version g = frame_version f \<and>
    length (frame_payload g) = length (frame_payload f) + 24) fs gs"
  using assms(3)
proof (induction fs arbitrary: s gs)
  case (Cons f fs)
  show ?case
  proof (cases "ss_state s = Active")
    case True
    obtain c where enc: "encrypt_frame so f s =
      (Inr True, f\<lparr>frame_flags := flags_or (frame_flags f) IS_ENCRYPTED, frame_payload := be_bytes 8 (tx_seq s + 1) @ c\<rparr>,
       s\<lparr>tx_seq := tx_seq s + 1\<rparr>)" and len: "length c = length (frame_payload f) + 16"
      using encrypt_frame_ok [OF assms(1,2) True] by metis
    from Cons.prems enc obtain gs1 where
      rest: "encrypt_all so fs (s\<lparr>tx_seq := tx_seq s + 1\<rparr>) = Some (gs1, s')"
      and gs: "gs = f\<lparr>frame_flags := flags_or (frame_flags f) IS_ENCRYPTED, frame_payload := be_bytes 8 (tx_seq s + 1) @ c\<rparr> # gs1"
      by auto
    from Cons.IH [OF rest] len show ?thesis by (simp add: gs)
  next
    case False
    with Cons.prems show ?thesis by (simp add: encrypt_frame_def)
  qed
qed simp

lemma sealed_frames_pass:
  assumes "sodium_ready so" "aead_correct so" "encrypt_all so fs s = Some (gs, s')"
    and "\<forall>f \<in> set fs. frame_version f = v \<and> length (frame_payload f) + 24 \<le> unat m"
    and "concat chunks = concat (map Frame_serialize gs)"
  shows "receive chunks (FrameParser_new v m) = (gs, None, FrameParser_new v m)"
proof (rule receive_serialized [OF _ assms(5)], rule ballI)
  fix g
  assume "g \<in> set gs"
  then obtain i where i: "i < length gs" "g = gs ! i" by (auto simp: in_set_conv_nth)
  note shape = encrypt_all_shape [OF assms(1-3)]
  from list_all2_nthD2 [OF shape i(1)] list_all2_lengthD [OF shape] i
  have "fs ! i \<in> set fs" "frame_version g = frame_version (fs ! i)"
    "length (frame_payload g) = length (frame_payload (fs ! i)) + 24" by auto
  with assms(4) show "frame_version g = v \<and> length (frame_payload g) \<le> unat m" by auto
qed

section \<open>Properties\<close>

text \<open>The abstract run of a sequence of submissions and completions.\<close>

fun out_exec :: "write_event \<Rightarrow> out_log \<Rightarrow> out_log" where
  "out_exec (Submit x) l = out_put x l"
| "out_exec Written l = (if ol_done l < length (ol_log l) then out_complete l else l)"

lemma writing_iff_pending:
  "writer_wf c \<Longrightarrow> tc_writing c \<longleftrightarrow> ol_done (out_abs c) < length (ol_log (out_abs c))"
  by (cases "tc_wire c") (auto simp: out_abs_def writer_wf_def)

lemma out_abs_create: "out_abs (TcpConnection_create ep) = \<lparr>ol_log = [], ol_done = 0\<rparr>"
  by (simp add: out_abs_def TcpConnection_create_def)

lemma write_exec_refines:
  assumes "writer_wf c"
  shows "writer_wf (write_exec e c) \<and> out_abs (write_exec e c) = out_exec e (out_abs c)"
proof -
  show ?thesis
    using assms writing_iff_pending [OF assms] enqueue_refines [OF assms] on_written_refines [OF assms] by (cases e) auto
qed

lemma write_run_refines:
  "writer_wf c \<Longrightarrow> out_abs (fold write_exec es c) = fold out_exec es (out_abs c)"
  using write_exec_refines by (induction es arbitrary: c) simp_all

text \<open>
  C17. The write queue implements an ordered log: for every sequence of sends and write completions on
  a new connection, the connection represents the state of the abstract log after the same
  sequence; the log holds the sent buffers in the order of the sends, what was handed to the socket
  is exactly its completed part and at most one further buffer, and a write is in progress exactly
  when something is left to complete.
\<close>

theorem TcpConnection_write_queue_refines_log:
  "let c = fold write_exec es (TcpConnection_create ep); l = fold out_exec es \<lparr>ol_log = [], ol_done = 0\<rparr>
   in out_abs c = l \<and> ol_log l = submitted es \<and>
      tc_wire c = take (ol_done l + (if tc_writing c then 1 else 0)) (submitted es) \<and>
      (tc_writing c \<longleftrightarrow> ol_done l < length (submitted es))"
proof -
  let ?c = "fold write_exec es (TcpConnection_create ep)"
  have run: "writer_wf ?c" "ol_log (out_abs ?c) = submitted es"
    using write_run [OF writer_wf_create, of es ep] by (simp_all add: out_abs_create)
  have "out_abs ?c = fold out_exec es \<lparr>ol_log = [], ol_done = 0\<rparr>"
    using write_run_refines [OF writer_wf_create, of es ep] by (simp add: out_abs_create)
  with run wire_is_prefix [OF run(1)] writing_iff_pending [OF run(1)] show ?thesis by (simp add: Let_def)
qed

text \<open>
  Everything that was sent gets written: after any sequence of sends and completions on a new
  connection, as many further completions as there are queued buffers put every sent buffer on the
  wire, in order, and leave the connection idle.
\<close>

theorem TcpConnection_flushes:
  "let c = fold write_exec es (TcpConnection_create ep);
       c' = fold write_exec (replicate (length (write_queue c)) Written) c
   in tc_wire c' = submitted es \<and> write_queue c' = [] \<and> \<not> tc_writing c'"
  using write_run [OF writer_wf_create, of es ep] drain_queue [of "fold write_exec es (TcpConnection_create ep)"]
  by (simp add: Let_def out_abs_create)

text \<open>
  C22. No frame leaks in clear: on an open connection with an active session, sending a frame queues
  exactly one buffer. Unless the frame is one of the three handshake messages or already marked as
  encrypted, the buffer is the serialisation of a frame marked as encrypted, whose payload opens to the
  sent one under the session's key and a sequence number that grows by one; no other session
  changes. The exempt frames are queued as they are.
\<close>

theorem TcpConnection_send_seals:
  assumes "sodium_ready so" and "aead_correct so" and "sock_open c" and "tc_session c = Some r"
    and "ss_state (ss r) = Active"
  shows "\<exists>g ss'. TcpConnection_send so f (ss, c) = (Inr (), ss', enqueue (Frame_serialize g) (reset_io_timer c)) \<and>
    (\<forall>q. q \<noteq> r \<longrightarrow> ss' q = ss q) \<and>
    (if \<not> flag_set (frame_flags f) IS_ENCRYPTED \<and>
        frame_type f \<notin> {HANDSHAKE_INIT, HANDSHAKE_RESPONSE, HANDSHAKE_COMPLETE}
     then flag_set (frame_flags g) IS_ENCRYPTED \<and> ss' r = (ss r)\<lparr>tx_seq := tx_seq (ss r) + 1\<rparr> \<and>
       (\<exists>c. frame_payload g = be_bytes 8 (tx_seq (ss r) + 1) @ c \<and>
          crypto_aead_decrypt so c (bytes_of (build_frame_aad g (of_nat (length (frame_payload g)))))
            (construct_aead_nonce (tx_seq (ss r) + 1)) (tx_key (ss r)) = Some (frame_payload f))
     else g = f \<and> ss' = ss)"
proof -
  have scope: "(\<not> flag_set (frame_flags f) IS_ENCRYPTED \<and>
      frame_type f \<notin> {HANDSHAKE_INIT, HANDSHAKE_RESPONSE, HANDSHAKE_COMPLETE}) \<longleftrightarrow> must_encrypt f"
    by (simp add: must_encrypt_def)
  show ?thesis
  proof (cases "must_encrypt f")
    case True
    obtain ct where enc: "encrypt_frame so f (ss r) =
        (Inr True, f\<lparr>frame_flags := flags_or (frame_flags f) IS_ENCRYPTED,
           frame_payload := be_bytes 8 (tx_seq (ss r) + 1) @ ct\<rparr>, (ss r)\<lparr>tx_seq := tx_seq (ss r) + 1\<rparr>)"
      and len: "length ct = length (frame_payload f) + 16"
      and dec: "crypto_aead_decrypt so ct
        (bytes_of (build_frame_aad (f\<lparr>frame_flags := flags_or (frame_flags f) IS_ENCRYPTED\<rparr>)
           (of_nat (8 + length (frame_payload f) + 16))))
        (construct_aead_nonce (tx_seq (ss r) + 1)) (tx_key (ss r)) = Some (frame_payload f)"
      using encrypt_frame_ok [OF assms(1,2,5)] by metis
    let ?g = "f\<lparr>frame_flags := flags_or (frame_flags f) IS_ENCRYPTED,
           frame_payload := be_bytes 8 (tx_seq (ss r) + 1) @ ct\<rparr>"
    have act: "session_active ss c = Some r" using assms(4,5) by (simp add: session_active_iff)
    have dec': "crypto_aead_decrypt so ct (bytes_of (build_frame_aad ?g (of_nat (length (frame_payload ?g)))))
        (construct_aead_nonce (tx_seq (ss r) + 1)) (tx_key (ss r)) = Some (frame_payload f)"
      using dec len by (simp add: add.commute)
    show ?thesis
      using True send_sealed [OF assms(3) act True enc] flag_or_set [of "frame_flags f"] dec' unfolding scope
      by (intro exI [of _ ?g] exI [of _ "ss(r := (ss r)\<lparr>tx_seq := tx_seq (ss r) + 1\<rparr>)"]) simp
  next
    case False
    then have "TcpConnection_send so f (ss, c) = (Inr (), ss, enqueue (Frame_serialize f) (reset_io_timer c))"
      using send_plain [OF assms(3), of ss f so] by simp
    with False show ?thesis unfolding scope by auto
  qed
qed

definition test_conn :: TcpConnection where
  "test_conn = (TcpConnection_create (''10.0.0.9'', 4000))\<lparr>tc_session := Some 0\<rparr>"

lemma test_frame_plain:
  "\<not> flag_set (frame_flags test_frame) IS_ENCRYPTED \<and>
   frame_type test_frame \<notin> {HANDSHAKE_INIT, HANDSHAKE_RESPONSE, HANDSHAKE_COMPLETE}"
  by (simp add: test_frame_def Frame_new_def Frame_default_def FLAG_NONE_def flag_set_def
      STORE_REQUEST_def HANDSHAKE_INIT_def HANDSHAKE_RESPONSE_def HANDSHAKE_COMPLETE_def)

theorem TcpConnection_send_seals_witness:
  "\<exists>g ss'. TcpConnection_send toy_sodium test_frame (\<lambda>_. active_test, test_conn) =
     (Inr (), ss', enqueue (Frame_serialize g) (reset_io_timer test_conn)) \<and>
     flag_set (frame_flags g) IS_ENCRYPTED"
proof -
  have "sock_open test_conn" "tc_session test_conn = Some 0" "ss_state ((\<lambda>_ :: nat. active_test) 0) = Active"
    by (simp_all add: test_conn_def TcpConnection_create_def active_test_def)
  from TcpConnection_send_seals [OF toy_sodium_ready toy_sodium_aead this, of test_frame] test_frame_plain
  show ?thesis unfolding if_P [OF test_frame_plain] by blast
qed

text \<open>
  C20. Frames cross a pair of connections intact, sealed or in clear: let the sender have no active
  session, or a session that is synchronised with the one of the receiving connection. Whatever
  frames without the encryption mark it sends, handshake messages and others in any order (of the
  protocol version and, with what sealing adds, within the size limit of the other side's parser),
  once its write queue has drained there is one buffer per frame on the wire, and these bytes, cut into
  reads in any way, make the other side deliver exactly those frames, in order, and its connection
  stays open and waits for more.
\<close>

theorem TcpConnection_delivers:
  assumes "sodium_ready so" and "aead_correct so"
    and "sock_open c" and "tc_wire c = []" and "write_queue c = []" and "\<not> tc_writing c"
    and "sock_open d" and "tc_parser d = FrameParser_new v m"
    and "session_active ss c = None \<or>
      (\<exists>r q. tc_session c = Some r \<and> tc_session d = Some q \<and> in_sync (ss r) (tt q) \<and>
         unat (tx_seq (ss r)) + length fs < 2 ^ 64 - 1)"
    and "\<forall>f \<in> set fs. \<not> flag_set (frame_flags f) IS_ENCRYPTED \<and> frame_version f = v \<and>
      length (frame_payload f) + (if session_active ss c = None \<or>
        frame_type f \<in> {HANDSHAKE_INIT, HANDSHAKE_RESPONSE, HANDSHAKE_COMPLETE} then 0 else 24) \<le> unat m"
  shows "\<exists>ss' c1. send_all so fs (ss, c) = (ss', c1) \<and>
    (let c2 = fold write_exec (replicate (length (write_queue c1)) Written) c1
     in length (tc_wire c2) = length fs \<and>
       (\<forall>chunks. concat chunks = concat (tc_wire c2) \<longrightarrow>
          (\<exists>tt' d'. read_all so chunks (tt, d) = (fs, Need_more, tt', d') \<and> sock_open d')))"
proof -
  have plain: "\<forall>f \<in> set fs. \<not> flag_set (frame_flags f) IS_ENCRYPTED" using assms(10) by blast
  have wf: "writer_wf c" "ol_log (out_abs c) = []" using assms(4-6) by (simp_all add: writer_wf_def out_abs_def)
  have agree: "ends_agree ss c tt (tc_session d) (length fs)" using assms(9) by (simp add: ends_agree_def)
  obtain ss' c1 gs tt' where c1: "send_all so fs (ss, c) = (ss', c1)" "writer_wf c1"
      "ol_log (out_abs c1) = map Frame_serialize gs"
    and op: "open_all so (tc_session d) gs tt = Some (fs, tt')"
    and shape: "list_all2 (\<lambda>f g. frame_version g = frame_version f \<and>
      length (frame_payload g) = length (frame_payload f) + seal_bytes ss c f) fs gs"
    using send_all_opens [OF assms(1-3) wf(1) plain agree] wf(2) by auto
  have size: "length (frame_payload f) + seal_bytes ss c f \<le> unat m" if "f \<in> set fs" for f
    using assms(10) that by (fastforce simp: seal_bytes_def must_encrypt_def split: if_splits)
  have fit: "\<forall>g \<in> set gs. frame_version g = v \<and> length (frame_payload g) \<le> unat m"
  proof
    fix g assume "g \<in> set gs"
    then obtain i where i: "i < length gs" "g = gs ! i" by (auto simp: in_set_conv_nth)
    with list_all2_nthD2 [OF shape i(1)] list_all2_lengthD [OF shape] size [of "fs ! i"] assms(10)
    show "frame_version g = v \<and> length (frame_payload g) \<le> unat m" by auto
  qed
  let ?c2 = "fold write_exec (replicate (length (write_queue c1)) Written) c1"
  have wire: "tc_wire ?c2 = map Frame_serialize gs" using drain_queue [OF c1(2) refl] c1(3) by (simp add: Let_def)
  have "\<exists>tt' d'. read_all so chunks (tt, d) = (fs, Need_more, tt', d') \<and> sock_open d'"
    if "concat chunks = concat (map Frame_serialize gs)" for chunks
    using read_all_opens [OF _ op] receive_serialized [OF fit that] assms(7,8) by metis
  with c1(1) wire list_all2_lengthD [OF shape] show ?thesis by (auto simp: Let_def)
qed

theorem TcpConnection_delivers_witness:
  "\<exists>ss' c1. send_all toy_sodium [test_frame, test_frame\<lparr>frame_type := HANDSHAKE_INIT\<rparr>] (\<lambda>_. active_test, test_conn) = (ss', c1) \<and>
    (let c2 = fold write_exec (replicate (length (write_queue c1)) Written) c1
     in \<exists>tt' d'. read_all toy_sodium (map (\<lambda>b. [b]) (concat (tc_wire c2))) (\<lambda>_. active_test, test_conn) =
          ([test_frame, test_frame\<lparr>frame_type := HANDSHAKE_INIT\<rparr>], Need_more, tt', d'))"
proof -
  let ?fs = "[test_frame, test_frame\<lparr>frame_type := HANDSHAKE_INIT\<rparr>]" and ?ss = "\<lambda>_ :: nat. active_test"
  have conn: "sock_open test_conn" "tc_wire test_conn = []" "write_queue test_conn = []"
    "\<not> tc_writing test_conn" "tc_parser test_conn = FrameParser_new 1 65536"
    by (simp_all add: test_conn_def TcpConnection_create_def PROTOCOL_VERSION_def MAX_FRAME_PAYLOAD_def)
  have "in_sync active_test active_test" "unat (tx_seq active_test) + length ?fs < 2 ^ 64 - 1"
    by (simp_all add: in_sync_def active_test_def SecureSession_new_def ReplayCache_new_def Let_def)
  then have sync: "session_active ?ss test_conn = None \<or>
      (\<exists>r q. tc_session test_conn = Some r \<and> tc_session test_conn = Some q \<and> in_sync (?ss r) (?ss q) \<and>
         unat (tx_seq (?ss r)) + length ?fs < 2 ^ 64 - 1)"
    by (auto simp: test_conn_def)
  have fs: "\<forall>f \<in> set ?fs. \<not> flag_set (frame_flags f) IS_ENCRYPTED \<and> frame_version f = 1 \<and>
      length (frame_payload f) + (if session_active ?ss test_conn = None \<or>
        frame_type f \<in> {HANDSHAKE_INIT, HANDSHAKE_RESPONSE, HANDSHAKE_COMPLETE} then 0 else 24) \<le> unat (65536 :: u32)"
    by (simp add: test_frame_def Frame_new_def Frame_default_def FLAG_NONE_def flag_set_def PROTOCOL_VERSION_def)
  have "concat (map (\<lambda>b. [b]) xs) = xs" for xs :: bytes by (induction xs) auto
  with TcpConnection_delivers [OF toy_sodium_ready toy_sodium_aead conn(1-4) conn(1,5) sync fs]
  show ?thesis unfolding Let_def by metis
qed

text \<open>
  A session does not protect what arrives in clear: a frame without the encryption mark is delivered
  as it is, also when the session is active.
\<close>

lemma plain_frame_accepted_on_active_session:
  assumes "FrameParser_next_frame (tc_parser c) = (Inr f, p)" "\<not> flag_set (frame_flags f) IS_ENCRYPTED"
    and "session_active ss c = Some r"
  shows "process_incoming_round so (ss, c) = (Deliver f, ss, c\<lparr>tc_parser := p\<rparr>)"
  using assms by (simp add: process_incoming_round_def Let_def)

end
