(* ===== verification/Tcp_Listener.thy ===== *)
theory Tcp_Listener
  imports Sodium
begin

text \<open>
  Model of \<^verbatim>\<open>src/transport/tcp_listener.hpp\<close> and \<^verbatim>\<open>tcp_listener.cpp\<close>. The outcome of opening and binding
  the acceptor is an argument: the port it is bound to, or none when one of these calls throws.
  \<open>tl_accepting\<close> says that an \<^verbatim>\<open>async_accept\<close> is outstanding, so that its handler can still run.
\<close>

record TcpListener =
  tl_open :: bool
  tl_port :: u16
  tl_running :: bool
  tl_accepting :: bool

definition TcpListener_create :: "u16 option \<Rightarrow> TcpListener throwing" where
  "TcpListener_create bound =
     (case bound of
        None \<Rightarrow> Inl (runtime_error ''bind'')
      | Some p \<Rightarrow> Inr \<lparr>tl_open = True, tl_port = p, tl_running = False, tl_accepting = False\<rparr>)"

definition do_accept :: "TcpListener \<Rightarrow> TcpListener" where
  "do_accept l = (if \<not> tl_running l then l else l\<lparr>tl_accepting := True\<rparr>)"

definition TcpListener_start :: "TcpListener \<Rightarrow> TcpListener" where
  "TcpListener_start l = do_accept (l\<lparr>tl_running := True\<rparr>)"

definition TcpListener_stop :: "TcpListener \<Rightarrow> TcpListener" where
  "TcpListener_stop l = l\<lparr>tl_running := False, tl_open := False\<rparr>"

definition TcpListener_local_port :: "TcpListener \<Rightarrow> u16 throwing" where
  "TcpListener_local_port l = (if tl_open l then Inr (tl_port l) else Inl (runtime_error ''local_endpoint''))"

text \<open>
  The completion handler of \<^verbatim>\<open>async_accept\<close>, up to the call of the accept handler with the new
  connection, and what it does afterwards.
\<close>

datatype accept_result = Accept_ok "string \<times> u16" | Accept_failed

definition on_accepted :: "accept_result \<Rightarrow> TcpListener \<Rightarrow> (string \<times> u16) option \<times> TcpListener" where
  "on_accepted r l =
     (case r of
        Accept_failed \<Rightarrow> (None, l\<lparr>tl_accepting := False\<rparr>)
      | Accept_ok ep \<Rightarrow> (Some ep, l\<lparr>tl_accepting := False\<rparr>))"

end
