(* ===== verification/Config_Main.thy ===== *)
theory Config_Main
  imports Sodium
begin

text \<open>
  Model of \<^verbatim>\<open>src/config/config.hpp\<close>, \<^verbatim>\<open>config.cpp\<close> and the command line of \<^verbatim>\<open>main.cpp\<close>: the parameters of a
  node with their defaults, the TOML loader, the overrides, the argument loop and the peer lists.
  \<^verbatim>\<open>std::filesystem::exists\<close> and toml++ are parameters: whether a file exists, which the overload used here
  answers with an exception when the path cannot be examined, and the result of parsing it as a function from key
  paths to values (\<open>None\<close> where \<^verbatim>\<open>value_or\<close> falls back to its argument, because the key is missing
  or has another type). \<^verbatim>\<open>int\<close> has 32 bits and the casts wrap; the two floating-point parameters,
  which are only copied, are decimals (mantissa and exponent). \<open>stoi\<close> models \<^verbatim>\<open>std::stoi\<close>: white
  space and a sign are skipped, at least one digit is needed, what follows the digits is ignored.
\<close>

type_synonym decimal = "int \<times> int"

section \<open>Configuration\<close>

record NodeConfig =
  listen_address :: string
  listen_port :: u16
  data_dir :: string

record DhtConfig =
  node_id_bits :: int
  k_bucket_size :: int
  dht_alpha :: int
  replication :: int
  record_ttl_sec :: int
  republish_interval_sec :: int
  refresh_interval_sec :: int
  max_record_size :: int

record TransportConfig =
  protocol_version :: int
  max_frame_payload :: u32
  connect_timeout_ms :: int
  io_timeout_ms :: int
  keepalive_interval_ms :: int

record TunnelConfig =
  min_relay_hops :: int
  max_relay_hops :: int
  tunnel_ttl_sec :: int
  pool_size :: int
  heartbeat_interval_ms :: int
  max_consecutive_failures :: int
  ema_alpha_success :: decimal
  ema_alpha_latency :: decimal

record AppConfig =
  max_message_size :: int
  file_block_size :: int
  max_file_size :: int
  incomplete_file_timeout_sec :: int
  download_dir :: string

record Config =
  cfg_node :: NodeConfig
  cfg_algorithm :: string
  cfg_dht :: DhtConfig
  cfg_transport :: TransportConfig
  cfg_tunnel :: TunnelConfig
  cfg_app :: AppConfig
  cfg_log_level :: string
  cfg_log_file :: string
  cfg_metrics_enabled :: bool
  cfg_export_format :: string
  cfg_export_dir :: string
  cfg_scheme :: string
  cfg_peers :: "string list"

definition Config_default :: Config where
  "Config_default =
     \<lparr>cfg_node = \<lparr>listen_address = ''0.0.0.0'', listen_port = 9000, data_dir = ''./node_state''\<rparr>,
      cfg_algorithm = ''ed25519'',
      cfg_dht = \<lparr>node_id_bits = 256, k_bucket_size = 4, dht_alpha = 3, replication = 3, record_ttl_sec = 180,
        republish_interval_sec = 80, refresh_interval_sec = 60, max_record_size = 4096\<rparr>,
      cfg_transport = \<lparr>protocol_version = 1, max_frame_payload = 65536, connect_timeout_ms = 5000,
        io_timeout_ms = 10000, keepalive_interval_ms = 30000\<rparr>,
      cfg_tunnel = \<lparr>min_relay_hops = 3, max_relay_hops = 5, tunnel_ttl_sec = 300, pool_size = 3,
        heartbeat_interval_ms = 10000, max_consecutive_failures = 3,
        ema_alpha_success = (3, -1), ema_alpha_latency = (2, -1)\<rparr>,
      cfg_app = \<lparr>max_message_size = 65536, file_block_size = 49152, max_file_size = 104857600,
        incomplete_file_timeout_sec = 120, download_dir = ''./downloads''\<rparr>,
      cfg_log_level = ''info'', cfg_log_file = '''', cfg_metrics_enabled = True, cfg_export_format = ''csv'',
      cfg_export_dir = ''./results'', cfg_scheme = ''star'', cfg_peers = []\<rparr>"

text \<open>\<^verbatim>\<open>static_cast<int>\<close> and \<^verbatim>\<open>static_cast<std::size_t>\<close> of an integer.\<close>

definition to_int32 :: "int \<Rightarrow> int" where
  "to_int32 i = sint (word_of_int i :: u32)"

definition to_size_t :: "int \<Rightarrow> nat" where
  "to_size_t i = unat (word_of_int i :: u64)"

section \<open>Loading\<close>

record toml_doc =
  t_present :: "string list \<Rightarrow> bool"
  t_string :: "string list \<Rightarrow> string option"
  t_int :: "string list \<Rightarrow> int option"
  t_bool :: "string list \<Rightarrow> bool option"
  t_float :: "string list \<Rightarrow> decimal option"
  t_strings :: "string list \<Rightarrow> string option list option"

record toml_lib =
  toml_exists :: "string \<Rightarrow> bool throwing"
  toml_parse_file :: "string \<Rightarrow> string + toml_doc"

definition value_or :: "'a option \<Rightarrow> 'a \<Rightarrow> 'a" where
  "value_or v d = (case v of Some x \<Rightarrow> x | None \<Rightarrow> d)"

definition load_node :: "toml_doc \<Rightarrow> NodeConfig \<Rightarrow> NodeConfig" where
  "load_node t c =
     (if t_present t [''node'']
      then c\<lparr>listen_address := value_or (t_string t [''node'', ''listen_address'']) (listen_address c),
             listen_port := word_of_int (value_or (t_int t [''node'', ''listen_port'']) (uint (listen_port c))),
             data_dir := value_or (t_string t [''node'', ''data_dir'']) (data_dir c)\<rparr>
      else c)"

definition int_field :: "toml_doc \<Rightarrow> string \<Rightarrow> string \<Rightarrow> int \<Rightarrow> int" where
  "int_field t sec k d = to_int32 (value_or (t_int t [sec, k]) d)"

definition load_dht :: "toml_doc \<Rightarrow> DhtConfig \<Rightarrow> DhtConfig" where
  "load_dht t c =
     (if t_present t [''dht'']
      then c\<lparr>node_id_bits := int_field t ''dht'' ''node_id_bits'' (node_id_bits c),
             k_bucket_size := int_field t ''dht'' ''k_bucket_size'' (k_bucket_size c),
             dht_alpha := int_field t ''dht'' ''alpha'' (dht_alpha c),
             replication := int_field t ''dht'' ''replication'' (replication c),
             record_ttl_sec := int_field t ''dht'' ''record_ttl_sec'' (record_ttl_sec c),
             republish_interval_sec := int_field t ''dht'' ''republish_interval_sec'' (republish_interval_sec c),
             refresh_interval_sec := int_field t ''dht'' ''refresh_interval_sec'' (refresh_interval_sec c),
             max_record_size := int_field t ''dht'' ''max_record_size'' (max_record_size c)\<rparr>
      else c)"

definition load_transport :: "toml_doc \<Rightarrow> TransportConfig \<Rightarrow> TransportConfig" where
  "load_transport t c =
     (if t_present t [''transport'']
      then c\<lparr>protocol_version := int_field t ''transport'' ''protocol_version'' (protocol_version c),
             max_frame_payload := word_of_int (value_or (t_int t [''transport'', ''max_frame_payload''])
               (uint (max_frame_payload c))),
             connect_timeout_ms := int_field t ''transport'' ''connect_timeout_ms'' (connect_timeout_ms c),
             io_timeout_ms := int_field t ''transport'' ''io_timeout_ms'' (io_timeout_ms c),
             keepalive_interval_ms := int_field t ''transport'' ''keepalive_interval_ms'' (keepalive_interval_ms c)\<rparr>
      else c)"

definition load_tunnel :: "toml_doc \<Rightarrow> TunnelConfig \<Rightarrow> TunnelConfig" where
  "load_tunnel t c =
     (if t_present t [''tunnel'']
      then
        let c1 = c\<lparr>min_relay_hops := int_field t ''tunnel'' ''min_relay_hops'' (min_relay_hops c),
             max_relay_hops := int_field t ''tunnel'' ''max_relay_hops'' (max_relay_hops c),
             tunnel_ttl_sec := int_field t ''tunnel'' ''tunnel_ttl_sec'' (tunnel_ttl_sec c),
             pool_size := int_field t ''tunnel'' ''pool_size'' (pool_size c),
             heartbeat_interval_ms := int_field t ''tunnel'' ''heartbeat_interval_ms'' (heartbeat_interval_ms c),
             max_consecutive_failures := int_field t ''tunnel'' ''max_consecutive_failures'' (max_consecutive_failures c)\<rparr>
        in if t_present t [''tunnel'', ''profiling'']
           then c1\<lparr>ema_alpha_success := value_or (t_float t [''tunnel'', ''profiling'', ''ema_alpha_success'']) (ema_alpha_success c),
                   ema_alpha_latency := value_or (t_float t [''tunnel'', ''profiling'', ''ema_alpha_latency'']) (ema_alpha_latency c)\<rparr>
           else c1
      else c)"

definition load_app :: "toml_doc \<Rightarrow> AppConfig \<Rightarrow> AppConfig" where
  "load_app t c =
     (if t_present t [''app'']
      then c\<lparr>max_message_size := int_field t ''app'' ''max_message_size'' (max_message_size c),
             file_block_size := int_field t ''app'' ''file_block_size'' (file_block_size c),
             max_file_size := value_or (t_int t [''app'', ''max_file_size'']) (max_file_size c),
             incomplete_file_timeout_sec := int_field t ''app'' ''incomplete_file_timeout_sec'' (incomplete_file_timeout_sec c),
             download_dir := value_or (t_string t [''app'', ''download_dir'']) (download_dir c)\<rparr>
      else c)"

text \<open>The elements of the peers array that are strings.\<close>

definition load_bootstrap :: "toml_doc \<Rightarrow> Config \<Rightarrow> Config" where
  "load_bootstrap t c =
     (if t_present t [''bootstrap'']
      then
        let c1 = c\<lparr>cfg_scheme := value_or (t_string t [''bootstrap'', ''scheme'']) (cfg_scheme c)\<rparr>
        in case t_strings t [''bootstrap'', ''peers''] of
             Some xs \<Rightarrow> c1\<lparr>cfg_peers := List.map_filter id xs\<rparr>
           | None \<Rightarrow> c1
      else c)"

definition load_rest :: "toml_doc \<Rightarrow> Config \<Rightarrow> Config" where
  "load_rest t c =
     (let c1 = (if t_present t [''identity'']
                then c\<lparr>cfg_algorithm := value_or (t_string t [''identity'', ''algorithm'']) (cfg_algorithm c)\<rparr> else c);
          c2 = (if t_present t [''logging'']
                then c1\<lparr>cfg_log_level := value_or (t_string t [''logging'', ''level'']) (cfg_log_level c1),
                        cfg_log_file := value_or (t_string t [''logging'', ''file'']) (cfg_log_file c1)\<rparr> else c1)
      in if t_present t [''metrics'']
         then c2\<lparr>cfg_metrics_enabled := value_or (t_bool t [''metrics'', ''enabled'']) (cfg_metrics_enabled c2),
                 cfg_export_format := value_or (t_string t [''metrics'', ''export_format'']) (cfg_export_format c2),
                 cfg_export_dir := value_or (t_string t [''metrics'', ''export_dir'']) (cfg_export_dir c2)\<rparr> else c2)"

definition load_config :: "toml_lib \<Rightarrow> string \<Rightarrow> Config throwing" where
  "load_config tm path =
     throw_bind (toml_exists tm path) (\<lambda>ex.
      if \<not> ex then Inr Config_default
      else case toml_parse_file tm path of
        Inl err \<Rightarrow> Inl (runtime_error (''Failed to parse config '' @ path @ '': '' @ err))
      | Inr t \<Rightarrow>
          (let c = Config_default
           in Inr (load_bootstrap t (load_rest t
                (c\<lparr>cfg_node := load_node t (cfg_node c), cfg_dht := load_dht t (cfg_dht c),
                   cfg_transport := load_transport t (cfg_transport c), cfg_tunnel := load_tunnel t (cfg_tunnel c),
                   cfg_app := load_app t (cfg_app c)\<rparr>)))))"

definition load_config_with ::
  "toml_lib \<Rightarrow> string \<Rightarrow> string \<Rightarrow> u16 \<Rightarrow> string \<Rightarrow> string list \<Rightarrow> Config throwing" where
  "load_config_with tm path addr p dir peers =
     throw_bind (load_config tm path) (\<lambda>c.
       let c1 = (if addr \<noteq> [] then c\<lparr>cfg_node := (cfg_node c)\<lparr>listen_address := addr\<rparr>\<rparr> else c);
           c2 = (if p \<noteq> 0 then c1\<lparr>cfg_node := (cfg_node c1)\<lparr>listen_port := p\<rparr>\<rparr> else c1);
           c3 = (if dir \<noteq> [] then c2\<lparr>cfg_node := (cfg_node c2)\<lparr>data_dir := dir\<rparr>\<rparr> else c2)
       in Inr (if peers \<noteq> [] then c3\<lparr>cfg_peers := peers\<rparr> else c3))"

section \<open>Command line\<close>

fun parse_peers_loop :: "string \<Rightarrow> string list \<Rightarrow> string \<Rightarrow> string list" where
  "parse_peers_loop [] peers current = (if current \<noteq> [] then peers @ [current] else peers)"
| "parse_peers_loop (c # cs) peers current =
     (if c = CHR '','' then
        (if current \<noteq> [] then parse_peers_loop cs (peers @ [current]) []
         else parse_peers_loop cs peers current)
      else if c \<noteq> CHR '' '' then parse_peers_loop cs peers (current @ [c])
      else parse_peers_loop cs peers current)"

definition parse_peers :: "string \<Rightarrow> string list" where
  "parse_peers s = parse_peers_loop s [] []"

definition is_digit :: "char \<Rightarrow> bool" where
  "is_digit c \<longleftrightarrow> 48 \<le> (of_char c :: nat) \<and> (of_char c :: nat) \<le> 57"

definition digits_val :: "string \<Rightarrow> nat" where
  "digits_val ds = foldl (\<lambda>a c. a * 10 + ((of_char c :: nat) - 48)) 0 ds"

definition is_space :: "char \<Rightarrow> bool" where
  "is_space c \<longleftrightarrow> c = CHR '' '' \<or> (9 \<le> (of_char c :: nat) \<and> (of_char c :: nat) \<le> 13)"

definition stoi :: "string \<Rightarrow> int throwing" where
  "stoi s =
     (let s1 = dropWhile is_space s;
          neg = (s1 \<noteq> [] \<and> hd s1 = CHR ''-'');
          s2 = (if s1 \<noteq> [] \<and> (hd s1 = CHR ''-'' \<or> hd s1 = CHR ''+'') then tl s1 else s1);
          ds = takeWhile is_digit s2;
          v = (if neg then - int (digits_val ds) else int (digits_val ds))
      in if ds = [] then Inl (invalid_argument ''stoi'')
         else if v < - (2 ^ 31) \<or> 2 ^ 31 \<le> v then Inl (out_of_range ''stoi'')
         else Inr v)"

record options =
  config_path :: string
  opt_listen_address :: string
  opt_listen_port :: u16
  opt_data_dir :: string
  bootstrap_str :: string
  log_level :: string
  dump_routing_path :: string
  duration_sec :: int

definition options_default :: options where
  "options_default =
     \<lparr>config_path = ''config/default.toml'', opt_listen_address = '''', opt_listen_port = 0, opt_data_dir = '''',
      bootstrap_str = '''', log_level = ''info'', dump_routing_path = '''', duration_sec = 0\<rparr>"

text \<open>
  The argument loop; \<open>None\<close> is \<^verbatim>\<open>--help\<close>, which ends the program. An option that needs a value and
  has none falls through to the next tests, so it is skipped unless it is a help option.
\<close>

fun parse_args :: "string list \<Rightarrow> options \<Rightarrow> options option throwing" where
  "parse_args [] opt = Inr (Some opt)"
| "parse_args [arg] opt = (if arg = ''--help'' \<or> arg = ''-h'' then Inr None else Inr (Some opt))"
| "parse_args (arg # v # args) opt =
     (if arg = ''--config'' \<or> arg = ''-c'' then parse_args args (opt\<lparr>config_path := v\<rparr>)
      else if arg = ''--port'' \<or> arg = ''-p''
      then throw_bind (stoi v) (\<lambda>p. parse_args args (opt\<lparr>opt_listen_port := word_of_int p\<rparr>))
      else if arg = ''--address'' \<or> arg = ''-a'' then parse_args args (opt\<lparr>opt_listen_address := v\<rparr>)
      else if arg = ''--data-dir'' \<or> arg = ''-d'' then parse_args args (opt\<lparr>opt_data_dir := v\<rparr>)
      else if arg = ''--bootstrap'' \<or> arg = ''-b'' then parse_args args (opt\<lparr>bootstrap_str := v\<rparr>)
      else if arg = ''--log-level'' \<or> arg = ''-l'' then parse_args args (opt\<lparr>log_level := v\<rparr>)
      else if arg = ''--dump-routing'' then parse_args args (opt\<lparr>dump_routing_path := v\<rparr>)
      else if arg = ''--duration'' then throw_bind (stoi v) (\<lambda>n. parse_args args (opt\<lparr>duration_sec := n\<rparr>))
      else if arg = ''--help'' \<or> arg = ''-h'' then Inr None
      else parse_args (v # args) opt)"

definition main_config :: "toml_lib \<Rightarrow> options \<Rightarrow> Config throwing" where
  "main_config tm opt =
     load_config_with tm (config_path opt) (opt_listen_address opt) (opt_listen_port opt) (opt_data_dir opt)
       (if bootstrap_str opt = [] then [] else parse_peers (bootstrap_str opt))"

text \<open>One bootstrap peer string of \<^verbatim>\<open>Node::start\<close>; \<open>None\<close> is the warning about a missing colon.\<close>

definition rfind_colon :: "string \<Rightarrow> nat option" where
  "rfind_colon s = List.find (\<lambda>i. s ! i = CHR '':'') (rev [0..<length s])"

definition parse_bootstrap_peer :: "string \<Rightarrow> (string \<times> u16) option throwing" where
  "parse_bootstrap_peer s =
     (case rfind_colon s of
        None \<Rightarrow> Inr None
      | Some colon \<Rightarrow>
          throw_bind (stoi (drop (colon + 1) s)) (\<lambda>p. Inr (Some (take colon s, word_of_int p))))"

section \<open>Peer lists\<close>

text \<open>What the loop computes: the non-empty pieces between commas, without the spaces.\<close>

fun split_commas :: "string \<Rightarrow> string list" where
  "split_commas [] = [[]]"
| "split_commas (c # cs) =
     (if c = CHR '','' then [] # split_commas cs
      else case split_commas cs of p # ps \<Rightarrow> (c # p) # ps | [] \<Rightarrow> [[c]])"

lemma split_commas_nonempty [simp]: "split_commas s \<noteq> []"
  by (induction s) (auto split: list.splits)

lemma parse_peers_loop_eq:
  "parse_peers_loop s peers current =
    peers @ filter (\<lambda>p. p \<noteq> []) ((current @ hd (split_commas (filter (\<lambda>c. c \<noteq> CHR '' '') s))) #
      tl (split_commas (filter (\<lambda>c. c \<noteq> CHR '' '') s)))"
proof (induction s arbitrary: peers current)
  case (Cons c cs)
  obtain p ps where sp: "split_commas (filter (\<lambda>c. c \<noteq> CHR '' '') cs) = p # ps"
    by (cases "split_commas (filter (\<lambda>c. c \<noteq> CHR '' '') cs)") auto
  show ?case using sp by (simp add: Cons.IH)
qed simp

lemma parse_peers_eq: "parse_peers s = filter (\<lambda>p. p \<noteq> []) (split_commas (filter (\<lambda>c. c \<noteq> CHR '' '') s))"
  using parse_peers_loop_eq [of s "[]" "[]"] hd_Cons_tl [OF split_commas_nonempty [of "filter (\<lambda>c. c \<noteq> CHR '' '') s"]]
  by (simp only: parse_peers_def append_Nil)

definition join_commas :: "string list \<Rightarrow> string" where
  "join_commas ps = concat (map (\<lambda>p. p @ '','') ps)"

lemma split_commas_append: "CHR '','' \<notin> set p \<Longrightarrow> split_commas (p @ '','' @ s) = p # split_commas s"
  by (induction p) auto

lemma split_join:
  "\<forall>p \<in> set ps. CHR '','' \<notin> set p \<Longrightarrow> split_commas (join_commas ps) = ps @ [[]]"
  by (induction ps) (simp_all add: join_commas_def split_commas_append [simplified])

section \<open>Ports and addresses\<close>

text \<open>The decimal notation of a number, as \<^verbatim>\<open>std::to_string\<close> prints it.\<close>

fun show_nat :: "nat \<Rightarrow> string" where
  "show_nat n = (if n < 10 then [char_of (48 + n)] else show_nat (n div 10) @ [char_of (48 + n mod 10)])"

declare show_nat.simps [simp del]

lemma digit_char: "d < 10 \<Longrightarrow> of_char (char_of (48 + d) :: char) = 48 + (d :: nat)"
  by (simp add: of_char_of)

lemma digits_val_snoc: "digits_val (ds @ [c]) = digits_val ds * 10 + ((of_char c :: nat) - 48)"
  by (simp add: digits_val_def)

lemma show_nat_digits: "show_nat n \<noteq> [] \<and> (\<forall>c \<in> set (show_nat n). is_digit c) \<and> digits_val (show_nat n) = n"
proof (induction n rule: less_induct)
  case (less n)
  show ?case
  proof (cases "n < 10")
    case True
    then show ?thesis by (simp add: show_nat.simps is_digit_def digits_val_def digit_char)
  next
    case False
    with less [of "n div 10"] show ?thesis
      by (simp add: show_nat.simps [of n] digits_val_snoc is_digit_def digit_char)
  qed
qed

lemma stoi_show_nat:
  assumes "n < 2 ^ 31"
  shows "stoi (show_nat n) = Inr (int n)"
proof -
  obtain c cs where s: "show_nat n = c # cs" using show_nat_digits [of n] by (cases "show_nat n") auto
  have dig: "\<forall>x \<in> set (c # cs). is_digit x" and val: "digits_val (c # cs) = n"
    using show_nat_digits [of n] s by auto
  have "\<not> is_space c" "c \<noteq> CHR ''-''" "c \<noteq> CHR ''+''" using dig by (auto simp: is_digit_def is_space_def)
  moreover have "takeWhile is_digit (c # cs) = c # cs" using dig by (simp add: takeWhile_eq_all_conv)
  ultimately show ?thesis unfolding stoi_def s using val assms by (simp add: Let_def)
qed

lemma rfind_colon_append:
  assumes "CHR '':'' \<notin> set t"
  shows "rfind_colon (s @ '':'' @ t) = Some (length s)"
proof -
  define u where "u = s @ '':'' @ t"
  have len: "length u = length s + 1 + length t" by (simp add: u_def)
  have nth: "rev [0..<Suc (length s + length t)] ! j = length s + length t - j" if "j \<le> length t" for j
    using that by (simp add: rev_nth del: upt_Suc)
  have after: "u ! (length s + 1 + k) = t ! k" for k by (simp add: u_def nth_append)
  have "u ! (length u - 1 - j) \<noteq> CHR '':''" if "j < length t" for j
  proof -
    have "length u - 1 - j = length s + 1 + (length t - 1 - j)" using that len by simp
    then have "u ! (length u - 1 - j) = t ! (length t - 1 - j)" by (simp only: after)
    moreover have "t ! (length t - 1 - j) \<in> set t" using that by (intro nth_mem) linarith
    ultimately show ?thesis using assms by metis
  qed
  moreover have "u ! (length u - 1 - length t) = CHR '':''" by (simp add: u_def nth_append)
  ultimately have "rfind_colon u = Some (length s)"
    unfolding rfind_colon_def find_Some_iff
    by (intro exI [of _ "length t"]) (simp add: nth len del: upt_Suc)
  then show ?thesis by (simp add: u_def)
qed

section \<open>Properties\<close>

lemma split_commas_chars: "p \<in> set (split_commas s) \<Longrightarrow> CHR '','' \<notin> set p \<and> set p \<subseteq> set s"
proof (induction s arbitrary: p)
  case (Cons c cs)
  obtain q qs where "split_commas cs = q # qs" by (cases "split_commas cs") auto
  with Cons show ?case by (fastforce split: if_splits)
qed simp

text \<open>
  Peer lists: \<^verbatim>\<open>parse_peers\<close> returns exactly the non-empty pieces between the commas of its
  argument with all spaces removed; so a list of non-empty peers without commas and spaces, written
  with a comma after each and any number of spaces between the characters, is read back unchanged,
  and no peer it returns is empty or has a comma or a space.
\<close>

theorem parse_peers_correct:
  "parse_peers s = filter (\<lambda>p. p \<noteq> []) (split_commas (filter (\<lambda>c. c \<noteq> CHR '' '') s)) \<and>
   (\<forall>p \<in> set (parse_peers s). p \<noteq> [] \<and> CHR '','' \<notin> set p \<and> CHR '' '' \<notin> set p) \<and>
   ((\<forall>p \<in> set ps. p \<noteq> [] \<and> CHR '','' \<notin> set p \<and> CHR '' '' \<notin> set p) \<longrightarrow>
     filter (\<lambda>c. c \<noteq> CHR '' '') s = join_commas ps \<longrightarrow> parse_peers s = ps)"
proof (intro conjI ballI impI)
  show "parse_peers s = filter (\<lambda>p. p \<noteq> []) (split_commas (filter (\<lambda>c. c \<noteq> CHR '' '') s))" by (rule parse_peers_eq)
next
  fix p assume "p \<in> set (parse_peers s)"
  then have p: "p \<noteq> []" "p \<in> set (split_commas (filter (\<lambda>c. c \<noteq> CHR '' '') s))" by (auto simp: parse_peers_eq)
  with split_commas_chars [OF p(2)] show "p \<noteq> []" "CHR '','' \<notin> set p" "CHR '' '' \<notin> set p" by auto
next
  assume "\<forall>p \<in> set ps. p \<noteq> [] \<and> CHR '','' \<notin> set p \<and> CHR '' '' \<notin> set p"
    and "filter (\<lambda>c. c \<noteq> CHR '' '') s = join_commas ps"
  then show "parse_peers s = ps" by (simp add: parse_peers_eq split_join)
qed

theorem parse_peers_correct_witness:
  "parse_peers ''10.0.0.1:9000, 10.0.0.2:9001 ,'' = [''10.0.0.1:9000'', ''10.0.0.2:9001'']"
proof -
  have "\<forall>p \<in> set [''10.0.0.1:9000'', ''10.0.0.2:9001'']. p \<noteq> [] \<and> CHR '','' \<notin> set p \<and> CHR '' '' \<notin> set p"
    by simp
  moreover have "filter (\<lambda>c. c \<noteq> CHR '' '') ''10.0.0.1:9000, 10.0.0.2:9001 ,'' = join_commas [''10.0.0.1:9000'', ''10.0.0.2:9001'']"
    by (simp add: join_commas_def)
  ultimately show ?thesis using parse_peers_correct by blast
qed

text \<open>
  The grammar \<^verbatim>\<open>std::stoi\<close> reads: white space, an optional sign, a maximal non-empty run of digits,
  then anything.
\<close>

definition number_text :: "string \<Rightarrow> bool \<Rightarrow> string \<Rightarrow> bool" where
  "number_text t neg ds \<longleftrightarrow> (\<exists>ws sg rest. t = ws @ sg @ ds @ rest \<and> list_all is_space ws \<and>
     (if neg then sg = ''-'' else sg = '''' \<or> sg = ''+'') \<and> ds \<noteq> [] \<and> list_all is_digit ds \<and>
     (rest = [] \<or> \<not> is_digit (hd rest)))"

lemma digit_no_space: "is_digit c \<Longrightarrow> \<not> is_space c \<and> c \<noteq> CHR ''-'' \<and> c \<noteq> CHR ''+''"
  by (auto simp: is_digit_def is_space_def)

lemma takeWhile_run: "list_all P ds \<Longrightarrow> rest = [] \<or> \<not> P (hd rest) \<Longrightarrow> takeWhile P (ds @ rest) = ds"
  by (induction ds) (auto simp: takeWhile_eq_Nil_iff)

lemma dropWhile_run: "list_all P ws \<Longrightarrow> xs = [] \<or> \<not> P (hd xs) \<Longrightarrow> dropWhile P (ws @ xs) = xs"
  by (induction ws) (auto simp: dropWhile_eq_self_iff)

lemma stoi_number:
  assumes "number_text t neg ds"
  shows "stoi t = (let v = (if neg then - int (digits_val ds) else int (digits_val ds))
    in if - (2 ^ 31) \<le> v \<and> v < 2 ^ 31 then Inr v else Inl (out_of_range ''stoi''))"
proof -
  from assms obtain ws sg rest where t: "t = ws @ sg @ ds @ rest" and ws: "list_all is_space ws"
    and sg: "if neg then sg = ''-'' else sg = '''' \<or> sg = ''+''" and ds: "ds \<noteq> []" "list_all is_digit ds"
    and rest: "rest = [] \<or> \<not> is_digit (hd rest)" by (auto simp: number_text_def)
  obtain d ds' where dd: "ds = d # ds'" "is_digit d" using ds by (cases ds) auto
  have "\<not> is_space (hd (sg @ ds @ rest))"
    using sg digit_no_space [OF dd(2)] by (auto simp: dd is_space_def split: if_splits)
  then have s1: "dropWhile is_space t = sg @ ds @ rest" unfolding t by (intro dropWhile_run [OF ws]) simp
  have run: "takeWhile is_digit (ds @ rest) = ds" by (rule takeWhile_run [OF ds(2) rest])
  show ?thesis
    using sg digit_no_space [OF dd(2)] run ds(1)
    by (cases neg) (auto simp: stoi_def s1 dd(1) Let_def not_le not_less split: if_splits)
qed

lemma stoi_no_number:
  assumes "\<nexists>neg ds. number_text t neg ds"
  shows "stoi t = Inl (invalid_argument ''stoi'')"
proof (rule ccontr)
  assume no: "stoi t \<noteq> Inl (invalid_argument ''stoi'')"
  define s1 where "s1 = dropWhile is_space t"
  define sg where "sg = (if s1 \<noteq> [] \<and> (hd s1 = CHR ''-'' \<or> hd s1 = CHR ''+'') then [hd s1] else [])"
  define s2 where "s2 = (if s1 \<noteq> [] \<and> (hd s1 = CHR ''-'' \<or> hd s1 = CHR ''+'') then tl s1 else s1)"
  have "takeWhile is_digit s2 \<noteq> []" 
    using no unfolding stoi_def Let_def s1_def [symmetric] s2_def [symmetric] by metis
  moreover have "t = takeWhile is_space t @ sg @ takeWhile is_digit s2 @ dropWhile is_digit s2"
    by (auto simp: sg_def s2_def s1_def)
  moreover have "if sg = ''-'' then sg = ''-'' else sg = '''' \<or> sg = ''+''" by (auto simp: sg_def)
  moreover have "list_all is_space (takeWhile is_space t)" "list_all is_digit (takeWhile is_digit s2)"
    by (auto simp: list_all_iff dest: set_takeWhileD)
  moreover have "dropWhile is_digit s2 = [] \<or> \<not> is_digit (hd (dropWhile is_digit s2))" using hd_dropWhile by blast
  ultimately have "number_text t (sg = ''-'') (takeWhile is_digit s2)" unfolding number_text_def by blast
  with assms show False by blast
qed

text \<open>
  C26. Bootstrap addresses, for every string: one without a colon is skipped. Any other is split at
  its last colon (so the host may have colons, and may be empty), and the text after it is read as
  a number: white space, a sign, digits, and ignored trailing text. When the number fits a 32-bit
  \<^verbatim>\<open>int\<close> the peer is accepted, with the number reduced modulo \<open>2\<^sup>1\<^sup>6\<close> as its port, also a negative or a
  too large one and also with trailing text; when it does not fit, the start-up fails with
  \<^verbatim>\<open>out_of_range\<close>; when there is no digit, with \<^verbatim>\<open>invalid_argument\<close>. In particular a host, a colon and
  the decimal notation of a 16-bit port give that host and that port.
\<close>

theorem parse_bootstrap_peer_spec:
  "(CHR '':'' \<notin> set s \<longrightarrow> parse_bootstrap_peer s = Inr None) \<and>
   (s = h @ '':'' @ t \<and> CHR '':'' \<notin> set t \<longrightarrow>
     (\<forall>neg ds. number_text t neg ds \<longrightarrow> parse_bootstrap_peer s =
        (let v = (if neg then - int (digits_val ds) else int (digits_val ds))
         in if - (2 ^ 31) \<le> v \<and> v < 2 ^ 31 then Inr (Some (h, word_of_int v)) else Inl (out_of_range ''stoi''))) \<and>
     ((\<nexists>neg ds. number_text t neg ds) \<longrightarrow> parse_bootstrap_peer s = Inl (invalid_argument ''stoi''))) \<and>
   parse_bootstrap_peer (h @ '':'' @ show_nat (unat p)) = Inr (Some (h, p))"
proof -
  have split: "parse_bootstrap_peer (h @ '':'' @ x) = throw_bind (stoi x) (\<lambda>p. Inr (Some (h, word_of_int p)))"
    if "CHR '':'' \<notin> set x" for x
    using rfind_colon_append [OF that, of h] by (simp add: parse_bootstrap_peer_def)
  have none: "parse_bootstrap_peer s = Inr None" if "CHR '':'' \<notin> set s"
  proof -
    have "rfind_colon s = None" using that by (auto simp: rfind_colon_def find_None_iff in_set_conv_nth)
    then show ?thesis by (simp add: parse_bootstrap_peer_def)
  qed
  have "CHR '':'' \<notin> set (show_nat (unat p))"
    using show_nat_digits [of "unat p"] by (auto simp: is_digit_def)
  moreover have "unat p < 2 ^ 31" using unsigned_less [of p, where 'a = nat] by simp
  ultimately have "parse_bootstrap_peer (h @ '':'' @ show_nat (unat p)) = Inr (Some (h, p))"
    using split stoi_show_nat by simp
  then show ?thesis
    using none split [of t] stoi_number [of t] stoi_no_number [of t] by (auto simp: Let_def)
qed

theorem parse_bootstrap_peer_spec_witness:
  "parse_bootstrap_peer ''node1'' = Inr None \<and>
   parse_bootstrap_peer (''n:1'' @ '':'' @ '' +70000abc'') = Inr (Some (''n:1'', 4464)) \<and>
   parse_bootstrap_peer (''h'' @ '':'' @ ''-1'') = Inr (Some (''h'', 65535)) \<and>
   parse_bootstrap_peer (''h'' @ '':'' @ ''2147483648'') = Inl (out_of_range ''stoi'') \<and>
   parse_bootstrap_peer (''h'' @ '':'' @ ''http'') = Inl (invalid_argument ''stoi'')"
proof -
  have num: "number_text '' +70000abc'' False ''70000''" "number_text ''-1'' True ''1''"
      "number_text ''2147483648'' False ''2147483648''"
    unfolding number_text_def
    by (rule exI [of _ "'' ''"], rule exI [of _ "''+''"], rule exI [of _ "''abc''"], simp add: is_digit_def is_space_def,
        rule exI [of _ "[]"], rule exI [of _ "''-''"], rule exI [of _ "[]"], simp add: is_digit_def,
        rule exI [of _ "[]"], rule exI [of _ "[]"], rule exI [of _ "[]"], simp add: is_digit_def)
  have "\<not> number_text ''http'' neg ds" for neg ds
    using stoi_number [of "''http''" neg ds] by (auto simp: stoi_def is_digit_def is_space_def Let_def split: if_splits)
  then show ?thesis
    using parse_bootstrap_peer_spec [of "''node1''"]
      parse_bootstrap_peer_spec [of "''n:1'' @ '':'' @ '' +70000abc''" "''n:1''" "'' +70000abc''"]
      parse_bootstrap_peer_spec [of "''h'' @ '':'' @ ''-1''" "''h''" "''-1''"]
      parse_bootstrap_peer_spec [of "''h'' @ '':'' @ ''2147483648''" "''h''" "''2147483648''"]
      parse_bootstrap_peer_spec [of "''h'' @ '':'' @ ''http''" "''h''" "''http''"] num
    by (simp add: digits_val_def Let_def)
qed

lemma to_int32_range: "- (2 ^ 31) \<le> i \<Longrightarrow> i < 2 ^ 31 \<Longrightarrow> to_int32 i = i"
  unfolding to_int32_def by (simp add: sint_sbintrunc' signed_take_bit_int_eq_self)

lemma load_keeps_dht: "cfg_dht (load_bootstrap t c) = cfg_dht c" "cfg_dht (load_rest t c) = cfg_dht c"
  by (simp_all add: load_bootstrap_def load_rest_def Let_def split: option.split)

text \<open>
  Configuration: a missing file, and a file in which no section is present, give the defaults; a
  path that cannot be examined and a file that does not parse are errors; every command-line override that is given wins over the
  file, and what is not overridden keeps the file's value. Integers are cut to 32 bits (ports to
  16): values in range are kept.
\<close>

theorem load_config_spec:
  "(toml_exists tm path = Inl e \<longrightarrow> load_config tm path = Inl e) \<and>
   (toml_exists tm path = Inr False \<longrightarrow> load_config tm path = Inr Config_default) \<and>
   (toml_exists tm path = Inr True \<and> toml_parse_file tm path = Inl err \<longrightarrow>
     load_config tm path = Inl (runtime_error (''Failed to parse config '' @ path @ '': '' @ err))) \<and>
   (toml_exists tm path = Inr True \<and> toml_parse_file tm path = Inr t \<and> (\<forall>k. \<not> t_present t [k]) \<longrightarrow>
     load_config tm path = Inr Config_default) \<and>
   (load_config tm path = Inr c \<longrightarrow>
     (\<exists>d. load_config_with tm path addr p dir peers = Inr d \<and>
        listen_address (cfg_node d) = (if addr = [] then listen_address (cfg_node c) else addr) \<and>
        listen_port (cfg_node d) = (if p = 0 then listen_port (cfg_node c) else p) \<and>
        data_dir (cfg_node d) = (if dir = [] then data_dir (cfg_node c) else dir) \<and>
        cfg_peers d = (if peers = [] then cfg_peers c else peers) \<and>
        cfg_dht d = cfg_dht c \<and> cfg_transport d = cfg_transport c)) \<and>
   (toml_exists tm path = Inr True \<and> toml_parse_file tm path = Inr t \<and> t_present t [''dht''] \<and>
     t_int t [''dht'', ''k_bucket_size''] = Some k \<and> - (2 ^ 31) \<le> k \<and> k < 2 ^ 31 \<and> load_config tm path = Inr c \<longrightarrow>
     k_bucket_size (cfg_dht c) = k)"
proof (intro conjI impI)
  assume "load_config tm path = Inr c"
  then show "\<exists>d. load_config_with tm path addr p dir peers = Inr d \<and>
        listen_address (cfg_node d) = (if addr = [] then listen_address (cfg_node c) else addr) \<and>
        listen_port (cfg_node d) = (if p = 0 then listen_port (cfg_node c) else p) \<and>
        data_dir (cfg_node d) = (if dir = [] then data_dir (cfg_node c) else dir) \<and>
        cfg_peers d = (if peers = [] then cfg_peers c else peers) \<and>
        cfg_dht d = cfg_dht c \<and> cfg_transport d = cfg_transport c"
    by (simp add: load_config_with_def Let_def)
next
  assume "toml_exists tm path = Inr True \<and> toml_parse_file tm path = Inr t \<and> t_present t [''dht''] \<and>
     t_int t [''dht'', ''k_bucket_size''] = Some k \<and> - (2 ^ 31) \<le> k \<and> k < 2 ^ 31 \<and> load_config tm path = Inr c"
  then show "k_bucket_size (cfg_dht c) = k"
    by (auto simp: load_config_def load_keeps_dht load_dht_def int_field_def value_or_def to_int32_range Let_def)
qed (simp_all add: load_config_def load_node_def load_dht_def load_transport_def load_tunnel_def load_app_def
    load_rest_def load_bootstrap_def Let_def)

definition test_toml :: toml_lib where
  "test_toml = \<lparr>toml_exists = (\<lambda>p. Inr (p = ''node.toml'')), toml_parse_file = (\<lambda>_. Inr
     \<lparr>t_present = (\<lambda>k. k = [''dht'']), t_string = (\<lambda>_. None),
      t_int = (\<lambda>k. if k = [''dht'', ''k_bucket_size''] then Some 8 else None),
      t_bool = (\<lambda>_. None), t_float = (\<lambda>_. None), t_strings = (\<lambda>_. None)\<rparr>)\<rparr>"

theorem load_config_spec_witness:
  "\<exists>c d. load_config test_toml ''node.toml'' = Inr c \<and> k_bucket_size (cfg_dht c) = 8 \<and>
     load_config_with test_toml ''node.toml'' [] 4001 [] [''a:1''] = Inr d \<and> listen_port (cfg_node d) = 4001 \<and>
     listen_address (cfg_node d) = listen_address (cfg_node c) \<and> cfg_peers d = [''a:1'']"
proof -
  obtain c where c: "load_config test_toml ''node.toml'' = Inr c" by (simp add: load_config_def test_toml_def Let_def)
  from load_config_spec [of test_toml "''node.toml''" "runtime_error []" "[]"
      "\<lparr>t_present = (\<lambda>k. k = [''dht'']), t_string = (\<lambda>_. None),
      t_int = (\<lambda>k. if k = [''dht'', ''k_bucket_size''] then Some 8 else None),
      t_bool = (\<lambda>_. None), t_float = (\<lambda>_. None), t_strings = (\<lambda>_. None)\<rparr>" c "[]" 4001 "[]" "[''a:1'']" 8] c
  show ?thesis by (auto simp: test_toml_def)
qed

end
