(* ===== verification/Node_State.thy ===== *)
theory Node_State
  imports Lookup_Engine Record_Store Dht_Messages Tcp_Connection Tcp_Listener Config_Main
begin

text \<open>
  The state of \<^verbatim>\<open>p2p::Node\<close> (\<^verbatim>\<open>src/node.hpp\<close>, \<^verbatim>\<open>node.cpp\<close>) and its operations on connections and
  contacts. Objects that the code shares through pointers (connections, sessions, running lookups,
  publications and value searches, timers) live in stores indexed by numbers, so that aliasing is
  explicit; a callback that the code keeps for later is a constructor with the variables it captures.
  Calls of application callbacks are appended to \<open>n_log\<close>, as are the reports of the lookup after a bootstrap
  and of periodic publications, whose callbacks in the code only write to the log.

  What the node asks of its surroundings is the parameter \<open>env\<close>: libsodium, the JSON library, random
  bytes, the two clocks, the answers of the network to connection attempts and the outcome of binding
  the listener, each as a function of a counter that grows with every question.
  The operations are sequential, as the callbacks of one \<^verbatim>\<open>io_context\<close> are.
  The null checks of \<^verbatim>\<open>keypair_\<close>, \<^verbatim>\<open>routing_table_\<close> and \<^verbatim>\<open>record_store_\<close>, which are set together by
  \<^verbatim>\<open>start\<close>, are tests of \<open>n_started\<close>.
\<close>

record env =
  e_sodium :: sodium
  e_json :: json_lib
  e_rid :: "nat \<Rightarrow> RequestID"
  e_rand :: "nat \<Rightarrow> 32 barray"
  e_now :: "nat \<Rightarrow> u64"
  e_clock :: "nat \<Rightarrow> time_point"
  e_net :: "nat \<Rightarrow> tcp_os"
  e_bind :: "string \<Rightarrow> u16 \<Rightarrow> u16 option"

section \<open>State\<close>

type_synonym conn_ref = nat
type_synonym timer_ref = nat

text \<open>The \<^verbatim>\<open>on_result\<close> argument of \<^verbatim>\<open>send_ping\<close>: none, or the lambda of \<^verbatim>\<open>probe_lru_contact\<close>.\<close>

datatype ping_callback = NoCallback | ProbeResult NodeID

record PendingPing =
  pp_expected_peer_id :: "NodeID option"
  pp_timer :: timer_ref
  pp_callback :: ping_callback

text \<open>The callbacks of publications and lookups.\<close>

datatype publish_leaf = NotifyPublish | AliasPublished nat

datatype publish_callback = Leaf publish_leaf | ThenAlias string NodeRecord

datatype lookup_callback = NotifyLookup | StoreAtKeepers NodeID NodeRecord publish_callback

record lookup_op =
  lo_session :: LookupSession
  lo_callback :: lookup_callback

record publish_op =
  po_acks :: nat
  po_remaining :: u64
  po_finished :: bool
  po_quorum :: nat
  po_callback :: publish_callback

record find_op =
  fo_session :: LookupSession
  fo_key :: NodeID
  fo_found :: "NodeRecord option"
  fo_finished :: bool

text \<open>The values of \<^verbatim>\<open>pending_requests_\<close>: who sent the request and the timer that guards it.\<close>

datatype pending_request =
    PendingLookup nat NodeID timer_ref
  | PendingStore nat NodeID timer_ref
  | PendingFind nat NodeID timer_ref
  | PendingHandshake conn_ref session_ref timer_ref

text \<open>
  What a timer does when it runs. An expired timer whose handler is already queued cannot be
  cancelled any more, so \<open>Queued\<close> is a state of its own.
\<close>

datatype timer_action =
    PingTimeout RequestID
  | LookupTimeout nat NodeID RequestID
  | StoreTimeout nat NodeID RequestID
  | FindTimeout nat NodeID RequestID
  | HandshakeTimeout RequestID
  | BootstrapLookup
  | PurgeTick
  | RepublishTick

datatype timer_state = Idle | Armed timer_action | Queued timer_action

datatype notification =
    LookupDone "PeerInfo list" LookupMetrics
  | PublishDone bool nat
  | FindDone "NodeRecord option" LookupMetrics
  | HandshakeDone bool

record Node =
  n_config :: Config
  n_started :: bool
  n_stopped :: bool
  n_keypair :: Keypair
  n_routing :: RoutingTable
  n_store :: RecordStore
  n_listener :: "TcpListener option"
  n_record_seq :: u64
  n_alias :: string
  n_purge_timer :: "timer_ref option"
  n_republish_timer :: "timer_ref option"
  n_connections :: "conn_ref list"
  n_pending_requests :: "RequestID \<rightharpoonup> pending_request"
  n_pending_pings :: "RequestID \<rightharpoonup> PendingPing"
  n_conns :: "conn_ref \<Rightarrow> TcpConnection"
  n_conn_count :: nat
  n_sessions :: session_store
  n_session_count :: nat
  n_lookups :: "nat \<Rightarrow> lookup_op"
  n_lookup_count :: nat
  n_publishes :: "nat \<Rightarrow> publish_op"
  n_publish_count :: nat
  n_finds :: "nat \<Rightarrow> find_op"
  n_find_count :: nat
  n_timers :: "timer_ref \<Rightarrow> timer_state"
  n_timer_count :: nat
  n_tick :: nat
  n_hangs :: bool
  n_log :: "notification list"

type_synonym 'a node_op = "(Node, 'a) eff"

section \<open>Surroundings\<close>

definition ask :: "(nat \<Rightarrow> 'a) \<Rightarrow> 'a node_op" where
  "ask f = bindE (gets n_tick) (\<lambda>t. thenE (modify (\<lambda>s. s\<lparr>n_tick := t + 1\<rparr>)) (ret (f t)))"

definition generate_request_id :: "env \<Rightarrow> RequestID node_op" where
  "generate_request_id env = bindE (ask (e_rid env)) (\<lambda>r. liftE (RequestID_generate (e_sodium env) r))"

definition notify :: "notification \<Rightarrow> unit node_op" where
  "notify e = modify (\<lambda>s. s\<lparr>n_log := n_log s @ [e]\<rparr>)"

definition new_timer :: "timer_action \<Rightarrow> timer_ref node_op" where
  "new_timer a =
     bindE (gets n_timer_count) (\<lambda>t.
     thenE (modify (\<lambda>s. s\<lparr>n_timers := (n_timers s)(t := Armed a), n_timer_count := t + 1\<rparr>)) (ret t))"

definition cancel_timer :: "timer_ref \<Rightarrow> unit node_op" where
  "cancel_timer t = modify (\<lambda>s. case n_timers s t of Armed _ \<Rightarrow> s\<lparr>n_timers := (n_timers s)(t := Idle)\<rparr> | _ \<Rightarrow> s)"

definition Node_node_id :: "env \<Rightarrow> Node \<Rightarrow> NodeID" where
  "Node_node_id env s = Keypair_node_id (e_sodium env) (n_keypair s)"

definition config_k :: "Node \<Rightarrow> nat" where
  "config_k s = to_size_t (k_bucket_size (cfg_dht (n_config s)))"

definition wire_version :: "Node \<Rightarrow> u8" where
  "wire_version s = word_of_int (protocol_version (cfg_transport (n_config s)))"

text \<open>This node as other nodes see it in requests.\<close>

definition self_peer :: "env \<Rightarrow> Node \<Rightarrow> PeerInfo" where
  "self_peer env s = peer_of (Node_node_id env s) (listen_address (cfg_node (n_config s))) (listen_port (cfg_node (n_config s)))"

section \<open>Connections\<close>

definition update_conn :: "conn_ref \<Rightarrow> (TcpConnection \<Rightarrow> TcpConnection) \<Rightarrow> unit node_op" where
  "update_conn cid f = modify (\<lambda>s. s\<lparr>n_conns := (n_conns s)(cid := f (n_conns s cid))\<rparr>)"

definition Node_on_disconnect :: "conn_ref \<Rightarrow> unit node_op" where
  "Node_on_disconnect cid = modify (\<lambda>s. s\<lparr>n_connections := removeAll cid (n_connections s)\<rparr>)"

text \<open>\<^verbatim>\<open>conn->close(reason)\<close>: the connection calls the disconnect handler of the node.\<close>

definition conn_close :: "string \<Rightarrow> conn_ref \<Rightarrow> unit node_op" where
  "conn_close reason cid =
     bindE (gets (\<lambda>s. TcpConnection_close reason (n_conns s cid))) (\<lambda>(d, c).
     thenE (update_conn cid (\<lambda>_. c)) (whenE (d \<noteq> None) (Node_on_disconnect cid)))"

definition conn_send :: "env \<Rightarrow> conn_ref \<Rightarrow> Frame \<Rightarrow> unit node_op" where
  "conn_send env cid f = (\<lambda>s.
     case TcpConnection_send (e_sodium env) f (n_sessions s, n_conns s cid) of
       (r, ss, c) \<Rightarrow> (r, s\<lparr>n_sessions := ss, n_conns := (n_conns s)(cid := c)\<rparr>))"

text \<open>The connection object of a connected or accepted socket, and \<^verbatim>\<open>TcpConnection::connect\<close> as the node calls it.\<close>

definition new_connection :: "string \<times> u16 \<Rightarrow> conn_ref node_op" where
  "new_connection ep =
     bindE (gets n_conn_count) (\<lambda>cid.
     thenE (modify (\<lambda>s. s\<lparr>n_conns := (n_conns s)(cid := TcpConnection_create ep), n_conn_count := cid + 1\<rparr>)) (ret cid))"

definition tcp_connect :: "env \<Rightarrow> PeerAddress \<Rightarrow> conn_ref option node_op" where
  "tcp_connect env addr =
     bindE (gets (\<lambda>s. connect_timeout_ms (cfg_transport (n_config s)))) (\<lambda>timeout.
     bindE (ask (e_net env)) (\<lambda>os. case TcpConnection_connect os (host addr) (port addr) timeout of
       None \<Rightarrow> ret None
     | Some ep \<Rightarrow> bindE (new_connection ep) (\<lambda>cid. ret (Some cid))))"

definition Node_register_connection :: "conn_ref \<Rightarrow> unit node_op" where
  "Node_register_connection cid =
     bindE (gets n_config) (\<lambda>cfg.
     thenE (update_conn cid (TcpConnection_configure (word_of_int (protocol_version (cfg_transport cfg)))
       (max_frame_payload (cfg_transport cfg)) (io_timeout_ms (cfg_transport cfg))))
     (modify (\<lambda>s. s\<lparr>n_connections := n_connections s @ [cid]\<rparr>)))"

definition Node_on_accept :: "string \<times> u16 \<Rightarrow> unit node_op" where
  "Node_on_accept ep = bindE (new_connection ep) Node_register_connection"

definition Node_listen_port :: "Node \<Rightarrow> u16 throwing" where
  "Node_listen_port s = (case n_listener s of None \<Rightarrow> Inr 0 | Some l \<Rightarrow> TcpListener_local_port l)"

definition Node_get_connection_to :: "NodeID \<Rightarrow> Node \<Rightarrow> conn_ref option" where
  "Node_get_connection_to nid s =
     List.find (\<lambda>cid. tc_peer_id (n_conns s cid) = Some nid \<and> sock_open (n_conns s cid)) (n_connections s)"

definition Node_connection_count :: "Node \<Rightarrow> nat" where
  "Node_connection_count s = length (n_connections s)"

text \<open>
  The connection to a peer that lookups, publications and probes use: an open one with its id, or
  else a new one, which is given that id before the peer has proved it.
\<close>

definition connection_for :: "env \<Rightarrow> PeerInfo \<Rightarrow> conn_ref option node_op" where
  "connection_for env peer =
     bindE (gets (Node_get_connection_to (peer_node_id peer))) (\<lambda>existing. case existing of
       Some cid \<Rightarrow> ret (Some cid)
     | None \<Rightarrow>
         bindE (tcp_connect env (peer_address peer)) (\<lambda>conn. case conn of
           None \<Rightarrow> ret None
         | Some cid \<Rightarrow>
             thenE (update_conn cid (set_peer_id (peer_node_id peer)))
             (thenE (Node_register_connection cid) (ret (Some cid)))))"

section \<open>Pings and contacts\<close>

definition identity_json :: "env \<Rightarrow> Node \<Rightarrow> json" where
  "identity_json env s = json_obj
     [(''node_id'', JString (NodeID_to_hex (Node_node_id env s))),
      (''public_key'', JBinary (bytes_of (kp_public_key (n_keypair s)))),
      (''listen_port'', JUInt (ucast (listen_port (cfg_node (n_config s)))))]"

definition routing_touch :: "env \<Rightarrow> NodeID \<Rightarrow> unit node_op" where
  "routing_touch env nid =
     bindE (ask (e_clock env)) (\<lambda>now. modify (\<lambda>s. s\<lparr>n_routing := RoutingTable_touch now nid (n_routing s)\<rparr>))"

definition routing_remove :: "NodeID \<Rightarrow> unit node_op" where
  "routing_remove nid = modify (\<lambda>s. s\<lparr>n_routing := snd (RoutingTable_remove nid (n_routing s))\<rparr>)"

text \<open>The result of a probe: keep the contact as most recently seen, or evict it.\<close>

definition ping_result :: "env \<Rightarrow> ping_callback \<Rightarrow> bool \<Rightarrow> unit node_op" where
  "ping_result env cb ok =
     (case cb of
        NoCallback \<Rightarrow> ret ()
      | ProbeResult lru_id \<Rightarrow> if ok then routing_touch env lru_id else routing_remove lru_id)"

text \<open>The callback stored in \<^verbatim>\<open>pending_pings_\<close>: stop the timer, then report.\<close>

definition run_ping_callback :: "env \<Rightarrow> PendingPing \<Rightarrow> bool \<Rightarrow> unit node_op" where
  "run_ping_callback env p ok = thenE (cancel_timer (pp_timer p)) (ping_result env (pp_callback p) ok)"

definition Node_send_ping :: "env \<Rightarrow> conn_ref \<Rightarrow> NodeID option \<Rightarrow> ping_callback \<Rightarrow> unit node_op" where
  "Node_send_ping env cid expected cb =
     bindE (gets (\<lambda>s. sock_open (n_conns s cid))) (\<lambda>is_open.
     if \<not> is_open then ping_result env cb False
     else
       bindE (generate_request_id env) (\<lambda>rid.
       bindE (gets (\<lambda>s. (Frame_make_ping rid)\<lparr>frame_version := wire_version s,
                frame_payload := to_cbor (e_json env) (identity_json env s)\<rparr>)) (\<lambda>ping.
       bindE (new_timer (PingTimeout rid)) (\<lambda>t.
       thenE (modify (\<lambda>s. s\<lparr>n_pending_pings := (n_pending_pings s)(rid \<mapsto>
                \<lparr>pp_expected_peer_id = expected, pp_timer = t, pp_callback = cb\<rparr>)\<rparr>))
       (conn_send env cid ping)))))"

text \<open>The timer of a ping.\<close>

definition ping_timeout :: "env \<Rightarrow> RequestID \<Rightarrow> unit node_op" where
  "ping_timeout env rid =
     bindE (gets (\<lambda>s. n_pending_pings s rid)) (\<lambda>p. case p of
       None \<Rightarrow> ret ()
     | Some p \<Rightarrow>
         thenE (modify (\<lambda>s. s\<lparr>n_pending_pings := (n_pending_pings s)(rid := None)\<rparr>))
         (run_ping_callback env p False))"

definition Node_ping_all :: "env \<Rightarrow> unit node_op" where
  "Node_ping_all env = bindE (gets n_connections) (\<lambda>conns. forE conns (\<lambda>cid. Node_send_ping env cid None NoCallback))"

definition Node_connect_to_peer :: "env \<Rightarrow> string \<Rightarrow> u16 \<Rightarrow> unit node_op" where
  "Node_connect_to_peer env h p =
     bindE (tcp_connect env \<lparr>host = h, port = p\<rparr>) (\<lambda>conn. case conn of
       None \<Rightarrow> ret ()
     | Some cid \<Rightarrow> thenE (Node_register_connection cid) (Node_send_ping env cid None NoCallback))"

definition Node_probe_lru_contact :: "env \<Rightarrow> PeerInfo \<Rightarrow> unit node_op" where
  "Node_probe_lru_contact env lru =
     bindE (connection_for env lru) (\<lambda>conn. case conn of
       None \<Rightarrow> routing_remove (peer_node_id lru)
     | Some cid \<Rightarrow> Node_send_ping env cid (Some (peer_node_id lru)) (ProbeResult (peer_node_id lru)))"

definition Node_add_contact :: "env \<Rightarrow> PeerInfo \<Rightarrow> unit node_op" where
  "Node_add_contact env peer =
     bindE (gets n_started) (\<lambda>started.
     if \<not> started then ret ()
     else
       bindE (ask (e_clock env)) (\<lambda>now.
       bindE (gets (\<lambda>s. RoutingTable_add_or_update now peer (n_routing s))) (\<lambda>(added, rt).
       thenE (modify (\<lambda>s. s\<lparr>n_routing := rt\<rparr>))
       (if added then ret ()
        else
          bindE (gets (\<lambda>s. RoutingTable_least_recently_seen_in_bucket (peer_node_id peer) (n_routing s))) (\<lambda>lru.
          case lru of
            None \<Rightarrow> ret ()
          | Some l \<Rightarrow> whenE (peer_node_id l \<noteq> peer_node_id peer) (Node_probe_lru_contact env l))))))"

definition Node_find_closest_nodes :: "NodeID \<Rightarrow> nat \<Rightarrow> Node \<Rightarrow> PeerInfo list" where
  "Node_find_closest_nodes target cnt s =
     (if \<not> n_started s then [] else RoutingTable_find_closest target cnt (n_routing s))"

definition Node_send_find_node :: "env \<Rightarrow> conn_ref \<Rightarrow> NodeID \<Rightarrow> unit node_op" where
  "Node_send_find_node env cid target =
     bindE (gets (\<lambda>s. serialize_find_node_request (e_json env) \<lparr>fnq_target = target, fnq_sender = self_peer env s\<rparr>)) (\<lambda>payload.
     bindE (generate_request_id env) (\<lambda>rid.
     conn_send env cid ((Frame_new FIND_NODE_REQUEST rid)\<lparr>frame_payload := payload\<rparr>)))"

end
