(* ===== verification/Node_Async.thy ===== *)
theory Node_Async
  imports Node_State
begin

text \<open>
  The asynchronous operations of \<^verbatim>\<open>p2p::Node\<close> (\<^verbatim>\<open>src/node.cpp\<close>): \<^verbatim>\<open>async_lookup\<close>, the publication of
  records with its quorum, \<^verbatim>\<open>async_find_value\<close>, and the client side of the handshake. The recursive
  lambda \<^verbatim>\<open>step_func\<close> of a lookup is \<open>lookup_step\<close>; the code calls it again, synchronously, for every
  peer that cannot be reached. Its first argument bounds the depth of that recursion; each level
  takes at least one candidate out of the unqueried ones, so one more than their number is enough
  (\<open>lookup_step_fuel\<close>). What a lookup does when it completes is passed as a function to the first
  call and stored as data for the later ones, which responses and timers start.
\<close>

section \<open>Lookups\<close>

definition set_lookup :: "nat \<Rightarrow> LookupSession \<Rightarrow> unit node_op" where
  "set_lookup L ls = modify (\<lambda>s. s\<lparr>n_lookups := (n_lookups s)(L := (n_lookups s L)\<lparr>lo_session := ls\<rparr>)\<rparr>)"

definition lookup_failure :: "env \<Rightarrow> nat \<Rightarrow> NodeID \<Rightarrow> unit node_op" where
  "lookup_failure env L nid =
     bindE (ask (e_clock env)) (\<lambda>now.
     bindE (gets (\<lambda>s. lo_session (n_lookups s L))) (\<lambda>ls. set_lookup L (LookupSession_on_failure now nid ls)))"

definition lookup_response :: "env \<Rightarrow> nat \<Rightarrow> NodeID \<Rightarrow> PeerInfo list \<Rightarrow> unit node_op" where
  "lookup_response env L nid peers =
     bindE (ask (e_clock env)) (\<lambda>now.
     bindE (gets (\<lambda>s. lo_session (n_lookups s L))) (\<lambda>ls. set_lookup L (LookupSession_on_response now nid peers ls)))"

text \<open>
  Send a request on a connection: draw its id, arm its timer, register what to do with the answer,
  and send. Lookups, publications and value searches share this sequence.
\<close>

definition send_request ::
  "env \<Rightarrow> conn_ref \<Rightarrow> MessageType \<Rightarrow> (Node \<Rightarrow> bytes) \<Rightarrow> (RequestID \<Rightarrow> timer_action) \<Rightarrow> (timer_ref \<Rightarrow> pending_request)
     \<Rightarrow> unit node_op" where
  "send_request env cid mtype payload timeout pending =
     bindE (gets payload) (\<lambda>pl.
     bindE (generate_request_id env) (\<lambda>rid.
     bindE (new_timer (timeout rid)) (\<lambda>t.
     thenE (modify (\<lambda>s. s\<lparr>n_pending_requests := (n_pending_requests s)(rid \<mapsto> pending t)\<rparr>))
     (conn_send env cid ((Frame_new mtype rid)\<lparr>frame_payload := pl\<rparr>)))))"

definition query_find_node :: "env \<Rightarrow> nat \<Rightarrow> NodeID \<Rightarrow> conn_ref \<Rightarrow> unit node_op" where
  "query_find_node env L nid cid =
     send_request env cid FIND_NODE_REQUEST
       (\<lambda>s. serialize_find_node_request (e_json env)
          \<lparr>fnq_target = ls_target (lo_session (n_lookups s L)), fnq_sender = self_peer env s\<rparr>)
       (LookupTimeout L nid) (PendingLookup L nid)"

primrec lookup_step :: "nat \<Rightarrow> env \<Rightarrow> (PeerInfo list \<Rightarrow> LookupMetrics \<Rightarrow> unit node_op) \<Rightarrow> nat \<Rightarrow> unit node_op" where
  "lookup_step 0 env finish L = ret ()"
| "lookup_step (Suc n) env finish L =
     bindE (gets (\<lambda>s. (lo_session (n_lookups s L), config_k s))) (\<lambda>(ls, k).
     if LookupSession_is_complete ls then finish (LookupSession_get_closest k ls) (metrics ls)
     else case LookupSession_pick_next_queries ls of (queries, ls1) \<Rightarrow>
       thenE (set_lookup L ls1)
       (if queries = []
        then whenE (LookupSession_in_flight_count ls1 = 0) (finish (LookupSession_get_closest k ls1) (metrics ls1))
        else forE queries (\<lambda>peer.
          bindE (connection_for env peer) (\<lambda>conn. case conn of
            None \<Rightarrow> thenE (lookup_failure env L (peer_node_id peer)) (lookup_step n env finish L)
          | Some cid \<Rightarrow> query_find_node env L (peer_node_id peer) cid))))"

definition lookup_fuel :: "nat \<Rightarrow> Node \<Rightarrow> nat" where
  "lookup_fuel L s = Suc (length (unqueried (shortlist (lo_session (n_lookups s L)))))"

definition lookup_run :: "env \<Rightarrow> (PeerInfo list \<Rightarrow> LookupMetrics \<Rightarrow> unit node_op) \<Rightarrow> nat \<Rightarrow> unit node_op" where
  "lookup_run env finish L = bindE (gets (lookup_fuel L)) (\<lambda>n. lookup_step n env finish L)"

definition new_session :: "env \<Rightarrow> NodeID \<Rightarrow> LookupSession node_op" where
  "new_session env target =
     bindE (ask (e_clock env)) (\<lambda>now.
     bindE (generate_request_id env) (\<lambda>rid.
     gets (\<lambda>s. LookupSession_new target (Node_node_id env s) (to_size_t (dht_alpha (cfg_dht (n_config s)))) (config_k s) now rid)))"

text \<open>The factor is an \<^verbatim>\<open>int\<close>: the product has 32 bits before it is cast.\<close>

definition initial_candidates :: "NodeID \<Rightarrow> Node \<Rightarrow> PeerInfo list" where
  "initial_candidates target s =
     RoutingTable_find_closest target (to_size_t (to_int32 (dht_alpha (cfg_dht (n_config s)) * 2))) (n_routing s)"

definition Node_async_lookup ::
  "env \<Rightarrow> lookup_callback \<Rightarrow> (PeerInfo list \<Rightarrow> LookupMetrics \<Rightarrow> unit node_op) \<Rightarrow> NodeID \<Rightarrow> unit node_op" where
  "Node_async_lookup env cb finish target =
     bindE (new_session env target) (\<lambda>ls.
     bindE (gets (\<lambda>s. (n_lookup_count s, LookupSession_add_candidates (initial_candidates target s) ls))) (\<lambda>(L, ls1).
     thenE (modify (\<lambda>s. s\<lparr>n_lookups := (n_lookups s)(L := \<lparr>lo_session = ls1, lo_callback = cb\<rparr>), n_lookup_count := L + 1\<rparr>))
     (lookup_run env finish L)))"

section \<open>Publishing\<close>

definition store_put :: "env \<Rightarrow> NodeID \<Rightarrow> NodeRecord \<Rightarrow> u64 \<Rightarrow> RecordValidationError node_op" where
  "store_put env key r now =
     bindE (gets (\<lambda>s. RecordStore_put (e_sodium env) key r now (n_store s))) (\<lambda>(err, st).
     thenE (modify (\<lambda>s. s\<lparr>n_store := st\<rparr>)) (ret err))"

definition store_get :: "NodeID \<Rightarrow> u64 \<Rightarrow> NodeRecord option node_op" where
  "store_get key now =
     bindE (gets (\<lambda>s. RecordStore_get key now (n_store s))) (\<lambda>(r, st).
     thenE (modify (\<lambda>s. s\<lparr>n_store := st\<rparr>)) (ret r))"

text \<open>The loop that chooses the remote keepers among the closest nodes.\<close>

fun choose_keepers :: "NodeID \<Rightarrow> nat \<Rightarrow> PeerInfo list \<Rightarrow> PeerInfo list \<Rightarrow> PeerInfo list" where
  "choose_keepers self r [] keepers = keepers"
| "choose_keepers self r (peer # peers) keepers =
     (let keepers' = (if peer_node_id peer \<noteq> self then keepers @ [peer] else keepers)
      in if r \<le> length keepers' + 1 then keepers' else choose_keepers self r peers keepers')"

definition update_publish :: "nat \<Rightarrow> (publish_op \<Rightarrow> publish_op) \<Rightarrow> unit node_op" where
  "update_publish P f = modify (\<lambda>s. s\<lparr>n_publishes := (n_publishes s)(P := f (n_publishes s P))\<rparr>)"

text \<open>
  One keeper is settled: it could not be reached, it answered (\<open>acked\<close> tells whether with success),
  or it timed out. When it was the last one, the caller is told.
\<close>

definition keeper_settled :: "(bool \<Rightarrow> nat \<Rightarrow> unit node_op) \<Rightarrow> nat \<Rightarrow> bool \<Rightarrow> unit node_op" where
  "keeper_settled finish P acked =
     thenE (update_publish P (\<lambda>p. p\<lparr>po_acks := (if acked then po_acks p + 1 else po_acks p), po_remaining := po_remaining p - 1\<rparr>))
     (bindE (gets (\<lambda>s. n_publishes s P)) (\<lambda>p.
      whenE (po_remaining p = 0 \<and> \<not> po_finished p)
        (thenE (update_publish P (\<lambda>p. p\<lparr>po_finished := True\<rparr>))
        (finish (po_quorum p \<le> po_acks p) (po_acks p)))))"

definition query_store :: "env \<Rightarrow> nat \<Rightarrow> NodeID \<Rightarrow> NodeRecord \<Rightarrow> NodeID \<Rightarrow> conn_ref \<Rightarrow> unit node_op" where
  "query_store env P key r nid cid =
     send_request env cid STORE_REQUEST
       (\<lambda>s. serialize_store_request (e_json env) \<lparr>sq_key = key, sq_record = r, sq_sender = self_peer env s\<rparr>)
       (StoreTimeout P nid) (PendingStore P nid)"

definition store_at_keepers ::
  "env \<Rightarrow> publish_callback \<Rightarrow> (bool \<Rightarrow> nat \<Rightarrow> unit node_op) \<Rightarrow> NodeID \<Rightarrow> NodeRecord \<Rightarrow> PeerInfo list \<Rightarrow> unit node_op" where
  "store_at_keepers env cb finish key r closest =
     bindE (gets (\<lambda>s. (choose_keepers (Node_node_id env s) (to_size_t (replication (cfg_dht (n_config s)))) closest [],
                       n_publish_count s))) (\<lambda>(keepers, P).
     let quorum = min 2 (length keepers + 1) in
     if keepers = [] then finish (quorum \<le> 1) 1
     else
       thenE (modify (\<lambda>s. s\<lparr>n_publishes := (n_publishes s)(P := \<lparr>po_acks = 1, po_remaining = of_nat (length keepers),
                po_finished = False, po_quorum = quorum, po_callback = cb\<rparr>), n_publish_count := P + 1\<rparr>))
       (forE keepers (\<lambda>target.
          bindE (connection_for env target) (\<lambda>conn. case conn of
            None \<Rightarrow> keeper_settled finish P False
          | Some cid \<Rightarrow> query_store env P key r (peer_node_id target) cid))))"

definition publish_with ::
  "env \<Rightarrow> publish_callback \<Rightarrow> (bool \<Rightarrow> nat \<Rightarrow> unit node_op) \<Rightarrow> NodeID \<Rightarrow> NodeRecord \<Rightarrow> unit node_op" where
  "publish_with env cb finish key r =
     bindE (ask (e_now env)) (\<lambda>now.
     if NodeRecord_validate (e_sodium env) now r \<noteq> ValidationNone then finish False 0
     else
       thenE (store_put env key r now)
       (Node_async_lookup env (StoreAtKeepers key r cb) (\<lambda>closest m. store_at_keepers env cb finish key r closest) key))"

text \<open>
  The callbacks of publications: the application's, that of the second publication of
  \<^verbatim>\<open>publish_self_record\<close> (under the alias key), and that of its first, which starts the second.
\<close>

fun leaf_done :: "publish_leaf \<Rightarrow> bool \<Rightarrow> nat \<Rightarrow> unit node_op" where
  "leaf_done NotifyPublish ok acks = notify (PublishDone ok acks)"
| "leaf_done (AliasPublished acks1) ok acks = notify (PublishDone ok (min acks1 acks))"

fun publish_done :: "env \<Rightarrow> publish_callback \<Rightarrow> bool \<Rightarrow> nat \<Rightarrow> unit node_op" where
  "publish_done env (Leaf l) ok acks = leaf_done l ok acks"
| "publish_done env (ThenAlias a r) ok acks =
     (if \<not> ok \<or> a = [] then notify (PublishDone ok acks)
      else publish_with env (Leaf (AliasPublished acks)) (leaf_done (AliasPublished acks))
             (alias_record_key (e_sodium env) a) r)"

definition Node_publish_record :: "env \<Rightarrow> publish_callback \<Rightarrow> NodeID \<Rightarrow> NodeRecord \<Rightarrow> unit node_op" where
  "Node_publish_record env cb key r = publish_with env cb (publish_done env cb) key r"

definition Node_create_self_record :: "env \<Rightarrow> string \<Rightarrow> NodeRecord node_op" where
  "Node_create_self_record env a =
     bindE (gets n_started) (\<lambda>started.
     if \<not> started then liftE (Inl (runtime_error ''Cannot create record before node start (no keypair)''))
     else
       bindE (ask (e_now env)) (\<lambda>now.
       thenE (modify (\<lambda>s. s\<lparr>n_record_seq := n_record_seq s + 1\<rparr>))
       (bindE (gets (\<lambda>s. NodeRecord_sign (e_sodium env) (n_keypair s)
          \<lparr>rec_node_id = Node_node_id env s, identity_public_key = kp_public_key (n_keypair s),
           addresses = [\<lparr>host = listen_address (cfg_node (n_config s)), port = listen_port (cfg_node (n_config s))\<rparr>],
           sequence_number = n_record_seq s, issued_at = now,
           expires_at = now + word_of_int (record_ttl_sec (cfg_dht (n_config s))),
           rec_alias = a, rec_signature = zero_barray\<rparr>)) (\<lambda>signed.
        bindE (liftE signed) (\<lambda>r.
        thenE (whenE (a \<noteq> []) (modify (\<lambda>s. s\<lparr>n_alias := a\<rparr>))) (ret r))))))"

definition Node_publish_self_record :: "env \<Rightarrow> string \<Rightarrow> unit node_op" where
  "Node_publish_self_record env a =
     bindE (Node_create_self_record env a) (\<lambda>r.
     Node_publish_record env (ThenAlias a r) (node_record_key (e_sodium env) (rec_node_id r)) r)"

definition lookup_done :: "env \<Rightarrow> lookup_callback \<Rightarrow> PeerInfo list \<Rightarrow> LookupMetrics \<Rightarrow> unit node_op" where
  "lookup_done env cb closest m =
     (case cb of
        NotifyLookup \<Rightarrow> notify (LookupDone closest m)
      | StoreAtKeepers key r pcb \<Rightarrow> store_at_keepers env pcb (publish_done env pcb) key r closest)"

text \<open>\<^verbatim>\<open>step_func\<close> called from a response or a timer.\<close>

definition lookup_resume :: "env \<Rightarrow> nat \<Rightarrow> unit node_op" where
  "lookup_resume env L = bindE (gets (\<lambda>s. lo_callback (n_lookups s L))) (\<lambda>cb. lookup_run env (lookup_done env cb) L)"

definition on_lookup_reply :: "env \<Rightarrow> nat \<Rightarrow> NodeID \<Rightarrow> timer_ref \<Rightarrow> Frame \<Rightarrow> unit node_op" where
  "on_lookup_reply env L nid t f =
     thenE (cancel_timer t)
     (thenE (case deserialize_find_node_response (e_json env) (frame_payload f) of
               Some resp \<Rightarrow> thenE (lookup_response env L nid (fnr_closest_nodes resp))
                 (forE (fnr_closest_nodes resp) (Node_add_contact env))
             | None \<Rightarrow> lookup_failure env L nid)
      (lookup_resume env L))"

definition on_lookup_timeout :: "env \<Rightarrow> nat \<Rightarrow> NodeID \<Rightarrow> RequestID \<Rightarrow> unit node_op" where
  "on_lookup_timeout env L nid rid =
     thenE (modify (\<lambda>s. s\<lparr>n_pending_requests := (n_pending_requests s)(rid := None)\<rparr>))
     (thenE (lookup_failure env L nid) (lookup_resume env L))"

definition publish_resume :: "env \<Rightarrow> nat \<Rightarrow> bool \<Rightarrow> unit node_op" where
  "publish_resume env P acked =
     bindE (gets (\<lambda>s. po_callback (n_publishes s P))) (\<lambda>cb. keeper_settled (publish_done env cb) P acked)"

definition on_store_reply :: "env \<Rightarrow> nat \<Rightarrow> timer_ref \<Rightarrow> Frame \<Rightarrow> unit node_op" where
  "on_store_reply env P t f =
     thenE (cancel_timer t)
     (publish_resume env P
        (case deserialize_store_response (e_json env) (frame_payload f) of Some resp \<Rightarrow> sr_success resp | None \<Rightarrow> False))"

definition on_store_timeout :: "env \<Rightarrow> nat \<Rightarrow> RequestID \<Rightarrow> unit node_op" where
  "on_store_timeout env P rid =
     thenE (modify (\<lambda>s. s\<lparr>n_pending_requests := (n_pending_requests s)(rid := None)\<rparr>)) (publish_resume env P False)"

section \<open>Value searches\<close>

definition update_find :: "nat \<Rightarrow> (find_op \<Rightarrow> find_op) \<Rightarrow> unit node_op" where
  "update_find V f = modify (\<lambda>s. s\<lparr>n_finds := (n_finds s)(V := f (n_finds s V))\<rparr>)"

definition find_failure :: "env \<Rightarrow> nat \<Rightarrow> NodeID \<Rightarrow> unit node_op" where
  "find_failure env V nid =
     bindE (ask (e_clock env)) (\<lambda>now.
     update_find V (\<lambda>w. w\<lparr>fo_session := LookupSession_on_failure now nid (fo_session w)\<rparr>))"

definition find_response :: "env \<Rightarrow> nat \<Rightarrow> NodeID \<Rightarrow> PeerInfo list \<Rightarrow> unit node_op" where
  "find_response env V nid peers =
     bindE (ask (e_clock env)) (\<lambda>now.
     update_find V (\<lambda>w. w\<lparr>fo_session := LookupSession_on_response now nid peers (fo_session w)\<rparr>))"

definition query_find_value :: "env \<Rightarrow> nat \<Rightarrow> NodeID \<Rightarrow> conn_ref \<Rightarrow> unit node_op" where
  "query_find_value env V nid cid =
     send_request env cid FIND_VALUE_REQUEST
       (\<lambda>s. serialize_find_value_request (e_json env) \<lparr>fvq_key = fo_key (n_finds s V), fvq_sender = self_peer env s\<rparr>)
       (FindTimeout V nid) (PendingFind V nid)"

definition find_finish :: "nat \<Rightarrow> NodeRecord option \<Rightarrow> unit node_op" where
  "find_finish V r =
     thenE (update_find V (\<lambda>w. w\<lparr>fo_finished := True\<rparr>))
     (bindE (gets (\<lambda>s. metrics (fo_session (n_finds s V)))) (\<lambda>m. notify (FindDone r m)))"

primrec find_step :: "nat \<Rightarrow> env \<Rightarrow> nat \<Rightarrow> unit node_op" where
  "find_step 0 env V = ret ()"
| "find_step (Suc n) env V =
     bindE (gets (\<lambda>s. n_finds s V)) (\<lambda>fo.
     if fo_finished fo then ret ()
     else case fo_found fo of
       Some r \<Rightarrow>
         thenE (update_find V (\<lambda>w. w\<lparr>fo_session := (fo_session w)\<lparr>metrics := (metrics (fo_session w))\<lparr>success := True\<rparr>\<rparr>\<rparr>))
         (find_finish V (Some r))
     | None \<Rightarrow>
         if LookupSession_is_complete (fo_session fo) then find_finish V None
         else case LookupSession_pick_next_queries (fo_session fo) of (queries, ls1) \<Rightarrow>
           thenE (update_find V (\<lambda>w. w\<lparr>fo_session := ls1\<rparr>))
           (if queries = []
            then whenE (LookupSession_in_flight_count ls1 = 0 \<and> \<not> fo_finished fo) (find_finish V None)
            else forE queries (\<lambda>peer.
              bindE (connection_for env peer) (\<lambda>conn. case conn of
                None \<Rightarrow> thenE (find_failure env V (peer_node_id peer)) (find_step n env V)
              | Some cid \<Rightarrow> query_find_value env V (peer_node_id peer) cid))))"

definition find_run :: "env \<Rightarrow> nat \<Rightarrow> unit node_op" where
  "find_run env V =
     bindE (gets (\<lambda>s. Suc (length (unqueried (shortlist (fo_session (n_finds s V))))))) (\<lambda>n. find_step n env V)"

definition Node_async_find_value :: "env \<Rightarrow> NodeID \<Rightarrow> unit node_op" where
  "Node_async_find_value env key =
     bindE (ask (e_now env)) (\<lambda>now.
     bindE (store_get key now) (\<lambda>local_rec. case local_rec of
       Some r \<Rightarrow> notify (FindDone (Some r) \<lparr>lookup_id = [], metrics_target = key, total_rpcs = 0, iterations = 0,
                   queried_nodes = [], duration_ms = 0, success = True\<rparr>)
     | None \<Rightarrow>
         bindE (new_session env key) (\<lambda>ls.
         bindE (gets (\<lambda>s. (n_find_count s, LookupSession_add_candidates (initial_candidates key s) ls))) (\<lambda>(V, ls1).
         thenE (modify (\<lambda>s. s\<lparr>n_finds := (n_finds s)(V := \<lparr>fo_session = ls1, fo_key = key, fo_found = None, fo_finished = False\<rparr>),
                               n_find_count := V + 1\<rparr>))
         (find_run env V)))))"

definition Node_async_resolve_alias :: "env \<Rightarrow> string \<Rightarrow> unit node_op" where
  "Node_async_resolve_alias env a = Node_async_find_value env (alias_record_key (e_sodium env) a)"

definition on_find_reply :: "env \<Rightarrow> nat \<Rightarrow> NodeID \<Rightarrow> timer_ref \<Rightarrow> Frame \<Rightarrow> unit node_op" where
  "on_find_reply env V nid t f =
     thenE (cancel_timer t)
     (case deserialize_find_value_response (e_json env) (frame_payload f) FindValueResponse_default of
        Some resp \<Rightarrow>
          (case (fvr_has_value resp, fvr_record resp) of
             (True, Some r) \<Rightarrow>
               bindE (ask (e_now env)) (\<lambda>now.
               if NodeRecord_validate (e_sodium env) now r = ValidationNone
               then bindE (gets (\<lambda>s. fo_key (n_finds s V))) (\<lambda>key.
                 thenE (store_put env key r now)
                 (thenE (update_find V (\<lambda>w. w\<lparr>fo_found := Some r\<rparr>)) (find_run env V)))
               else thenE (find_failure env V nid) (find_run env V))
           | _ \<Rightarrow>
               thenE (find_response env V nid (fvr_closest_nodes resp))
               (thenE (forE (fvr_closest_nodes resp) (Node_add_contact env)) (find_run env V)))
      | None \<Rightarrow> thenE (find_failure env V nid) (find_run env V))"

definition on_find_timeout :: "env \<Rightarrow> nat \<Rightarrow> NodeID \<Rightarrow> RequestID \<Rightarrow> unit node_op" where
  "on_find_timeout env V nid rid =
     thenE (modify (\<lambda>s. s\<lparr>n_pending_requests := (n_pending_requests s)(rid := None)\<rparr>))
     (thenE (find_failure env V nid) (find_run env V))"

section \<open>Handshakes\<close>

definition new_secure_session :: "session_ref node_op" where
  "new_secure_session =
     bindE (gets n_session_count) (\<lambda>r.
     thenE (modify (\<lambda>s. s\<lparr>n_sessions := (n_sessions s)(r := SecureSession_new), n_session_count := r + 1\<rparr>)) (ret r))"

text \<open>A method of a session object: its result, or its exception, and the object it leaves.\<close>

definition session_call :: "session_ref \<Rightarrow> (SecureSession \<Rightarrow> 'a throwing \<times> SecureSession) \<Rightarrow> 'a node_op" where
  "session_call r f =
     bindE (gets (\<lambda>s. f (n_sessions s r))) (\<lambda>(res, ses).
     thenE (modify (\<lambda>s. s\<lparr>n_sessions := (n_sessions s)(r := ses)\<rparr>)) (liftE res))"

definition Node_initiate_handshake :: "env \<Rightarrow> conn_ref \<Rightarrow> unit node_op" where
  "Node_initiate_handshake env cid =
     bindE (gets (\<lambda>s. sock_open (n_conns s cid))) (\<lambda>is_open.
     if \<not> is_open then notify (HandshakeDone False)
     else
       bindE new_secure_session (\<lambda>r.
       thenE (update_conn cid (set_secure_session r))
       (bindE (gets n_keypair) (\<lambda>kp.
        bindE (ask (e_rand env)) (\<lambda>eph.
        bindE (ask (e_rand env)) (\<lambda>nonce.
        bindE (session_call r (initiate_handshake (e_sodium env) eph nonce kp)) (\<lambda>init.
        send_request env cid HANDSHAKE_INIT (\<lambda>s. serialize_handshake_init (e_json env) init)
          HandshakeTimeout (PendingHandshake cid r))))))))"

definition on_handshake_reply :: "env \<Rightarrow> conn_ref \<Rightarrow> session_ref \<Rightarrow> timer_ref \<Rightarrow> Frame \<Rightarrow> unit node_op" where
  "on_handshake_reply env cid r t f =
     thenE (cancel_timer t)
     (if frame_type f \<noteq> HANDSHAKE_RESPONSE then notify (HandshakeDone False)
      else case deserialize_handshake_response (e_json env) (frame_payload f) of
        None \<Rightarrow> notify (HandshakeDone False)
      | Some resp \<Rightarrow>
          bindE (gets n_keypair) (\<lambda>kp.
          bindE (session_call r (process_handshake_response (e_sodium env) resp kp)) (\<lambda>cmp. case cmp of
            None \<Rightarrow> notify (HandshakeDone False)
          | Some cmp \<Rightarrow>
              bindE (gets (\<lambda>s. ss_peer_node_id (n_sessions s r))) (\<lambda>peer.
              thenE (update_conn cid (set_peer_id peer))
              (bindE (generate_request_id env) (\<lambda>rid.
               thenE (conn_send env cid ((Frame_new HANDSHAKE_COMPLETE rid)\<lparr>frame_payload :=
                        serialize_handshake_complete (e_json env) cmp\<rparr>))
               (notify (HandshakeDone True))))))))"

definition on_handshake_timeout :: "RequestID \<Rightarrow> unit node_op" where
  "on_handshake_timeout rid =
     thenE (modify (\<lambda>s. s\<lparr>n_pending_requests := (n_pending_requests s)(rid := None)\<rparr>)) (notify (HandshakeDone False))"

end
