(* ===== verification/Node_Handlers.thy ===== *)
theory Node_Handlers
  imports Node_Async
begin

text \<open>
  The handlers of \<^verbatim>\<open>p2p::Node\<close> (\<^verbatim>\<open>src/node.cpp\<close>): \<^verbatim>\<open>on_frame\<close> with one definition per message type, the
  timers, \<^verbatim>\<open>start\<close> and \<^verbatim>\<open>stop\<close>. \<open>Node_handle\<close> is one turn: everything the surroundings can do to a started
  node (bytes, write completions and resets on connections, timers, completed accepts), every call of a
  public operation that changes it, and every change of its table and of its store through the references
  that \<^verbatim>\<open>routing_table()\<close> and \<^verbatim>\<open>record_store()\<close> hand out. On a stopped node no completion and no timer
  runs any more, since \<^verbatim>\<open>io_\<close> is stopped, but calls still do their work. A node that hangs in the replay
  check does not return from that event: the flag \<open>n_hangs\<close> records it, and nothing that would come
  after it is modelled. Connections are only used by the node: what a caller does with a pointer from
  \<^verbatim>\<open>get_connection_to\<close>, other than passing it back, is not modelled. The JSON exceptions that PING and PONG
  catch are \<open>runtime_error\<close>; their text is not used.
\<close>

section \<open>PING and PONG\<close>

datatype identity_claim = MissingFields | MalformedId | BadKeySize | KeyMismatch | VerifiedPeer NodeID

definition json_result :: "'a option \<Rightarrow> 'a throwing" where
  "json_result x = (case x of None \<Rightarrow> Inl (runtime_error ''json'') | Some y \<Rightarrow> Inr y)"

definition read_identity :: "env \<Rightarrow> json \<Rightarrow> identity_claim throwing" where
  "read_identity env j =
     (let jl = e_json env in
      if \<not> j_contains jl j ''node_id'' \<or> \<not> j_contains jl j ''public_key'' then Inr MissingFields
      else
        throw_bind (json_result (get_string jl (j_at jl j ''node_id''))) (\<lambda>hex.
        case parse_NodeID hex of
          None \<Rightarrow> Inr MalformedId
        | Some peer_id \<Rightarrow>
            throw_bind (json_result (get_binary jl (j_at jl j ''public_key''))) (\<lambda>pk.
            if length pk \<noteq> 32 then Inr BadKeySize
            else if \<not> verify_node_id (e_sodium env) peer_id (barray_of pk) then Inr KeyMismatch
            else Inr (VerifiedPeer peer_id))))"

text \<open>A verified peer becomes a contact, at the address of the connection and its listening port.\<close>

definition accept_peer :: "env \<Rightarrow> conn_ref \<Rightarrow> json \<Rightarrow> NodeID \<Rightarrow> unit node_op" where
  "accept_peer env cid j peer_id =
     thenE (update_conn cid (set_peer_id peer_id))
     (bindE (gets (\<lambda>s. n_conns s cid)) (\<lambda>c.
      bindE (liftE (json_result (value_u16 (e_json env) j ''listen_port'' (remote_port c)))) (\<lambda>peer_port.
      Node_add_contact env (peer_of peer_id (remote_ip c) peer_port))))"

definition on_ping :: "env \<Rightarrow> conn_ref \<Rightarrow> Frame \<Rightarrow> unit node_op" where
  "on_ping env cid f =
     (if frame_payload f = [] then conn_close ''Empty PING payload'' cid
      else tryE
        (bindE (liftE (json_result (from_cbor (e_json env) (frame_payload f)))) (\<lambda>j.
         bindE (liftE (read_identity env j)) (\<lambda>claim. case claim of
           MissingFields \<Rightarrow> conn_close ''Missing identity in PING'' cid
         | MalformedId \<Rightarrow> conn_close ''Malformed NodeID'' cid
         | BadKeySize \<Rightarrow> conn_close ''Invalid public key size'' cid
         | KeyMismatch \<Rightarrow> conn_close ''NodeID mismatch with public key'' cid
         | VerifiedPeer peer_id \<Rightarrow>
             thenE (accept_peer env cid j peer_id)
             (bindE (gets (\<lambda>s. (Frame_make_pong (frame_request_id f))\<lparr>frame_version := wire_version s,
                frame_payload := to_cbor (e_json env) (identity_json env s)\<rparr>)) (conn_send env cid)))))
        (conn_close ''Invalid CBOR in PING'' cid))"

definition on_pong :: "env \<Rightarrow> conn_ref \<Rightarrow> Frame \<Rightarrow> unit node_op" where
  "on_pong env cid f =
     bindE (gets (\<lambda>s. n_pending_pings s (frame_request_id f))) (\<lambda>pending. case pending of
       None \<Rightarrow> ret ()
     | Some p \<Rightarrow>
         thenE (modify (\<lambda>s. s\<lparr>n_pending_pings := (n_pending_pings s)(frame_request_id f := None)\<rparr>))
         (if frame_payload f = [] then run_ping_callback env p False
          else tryE
            (bindE (liftE (json_result (from_cbor (e_json env) (frame_payload f)))) (\<lambda>j.
             bindE (liftE (read_identity env j)) (\<lambda>claim. case claim of
               VerifiedPeer peer_id \<Rightarrow>
                 if pp_expected_peer_id p \<noteq> None \<and> pp_expected_peer_id p \<noteq> Some peer_id
                 then thenE (conn_close ''Unexpected responder NodeID'' cid) (run_ping_callback env p False)
                 else thenE (accept_peer env cid j peer_id) (run_ping_callback env p True)
             | KeyMismatch \<Rightarrow>
                 thenE (conn_close ''NodeID mismatch with public key'' cid) (run_ping_callback env p False)
             | _ \<Rightarrow> run_ping_callback env p False)))
            (run_ping_callback env p False)))"

section \<open>DHT requests\<close>

definition respond :: "env \<Rightarrow> conn_ref \<Rightarrow> Frame \<Rightarrow> MessageType \<Rightarrow> bytes \<Rightarrow> unit node_op" where
  "respond env cid f mtype payload =
     (let r = Frame_new mtype (frame_request_id f)
      in conn_send env cid (r\<lparr>frame_flags := flags_or (frame_flags r) IS_RESPONSE, frame_payload := payload\<rparr>))"

definition on_find_node_request :: "env \<Rightarrow> conn_ref \<Rightarrow> Frame \<Rightarrow> unit node_op" where
  "on_find_node_request env cid f =
     (case deserialize_find_node_request (e_json env) (frame_payload f) of
        None \<Rightarrow> ret ()
      | Some req \<Rightarrow>
          thenE (Node_add_contact env (fnq_sender req))
          (bindE (gets (\<lambda>s. RoutingTable_find_closest (fnq_target req) (config_k s) (n_routing s))) (\<lambda>closest.
           respond env cid f FIND_NODE_RESPONSE (serialize_find_node_response (e_json env) \<lparr>fnr_closest_nodes = closest\<rparr>))))"

definition on_find_node_response :: "env \<Rightarrow> Frame \<Rightarrow> unit node_op" where
  "on_find_node_response env f =
     (case deserialize_find_node_response (e_json env) (frame_payload f) of
        None \<Rightarrow> ret ()
      | Some resp \<Rightarrow> forE (fnr_closest_nodes resp) (Node_add_contact env))"

definition on_store_request :: "env \<Rightarrow> conn_ref \<Rightarrow> Frame \<Rightarrow> unit node_op" where
  "on_store_request env cid f =
     (case deserialize_store_request (e_json env) (frame_payload f) of
        None \<Rightarrow> ret ()
      | Some req \<Rightarrow>
          thenE (Node_add_contact env (sq_sender req))
          (bindE (ask (e_now env)) (\<lambda>now.
           bindE (store_put env (sq_key req) (sq_record req) now) (\<lambda>err.
           let ok = (err = ValidationNone) in
           respond env cid f STORE_RESPONSE (serialize_store_response (e_json env)
             \<lparr>sr_key = sq_key req, sr_success = ok,
              sr_message = (if ok then ''Stored successfully'' else record_validation_error_name err)\<rparr>)))))"

definition on_find_value_request :: "env \<Rightarrow> conn_ref \<Rightarrow> Frame \<Rightarrow> unit node_op" where
  "on_find_value_request env cid f =
     (case deserialize_find_value_request (e_json env) (frame_payload f) of
        None \<Rightarrow> ret ()
      | Some req \<Rightarrow>
          thenE (Node_add_contact env (fvq_sender req))
          (bindE (ask (e_now env)) (\<lambda>now.
           bindE (store_get (fvq_key req) now) (\<lambda>rec_opt.
           bindE (gets (\<lambda>s. case rec_opt of
                Some r \<Rightarrow> FindValueResponse_default\<lparr>fvr_key := fvq_key req, fvr_has_value := True, fvr_record := Some r\<rparr>
              | None \<Rightarrow> FindValueResponse_default\<lparr>fvr_key := fvq_key req, fvr_has_value := False,
                   fvr_closest_nodes := RoutingTable_find_closest (fvq_key req) (config_k s) (n_routing s)\<rparr>)) (\<lambda>resp.
           respond env cid f FIND_VALUE_RESPONSE (serialize_find_value_response (e_json env) resp))))))"

section \<open>Handshake messages\<close>

definition on_handshake_init :: "env \<Rightarrow> conn_ref \<Rightarrow> Frame \<Rightarrow> unit node_op" where
  "on_handshake_init env cid f =
     (case deserialize_handshake_init (e_json env) (frame_payload f) of
        None \<Rightarrow> conn_close ''Malformed HANDSHAKE_INIT'' cid
      | Some init \<Rightarrow>
          bindE new_secure_session (\<lambda>r.
          bindE (gets n_keypair) (\<lambda>kp.
          bindE (ask (e_rand env)) (\<lambda>eph.
          bindE (ask (e_rand env)) (\<lambda>nonce.
          bindE (ask (e_rid env)) (\<lambda>sid.
          bindE (session_call r (process_handshake_init (e_sodium env) eph nonce sid init kp)) (\<lambda>resp. case resp of
            Some resp \<Rightarrow>
              thenE (update_conn cid (set_secure_session r))
              (respond env cid f HANDSHAKE_RESPONSE (serialize_handshake_response (e_json env) resp))
          | None \<Rightarrow> conn_close ''HANDSHAKE_INIT validation failed'' cid)))))))"

definition on_handshake_complete :: "env \<Rightarrow> conn_ref \<Rightarrow> Frame \<Rightarrow> unit node_op" where
  "on_handshake_complete env cid f =
     (case deserialize_handshake_complete (e_json env) (frame_payload f) of
        None \<Rightarrow> conn_close ''Malformed HANDSHAKE_COMPLETE'' cid
      | Some cmp \<Rightarrow>
          bindE (gets (\<lambda>s. tc_session (n_conns s cid))) (\<lambda>session. case session of
            None \<Rightarrow> conn_close ''HANDSHAKE_COMPLETE validation failed'' cid
          | Some r \<Rightarrow>
              bindE (session_call r (\<lambda>ses. case process_handshake_complete (e_sodium env) cmp ses of (ok, ses') \<Rightarrow> (Inr ok, ses'))) (\<lambda>ok.
              if ok then bindE (gets (\<lambda>s. ss_peer_node_id (n_sessions s r))) (\<lambda>peer. update_conn cid (set_peer_id peer))
              else conn_close ''HANDSHAKE_COMPLETE validation failed'' cid)))"

section \<open>Frames\<close>

definition run_pending :: "env \<Rightarrow> pending_request \<Rightarrow> Frame \<Rightarrow> unit node_op" where
  "run_pending env p f =
     (case p of
        PendingLookup L nid t \<Rightarrow> on_lookup_reply env L nid t f
      | PendingStore P nid t \<Rightarrow> on_store_reply env P t f
      | PendingFind V nid t \<Rightarrow> on_find_reply env V nid t f
      | PendingHandshake cid r t \<Rightarrow> on_handshake_reply env cid r t f)"

text \<open>The correlation of a response with the request of the same id, which is forgotten.\<close>

definition take_pending :: "Frame \<Rightarrow> pending_request option node_op" where
  "take_pending f =
     (if flag_set (frame_flags f) IS_RESPONSE
      then bindE (gets (\<lambda>s. n_pending_requests s (frame_request_id f))) (\<lambda>p.
        thenE (modify (\<lambda>s. s\<lparr>n_pending_requests := (n_pending_requests s)(frame_request_id f := None)\<rparr>)) (ret p))
      else ret None)"

definition dispatch_frame :: "env \<Rightarrow> conn_ref \<Rightarrow> Frame \<Rightarrow> unit node_op" where
  "dispatch_frame env cid f =
     (let t = frame_type f in
      if t = PING then on_ping env cid f
      else if t = PONG then on_pong env cid f
      else if t = FIND_NODE_REQUEST then on_find_node_request env cid f
      else if t = FIND_NODE_RESPONSE then on_find_node_response env f
      else if t = STORE_REQUEST then on_store_request env cid f
      else if t = STORE_RESPONSE then ret ()
      else if t = FIND_VALUE_REQUEST then on_find_value_request env cid f
      else if t = FIND_VALUE_RESPONSE then ret ()
      else if t = HANDSHAKE_INIT then on_handshake_init env cid f
      else if t = HANDSHAKE_RESPONSE then ret ()
      else if t = HANDSHAKE_COMPLETE then on_handshake_complete env cid f
      else ret ())"

definition Node_on_frame :: "env \<Rightarrow> conn_ref \<Rightarrow> Frame \<Rightarrow> unit node_op" where
  "Node_on_frame env cid f =
     bindE (take_pending f) (\<lambda>pending.
     thenE (dispatch_frame env cid f)
     (case pending of None \<Rightarrow> ret () | Some p \<Rightarrow> run_pending env p f))"

text \<open>
  The loop of \<^verbatim>\<open>process_incoming\<close> with \<open>Node_on_frame\<close> as frame handler. Each round takes a frame from
  the buffer, so the length of the buffer bounds the number of rounds.
\<close>

primrec conn_incoming :: "nat \<Rightarrow> env \<Rightarrow> conn_ref \<Rightarrow> unit node_op" where
  "conn_incoming 0 env cid = ret ()"
| "conn_incoming (Suc n) env cid =
     bindE (gets (\<lambda>s. process_incoming_round (e_sodium env) (n_sessions s, n_conns s cid))) (\<lambda>(i, ss, c).
     thenE (modify (\<lambda>s. s\<lparr>n_sessions := ss, n_conns := (n_conns s)(cid := c)\<rparr>))
     (case i of
        Deliver f \<Rightarrow> thenE (Node_on_frame env cid f) (conn_incoming n env cid)
      | Need_more \<Rightarrow> ret ()
      | Dropped d \<Rightarrow> whenE (d \<noteq> None) (Node_on_disconnect cid)
      | Ignored \<Rightarrow> conn_incoming n env cid
      | Thrown e \<Rightarrow> liftE (Inl e)
      | Hangs \<Rightarrow> modify (\<lambda>s. s\<lparr>n_hangs := True\<rparr>)))"

definition conn_read :: "env \<Rightarrow> conn_ref \<Rightarrow> read_result \<Rightarrow> unit node_op" where
  "conn_read env cid r =
     bindE (gets (\<lambda>s. on_read r (n_conns s cid))) (\<lambda>(d, go, c).
     thenE (update_conn cid (\<lambda>_. c))
     (thenE (whenE (d \<noteq> None) (Node_on_disconnect cid))
      (whenE go (bindE (gets (\<lambda>s. Suc (length (fp_buffer (tc_parser (n_conns s cid)))))) (\<lambda>n. conn_incoming n env cid)))))"

definition conn_written :: "conn_ref \<Rightarrow> string option \<Rightarrow> unit node_op" where
  "conn_written cid ec =
     bindE (gets (\<lambda>s. on_written ec (n_conns s cid))) (\<lambda>(d, c).
     thenE (update_conn cid (\<lambda>_. c)) (whenE (d \<noteq> None) (Node_on_disconnect cid)))"

definition conn_io_timer :: "conn_ref \<Rightarrow> unit node_op" where
  "conn_io_timer cid =
     bindE (gets (\<lambda>s. on_io_timer (n_conns s cid))) (\<lambda>(d, c).
     thenE (update_conn cid (\<lambda>_. c)) (whenE (d \<noteq> None) (Node_on_disconnect cid)))"

text \<open>The completion of \<^verbatim>\<open>async_accept\<close>: the accept handler is called, then the listener waits again.\<close>

definition update_listener :: "(TcpListener \<Rightarrow> TcpListener) \<Rightarrow> unit node_op" where
  "update_listener f = modify (\<lambda>s. s\<lparr>n_listener := map_option f (n_listener s)\<rparr>)"

definition accept_completed :: "accept_result \<Rightarrow> unit node_op" where
  "accept_completed r =
     bindE (gets n_listener) (\<lambda>lo. case lo of
       None \<Rightarrow> ret ()
     | Some l \<Rightarrow> whenE (tl_accepting l)
         (case on_accepted r l of (ep, l1) \<Rightarrow>
            thenE (update_listener (\<lambda>_. l1))
            (case ep of None \<Rightarrow> ret () | Some ep \<Rightarrow> thenE (Node_on_accept ep) (update_listener do_accept))))"

section \<open>Timers\<close>

definition Node_schedule_purge :: "unit node_op" where
  "Node_schedule_purge = bindE (new_timer PurgeTick) (\<lambda>t. modify (\<lambda>s. s\<lparr>n_purge_timer := Some t\<rparr>))"

definition Node_schedule_republish :: "unit node_op" where
  "Node_schedule_republish = bindE (new_timer RepublishTick) (\<lambda>t. modify (\<lambda>s. s\<lparr>n_republish_timer := Some t\<rparr>))"

definition purge_tick :: "env \<Rightarrow> unit node_op" where
  "purge_tick env =
     bindE (gets n_started) (\<lambda>started. whenE started
       (bindE (ask (e_now env)) (\<lambda>now.
        thenE (modify (\<lambda>s. s\<lparr>n_store := snd (RecordStore_purge_expired now (n_store s))\<rparr>)) Node_schedule_purge)))"

definition republish_tick :: "env \<Rightarrow> unit node_op" where
  "republish_tick env =
     bindE (gets (\<lambda>s. (n_started s, n_alias s))) (\<lambda>(started, a). whenE started
       (thenE (Node_publish_self_record env a) Node_schedule_republish))"

definition run_timer :: "env \<Rightarrow> timer_action \<Rightarrow> unit node_op" where
  "run_timer env a =
     (case a of
        PingTimeout rid \<Rightarrow> ping_timeout env rid
      | LookupTimeout L nid rid \<Rightarrow> on_lookup_timeout env L nid rid
      | StoreTimeout P nid rid \<Rightarrow> on_store_timeout env P rid
      | FindTimeout V nid rid \<Rightarrow> on_find_timeout env V nid rid
      | HandshakeTimeout rid \<Rightarrow> on_handshake_timeout rid
      | BootstrapLookup \<Rightarrow>
          bindE (gets (Node_node_id env)) (Node_async_lookup env NotifyLookup (lookup_done env NotifyLookup))
      | PurgeTick \<Rightarrow> purge_tick env
      | RepublishTick \<Rightarrow> republish_tick env)"

text \<open>A timer expires: its handler is queued. Then the handler runs, also if it was cancelled in between.\<close>

definition timer_expires :: "timer_ref \<Rightarrow> unit node_op" where
  "timer_expires t = modify (\<lambda>s. case n_timers s t of Armed a \<Rightarrow> s\<lparr>n_timers := (n_timers s)(t := Queued a)\<rparr> | _ \<Rightarrow> s)"

definition timer_runs :: "env \<Rightarrow> timer_ref \<Rightarrow> unit node_op" where
  "timer_runs env t =
     bindE (gets (\<lambda>s. n_timers s t)) (\<lambda>st. case st of
       Queued a \<Rightarrow> thenE (modify (\<lambda>s. s\<lparr>n_timers := (n_timers s)(t := Idle)\<rparr>)) (run_timer env a)
     | _ \<Rightarrow> ret ())"

section \<open>Start and stop\<close>

definition Node_new :: "Config \<Rightarrow> Node" where
  "Node_new cfg =
     \<lparr>n_config = cfg, n_started = False, n_stopped = False,
      n_keypair = \<lparr>kp_public_key = zero_barray, kp_secret_key = zero_barray\<rparr>,
      n_routing = RoutingTable_new zero_barray 0, n_store = RecordStore_new, n_listener = None, n_record_seq = 0, n_alias = [],
      n_purge_timer = None, n_republish_timer = None, n_connections = [], n_pending_requests = Map.empty, n_pending_pings = Map.empty,
      n_conns = (\<lambda>_. TcpConnection_create ([], 0)), n_conn_count = 0, n_sessions = (\<lambda>_. SecureSession_new), n_session_count = 0,
      n_lookups = (\<lambda>_. \<lparr>lo_session = LookupSession_new zero_barray zero_barray 0 0 0 zero_barray, lo_callback = NotifyLookup\<rparr>),
      n_lookup_count = 0,
      n_publishes = (\<lambda>_. \<lparr>po_acks = 0, po_remaining = 0, po_finished = True, po_quorum = 0, po_callback = Leaf NotifyPublish\<rparr>),
      n_publish_count = 0,
      n_finds = (\<lambda>_. \<lparr>fo_session = LookupSession_new zero_barray zero_barray 0 0 0 zero_barray, fo_key = zero_barray,
        fo_found = None, fo_finished = True\<rparr>), n_find_count = 0,
      n_timers = (\<lambda>_. Idle), n_timer_count = 0, n_tick = 0, n_hangs = False, n_log = []\<rparr>"

definition Node_start :: "env \<Rightarrow> filesystem \<Rightarrow> unit node_op" where
  "Node_start env fs =
     bindE (gets (\<lambda>s. cfg_peers (n_config s))) (\<lambda>peers.
     if sodium_init (e_sodium env) < 0 then liftE (Inl (runtime_error ''Failed to initialize libsodium''))
     else
       bindE (ask (e_rand env)) (\<lambda>seed.
       bindE (gets (\<lambda>s. fst (Keypair_load_or_generate (e_sodium env) seed fs (data_dir (cfg_node (n_config s)))))) (\<lambda>loaded.
       bindE (liftE loaded) (\<lambda>kp.
       thenE (modify (\<lambda>s. s\<lparr>n_keypair := kp, n_started := True, n_store := RecordStore_new,
                n_routing := RoutingTable_new (Keypair_node_id (e_sodium env) kp) (config_k s)\<rparr>))
       (bindE (gets (\<lambda>s. TcpListener_create (e_bind env (listen_address (cfg_node (n_config s))) (listen_port (cfg_node (n_config s)))))) (\<lambda>bound.
        bindE (liftE bound) (\<lambda>l.
        thenE (modify (\<lambda>s. s\<lparr>n_listener := Some (TcpListener_start l)\<rparr>))
       (thenE (forE peers (\<lambda>p. bindE (liftE (parse_bootstrap_peer p)) (\<lambda>parsed. case parsed of
                 None \<Rightarrow> ret ()
               | Some (h, prt) \<Rightarrow> Node_connect_to_peer env h prt)))
        (thenE (whenE (peers \<noteq> []) (bindE (new_timer BootstrapLookup) (\<lambda>_. ret ())))
         (thenE Node_schedule_purge Node_schedule_republish))))))))))"

definition Node_stop :: "unit node_op" where
  "Node_stop =
     bindE (gets (\<lambda>s. (n_purge_timer s, n_republish_timer s, n_connections s))) (\<lambda>(tp, tr, conns).
     thenE (case tp of None \<Rightarrow> ret () | Some t \<Rightarrow> cancel_timer t)
     (thenE (case tr of None \<Rightarrow> ret () | Some t \<Rightarrow> cancel_timer t)
     (thenE (modify (\<lambda>s. s\<lparr>n_listener := map_option TcpListener_stop (n_listener s), n_connections := []\<rparr>))
     (thenE (forE conns (conn_close ''Node shutting down''))
      (modify (\<lambda>s. s\<lparr>n_stopped := True\<rparr>))))))"

section \<open>Events\<close>

text \<open>The operations of the table and of the store, called on the references the node hands out.\<close>

datatype table_use = UseAdd PeerInfo | UseRemove NodeID | UseMarkFailed NodeID | UseTouch NodeID

definition use_table :: "env \<Rightarrow> table_use \<Rightarrow> unit node_op" where
  "use_table env u =
     (case u of
        UseAdd p \<Rightarrow> bindE (ask (e_clock env)) (\<lambda>now.
          modify (\<lambda>s. s\<lparr>n_routing := snd (RoutingTable_add_or_update now p (n_routing s))\<rparr>))
      | UseRemove nid \<Rightarrow> modify (\<lambda>s. s\<lparr>n_routing := snd (RoutingTable_remove nid (n_routing s))\<rparr>)
      | UseMarkFailed nid \<Rightarrow> modify (\<lambda>s. s\<lparr>n_routing := RoutingTable_mark_failed nid (n_routing s)\<rparr>)
      | UseTouch nid \<Rightarrow> bindE (ask (e_clock env)) (\<lambda>now.
          modify (\<lambda>s. s\<lparr>n_routing := RoutingTable_touch now nid (n_routing s)\<rparr>)))"

definition use_store :: "env \<Rightarrow> StoreOp \<Rightarrow> unit node_op" where
  "use_store env op = modify (\<lambda>s. s\<lparr>n_store := fst (store_exec (e_sodium env) op (n_store s))\<rparr>)"

datatype node_event =
    Accepted accept_result
  | BytesRead conn_ref read_result
  | WriteDone conn_ref "string option"
  | Inactive conn_ref
  | TimerExpired timer_ref
  | TimerRun timer_ref
  | CallConnect string u16
  | CallPingAll
  | CallFindNode conn_ref NodeID
  | CallLookup NodeID
  | CallPublish NodeID NodeRecord
  | CallPublishSelf string
  | CallFindValue NodeID
  | CallResolveAlias string
  | CallAddContact PeerInfo
  | CallHandshake conn_ref
  | CallStop
  | CallProbe PeerInfo
  | CallCreateSelfRecord string
  | UseTable table_use
  | UseStore StoreOp
  | PeerReset conn_ref

text \<open>The events that \<^verbatim>\<open>io_.run()\<close> delivers.\<close>

fun is_completion :: "node_event \<Rightarrow> bool" where
  "is_completion (Accepted r) = True"
| "is_completion (BytesRead cid r) = True"
| "is_completion (WriteDone cid ec) = True"
| "is_completion (Inactive cid) = True"
| "is_completion (TimerExpired t) = True"
| "is_completion (TimerRun t) = True"
| "is_completion _ = False"

definition Node_handle :: "env \<Rightarrow> node_event \<Rightarrow> unit node_op" where
  "Node_handle env ev =
     bindE (gets (\<lambda>s. n_hangs s \<or> n_stopped s \<and> is_completion ev)) (\<lambda>halted.
     if halted then ret ()
     else case ev of
       Accepted r \<Rightarrow> accept_completed r
     | BytesRead cid r \<Rightarrow> conn_read env cid r
     | WriteDone cid ec \<Rightarrow> conn_written cid ec
     | Inactive cid \<Rightarrow> conn_io_timer cid
     | TimerExpired t \<Rightarrow> timer_expires t
     | TimerRun t \<Rightarrow> timer_runs env t
     | CallConnect h p \<Rightarrow> Node_connect_to_peer env h p
     | CallPingAll \<Rightarrow> Node_ping_all env
     | CallFindNode cid target \<Rightarrow> Node_send_find_node env cid target
     | CallLookup target \<Rightarrow> Node_async_lookup env NotifyLookup (lookup_done env NotifyLookup) target
     | CallPublish key r \<Rightarrow> Node_publish_record env (Leaf NotifyPublish) key r
     | CallPublishSelf a \<Rightarrow> Node_publish_self_record env a
     | CallFindValue key \<Rightarrow> Node_async_find_value env key
     | CallResolveAlias a \<Rightarrow> Node_async_resolve_alias env a
     | CallAddContact p \<Rightarrow> Node_add_contact env p
     | CallHandshake cid \<Rightarrow> Node_initiate_handshake env cid
     | CallStop \<Rightarrow> Node_stop
     | CallProbe lru \<Rightarrow> Node_probe_lru_contact env lru
     | CallCreateSelfRecord a \<Rightarrow> bindE (Node_create_self_record env a) (\<lambda>_. ret ())
     | UseTable u \<Rightarrow> use_table env u
     | UseStore op \<Rightarrow> use_store env op
     | PeerReset cid \<Rightarrow> update_conn cid on_peer_reset)"

end
