(* ===== verification/Node_Frame.thy ===== *)
theory Node_Frame
  imports Node_Handlers
begin

text \<open>
  What the operations of the node preserve, as a chain of six locales over a state predicate \<open>P\<close>, each
  with the primitive state changes that \<open>P\<close> has to survive and, as its lemmas, the operations that then
  keep \<open>P\<close>. \<open>node_conns\<close> has the changes made by connecting and sending: a connection may be replaced by
  one with the same input buffer and an intact write queue, and new connections may be added.
  \<open>node_contacts\<close> adds those made by pings and contacts: timers, and a routing table that may be replaced
  by a well-formed one. \<open>node_prims\<close> adds stored records, requests, publications and lookups
  whose candidates may be taken but not added. \<open>node_frame\<close> adds that a lookup may also gain candidates,
  and covers every frame handler; \<open>node_calm\<close> adds the timers, the listener and the other completions, and
  covers every event but a read; \<open>node_loop\<close> adds the read loop, and covers every event. The locales are interpreted several times: with the invariant of the node, with the
  termination measures of its recursive operations, and with the parts of the state that a group of
  handlers leaves alone.
\<close>

section \<open>Primitive changes\<close>

definition conn_ok :: "TcpConnection \<Rightarrow> TcpConnection \<Rightarrow> bool" where
  "conn_ok c0 c \<longleftrightarrow> tc_parser c = tc_parser c0 \<and> (writer_wf c0 \<longrightarrow> writer_wf c)"

definition found_ok :: "sodium \<Rightarrow> NodeRecord option \<Rightarrow> bool" where
  "found_ok so r \<longleftrightarrow> (case r of None \<Rightarrow> True | Some x \<Rightarrow> NodeRecord_verify_signature so x)"

definition notification_ok :: "sodium \<Rightarrow> notification \<Rightarrow> bool" where
  "notification_ok so e \<longleftrightarrow> (case e of FindDone r m \<Rightarrow> found_ok so r | _ \<Rightarrow> True)"

abbreviation unqueried_count :: "LookupSession \<Rightarrow> nat" where
  "unqueried_count ls \<equiv> length (unqueried (shortlist ls))"

lemma bindE_gets: "bindE (gets f) g s = g (f s) s"
  by (simp add: eff_run)

lemma store_put_run:
  "store_put env key r now s = (Inr (fst (RecordStore_put (e_sodium env) key r now (n_store s))),
     s\<lparr>n_store := snd (RecordStore_put (e_sodium env) key r now (n_store s))\<rparr>)"
  by (cases "RecordStore_put (e_sodium env) key r now (n_store s)") (simp add: store_put_def eff_run)

lemma store_get_run:
  "store_get key now s = (Inr (fst (RecordStore_get key now (n_store s))),
     s\<lparr>n_store := snd (RecordStore_get key now (n_store s))\<rparr>)"
  by (cases "RecordStore_get key now (n_store s)") (simp add: store_get_def eff_run)

lemma ask_run: "ask f s = (Inr (f (n_tick s)), s\<lparr>n_tick := n_tick s + 1\<rparr>)"
  by (simp add: ask_def eff_run)

lemma writer_wf_configure: "writer_wf c \<Longrightarrow> writer_wf (TcpConnection_configure v m t c)"
  by (simp add: TcpConnection_configure_def writer_wf_def)

lemma unqueried_on_failure: "unqueried_count (LookupSession_on_failure now nid ls) \<le> unqueried_count ls"
proof -
  have "length (unqueried (update_first Q (\<lambda>c. c\<lparr>cand_state := FAILED\<rparr>) sl)) \<le> length (unqueried sl)" for Q sl
    by (induction sl) auto
  then show ?thesis by (simp add: LookupSession_on_failure_def set_candidate_state_def Let_def)
qed

lemma pick_unqueried:
  "LookupSession_pick_next_queries ls = (qs, ls1) \<Longrightarrow>
   unqueried_count ls1 + length qs = unqueried_count ls \<and> (LookupSession_wf ls \<longrightarrow> LookupSession_wf ls1)"
  using wf_pick [of ls] by (auto simp: pick_next_queries_eq Let_def unqueried_mark_first)

lemma round_writer:
  "process_incoming_round so (ss, c) = (i, ss', c') \<Longrightarrow> writer_wf c \<Longrightarrow> writer_wf c'"
  by (auto simp: process_incoming_round_def drop_connection_def TcpConnection_close_def writer_wf_def Let_def
      split: prod.splits sum.splits option.splits if_splits)

lemma writer_on_written: "writer_wf c \<Longrightarrow> on_written ec c = (d, c') \<Longrightarrow> writer_wf c'"
proof (cases ec)
  case None
  assume "writer_wf c" "on_written ec c = (d, c')"
  with None on_written_refines [of c] show ?thesis
    by (cases "tc_writing c") (auto simp: on_written_def do_write_def writer_wf_def)
qed (simp add: on_written_def)

lemma new_session_wf: "new_session env target s = (Inr ls, s') \<Longrightarrow> LookupSession_wf ls"
  by (auto simp: new_session_def eff_run LookupSession_wf_new split: prod.splits sum.splits)

locale node_conns =
  fixes env :: env and P :: "Node \<Rightarrow> bool"
  assumes p_tick: "\<And>s t. P s \<Longrightarrow> P (s\<lparr>n_tick := t\<rparr>)"
    and p_sessions: "\<And>s ss n. P s \<Longrightarrow> P (s\<lparr>n_sessions := ss, n_session_count := n\<rparr>)"
    and p_conn: "\<And>s cid c. P s \<Longrightarrow> conn_ok (n_conns s cid) c \<Longrightarrow> P (s\<lparr>n_conns := (n_conns s)(cid := c)\<rparr>)"
    and p_open: "\<And>s c. P s \<Longrightarrow> writer_wf c \<Longrightarrow>
      P (s\<lparr>n_conn_count := n_conn_count s + 1, n_conns := (n_conns s)(n_conn_count s := c),
           n_connections := n_connections s @ [n_conn_count s]\<rparr>)"
    and p_disconnect: "\<And>s cid. P s \<Longrightarrow> P (s\<lparr>n_connections := removeAll cid (n_connections s)\<rparr>)"
begin

lemma keeps_ask [keeps_intros]: "keeps P (ask f)"
  unfolding ask_def by (intro keeps_intros keeps_modify p_tick)

lemma keeps_rid [keeps_intros]: "keeps P (generate_request_id env)"
  unfolding generate_request_id_def by (intro keeps_intros)

lemma keeps_update_conn: "(\<And>c. conn_ok c (f c)) \<Longrightarrow> keeps P (update_conn cid f)"
  unfolding update_conn_def by (intro keeps_modify p_conn)

lemma keeps_set_peer_id [keeps_intros]: "keeps P (update_conn cid (set_peer_id nid))"
  by (rule keeps_update_conn) (simp add: conn_ok_def set_peer_id_def writer_wf_def)

lemma keeps_set_secure_session [keeps_intros]: "keeps P (update_conn cid (set_secure_session r))"
  by (rule keeps_update_conn) (simp add: conn_ok_def set_secure_session_def writer_wf_def)

lemma keeps_on_disconnect [keeps_intros]: "keeps P (Node_on_disconnect cid)"
  unfolding Node_on_disconnect_def by (intro keeps_modify p_disconnect)

lemma keeps_conn_close [keeps_intros]: "keeps P (conn_close reason cid)"
proof (rule keepsI)
  fix s assume P: "P s"
  obtain d c where cl: "TcpConnection_close reason (n_conns s cid) = (d, c)" by fastforce
  then have "conn_ok (n_conns s cid) c"
    by (auto simp: TcpConnection_close_def conn_ok_def writer_wf_def split: if_splits)
  then have "P (s\<lparr>n_conns := (n_conns s)(cid := c)\<rparr>)" by (rule p_conn [OF P])
  with p_disconnect [OF this, of cid] cl show "P (snd (conn_close reason cid s))"
    by (simp add: conn_close_def eff_run update_conn_def Node_on_disconnect_def)
qed

lemma p_sessions_only: "P s \<Longrightarrow> P (s\<lparr>n_sessions := ss\<rparr>)"
  using p_sessions [where ss = ss and n = "n_session_count s"] by fastforce

lemma keeps_conn_send [keeps_intros]: "keeps P (conn_send env cid f)"
proof (rule keepsI)
  fix s assume P: "P s"
  obtain r ss c where se: "TcpConnection_send (e_sodium env) f (n_sessions s, n_conns s cid) = (r, ss, c)"
    by (cases "TcpConnection_send (e_sodium env) f (n_sessions s, n_conns s cid)") auto
  then have "conn_ok (n_conns s cid) c"
    using send_keeps_writer [OF _ se] by (auto simp: conn_ok_def TcpConnection_send_def Let_def
        split: if_splits option.splits prod.splits sum.splits)
  with se p_conn [OF p_sessions_only [OF P, of ss], of cid c] show "P (snd (conn_send env cid f s))"
    by (simp add: conn_send_def)
qed

lemma keeps_connection_for [keeps_intros]: "keeps P (connection_for env peer)"
proof (rule keepsI)
  fix s assume P: "P s"
  let ?s1 = "s\<lparr>n_tick := n_tick s + 1\<rparr>"
  note P1 = p_tick [OF P, of "n_tick s + 1"]
  have "P (?s1\<lparr>n_conn_count := n_conn_count ?s1 + 1, n_conns := (n_conns ?s1)(n_conn_count ?s1 := c),
           n_connections := n_connections ?s1 @ [n_conn_count ?s1]\<rparr>)" if "writer_wf c" for c
    using that by (rule p_open [OF P1])
  moreover have "writer_wf (TcpConnection_configure v m t (set_peer_id nid (TcpConnection_create ep)))" for v m t nid ep
    by (intro writer_wf_configure) (simp add: set_peer_id_def TcpConnection_create_def writer_wf_def)
  ultimately show "P (snd (connection_for env peer s))"
    using P P1
    by (cases "Node_get_connection_to (peer_node_id peer) s"; 
        cases "TcpConnection_connect (e_net env (n_tick s)) (host (peer_address peer)) (port (peer_address peer))
          (connect_timeout_ms (cfg_transport (n_config s)))")
      (simp_all add: connection_for_def tcp_connect_def ask_def new_connection_def update_conn_def
        Node_register_connection_def eff_run)
qed

end

section \<open>Contacts\<close>

locale node_contacts = node_conns +
  assumes p_timers: "\<And>s f n. P s \<Longrightarrow> P (s\<lparr>n_timers := f, n_timer_count := n\<rparr>)"
    and p_pings: "\<And>s m. P s \<Longrightarrow> P (s\<lparr>n_pending_pings := m\<rparr>)"
    and p_table: "\<And>s. P s \<Longrightarrow> RoutingTable_wf (n_routing s)"
    and p_routing: "\<And>s rt. P s \<Longrightarrow> RoutingTable_wf rt \<Longrightarrow> local_id rt = local_id (n_routing s) \<Longrightarrow>
      k_param rt = k_param (n_routing s) \<Longrightarrow> P (s\<lparr>n_routing := rt\<rparr>)"
begin

lemma keeps_new_timer [keeps_intros]: "keeps P (new_timer a)"
  unfolding new_timer_def by (intro keeps_intros keeps_modify p_timers)

lemma p_timers_only: "P s \<Longrightarrow> P (s\<lparr>n_timers := f\<rparr>)"
  using p_timers [where f = f and n = "n_timer_count s"] by fastforce

lemma keeps_cancel_timer [keeps_intros]: "keeps P (cancel_timer t)"
  unfolding cancel_timer_def by (rule keeps_modify) (auto intro: p_timers_only split: timer_state.split)

lemma keeps_routing_touch [keeps_intros]: "keeps P (routing_touch env nid)"
  unfolding routing_touch_def
  by (intro keeps_intros keeps_modify p_routing RoutingTable_wf_touch p_table) (simp_all add: RoutingTable_touch_def Let_def)

lemma keeps_routing_remove [keeps_intros]: "keeps P (routing_remove nid)"
  unfolding routing_remove_def
  by (intro keeps_modify p_routing RoutingTable_wf_remove p_table) (simp_all add: RoutingTable_remove_eq Let_def)

lemma keeps_ping_result [keeps_intros]: "keeps P (ping_result env cb ok)"
  unfolding ping_result_def by (cases cb) (auto intro: keeps_intros)

lemma keeps_run_ping_callback [keeps_intros]: "keeps P (run_ping_callback env p ok)"
  unfolding run_ping_callback_def by (intro keeps_intros)

lemma keeps_send_ping [keeps_intros]: "keeps P (Node_send_ping env cid expected cb)"
  unfolding Node_send_ping_def by (intro keeps_intros keeps_modify p_pings)

lemma keeps_ping_timeout [keeps_intros]: "keeps P (ping_timeout env rid)"
  unfolding ping_timeout_def by (intro keeps_intros keeps_modify p_pings)

lemma keeps_probe [keeps_intros]: "keeps P (Node_probe_lru_contact env lru)"
  unfolding Node_probe_lru_contact_def by (intro keeps_intros)

lemma keeps_add_contact [keeps_intros]: "keeps P (Node_add_contact env peer)"
proof (rule keepsI)
  fix s assume P: "P s"
  let ?s1 = "s\<lparr>n_tick := n_tick s + 1\<rparr>"
  obtain added rt where add: "RoutingTable_add_or_update (e_clock env (n_tick s)) peer (n_routing s) = (added, rt)"
    by fastforce
  have "RoutingTable_wf rt" "local_id rt = local_id (n_routing s)" "k_param rt = k_param (n_routing s)"
    using RoutingTable_wf_add [OF p_table [OF P], of "e_clock env (n_tick s)" peer] add
    by (auto simp: RoutingTable_add_eq Let_def split: if_splits)
  then have P2: "P (?s1\<lparr>n_routing := rt\<rparr>)" by (intro p_routing p_tick P) simp_all
  have "keeps P (whenE c (Node_probe_lru_contact env l))" for c l by (intro keeps_intros)
  from keepsD [OF this P2] P P2 add show "P (snd (Node_add_contact env peer s))"
    by (auto simp: Node_add_contact_def ask_def eff_run split: option.split)
qed

end

section \<open>Lookups\<close>

locale node_prims = node_contacts +
  assumes p_log: "\<And>s e. P s \<Longrightarrow> notification_ok (e_sodium env) e \<Longrightarrow> P (s\<lparr>n_log := n_log s @ [e]\<rparr>)"
    and p_pending: "\<And>s m. P s \<Longrightarrow> P (s\<lparr>n_pending_requests := m\<rparr>)"
    and p_records: "\<And>s. P s \<Longrightarrow> RecordStore_wf (e_sodium env) (n_store s)"
    and p_store: "\<And>s st. P s \<Longrightarrow> RecordStore_wf (e_sodium env) st \<Longrightarrow> P (s\<lparr>n_store := st\<rparr>)"
    and p_lookup_wf: "\<And>s L. P s \<Longrightarrow> LookupSession_wf (lo_session (n_lookups s L))"
    and p_lookup_new: "\<And>s lo. P s \<Longrightarrow> LookupSession_wf (lo_session lo) \<Longrightarrow>
      P (s\<lparr>n_lookups := (n_lookups s)(n_lookup_count s := lo), n_lookup_count := n_lookup_count s + 1\<rparr>)"
    and p_lookup_set: "\<And>s L ls. P s \<Longrightarrow> LookupSession_wf ls \<Longrightarrow>
      unqueried_count ls \<le> unqueried_count (lo_session (n_lookups s L)) \<Longrightarrow>
      P (s\<lparr>n_lookups := (n_lookups s)(L := (n_lookups s L)\<lparr>lo_session := ls\<rparr>)\<rparr>)"
    and p_publish: "\<And>s f n. P s \<Longrightarrow> P (s\<lparr>n_publishes := f, n_publish_count := n\<rparr>)"
    and p_find_wf: "\<And>s V. P s \<Longrightarrow> LookupSession_wf (fo_session (n_finds s V)) \<and> found_ok (e_sodium env) (fo_found (n_finds s V))"
    and p_find_new: "\<And>s fo. P s \<Longrightarrow> LookupSession_wf (fo_session fo) \<Longrightarrow> fo_found fo = None \<Longrightarrow>
      P (s\<lparr>n_finds := (n_finds s)(n_find_count s := fo), n_find_count := n_find_count s + 1\<rparr>)"
    and p_find_set: "\<And>s V fo. P s \<Longrightarrow> LookupSession_wf (fo_session fo) \<Longrightarrow> found_ok (e_sodium env) (fo_found fo) \<Longrightarrow>
      unqueried_count (fo_session fo) \<le> unqueried_count (fo_session (n_finds s V)) \<Longrightarrow>
      P (s\<lparr>n_finds := (n_finds s)(V := fo)\<rparr>)"
    and p_seq: "\<And>s q. P s \<Longrightarrow> P (s\<lparr>n_record_seq := q\<rparr>)"
    and p_alias: "\<And>s a. P s \<Longrightarrow> P (s\<lparr>n_alias := a\<rparr>)"
begin

lemma keeps_notify: "notification_ok (e_sodium env) e \<Longrightarrow> keeps P (notify e)"
  unfolding notify_def by (intro keeps_modify p_log)

lemma keeps_send_request [keeps_intros]: "keeps P (send_request env cid t pl tm pn)"
  unfolding send_request_def by (intro keeps_intros keeps_modify p_pending)

lemma keeps_query_find_node [keeps_intros]: "keeps P (query_find_node env L nid cid)"
  unfolding query_find_node_def by (intro keeps_intros)

lemma keeps_lookup_failure [keeps_intros]: "keeps P (lookup_failure env L nid)"
proof (rule keepsI)
  fix s assume "P s"
  then have P1: "P (s\<lparr>n_tick := n_tick s + 1\<rparr>)" by (rule p_tick)
  from p_lookup_set [OF P1 wf_on_failure [OF p_lookup_wf [OF P1, of L]], of _ _ L]
  show "P (snd (lookup_failure env L nid s))"
    using unqueried_on_failure by (simp add: lookup_failure_def ask_def set_lookup_def eff_run)
qed

lemma keeps_lookup_step [keeps_intros]:
  assumes "\<And>ps m. keeps P (finish ps m)"
  shows "keeps P (lookup_step n env finish L)"
proof (induction n)
  case 0
  show ?case by (simp add: keeps_ret)
next
  case (Suc n)
  show ?case
  proof (rule keepsI)
    fix s assume P: "P s"
    let ?ls = "lo_session (n_lookups s L)"
    obtain qs ls1 where pick: "LookupSession_pick_next_queries ?ls = (qs, ls1)" by fastforce
    let ?s1 = "s\<lparr>n_lookups := (n_lookups s)(L := (n_lookups s L)\<lparr>lo_session := ls1\<rparr>)\<rparr>"
    have P1: "P ?s1" using pick_unqueried [OF pick] p_lookup_wf [OF P, of L] by (intro p_lookup_set P) simp_all
    have body: "keeps P (forE qs (\<lambda>peer. bindE (connection_for env peer) (\<lambda>conn. case conn of
            None \<Rightarrow> thenE (lookup_failure env L (peer_node_id peer)) (lookup_step n env finish L)
          | Some cid \<Rightarrow> query_find_node env L (peer_node_id peer) cid)))"
      by (intro keeps_intros Suc.IH)
    show "P (snd (lookup_step (Suc n) env finish L s))"
      using keepsD [OF body P1] keepsD [OF assms P] keepsD [OF assms P1] P1 pick
      by (simp add: eff_run set_lookup_def)
  qed
qed

lemma keeps_lookup_run [keeps_intros]:
  "(\<And>ps m. keeps P (finish ps m)) \<Longrightarrow> keeps P (lookup_run env finish L)"
  unfolding lookup_run_def by (intro keeps_intros)

lemma keeps_new_session [keeps_intros]: "keeps P (new_session env target)"
  unfolding new_session_def by (intro keeps_intros)

lemma keeps_async_lookup [keeps_intros]:
  assumes "\<And>ps m. keeps P (finish ps m)"
  shows "keeps P (Node_async_lookup env cb finish target)"
proof (rule keepsI)
  fix s assume P: "P s"
  obtain r s1 where ns: "new_session env target s = (r, s1)" by fastforce
  have P1: "P s1" using keepsD [OF keeps_new_session P] ns by (metis snd_conv)
  show "P (snd (Node_async_lookup env cb finish target s))"
  proof (cases r)
    case (Inl e)
    with ns P1 show ?thesis by (simp add: Node_async_lookup_def eff_run)
  next
    case (Inr ls)
    let ?lo = "\<lparr>lo_session = LookupSession_add_candidates (initial_candidates target s1) ls, lo_callback = cb\<rparr>"
    have "LookupSession_wf ls" using ns Inr new_session_wf by blast
    then have "LookupSession_wf (lo_session ?lo)" by (simp add: wf_add_candidates)
    from p_lookup_new [OF P1 this]
    have "P (s1\<lparr>n_lookups := (n_lookups s1)(n_lookup_count s1 := ?lo), n_lookup_count := n_lookup_count s1 + 1\<rparr>)" .
    from keepsD [OF keeps_lookup_run [OF assms, of "\<lambda>ps m. ps" "\<lambda>ps m. m"] this] ns Inr show ?thesis
      by (simp add: Node_async_lookup_def eff_run)
  qed
qed

section \<open>Publishing\<close>

lemma keeps_store_put [keeps_intros]: "keeps P (store_put env key r now)"
proof (rule keepsI)
  fix s assume P: "P s"
  from p_store [OF P put_wf [OF p_records [OF P], of key r now]] show "P (snd (store_put env key r now s))"
    by (simp add: store_put_run)
qed

lemma keeps_store_get [keeps_intros]: "keeps P (store_get key now)"
proof (rule keepsI)
  fix s assume P: "P s"
  have "store_kept now (n_store s) (snd (RecordStore_get key now (n_store s)))"
    using p_records [OF P] by (intro get_kept) (simp add: RecordStore_wf_def)
  from p_store [OF P store_kept_wf [OF this p_records [OF P]]] show "P (snd (store_get key now s))"
    by (simp add: store_get_run)
qed

lemma p_publish_only: "P s \<Longrightarrow> P (s\<lparr>n_publishes := f\<rparr>)"
  using p_publish [where f = f and n = "n_publish_count s"] by fastforce

lemma keeps_update_publish [keeps_intros]: "keeps P (update_publish Q f)"
  unfolding update_publish_def by (intro keeps_modify p_publish_only)

lemma keeps_keeper_settled [keeps_intros]:
  "(\<And>ok acks. keeps P (finish ok acks)) \<Longrightarrow> keeps P (keeper_settled finish Q acked)"
  unfolding keeper_settled_def by (intro keeps_intros)

lemma keeps_query_store [keeps_intros]: "keeps P (query_store env Q key r nid cid)"
  unfolding query_store_def by (intro keeps_intros)

lemma keeps_store_at_keepers [keeps_intros]:
  "(\<And>ok acks. keeps P (finish ok acks)) \<Longrightarrow> keeps P (store_at_keepers env cb finish key r closest)"
  unfolding store_at_keepers_def by (intro keeps_intros keeps_modify p_publish)

lemma keeps_publish_with [keeps_intros]:
  "(\<And>ok acks. keeps P (finish ok acks)) \<Longrightarrow> keeps P (publish_with env cb finish key r)"
  unfolding publish_with_def by (intro keeps_intros)

lemma keeps_leaf_done [keeps_intros]: "keeps P (leaf_done l ok acks)"
  by (cases l) (auto intro!: keeps_notify simp: notification_ok_def)

lemma keeps_publish_done [keeps_intros]: "keeps P (publish_done env cb ok acks)"
  by (cases cb) (auto intro!: keeps_intros keeps_notify simp: notification_ok_def)

lemma keeps_publish_record [keeps_intros]: "keeps P (Node_publish_record env cb key r)"
  unfolding Node_publish_record_def by (intro keeps_intros)

lemma keeps_create_self_record [keeps_intros]: "keeps P (Node_create_self_record env a)"
  unfolding Node_create_self_record_def by (intro keeps_intros keeps_modify p_seq p_alias)

lemma keeps_publish_self_record [keeps_intros]: "keeps P (Node_publish_self_record env a)"
  unfolding Node_publish_self_record_def by (intro keeps_intros)

lemma keeps_lookup_done [keeps_intros]: "keeps P (lookup_done env cb closest m)"
  unfolding lookup_done_def by (cases cb) (auto intro!: keeps_intros keeps_notify simp: notification_ok_def)

lemma keeps_lookup_resume [keeps_intros]: "keeps P (lookup_resume env L)"
  unfolding lookup_resume_def by (intro keeps_intros)

lemma keeps_on_lookup_timeout [keeps_intros]: "keeps P (on_lookup_timeout env L nid rid)"
  unfolding on_lookup_timeout_def by (intro keeps_intros keeps_modify p_pending)

lemma keeps_publish_resume [keeps_intros]: "keeps P (publish_resume env Q acked)"
  unfolding publish_resume_def by (intro keeps_intros)

lemma keeps_on_store_reply [keeps_intros]: "keeps P (on_store_reply env Q t f)"
  unfolding on_store_reply_def by (intro keeps_intros)

lemma keeps_on_store_timeout [keeps_intros]: "keeps P (on_store_timeout env Q rid)"
  unfolding on_store_timeout_def by (intro keeps_intros keeps_modify p_pending)

section \<open>Value searches\<close>

lemma keeps_update_find:
  assumes "\<And>s fo. P s \<Longrightarrow> fo = n_finds s V \<Longrightarrow> LookupSession_wf (fo_session (f fo)) \<and> found_ok (e_sodium env) (fo_found (f fo)) \<and>
      unqueried_count (fo_session (f fo)) \<le> unqueried_count (fo_session fo)"
  shows "keeps P (update_find V f)"
  unfolding update_find_def using assms by (intro keeps_modify p_find_set) auto

lemma keeps_find_failure [keeps_intros]: "keeps P (find_failure env V nid)"
  unfolding find_failure_def
  by (intro keeps_intros keeps_update_find) (use p_find_wf unqueried_on_failure in \<open>auto intro!: wf_on_failure\<close>)

lemma keeps_query_find_value [keeps_intros]: "keeps P (query_find_value env V nid cid)"
  unfolding query_find_value_def by (intro keeps_intros)

lemma keeps_find_finish [keeps_intros]: "found_ok (e_sodium env) r \<Longrightarrow> keeps P (find_finish V r)"
  unfolding find_finish_def
  by (intro keeps_intros keeps_update_find keeps_notify) (use p_find_wf in \<open>auto simp: notification_ok_def\<close>)

lemma keeps_find_step [keeps_intros]: "keeps P (find_step n env V)"
proof (induction n)
  case 0
  show ?case by (simp add: keeps_ret)
next
  case (Suc n)
  show ?case
  proof (rule keepsI)
    fix s assume P: "P s"
    let ?fo = "n_finds s V"
    obtain qs ls1 where pick: "LookupSession_pick_next_queries (fo_session ?fo) = (qs, ls1)" by fastforce
    have "P (s\<lparr>n_finds := (n_finds s)(V := ?fo\<lparr>fo_session := ls1\<rparr>)\<rparr>)"
      using pick_unqueried [OF pick] p_find_wf [OF P, of V] by (intro p_find_set P) simp_all
    then have P1: "P (snd (update_find V (\<lambda>w. w\<lparr>fo_session := ls1\<rparr>) s))" by (simp add: update_find_def eff_run)
    have found: "found_ok (e_sodium env) (fo_found ?fo)" "found_ok (e_sodium env) None"
      using p_find_wf [OF P] by (simp_all add: found_ok_def)
    have fin: "keeps P (find_finish V None)" "keeps P (find_finish V (fo_found ?fo))"
      by (intro keeps_find_finish found)+
    have suc: "keeps P (update_find V (\<lambda>w. w\<lparr>fo_session := (fo_session w)\<lparr>metrics := (metrics (fo_session w))\<lparr>success := True\<rparr>\<rparr>\<rparr>))"
      by (rule keeps_update_find) (use p_find_wf in \<open>auto intro!: wf_metrics\<close>)
    have body: "keeps P (forE qs (\<lambda>peer. bindE (connection_for env peer) (\<lambda>conn. case conn of
            None \<Rightarrow> thenE (find_failure env V (peer_node_id peer)) (find_step n env V)
          | Some cid \<Rightarrow> query_find_value env V (peer_node_id peer) cid)))"
      by (intro keeps_intros Suc.IH)
    have rest: "keeps P (if qs = [] then whenE c (find_finish V None)
        else forE qs (\<lambda>peer. bindE (connection_for env peer) (\<lambda>conn. case conn of
            None \<Rightarrow> thenE (find_failure env V (peer_node_id peer)) (find_step n env V)
          | Some cid \<Rightarrow> query_find_value env V (peer_node_id peer) cid)))" for c
      by (intro keeps_if keeps_whenE fin(1) body)
    have upd: "P (snd (thenE (update_find V (\<lambda>w. w\<lparr>fo_session := ls1\<rparr>)) m s))" if "keeps P m" for m :: "unit node_op"
      using keepsD [OF that P1] by (simp add: thenE_run update_find_def modify_def)
    show "P (snd (find_step (Suc n) env V s))"
    proof (cases "fo_found ?fo")
      case None
      with P keepsD [OF fin(1) P] upd [OF rest] pick show ?thesis
        by (simp only: find_step.simps bindE_gets option.case prod.case) (simp add: ret_def)
    next
      case (Some r)
      with P keepsD [OF keeps_thenE [OF suc fin(2)] P] show ?thesis
        by (simp only: find_step.simps bindE_gets option.case) (simp add: ret_def)
    qed
  qed
qed

lemma keeps_find_run [keeps_intros]: "keeps P (find_run env V)"
  unfolding find_run_def by (intro keeps_intros)

lemma keeps_async_find_value [keeps_intros]: "keeps P (Node_async_find_value env key)"
proof -
  have new: "keeps P (bindE (new_session env key) (\<lambda>ls.
         bindE (gets (\<lambda>s. (n_find_count s, LookupSession_add_candidates (initial_candidates key s) ls))) (\<lambda>(V, ls1).
         thenE (modify (\<lambda>s. s\<lparr>n_finds := (n_finds s)(V := \<lparr>fo_session = ls1, fo_key = key, fo_found = None, fo_finished = False\<rparr>),
                               n_find_count := V + 1\<rparr>))
         (find_run env V))))"
  proof (rule keepsI)
    fix s assume P: "P s"
    obtain r s1 where ns: "new_session env key s = (r, s1)" by fastforce
    have P1: "P s1" using keepsD [OF keeps_new_session P] ns by (metis snd_conv)
    have "P (s1\<lparr>n_finds := (n_finds s1)(n_find_count s1 := \<lparr>fo_session = LookupSession_add_candidates (initial_candidates key s1) ls,
        fo_key = key, fo_found = None, fo_finished = False\<rparr>), n_find_count := n_find_count s1 + 1\<rparr>)"
      if "r = Inr ls" for ls
      using ns that new_session_wf by (intro p_find_new [OF P1]) (auto intro: wf_add_candidates)
    with keepsD [OF keeps_find_run] P1 ns show "P (snd (bindE (new_session env key) (\<lambda>ls.
         bindE (gets (\<lambda>s. (n_find_count s, LookupSession_add_candidates (initial_candidates key s) ls))) (\<lambda>(V, ls1).
         thenE (modify (\<lambda>s. s\<lparr>n_finds := (n_finds s)(V := \<lparr>fo_session = ls1, fo_key = key, fo_found = None, fo_finished = False\<rparr>),
                               n_find_count := V + 1\<rparr>))
         (find_run env V))) s))"
      by (cases r) (simp_all add: eff_run)
  qed
  show ?thesis
  proof (rule keepsI)
    fix s assume P: "P s"
    let ?s1 = "s\<lparr>n_tick := n_tick s + 1\<rparr>" and ?now = "e_now env (n_tick s)"
    let ?r = "fst (RecordStore_get key ?now (n_store s))" and ?s2 = "snd (store_get key ?now ?s1)"
    have P2: "P ?s2" by (rule keepsD [OF keeps_store_get p_tick [OF P]])
    have ntf: "keeps P (notify (FindDone ?r m))" if "?r = Some x" for x m
    proof (rule keeps_notify)
      have "(key, x) \<in> set (records (n_store s))" using that get_result map_of_SomeD by metis
      then have "NodeRecord_verify_signature (e_sodium env) x" using p_records [OF P] by (auto simp: RecordStore_wf_def)
      with that show "notification_ok (e_sodium env) (FindDone ?r m)" by (simp add: notification_ok_def found_ok_def)
    qed
    have run: "bindE (ask (e_now env)) (\<lambda>now. bindE (store_get key now) g) s = g ?r ?s2" for g :: "NodeRecord option \<Rightarrow> unit node_op"
      by (simp add: bindE_def ask_run store_get_run)
    show "P (snd (Node_async_find_value env key s))"
      unfolding Node_async_find_value_def run
      using keepsD [OF new P2] keepsD [OF ntf P2] by (cases ?r) simp_all
  qed
qed

lemma keeps_async_resolve_alias [keeps_intros]: "keeps P (Node_async_resolve_alias env a)"
  unfolding Node_async_resolve_alias_def by (intro keeps_intros)

lemma keeps_on_find_timeout [keeps_intros]: "keeps P (on_find_timeout env V nid rid)"
  unfolding on_find_timeout_def by (intro keeps_intros keeps_modify p_pending)

section \<open>Handshakes\<close>

lemma keeps_new_secure_session [keeps_intros]: "keeps P new_secure_session"
  unfolding new_secure_session_def by (intro keeps_intros keeps_modify p_sessions)

lemma keeps_session_call [keeps_intros]: "keeps P (session_call r f)"
  unfolding session_call_def by (intro keeps_intros keeps_modify p_sessions_only)

lemma keeps_initiate_handshake [keeps_intros]: "keeps P (Node_initiate_handshake env cid)"
  unfolding Node_initiate_handshake_def by (intro keeps_intros keeps_notify) (simp_all add: notification_ok_def)

lemma keeps_on_handshake_reply [keeps_intros]: "keeps P (on_handshake_reply env cid r t f)"
  unfolding on_handshake_reply_def by (intro keeps_intros keeps_notify) (simp_all add: notification_ok_def)

lemma keeps_on_handshake_timeout [keeps_intros]: "keeps P (on_handshake_timeout rid)"
  unfolding on_handshake_timeout_def by (intro keeps_intros keeps_notify keeps_modify p_pending) (simp_all add: notification_ok_def)

end

section \<open>Frames and timers\<close>

locale node_frame = node_prims +
  assumes p_lookup_any: "\<And>s L ls. P s \<Longrightarrow> LookupSession_wf ls \<Longrightarrow>
      P (s\<lparr>n_lookups := (n_lookups s)(L := (n_lookups s L)\<lparr>lo_session := ls\<rparr>)\<rparr>)"
    and p_find_any: "\<And>s V fo. P s \<Longrightarrow> LookupSession_wf (fo_session fo) \<Longrightarrow> found_ok (e_sodium env) (fo_found fo) \<Longrightarrow>
      P (s\<lparr>n_finds := (n_finds s)(V := fo)\<rparr>)"
begin

lemma keeps_lookup_response [keeps_intros]: "keeps P (lookup_response env L nid peers)"
proof (rule keepsI)
  fix s assume "P s"
  then have P1: "P (s\<lparr>n_tick := n_tick s + 1\<rparr>)" by (rule p_tick)
  from p_lookup_any [OF P1 wf_on_response [OF p_lookup_wf [OF P1, of L]], where L = L]
  show "P (snd (lookup_response env L nid peers s))"
    by (simp add: lookup_response_def ask_run set_lookup_def eff_run)
qed

lemma keeps_on_lookup_reply [keeps_intros]: "keeps P (on_lookup_reply env L nid t f)"
  unfolding on_lookup_reply_def by (intro keeps_intros)

lemma keeps_find_response [keeps_intros]: "keeps P (find_response env V nid peers)"
  unfolding find_response_def update_find_def
  by (intro keeps_intros keeps_modify p_find_any) (use p_find_wf in \<open>auto intro!: wf_on_response\<close>)

lemma keeps_found [keeps_intros]:
  "NodeRecord_verify_signature (e_sodium env) r \<Longrightarrow> keeps P (update_find V (\<lambda>w. w\<lparr>fo_found := Some r\<rparr>))"
  unfolding update_find_def
  by (intro keeps_modify p_find_any) (use p_find_wf in \<open>auto simp: found_ok_def\<close>)

lemma keeps_on_find_reply [keeps_intros]: "keeps P (on_find_reply env V nid t f)"
  unfolding on_find_reply_def
  by (intro keeps_intros) (auto split: bool.split option.split intro!: keeps_intros simp: validate_None_iff)

lemma keeps_accept_peer [keeps_intros]: "keeps P (accept_peer env cid j peer_id)"
  unfolding accept_peer_def by (intro keeps_intros)

lemma keeps_on_ping [keeps_intros]: "keeps P (on_ping env cid f)"
  unfolding on_ping_def by (intro keeps_intros) (auto split: identity_claim.split intro!: keeps_intros)

lemma keeps_on_pong [keeps_intros]: "keeps P (on_pong env cid f)"
  unfolding on_pong_def
  by (intro keeps_intros keeps_modify p_pings) (auto split: identity_claim.split intro!: keeps_intros)

lemma keeps_respond [keeps_intros]: "keeps P (respond env cid f t payload)"
  unfolding respond_def by (intro keeps_intros)

lemma keeps_requests [keeps_intros]:
  "keeps P (on_find_node_request env cid f)" "keeps P (on_find_node_response env f)"
  "keeps P (on_store_request env cid f)" "keeps P (on_find_value_request env cid f)"
  unfolding on_find_node_request_def on_find_node_response_def on_store_request_def on_find_value_request_def
  by (intro keeps_intros)+

lemma keeps_handshake_messages [keeps_intros]:
  "keeps P (on_handshake_init env cid f)" "keeps P (on_handshake_complete env cid f)"
  unfolding on_handshake_init_def on_handshake_complete_def by (intro keeps_intros)+

lemma keeps_run_pending [keeps_intros]: "keeps P (run_pending env p f)"
  unfolding run_pending_def by (cases p) (auto intro!: keeps_intros)

lemma keeps_take_pending [keeps_intros]: "keeps P (take_pending f)"
  unfolding take_pending_def by (intro keeps_intros keeps_modify p_pending)

lemma keeps_dispatch [keeps_intros]: "keeps P (dispatch_frame env cid f)"
  unfolding dispatch_frame_def by (intro keeps_intros)

lemma keeps_on_frame [keeps_intros]: "keeps P (Node_on_frame env cid f)"
  unfolding Node_on_frame_def by (intro keeps_intros)

end

section \<open>The event loop\<close>

text \<open>
  \<open>node_calm\<close> has what every event but a read keeps; \<open>node_loop\<close> adds the read loop, which is the only
  place where a node can hang.
\<close>

locale node_calm = node_frame +
  assumes p_conn_any: "\<And>s cid c. P s \<Longrightarrow> writer_wf c \<Longrightarrow> P (s\<lparr>n_conns := (n_conns s)(cid := c)\<rparr>)"
    and p_writers: "\<And>s cid. P s \<Longrightarrow> writer_wf (n_conns s cid)"
    and p_purge_timer: "\<And>s t. P s \<Longrightarrow> P (s\<lparr>n_purge_timer := t\<rparr>)"
    and p_republish_timer: "\<And>s t. P s \<Longrightarrow> P (s\<lparr>n_republish_timer := t\<rparr>)"
    and p_stopped: "\<And>s. P s \<Longrightarrow> P (s\<lparr>n_stopped := True\<rparr>)"
    and p_no_connections: "\<And>s l. P s \<Longrightarrow> P (s\<lparr>n_listener := l, n_connections := []\<rparr>)"
    and p_listener: "\<And>s l. P s \<Longrightarrow> P (s\<lparr>n_listener := l\<rparr>)"
begin

text \<open>The completion handlers of a connection, which replace it and may disconnect it.\<close>

lemma keeps_conn_handler:
  assumes "\<And>s d x c. P s \<Longrightarrow> h (n_conns s cid) = (d, x, c) \<Longrightarrow> writer_wf c" and "\<And>d x. keeps P (g d x)"
  shows "keeps P (bindE (gets (\<lambda>s. h (n_conns s cid))) (\<lambda>(d, x, c). thenE (update_conn cid (\<lambda>_. c)) (g d x)))"
proof (rule keepsI)
  fix s assume P: "P s"
  obtain d x c where h: "h (n_conns s cid) = (d, x, c)" by (cases "h (n_conns s cid)") auto
  have "P (s\<lparr>n_conns := (n_conns s)(cid := c)\<rparr>)" by (rule p_conn_any [OF P assms(1) [OF P h]])
  from keepsD [OF assms(2) this] h
  show "P (snd (bindE (gets (\<lambda>s. h (n_conns s cid))) (\<lambda>(d, x, c). thenE (update_conn cid (\<lambda>_. c)) (g d x)) s))"
    by (simp add: bindE_gets thenE_run update_conn_def modify_def)
qed

lemma keeps_conn_handler2:
  assumes "\<And>s d c. P s \<Longrightarrow> h (n_conns s cid) = (d, c) \<Longrightarrow> writer_wf c" and "\<And>d. keeps P (g d)"
  shows "keeps P (bindE (gets (\<lambda>s. h (n_conns s cid))) (\<lambda>(d, c). thenE (update_conn cid (\<lambda>_. c)) (g d)))"
proof (rule keepsI)
  fix s assume P: "P s"
  obtain d c where h: "h (n_conns s cid) = (d, c)" by fastforce
  have "P (s\<lparr>n_conns := (n_conns s)(cid := c)\<rparr>)" by (rule p_conn_any [OF P assms(1) [OF P h]])
  from keepsD [OF assms(2) this] h
  show "P (snd (bindE (gets (\<lambda>s. h (n_conns s cid))) (\<lambda>(d, c). thenE (update_conn cid (\<lambda>_. c)) (g d)) s))"
    by (simp add: bindE_gets thenE_run update_conn_def modify_def)
qed

lemma keeps_conn_written [keeps_intros]: "keeps P (conn_written cid ec)"
  unfolding conn_written_def by (intro keeps_conn_handler2 keeps_intros) (use writer_on_written p_writers in blast)

lemma keeps_conn_io_timer [keeps_intros]: "keeps P (conn_io_timer cid)"
  unfolding conn_io_timer_def
proof (rule keeps_conn_handler2)
  fix s d c assume "P s" "on_io_timer (n_conns s cid) = (d, c)"
  then show "writer_wf c" using p_writers [of s cid]
    by (auto simp: on_io_timer_def TcpConnection_close_def writer_wf_def split: if_splits)
qed (intro keeps_intros)

lemma keeps_schedule_purge [keeps_intros]: "keeps P Node_schedule_purge"
  unfolding Node_schedule_purge_def by (intro keeps_intros keeps_modify p_purge_timer)

lemma keeps_schedule_republish [keeps_intros]: "keeps P Node_schedule_republish"
  unfolding Node_schedule_republish_def by (intro keeps_intros keeps_modify p_republish_timer)

lemma keeps_purge_tick [keeps_intros]: "keeps P (purge_tick env)"
  unfolding purge_tick_def
  by (intro keeps_intros keeps_modify p_store store_kept_wf [OF purge_kept] p_records)

lemma keeps_republish_tick [keeps_intros]: "keeps P (republish_tick env)"
  unfolding republish_tick_def by (intro keeps_intros)

lemma keeps_run_timer [keeps_intros]: "keeps P (run_timer env a)"
  unfolding run_timer_def by (cases a) (auto intro!: keeps_intros)

lemma keeps_timers [keeps_intros]: "keeps P (timer_expires t)" "keeps P (timer_runs env t)"
  unfolding timer_expires_def timer_runs_def
  by (auto intro!: keeps_intros keeps_modify p_timers_only split: timer_state.split)

lemma keeps_connect_to_peer [keeps_intros]: "keeps P (Node_connect_to_peer env h p)"
proof (rule keepsI)
  fix s assume P: "P s"
  note P1 = p_tick [OF P, of "n_tick s + 1"]
  have wf: "writer_wf (TcpConnection_configure v m t (TcpConnection_create ep))" for v m t ep
    by (intro writer_wf_configure writer_wf_create)
  note P2 = p_open [OF P1 wf]
  from P1 keepsD [OF keeps_send_ping P2] show "P (snd (Node_connect_to_peer env h p s))"
    by (cases "TcpConnection_connect (e_net env (n_tick s)) h p (connect_timeout_ms (cfg_transport (n_config s)))")
      (simp_all add: Node_connect_to_peer_def tcp_connect_def ask_run new_connection_def update_conn_def
        Node_register_connection_def eff_run)
qed

lemma keeps_on_accept [keeps_intros]: "keeps P (Node_on_accept ep)"
proof (rule keepsI)
  fix s assume P: "P s"
  have wf: "writer_wf (TcpConnection_configure v m t (TcpConnection_create ep))" for v m t
    by (intro writer_wf_configure writer_wf_create)
  from p_open [OF P wf] show "P (snd (Node_on_accept ep s))"
    by (simp add: Node_on_accept_def new_connection_def update_conn_def Node_register_connection_def eff_run)
qed

lemma keeps_accept_completed [keeps_intros]: "keeps P (accept_completed r)"
  unfolding accept_completed_def update_listener_def by (intro keeps_intros keeps_modify p_listener)

lemma keeps_ping_all [keeps_intros]: "keeps P (Node_ping_all env)"
  unfolding Node_ping_all_def by (intro keeps_intros)

lemma keeps_send_find_node [keeps_intros]: "keeps P (Node_send_find_node env cid target)"
  unfolding Node_send_find_node_def by (intro keeps_intros)

lemma keeps_stop [keeps_intros]: "keeps P Node_stop"
  unfolding Node_stop_def by (intro keeps_intros keeps_modify p_stopped p_no_connections)

lemma keeps_peer_reset [keeps_intros]: "keeps P (update_conn cid on_peer_reset)"
  unfolding update_conn_def
  by (intro keeps_modify p_conn_any) (use p_writers in \<open>auto simp: on_peer_reset_def writer_wf_def\<close>)

lemma keeps_use_store [keeps_intros]: "keeps P (use_store env op)"
  unfolding use_store_def by (intro keeps_modify p_store store_exec_wf p_records)

lemma keeps_use_table [keeps_intros]: "keeps P (use_table env u)"
proof -
  have upd: "keeps P (modify (\<lambda>s. s\<lparr>n_routing := g (n_routing s)\<rparr>))"
    if "\<And>rt. RoutingTable_step rt (g rt)" for g
    using RoutingTable_step_params [OF that] RoutingTable_step_wf [OF that p_table]
    by (intro keeps_modify p_routing) auto
  show ?thesis
    unfolding use_table_def by (cases u) (auto intro!: keeps_intros upd RoutingTable_step.intros)
qed

lemma keeps_calm_event:
  assumes "\<And>cid bs. ev \<noteq> BytesRead cid (Read_data bs)"
  shows "keeps P (Node_handle env ev)"
proof -
  have "keeps P (conn_read env cid r)" if "ev = BytesRead cid r" for cid r
  proof -
    have "\<exists>d. \<forall>c. on_read r c = (d, False, c)"
      using assms [of cid] that by (cases r) (auto simp: on_read_def)
    then obtain d where rd: "\<And>c. on_read r c = (d, False, c)" by blast
    have "P (snd (whenE (d \<noteq> None) (Node_on_disconnect cid) s))" if "P s" for s
      using that by (intro keepsD [where P = P]) (intro keeps_intros)
    then show ?thesis
      by (auto simp: keeps_def conn_read_def bindE_gets rd thenE_run update_conn_def modify_def whenE_def [of False] ret_def
          split: prod.splits sum.splits) (metis snd_conv)+
  qed
  then show ?thesis unfolding Node_handle_def by (cases ev) (auto intro!: keeps_intros)
qed

end

locale node_loop = node_calm +
  assumes p_hangs: "\<And>s. P s \<Longrightarrow> P (s\<lparr>n_hangs := True\<rparr>)"
begin

lemma keeps_conn_incoming [keeps_intros]: "keeps P (conn_incoming n env cid)"
proof (induction n)
  case 0
  show ?case by (simp add: keeps_ret)
next
  case (Suc n)
  show ?case
  proof (rule keepsI)
    fix s assume P: "P s"
    obtain i ss c where rd: "process_incoming_round (e_sodium env) (n_sessions s, n_conns s cid) = (i, ss, c)"
      by (cases "process_incoming_round (e_sodium env) (n_sessions s, n_conns s cid)") auto
    have "P (s\<lparr>n_sessions := ss, n_conns := (n_conns s)(cid := c)\<rparr>)"
      using p_conn_any [OF p_sessions_only [OF P, of ss] round_writer [OF rd p_writers [OF P]], of cid] by simp
    moreover have "keeps P (case i of
        Deliver f \<Rightarrow> thenE (Node_on_frame env cid f) (conn_incoming n env cid)
      | Need_more \<Rightarrow> ret ()
      | Dropped d \<Rightarrow> whenE (d \<noteq> None) (Node_on_disconnect cid)
      | Ignored \<Rightarrow> conn_incoming n env cid
      | Thrown e \<Rightarrow> liftE (Inl e)
      | Hangs \<Rightarrow> modify (\<lambda>s. s\<lparr>n_hangs := True\<rparr>))"
      by (cases i) (auto intro!: keeps_intros Suc.IH keeps_modify p_hangs)
    ultimately show "P (snd (conn_incoming (Suc n) env cid s))"
      using rd keepsD by (fastforce simp: bindE_gets thenE_run modify_def)
  qed
qed

lemma keeps_conn_read [keeps_intros]: "keeps P (conn_read env cid r)"
  unfolding conn_read_def
proof (rule keeps_conn_handler)
  fix s d x c assume "P s" "on_read r (n_conns s cid) = (d, x, c)"
  then show "writer_wf c" using p_writers [of s cid]
    by (auto simp: on_read_def writer_wf_def Let_def split: read_result.splits)
qed (intro keeps_intros)

lemma keeps_handle: "keeps P (Node_handle env ev)"
  unfolding Node_handle_def by (cases ev) (auto intro!: keeps_intros)

lemma run_keeps: "P s \<Longrightarrow> P (foldl (\<lambda>s ev. snd (Node_handle env ev s)) s evs)"
  by (rule keeps_foldl [OF keeps_handle])

end

end
