(* ===== verification/Node_Invariant.thy ===== *)
theory Node_Invariant
  imports Node_Frame
begin

text \<open>
  The invariant of a node and what follows from the locales of \<open>Node_Frame\<close>: it holds after every
  sequence of events, the node keeps its identity and configuration, and the recursion bounds of
  lookups, value searches and the read loop are never reached.
\<close>

definition node_inv :: "env \<Rightarrow> Node \<Rightarrow> bool" where
  "node_inv env s \<longleftrightarrow>
     RoutingTable_wf (n_routing s) \<and> (n_started s \<longrightarrow> local_id (n_routing s) = Node_node_id env s \<and> k_param (n_routing s) = config_k s) \<and>
     RecordStore_wf (e_sodium env) (n_store s) \<and>
     (\<forall>L. LookupSession_wf (lo_session (n_lookups s L))) \<and>
     (\<forall>V. LookupSession_wf (fo_session (n_finds s V)) \<and> found_ok (e_sodium env) (fo_found (n_finds s V))) \<and>
     (\<forall>cid. writer_wf (n_conns s cid)) \<and>
     distinct (n_connections s) \<and> (\<forall>cid \<in> set (n_connections s). cid < n_conn_count s) \<and>
     (\<forall>e \<in> set (n_log s). notification_ok (e_sodium env) e)"

text \<open>One interpretation per fact: the invariant alone, and with what each fact adds to it.\<close>

lemma node_inv_loop: "node_loop env (node_inv env)"
  by unfold_locales (auto simp: node_inv_def Node_node_id_def config_k_def conn_ok_def found_ok_def removeAll_filter_not_eq)

interpretation inv: node_loop env "node_inv env" for env
  by (rule node_inv_loop)

lemmas inv_prims = inv.p_tick inv.p_log inv.p_timers inv.p_pending inv.p_pings inv.p_table inv.p_routing inv.p_records
  inv.p_store inv.p_lookup_wf inv.p_lookup_new inv.p_lookup_set inv.p_publish inv.p_find_wf inv.p_find_new inv.p_find_set
  inv.p_sessions inv.p_conn inv.p_open inv.p_disconnect inv.p_seq inv.p_alias inv.p_lookup_any inv.p_find_any
  inv.p_conn_any inv.p_writers inv.p_purge_timer inv.p_republish_timer inv.p_stopped inv.p_hangs inv.p_no_connections inv.p_listener
  inv.p_lookup_new [simplified] inv.p_find_new [simplified] inv.p_open [simplified]

definition same_node :: "env \<Rightarrow> Config \<Rightarrow> Keypair \<Rightarrow> bool \<Rightarrow> Node \<Rightarrow> bool" where
  "same_node env cfg kp st s \<longleftrightarrow> node_inv env s \<and> n_config s = cfg \<and> n_keypair s = kp \<and> n_started s = st"

interpretation same: node_loop env "same_node env cfg kp st" for env cfg kp st
  by unfold_locales (auto simp: same_node_def inv_prims)

definition parser_kept :: "env \<Rightarrow> conn_ref \<Rightarrow> FrameParser \<Rightarrow> Node \<Rightarrow> bool" where
  "parser_kept env cid p s \<longleftrightarrow> node_inv env s \<and> cid < n_conn_count s \<and> tc_parser (n_conns s cid) = p"

interpretation buf: node_frame env "parser_kept env cid p" for env cid p
  by unfold_locales (auto simp: parser_kept_def inv_prims conn_ok_def)

text \<open>Whether the node hangs is changed by reads alone.\<close>

definition calm :: "env \<Rightarrow> bool \<Rightarrow> Node \<Rightarrow> bool" where
  "calm env h s \<longleftrightarrow> node_inv env s \<and> n_hangs s = h"

interpretation calm: node_calm env "calm env h" for env h
  by unfold_locales (auto simp: calm_def inv_prims)

definition lookup_bounded :: "env \<Rightarrow> nat \<Rightarrow> nat \<Rightarrow> Node \<Rightarrow> bool" where
  "lookup_bounded env L b s \<longleftrightarrow> node_inv env s \<and> L < n_lookup_count s \<and> unqueried_count (lo_session (n_lookups s L)) \<le> b"

interpretation lk: node_prims env "lookup_bounded env L b" for env L b
  by unfold_locales (auto simp: lookup_bounded_def inv_prims)

definition find_bounded :: "env \<Rightarrow> nat \<Rightarrow> nat \<Rightarrow> Node \<Rightarrow> bool" where
  "find_bounded env V b s \<longleftrightarrow> node_inv env s \<and> V < n_find_count s \<and> unqueried_count (fo_session (n_finds s V)) \<le> b"

interpretation fd: node_prims env "find_bounded env V b" for env V b
  by unfold_locales (auto simp: find_bounded_def inv_prims)

section \<open>Recursion bounds\<close>

lemma bindE_cong:
  "keeps P m \<Longrightarrow> P s \<Longrightarrow> (\<And>x s. P s \<Longrightarrow> f x s = g x s) \<Longrightarrow> bindE m f s = bindE m g s"
  by (auto simp: bindE_def split: prod.split sum.split dest!: keepsD)

lemma thenE_cong:
  "keeps P m \<Longrightarrow> P s \<Longrightarrow> (\<And>s. P s \<Longrightarrow> f s = g s) \<Longrightarrow> thenE m f s = thenE m g s"
  unfolding thenE_def by (rule bindE_cong)

lemma forE_cong:
  "(\<And>x. keeps P (f x)) \<Longrightarrow> P s \<Longrightarrow> (\<And>x s. P s \<Longrightarrow> f x s = g x s) \<Longrightarrow> forE xs f s = forE xs g s"
proof (induction xs arbitrary: s)
  case (Cons x xs)
  have "thenE (f x) (forE xs f) s = thenE (f x) (forE xs g) s"
    using Cons.prems Cons.IH by (intro thenE_cong [where P = P]) blast+
  also have "\<dots> = thenE (g x) (forE xs g) s" using Cons.prems by (simp add: thenE_run)
  finally show ?case by simp
qed simp

lemma lookup_step_fuel:
  assumes fin: "\<And>b ps m. keeps (lookup_bounded env L b) (finish ps m)"
    and "lookup_bounded env L u s" "u < n" "u < n'"
  shows "lookup_step n env finish L s = lookup_step n' env finish L s"
  using assms(2-)
proof (induction n arbitrary: n' s u)
  case (Suc n)
  then obtain m where n': "n' = Suc m" by (cases n') auto
  let ?ls = "lo_session (n_lookups s L)"
  obtain qs ls1 where pick: "LookupSession_pick_next_queries ?ls = (qs, ls1)" by fastforce
  let ?s1 = "s\<lparr>n_lookups := (n_lookups s)(L := (n_lookups s L)\<lparr>lo_session := ls1\<rparr>)\<rparr>"
  let ?body = "\<lambda>k peer. bindE (connection_for env peer) (\<lambda>conn. case conn of
            None \<Rightarrow> thenE (lookup_failure env L (peer_node_id peer)) (lookup_step k env finish L)
          | Some cid \<Rightarrow> query_find_node env L (peer_node_id peer) cid)"
  note pk = pick_unqueried [OF pick]
  have "forE qs (?body n) ?s1 = forE qs (?body m) ?s1" if "qs \<noteq> []"
  proof -
    let ?P = "lookup_bounded env L (unqueried_count ls1)"
    have lt: "unqueried_count ls1 < n" "unqueried_count ls1 < m"
      using pk that Suc.prems n' by (auto simp: lookup_bounded_def neq_Nil_conv)
    have P1: "?P ?s1" using Suc.prems(1) pk by (auto simp: lookup_bounded_def inv.p_lookup_set inv.p_lookup_wf)
    have step: "lookup_step n env finish L s' = lookup_step m env finish L s'" if "?P s'" for s'
      using that lt by (rule Suc.IH)
    have "?body n peer s' = ?body m peer s'" if "?P s'" for peer s'
      using that by (intro bindE_cong [where P = ?P] lk.keeps_connection_for)
        (auto split: option.split intro!: thenE_cong [where P = ?P] lk.keeps_lookup_failure step)
    then show ?thesis
      by (intro forE_cong [where P = ?P] keeps_intros fin P1 lk.keeps_connection_for lk.keeps_lookup_failure
          lk.keeps_lookup_step lk.keeps_query_find_node)
  qed
  then show ?case
    using pick by (simp add: n' bindE_gets thenE_run set_lookup_def modify_def)
qed simp

lemma find_step_fuel:
  assumes "find_bounded env V u s" "u < n" "u < n'"
  shows "find_step n env V s = find_step n' env V s"
  using assms
proof (induction n arbitrary: n' s u)
  case (Suc n)
  then obtain m where n': "n' = Suc m" by (cases n') auto
  let ?fo = "n_finds s V"
  obtain qs ls1 where pick: "LookupSession_pick_next_queries (fo_session ?fo) = (qs, ls1)" by fastforce
  let ?s1 = "s\<lparr>n_finds := (n_finds s)(V := ?fo\<lparr>fo_session := ls1\<rparr>)\<rparr>"
  let ?body = "\<lambda>k peer. bindE (connection_for env peer) (\<lambda>conn. case conn of
            None \<Rightarrow> thenE (find_failure env V (peer_node_id peer)) (find_step k env V)
          | Some cid \<Rightarrow> query_find_value env V (peer_node_id peer) cid)"
  note pk = pick_unqueried [OF pick]
  have "forE qs (?body n) ?s1 = forE qs (?body m) ?s1" if "qs \<noteq> []"
  proof -
    let ?P = "find_bounded env V (unqueried_count ls1)"
    have lt: "unqueried_count ls1 < n" "unqueried_count ls1 < m"
      using pk that Suc.prems n' by (auto simp: find_bounded_def neq_Nil_conv)
    have inv: "node_inv env s" using Suc.prems(1) by (simp add: find_bounded_def)
    have "node_inv env ?s1"
      using pk inv.p_find_wf [OF inv, of V] by (intro inv.p_find_set inv) simp_all
    then have P1: "?P ?s1" using Suc.prems(1) by (simp add: find_bounded_def)
    have step: "find_step n env V s' = find_step m env V s'" if "?P s'" for s'
      using that lt by (rule Suc.IH)
    have "?body n peer s' = ?body m peer s'" if "?P s'" for peer s'
      using that by (intro bindE_cong [where P = ?P] fd.keeps_connection_for)
        (auto split: option.split intro!: thenE_cong [where P = ?P] fd.keeps_find_failure step)
    then show ?thesis
      by (intro forE_cong [where P = ?P] keeps_intros P1 fd.keeps_connection_for fd.keeps_find_failure
          fd.keeps_find_step fd.keeps_query_find_value)
  qed
  then show ?case
    using pick by (simp add: n' bindE_gets thenE_run update_find_def modify_def split: option.split)
qed simp

text \<open>
  The read loop stops early for good only when the session of the connection hangs on a frame: the
  connection and the session are then as the frame found them.
\<close>

definition hang_cause :: "conn_ref \<Rightarrow> Node \<Rightarrow> bool" where
  "hang_cause cid s \<longleftrightarrow> (\<exists>r g. tc_session (n_conns s cid) = Some r \<and> hangs_on (n_sessions s r) g)"

lemma round_hangs:
  assumes "process_incoming_round so (ss, c) = (Hangs, ss', c')"
  shows "\<exists>r g. tc_session c' = Some r \<and> hangs_on (ss' r) g"
  using assms
  by (auto simp: process_incoming_round_def drop_connection_def session_active_iff Let_def
      split: prod.splits sum.splits option.splits if_splits)
    (use decrypt_frame_hangs in blast)

lemma conn_incoming_hangs:
  assumes "node_inv env s" "n_hangs (snd (conn_incoming n env cid s))"
  shows "n_hangs s \<or> hang_cause cid (snd (conn_incoming n env cid s))"
  using assms
proof (induction n arbitrary: s)
  case (Suc n)
  obtain i ss c where rd: "process_incoming_round (e_sodium env) (n_sessions s, n_conns s cid) = (i, ss, c)"
    by (cases "process_incoming_round (e_sodium env) (n_sessions s, n_conns s cid)") auto
  let ?s1 = "s\<lparr>n_sessions := ss, n_conns := (n_conns s)(cid := c)\<rparr>"
  have "node_inv env ?s1"
    using inv.p_conn_any [OF inv.p_sessions_only [OF Suc.prems(1), of ss] round_writer [OF rd inv.p_writers [OF Suc.prems(1)]], of cid]
    by simp
  then have calm1: "calm env (n_hangs s) ?s1" by (simp add: calm_def)
  show ?case
  proof (cases i)
    case (Deliver f)
    have "calm env (n_hangs s) (snd (Node_on_frame env cid f ?s1))" by (rule keepsD [OF calm.keeps_on_frame calm1])
    then have s2: "node_inv env (snd (Node_on_frame env cid f ?s1))" "n_hangs (snd (Node_on_frame env cid f ?s1)) = n_hangs s"
      by (simp_all add: calm_def)
    from Suc.prems(2) Suc.IH [OF s2(1)] s2(2) rd show ?thesis
      by (auto simp: Deliver bindE_gets thenE_run modify_def split: prod.splits sum.splits)
  next
    case Ignored
    with Suc.prems(2) Suc.IH [of ?s1] calm1 rd show ?thesis by (simp add: calm_def bindE_gets thenE_run modify_def)
  next
    case Hangs
    with rd round_hangs [of "e_sodium env" "n_sessions s" "n_conns s cid" ss c] show ?thesis
      by (auto simp: hang_cause_def bindE_gets thenE_run modify_def)
  next
    case (Dropped d)
    have "calm env (n_hangs s) (snd (whenE (d \<noteq> None) (Node_on_disconnect cid) ?s1))"
      by (rule keepsD [where P = "calm env (n_hangs s)"]) (intro keeps_intros calm.keeps_on_disconnect, rule calm1)
    with Suc.prems(2) rd show ?thesis by (simp add: Dropped calm_def bindE_gets thenE_run modify_def)
  qed (use Suc.prems(2) rd in \<open>simp_all add: bindE_gets thenE_run modify_def ret_def liftE_def\<close>)
qed (simp add: ret_def)

lemma event_hangs:
  assumes "node_inv env s" "n_hangs (snd (Node_handle env ev s))"
  shows "n_hangs s \<or> (\<exists>cid bs. ev = BytesRead cid (Read_data bs) \<and> hang_cause cid (snd (Node_handle env ev s)))"
proof (cases "\<exists>cid bs. ev = BytesRead cid (Read_data bs)")
  case False
  with keepsD [OF calm.keeps_calm_event, of ev env "n_hangs s" s] assms show ?thesis by (auto simp: calm_def)
next
  case True
  then obtain cid bs where ev: "ev = BytesRead cid (Read_data bs)" by blast
  let ?c = "(reset_io_timer (n_conns s cid))\<lparr>tc_parser := FrameParser_feed bs (tc_parser (n_conns s cid))\<rparr>"
  let ?s1 = "s\<lparr>n_conns := (n_conns s)(cid := ?c)\<rparr>"
  have "writer_wf ?c" using inv.p_writers [OF assms(1), of cid] by (simp add: writer_wf_def)
  from inv.p_conn_any [OF assms(1) this] have inv1: "node_inv env ?s1" by simp
  have run: "Node_handle env ev s = (if n_hangs s \<or> n_stopped s then (Inr (), s)
      else conn_incoming (Suc (length (fp_buffer (tc_parser ?c)))) env cid ?s1)"
    by (simp add: ev Node_handle_def conn_read_def on_read_def update_conn_def bindE_gets thenE_run modify_def whenE_run ret_def Let_def
        del: conn_incoming.simps)
  show ?thesis
    using conn_incoming_hangs [OF inv1] assms(2) unfolding run by (auto simp: ev split: if_splits simp del: conn_incoming.simps)
qed

lemma conn_incoming_fuel:
  assumes "node_inv env s" "cid < n_conn_count s" "length (fp_buffer (tc_parser (n_conns s cid))) < n"
    "length (fp_buffer (tc_parser (n_conns s cid))) < n'"
  shows "conn_incoming n env cid s = conn_incoming n' env cid s"
  using assms
proof (induction n arbitrary: n' s)
  case (Suc n)
  then obtain m where n': "n' = Suc m" by (cases n') auto
  obtain i ss c where rd: "process_incoming_round (e_sodium env) (n_sessions s, n_conns s cid) = (i, ss, c)"
    by (cases "process_incoming_round (e_sodium env) (n_sessions s, n_conns s cid)") auto
  let ?s1 = "s\<lparr>n_sessions := ss, n_conns := (n_conns s)(cid := c)\<rparr>"
  have inv1: "node_inv env ?s1"
    using inv.p_conn_any [OF inv.p_sessions_only [OF Suc.prems(1), of ss] round_writer [OF rd inv.p_writers [OF Suc.prems(1)]], of cid]
    by simp
  have kept: "parser_kept env cid (tc_parser c) ?s1" using inv1 Suc.prems(2) by (simp add: parser_kept_def)
  have cont: "conn_incoming n env cid s' = conn_incoming m env cid s'"
    if "parser_kept env cid (tc_parser c) s'" "i = Ignored \<or> (\<exists>f. i = Deliver f)" for s'
    using that round_consumes [OF rd] Suc.prems(3,4) n' by (intro Suc.IH) (auto simp: parser_kept_def)
  show ?case
    using rd cont [OF kept]
    by (cases i) (auto simp: n' bindE_gets thenE_run modify_def
        intro!: thenE_cong [OF buf.keeps_on_frame kept, unfolded thenE_run] cont)
qed simp

end
