(* ===== verification/Node_Spec.thy ===== *)
theory Node_Spec
  imports Node_Invariant
begin

text \<open>
  The properties of a running node.
\<close>

section \<open>Reachable states\<close>

inductive node_reachable :: "env \<Rightarrow> filesystem \<Rightarrow> Config \<Rightarrow> Node \<Rightarrow> bool" for env fs cfg where
  started: "Node_start env fs (Node_new cfg) = (Inr (), s) \<Longrightarrow> node_reachable env fs cfg s"
| event: "node_reachable env fs cfg s \<Longrightarrow> node_reachable env fs cfg (snd (Node_handle env ev s))"

lemma node_inv_new: "node_inv env (Node_new cfg)"
  by (simp add: node_inv_def Node_new_def RoutingTable_wf_new RecordStore_wf_new LookupSession_wf_new found_ok_def writer_wf_create)

lemma bindE_Inr: "bindE m f s = (Inr y, s') \<longleftrightarrow> (\<exists>x s1. m s = (Inr x, s1) \<and> f x s1 = (Inr y, s'))"
  by (auto simp: bindE_def split: prod.splits sum.splits)

lemma thenE_Inr: "thenE m n s = (Inr y, s') \<longleftrightarrow> (\<exists>x s1. m s = (Inr x, s1) \<and> n s1 = (Inr y, s'))"
  by (simp add: thenE_def bindE_Inr)

lemma RoutingTable_new_params: "local_id (RoutingTable_new nid k) = nid" "k_param (RoutingTable_new nid k) = k"
  by (simp_all add: RoutingTable_new_def)

lemma Node_start_same:
  assumes "Node_start env fs (Node_new cfg) = (Inr (), s)"
  shows "\<exists>kp. same_node env cfg kp True s"
proof -
  let ?rest = "bindE (gets (\<lambda>s. TcpListener_create (e_bind env (listen_address (cfg_node (n_config s))) (listen_port (cfg_node (n_config s)))))) (\<lambda>bound.
        bindE (liftE bound) (\<lambda>l.
        thenE (modify (\<lambda>s. s\<lparr>n_listener := Some (TcpListener_start l)\<rparr>))
        (thenE (forE (cfg_peers cfg) (\<lambda>p. bindE (liftE (parse_bootstrap_peer p)) (\<lambda>parsed. case parsed of
                 None \<Rightarrow> ret ()
               | Some (h, prt) \<Rightarrow> Node_connect_to_peer env h prt)))
        (thenE (whenE (cfg_peers cfg \<noteq> []) (bindE (new_timer BootstrapLookup) (\<lambda>_. ret ())))
         (thenE Node_schedule_purge Node_schedule_republish)))))"
  let ?s1 = "\<lambda>kp. (Node_new cfg)\<lparr>n_tick := 1, n_keypair := kp, n_started := True, n_store := RecordStore_new,
      n_routing := RoutingTable_new (Keypair_node_id (e_sodium env) kp) (config_k ((Node_new cfg)\<lparr>n_tick := 1\<rparr>))\<rparr>"
  have rest: "keeps (same_node env cfg kp True) ?rest" for kp
    by (intro keeps_intros keeps_modify same.p_listener same.keeps_connect_to_peer same.keeps_new_timer same.keeps_schedule_purge same.keeps_schedule_republish)
  have fields: "n_config (Node_new cfg) = cfg" "n_tick (Node_new cfg) = 0" by (simp_all add: Node_new_def)
  obtain kp where "?rest (?s1 kp) = (Inr (), s)"
    using assms fields
    by (auto simp: Node_start_def bindE_gets ask_run bindE_Inr [of "ask _"] bindE_Inr [of "liftE loaded" for loaded :: "Keypair throwing"] thenE_Inr [of "modify _"]
        modify_def liftE_def split: if_splits)
  moreover have "same_node env cfg kp True (?s1 kp)"
    using node_inv_new [of env cfg]
    using RoutingTable_new_params
    by (simp add: same_node_def node_inv_def Node_new_def RoutingTable_wf_new Node_node_id_def config_k_def)
  ultimately show ?thesis using keepsD [OF rest, of kp "?s1 kp"] by auto
qed

lemma reachable_same: "node_reachable env fs cfg s \<Longrightarrow> \<exists>kp. same_node env cfg kp True s"
proof (induction rule: node_reachable.induct)
  case (event s ev)
  then show ?case using keepsD [OF same.keeps_handle] by blast
qed (rule Node_start_same)

lemma reachable_inv: "node_reachable env fs cfg s \<Longrightarrow> node_inv env s"
  using reachable_same by (fastforce simp: same_node_def)

text \<open>A node for concrete runs: no peer can be reached, and every clock stands still.\<close>

definition unreachable_net :: tcp_os where
  "unreachable_net = \<lparr>os_resolve = (\<lambda>_ _. None), os_open = (\<lambda>_ _. None), os_connect = (\<lambda>_ _. None),
     os_poll = (\<lambda>_ _ _. 0), os_so_error = (\<lambda>_ _. 0)\<rparr>"

definition test_env :: "json \<Rightarrow> json \<Rightarrow> env" where
  "test_env j1 j2 = \<lparr>e_sodium = toy_sodium, e_json = toy_json2 j1 j2, e_rid = (\<lambda>n. barray_of [word_of_nat n]),
     e_rand = (\<lambda>n. barray_of [5]), e_now = (\<lambda>_. 100), e_clock = (\<lambda>_. 1), e_net = (\<lambda>_. unreachable_net), e_bind = (\<lambda>_ p. Some p)\<rparr>"

definition test_node :: "env \<Rightarrow> Node" where
  "test_node env = snd (Node_start env test_fs (Node_new Config_default))"

lemma test_node_start: "Node_start (test_env j1 j2) test_fs (Node_new Config_default) = (Inr (), test_node (test_env j1 j2))"
  by (simp add: test_node_def Node_start_def eff_run ask_run Node_new_def Config_default_def test_env_def
      toy_sodium_def Keypair_load_or_generate_def Keypair_load_def fs_exists_def Keypair_generate_def Keypair_save_def
      test_fs_def write_file_def Node_schedule_purge_def Node_schedule_republish_def new_timer_def TcpListener_create_def)

lemma test_node_reachable: "node_reachable (test_env j1 j2) test_fs Config_default (test_node (test_env j1 j2))"
  by (rule node_reachable.started [OF test_node_start])

text \<open>
  C4. Whatever arrives on its connections, whichever timers fire and whatever the application calls, in
  any order, a started node keeps its configuration and its key pair; its routing table is one for
  its own identifier, has at most \<open>k\<close> contacts in a bucket, no identifier twice and never its own;
  every record in its store, and every record it reports to the application as the result of a
  search, has a verified signature; and no connection is registered twice.
\<close>

theorem Node_reachable_invariant:
  assumes "node_reachable env fs cfg s"
  shows "n_config s = cfg \<and> (\<forall>ev. n_keypair (snd (Node_handle env ev s)) = n_keypair s) \<and>
    local_id (n_routing s) = Node_node_id env s \<and>
    (\<forall>b \<in> set (buckets (n_routing s)). length (contacts b) \<le> config_k s) \<and>
    distinct (map peer_node_id (RoutingTable_peers (n_routing s))) \<and>
    Node_node_id env s \<notin> peer_node_id ` set (RoutingTable_peers (n_routing s)) \<and>
    (\<forall>(key, r) \<in> set (records (n_store s)). NodeRecord_verify_signature (e_sodium env) r) \<and>
    (\<forall>r m. FindDone (Some r) m \<in> set (n_log s) \<longrightarrow> NodeRecord_verify_signature (e_sodium env) r) \<and>
    distinct (n_connections s)"
proof -
  obtain kp where same: "same_node env cfg kp True s" using reachable_same [OF assms] by blast
  then have inv: "node_inv env s" and wf: "RoutingTable_wf (n_routing s)"
    and lid: "local_id (n_routing s) = Node_node_id env s" and k: "k_param (n_routing s) = config_k s"
    by (auto simp: same_node_def node_inv_def)
  have "length (contacts b) \<le> config_k s" if "b \<in> set (buckets (n_routing s))" for b
  proof -
    have "KBucket_wf b" using wf that unfolding RoutingTable_wf_def kb.table_ok_def in_set_conv_nth by metis
    moreover have "capacity b = config_k s" using wf that k by (simp add: RoutingTable_wf_def)
    ultimately show ?thesis by (simp add: KBucket_wf_def)
  qed
  moreover have "\<forall>ev. n_keypair (snd (Node_handle env ev s)) = n_keypair s"
    using same keepsD [OF same.keeps_handle same] by (auto simp: same_node_def)
  moreover have "Node_node_id env s \<notin> peer_node_id ` set (RoutingTable_peers (n_routing s))"
    using RoutingTable_no_self [OF wf] lid by (metis imageE)
  moreover have "NodeRecord_verify_signature (e_sodium env) r" if "FindDone (Some r) m \<in> set (n_log s)" for r m
    using inv that by (fastforce simp: node_inv_def notification_ok_def found_ok_def)
  moreover have "\<forall>(key, r) \<in> set (records (n_store s)). NodeRecord_verify_signature (e_sodium env) r"
    using inv by (auto simp: node_inv_def RecordStore_wf_def)
  ultimately show ?thesis
    using same inv lid RoutingTable_peers_distinct [OF wf] by (auto simp: same_node_def node_inv_def)
qed

theorem Node_reachable_invariant_witness:
  "n_config (test_node (test_env JNull JNull)) = Config_default \<and> distinct (n_connections (test_node (test_env JNull JNull)))"
  using Node_reachable_invariant [OF test_node_reachable] by blast


definition test_busy :: "env \<Rightarrow> Node" where
  "test_busy env = foldl (\<lambda>s ev. snd (Node_handle env ev s)) (test_node env)
     [Accepted (Accept_ok (''10.0.0.1'', 4000)), CallFindValue (barray_of [8]), CallLookup (barray_of [9])]"

lemma reachable_run: "node_reachable env fs cfg s \<Longrightarrow> node_reachable env fs cfg (foldl (\<lambda>s ev. snd (Node_handle env ev s)) s evs)"
  by (induction evs arbitrary: s) (auto intro: node_reachable.event)

lemma test_busy_reachable: "node_reachable (test_env j1 j2) test_fs Config_default (test_busy (test_env j1 j2))"
  unfolding test_busy_def by (intro reachable_run test_node_reachable)

lemma closest_new: "RoutingTable_find_closest t n (RoutingTable_new nid k) = []"
proof -
  have "RoutingTable_peers (RoutingTable_new nid k) = []"
    by (simp add: RoutingTable_peers_def RoutingTable_new_def KBucket_new_def KBucket_get_peers_def)
  with set_find_closest [of t n "RoutingTable_new nid k"] show ?thesis by simp
qed

lemma test_node_fields:
  "n_routing (test_node (test_env j1 j2)) = RoutingTable_new (Keypair_node_id toy_sodium (n_keypair (test_node (test_env j1 j2)))) 4"
  "n_started (test_node (test_env j1 j2))" "\<not> n_stopped (test_node (test_env j1 j2))" "\<not> n_hangs (test_node (test_env j1 j2))"
  "n_config (test_node (test_env j1 j2)) = Config_default" "n_store (test_node (test_env j1 j2)) = RecordStore_new"
  "n_conn_count (test_node (test_env j1 j2)) = 0" "n_lookup_count (test_node (test_env j1 j2)) = 0"
  "n_find_count (test_node (test_env j1 j2)) = 0" "n_log (test_node (test_env j1 j2)) = []" "n_connections (test_node (test_env j1 j2)) = []"
  "n_pending_requests (test_node (test_env j1 j2)) = Map.empty" "n_pending_pings (test_node (test_env j1 j2)) = Map.empty"
  "n_tick (test_node (test_env j1 j2)) = 1"
  "n_listener (test_node (test_env j1 j2)) = Some \<lparr>tl_open = True, tl_port = 9000, tl_running = True, tl_accepting = True\<rparr>"
  by (simp_all add: test_node_def Node_start_def eff_run ask_run Node_new_def Config_default_def test_env_def
        toy_sodium_def Keypair_load_or_generate_def Keypair_load_def fs_exists_def Keypair_generate_def Keypair_save_def
        test_fs_def write_file_def Node_schedule_purge_def Node_schedule_republish_def new_timer_def TcpListener_create_def TcpListener_start_def do_accept_def config_k_def to_size_t_def)

lemma new_session_ready:
  "sodium_ready (e_sodium env) \<Longrightarrow> \<exists>ls. new_session env t s = (Inr ls, s\<lparr>n_tick := n_tick s + 2\<rparr>) \<and> LookupSession_wf ls"
  by (simp add: new_session_def generate_request_id_def RequestID_generate_def sodium_ready_def ask_run eff_run LookupSession_wf_new)

lemma lookup_starts:
  assumes "node_inv env s" "\<not> n_stopped s" "\<not> n_hangs s" "sodium_ready (e_sodium env)"
  shows "n_lookup_count s < n_lookup_count (snd (Node_handle env (CallLookup t) s))"
proof -
  obtain ls where ns: "new_session env t s = (Inr ls, s\<lparr>n_tick := n_tick s + 2\<rparr>)" "LookupSession_wf ls"
    using new_session_ready [OF assms(4)] by metis
  let ?L = "n_lookup_count s" and ?s1 = "s\<lparr>n_tick := n_tick s + 2\<rparr>"
  let ?ls = "LookupSession_add_candidates (initial_candidates t ?s1) ls"
  let ?s2 = "?s1\<lparr>n_lookups := (n_lookups s)(?L := \<lparr>lo_session = ?ls, lo_callback = NotifyLookup\<rparr>), n_lookup_count := ?L + 1\<rparr>"
  have "lookup_bounded env ?L (unqueried_count ?ls) ?s2"
    using inv.p_lookup_new [OF inv.p_tick [OF assms(1)], of "\<lparr>lo_session = ?ls, lo_callback = NotifyLookup\<rparr>" "n_tick s + 2"]
    by (simp add: lookup_bounded_def wf_add_candidates ns(2))
  from keepsD [OF lk.keeps_lookup_run this] lk.keeps_lookup_done
  have "?L < n_lookup_count (snd (lookup_run env (lookup_done env NotifyLookup) ?L ?s2))" by (auto simp: lookup_bounded_def)
  with assms(2,3) ns(1) show ?thesis
    by (simp add: Node_handle_def Node_async_lookup_def bindE_gets bindE_def thenE_run modify_def gets_def)
qed

lemma find_starts:
  assumes "node_inv env s" "\<not> n_stopped s" "\<not> n_hangs s" "sodium_ready (e_sodium env)"
    and "fst (RecordStore_get key (e_now env (n_tick s)) (n_store s)) = None"
  shows "n_find_count s < n_find_count (snd (Node_handle env (CallFindValue key) s))"
proof -
  let ?V = "n_find_count s" and ?st = "snd (RecordStore_get key (e_now env (n_tick s)) (n_store s))"
  let ?s0 = "s\<lparr>n_tick := n_tick s + 1, n_store := ?st\<rparr>" and ?s1 = "s\<lparr>n_tick := n_tick s + 3, n_store := ?st\<rparr>"
  obtain ls where ns: "new_session env key ?s0 = (Inr ls, ?s1)" "LookupSession_wf ls"
    using new_session_ready [OF assms(4), of key ?s0] by auto
  let ?fo = "\<lparr>fo_session = LookupSession_add_candidates (initial_candidates key ?s1) ls, fo_key = key, fo_found = None, fo_finished = False\<rparr>"
  let ?s2 = "?s1\<lparr>n_finds := (n_finds s)(?V := ?fo), n_find_count := ?V + 1\<rparr>"
  have "node_inv env ?s1"
    using inv.p_store [OF inv.p_tick [OF assms(1), of "n_tick s + 3"], of ?st] store_kept_wf [OF get_kept inv.p_records [OF assms(1)]]
      inv.p_records [OF assms(1)] by (simp add: RecordStore_wf_def)
  from inv.p_find_new [OF this, of ?fo] have "find_bounded env ?V (unqueried_count (fo_session ?fo)) ?s2"
    by (simp add: find_bounded_def wf_add_candidates ns(2))
  from keepsD [OF fd.keeps_find_run this] have "?V < n_find_count (snd (find_run env ?V ?s2))" by (auto simp: find_bounded_def)
  moreover have "store_get key (e_now env (n_tick s)) (s\<lparr>n_tick := n_tick s + 1\<rparr>) = (Inr None, ?s0)"
    using assms(5) by (simp add: store_get_run)
  ultimately show ?thesis
    using assms(2,3) ns(1)
    by (simp add: Node_handle_def Node_async_find_value_def bindE_gets bindE_def thenE_run modify_def gets_def ask_run)
qed

text \<open>Objects are never deleted, so a reference that a callback keeps stays valid.\<close>

definition has_objects :: "env \<Rightarrow> nat \<Rightarrow> nat \<Rightarrow> nat \<Rightarrow> Node \<Rightarrow> bool" where
  "has_objects env c l v s \<longleftrightarrow> node_inv env s \<and> c \<le> n_conn_count s \<and> l \<le> n_lookup_count s \<and> v \<le> n_find_count s"

interpretation obj: node_loop env "has_objects env c l v" for env c l v
  by unfold_locales (auto simp: has_objects_def inv_prims)

text \<open>Lookups and searches neither stop the node nor make it hang.\<close>

definition running :: "env \<Rightarrow> Node \<Rightarrow> bool" where
  "running env s \<longleftrightarrow> node_inv env s \<and> \<not> n_stopped s \<and> \<not> n_hangs s"

interpretation run: node_prims env "running env" for env
  by unfold_locales (auto simp: running_def inv_prims)

lemma find_adds:
  assumes "has_objects env c l v s" "running env s" "sodium_ready (e_sodium env)"
    and "fst (RecordStore_get key (e_now env (n_tick s)) (n_store s)) = None"
  shows "has_objects env c l 1 (snd (Node_handle env (CallFindValue key) s))"
  using keepsD [OF obj.keeps_handle, OF assms(1), of "CallFindValue key"] find_starts [of env s key] assms(2-4)
  by (auto simp: has_objects_def running_def)

lemma lookup_adds:
  assumes "has_objects env c l v s" "running env s" "sodium_ready (e_sodium env)"
  shows "has_objects env c 1 v (snd (Node_handle env (CallLookup t) s))"
  using keepsD [OF obj.keeps_handle, OF assms(1), of "CallLookup t"] lookup_starts [of env s t] assms(2,3)
  by (auto simp: has_objects_def running_def)

lemma find_keeps_running: "running env s \<Longrightarrow> running env (snd (Node_handle env (CallFindValue key) s))"
  using keepsD [OF run.keeps_async_find_value, of env s key] by (simp add: Node_handle_def bindE_gets running_def)

lemma test_busy_counts:
  "0 < n_lookup_count (test_busy (test_env j1 j2))" "0 < n_find_count (test_busy (test_env j1 j2))"
  "0 < n_conn_count (test_busy (test_env j1 j2))"
proof -
  let ?env = "test_env j1 j2" and ?step = "\<lambda>ev s. snd (Node_handle (test_env j1 j2) ev s)"
  let ?s0 = "test_node ?env"
  let ?s1 = "?step (Accepted (Accept_ok (''10.0.0.1'', 4000))) ?s0"
  let ?s2 = "?step (CallFindValue (barray_of [8])) ?s1"
  have ready: "sodium_ready (e_sodium ?env)" using toy_sodium_ready by (simp add: test_env_def)
  have inv0: "node_inv ?env ?s0" using reachable_inv [OF test_node_reachable] .
  have s1: "\<not> n_stopped ?s1" "\<not> n_hangs ?s1" "n_store ?s1 = RecordStore_new" "n_conn_count ?s1 = 1"
    using test_node_fields [of j1 j2]
    by (simp_all add: Node_handle_def bindE_gets accept_completed_def on_accepted_def update_listener_def Node_on_accept_def
        new_connection_def Node_register_connection_def update_conn_def eff_run)
  have run1: "running ?env ?s1" using keepsD [OF inv.keeps_handle inv0] s1 by (simp add: running_def)
  have run2: "running ?env ?s2" by (rule find_keeps_running [OF run1])
  have "has_objects ?env 1 0 0 ?s1" using run1 s1 by (simp add: has_objects_def running_def)
  from find_adds [OF this run1 ready, of "barray_of [8]"] s1(3)
  have "has_objects ?env 1 0 1 ?s2" by (simp add: RecordStore_get_def RecordStore_new_def)
  from lookup_adds [OF this run2 ready, of "barray_of [9]"]
  have "has_objects ?env 1 1 1 (test_busy ?env)" by (simp add: test_busy_def)
  then show "0 < n_lookup_count (test_busy ?env)" "0 < n_find_count (test_busy ?env)" "0 < n_conn_count (test_busy ?env)"
    by (simp_all add: has_objects_def)
qed


section \<open>Accepting connections\<close>

text \<open>
  A failed accept, of whatever kind, is the last one: the listener still counts as running, but waits
  for no further connection.
\<close>

lemma accept_error_final:
  assumes "n_listener s = Some l" "tl_running l" "tl_accepting l"
  shows "\<exists>l'. n_listener (snd (accept_completed Accept_failed s)) = Some l' \<and> tl_running l' \<and>
    (\<forall>r. accept_completed r (snd (accept_completed Accept_failed s)) = (Inr (), snd (accept_completed Accept_failed s)))"
  using assms by (simp add: accept_completed_def on_accepted_def update_listener_def eff_run)

end
