(* ===== verification/Secure_Channel.thy ===== *)
theory Secure_Channel
  imports Secure_Session
begin

text \<open>
  Two active sessions with matching keys as a channel that an adversary controls: it may drop, reorder,
  repeat, alter and invent frames. If it cannot forge ChaCha20-Poly1305 ciphertexts, the frames
  that \<^verbatim>\<open>decrypt_frame\<close> accepts are frames that \<^verbatim>\<open>encrypt_frame\<close> was given, each at most as often as it
  was sent, with version, type, flags, request id and payload as sent.
\<close>

section \<open>What is sealed and what is opened\<close>

text \<open>The arguments of the AEAD calls that belong to a sealed frame, apart from the key.\<close>

definition aead_input :: "Frame \<Rightarrow> bytes \<times> bytes \<times> 12 barray" where
  "aead_input g = (drop 8 (frame_payload g), bytes_of (build_frame_aad g (of_nat (length (frame_payload g)))),
     construct_aead_nonce (frame_seq g))"

definition aead_open :: "sodium \<Rightarrow> 32 barray \<Rightarrow> Frame \<Rightarrow> bytes option" where
  "aead_open so k g = (case aead_input g of (c, aad, n) \<Rightarrow> crypto_aead_decrypt so c aad n k)"

definition plain_frame :: "Frame \<Rightarrow> Frame" where
  "plain_frame f = f\<lparr>frame_flags := frame_flags f AND NOT IS_ENCRYPTED\<rparr>"

definition opened :: "sodium \<Rightarrow> 32 barray \<Rightarrow> Frame \<Rightarrow> Frame" where
  "opened so k g = plain_frame (g\<lparr>frame_payload := the (aead_open so k g)\<rparr>)"

text \<open>Only ciphertexts made with the key open under it, with the nonce and the header they were made with.\<close>

definition aead_unforged :: "sodium \<Rightarrow> 32 barray \<Rightarrow> Frame list \<Rightarrow> Frame list \<Rightarrow> bool" where
  "aead_unforged so k sent offered \<longleftrightarrow>
     list_all (\<lambda>h. aead_open so k h \<noteq> None \<longrightarrow> aead_input h \<in> aead_input ` set sent) offered"

text \<open>The receiver: \<^verbatim>\<open>decrypt_frame\<close> on one frame after the other, up to a call that does not return.\<close>

fun receive_all :: "sodium \<Rightarrow> Frame list \<Rightarrow> SecureSession \<Rightarrow> Frame list" where
  "receive_all so [] r = []"
| "receive_all so (h # hs) r =
     (case decrypt_frame so h r of
        None \<Rightarrow> []
      | Some (res, f, r') \<Rightarrow> if res = Inr True then f # receive_all so hs r' else receive_all so hs r')"

section \<open>The header and the nonce determine the frame\<close>

lemma build_frame_aad_inject:
  assumes "build_frame_aad g n = build_frame_aad h m"
  shows "frame_version g = frame_version h \<and> frame_type g = frame_type h \<and> frame_flags g = frame_flags h \<and>
    frame_request_id g = frame_request_id h"
proof -
  have aad: "bytes_of (build_frame_aad f n) =
      [frame_version f, frame_type f] @ be_bytes 2 (frame_flags f) @ bytes_of (frame_request_id f) @ be_bytes 4 n" for f n
    unfolding build_frame_aad_def by (rule bytes_of_barray_of_exact) simp
  from assms have "bytes_of (build_frame_aad g n) = bytes_of (build_frame_aad h m)" by simp
  then show ?thesis by (simp add: aad append_eq_append_conv be16_inject bytes_of_inject)
qed

lemma aead_input_inject:
  assumes "aead_input g = aead_input h" "8 \<le> length (frame_payload g)" "8 \<le> length (frame_payload h)"
  shows "g = (h :: Frame)"
proof -
  have "construct_aead_nonce (frame_seq g) = construct_aead_nonce (frame_seq h)"
    and rest: "drop 8 (frame_payload g) = drop 8 (frame_payload h)"
    and hdr: "build_frame_aad g (of_nat (length (frame_payload g))) = build_frame_aad h (of_nat (length (frame_payload h)))"
    using assms(1) by (simp_all add: aead_input_def bytes_of_inject)
  then have "frame_seq g = frame_seq h" using aead_nonce_unique by blast
  then have "take 8 (frame_payload g) = take 8 (frame_payload h)"
    using assms(2,3) unfolding frame_seq_def by (subst (asm) be_word8_inject) simp_all
  with rest have "frame_payload g = frame_payload h" by (metis append_take_drop_id)
  with build_frame_aad_inject [OF hdr] show ?thesis by simp
qed

section \<open>Sender and receiver\<close>

lemma encrypt_frame_opens:
  assumes "sodium_ready so" "aead_correct so" "encrypt_frame so f s = (Inr True, g, s')"
  shows "opened so (tx_key s) g = plain_frame f \<and> 8 \<le> length (frame_payload g) \<and> tx_key s' = tx_key s"
proof -
  have act: "ss_state s = Active" using assms(3) by (auto simp: encrypt_frame_def split: if_splits)
  obtain c where enc: "encrypt_frame so f s =
      (Inr True, f\<lparr>frame_flags := flags_or (frame_flags f) IS_ENCRYPTED, frame_payload := be_bytes 8 (tx_seq s + 1) @ c\<rparr>,
       s\<lparr>tx_seq := tx_seq s + 1\<rparr>)" and len: "length c = length (frame_payload f) + 16"
    and dec: "crypto_aead_decrypt so c
      (bytes_of (build_frame_aad (f\<lparr>frame_flags := flags_or (frame_flags f) IS_ENCRYPTED\<rparr>)
         (of_nat (8 + length (frame_payload f) + 16))))
      (construct_aead_nonce (tx_seq s + 1)) (tx_key s) = Some (frame_payload f)"
    by (rule encrypt_frame_ok [OF assms(1,2) act])
  then have g: "g = f\<lparr>frame_flags := flags_or (frame_flags f) IS_ENCRYPTED, frame_payload := be_bytes 8 (tx_seq s + 1) @ c\<rparr>"
    and s': "s' = s\<lparr>tx_seq := tx_seq s + 1\<rparr>" using assms(3) by simp_all
  have "frame_seq g = tx_seq s + 1" using be_word_be_bytes [of 8 "tx_seq s + 1"] by (simp add: g frame_seq_def)
  then have "aead_open so (tx_key s) g = Some (frame_payload f)"
    using dec len by (simp add: aead_open_def aead_input_def g add.commute)
  moreover have "flags_or (frame_flags f) IS_ENCRYPTED AND NOT IS_ENCRYPTED = frame_flags f AND NOT IS_ENCRYPTED"
    by (rule bit_eqI) (auto simp: flags_or_def bit_simps)
  ultimately show ?thesis by (simp add: opened_def plain_frame_def g s')
qed

lemma encrypt_all_opens:
  assumes "sodium_ready so" "aead_correct so" "encrypt_all so fs s = Some (gs, s')"
  shows "map (opened so (tx_key s)) gs = map plain_frame fs \<and> list_all (\<lambda>g. 8 \<le> length (frame_payload g)) gs"
  using assms(3)
proof (induction fs arbitrary: s gs)
  case (Cons f fs)
  then obtain g s1 gs1 where e: "encrypt_frame so f s = (Inr True, g, s1)" and rest: "encrypt_all so fs s1 = Some (gs1, s')"
    and gs: "gs = g # gs1"
    by (auto split: prod.splits sum.splits bool.splits)
  from encrypt_frame_opens [OF assms(1,2) e] Cons.IH [OF rest] gs show ?case by simp
qed simp

lemma decrypt_frame_opens:
  assumes "decrypt_frame so h r = Some (Inr True, f, r')"
  shows "f = opened so (rx_key r) h \<and> aead_open so (rx_key r) h \<noteq> None \<and> 8 \<le> length (frame_payload h)"
  using assms
  by (auto simp: decrypt_frame_def chacha20_poly1305_decrypt_def throw_bind_Inr_iff opened_def plain_frame_def
      aead_open_def aead_input_def frame_seq_def Let_def split: if_splits option.splits prod.splits sum.splits)

lemma decrypt_frame_rx_key: "decrypt_frame so h r = Some (res, f, r') \<Longrightarrow> rx_key r' = rx_key r"
  by (auto elim: decrypt_keeps)

lemma receive_all_fresh:
  assumes "session_seen r S"
  shows "\<exists>acc. receive_all so hs r = map (opened so (rx_key r)) acc \<and> distinct acc \<and> set acc \<subseteq> set hs - S \<and>
    list_all (\<lambda>h. aead_open so (rx_key r) h \<noteq> None \<and> 8 \<le> length (frame_payload h)) acc"
  using assms
proof (induction hs arbitrary: r S)
  case (Cons h hs)
  show ?case
  proof (cases "decrypt_frame so h r")
    case None
    then show ?thesis by (intro exI [of _ "[]"]) simp
  next
    case (Some x)
    obtain res f r' where x: "decrypt_frame so h r = Some (res, f, r')" using Some by (cases x) auto
    then have admit: "decrypt_admit so h r = Some (res = Inr True, r')" by (simp add: decrypt_admit_def)
    note seen = sr.admit_seen [OF Cons.prems admit]
    obtain acc where acc: "receive_all so hs r' = map (opened so (rx_key r)) acc" "distinct acc"
      "set acc \<subseteq> set hs - (if res = Inr True then insert h S else S)"
      "list_all (\<lambda>h. aead_open so (rx_key r) h \<noteq> None \<and> 8 \<le> length (frame_payload h)) acc"
      using Cons.IH [OF seen] decrypt_frame_rx_key [OF x] by auto
    show ?thesis
    proof (cases "res = Inr True")
      case True
      then have "h \<notin> S" using sr.admit_fresh [OF Cons.prems, of so h r'] admit by simp
      moreover have "f = opened so (rx_key r) h \<and> aead_open so (rx_key r) h \<noteq> None \<and> 8 \<le> length (frame_payload h)"
        using x True by (intro decrypt_frame_opens) simp
      ultimately show ?thesis using acc True x by (intro exI [of _ "h # acc"]) auto
    next
      case False
      with acc x show ?thesis by (intro exI [of _ acc]) auto
    qed
  qed
qed simp

section \<open>Properties\<close>

text \<open>
  C5. The protected channel is authentic and free of replays. Let one session seal any frames, and offer any
  frames at all to a session that has the sender's key as its receiving key: copies, alterations,
  frames of other sessions, in any order. The frames it accepts are, with the encryption flag
  removed, frames of the sender, each accepted at most as often as it was sent; header fields and
  payload arrive as they were. (Hypothesis: under this key, only what the sender sealed
  can be opened.)
\<close>

theorem SecureSession_channel_authentic:
  assumes "sodium_ready so" and "aead_correct so" and "encrypt_all so fs s = Some (gs, s')"
    and "rx_key r = tx_key s" and "replay_cache r = ReplayCache_new 256"
    and "aead_unforged so (rx_key r) gs hs"
  shows "mset (receive_all so hs r) \<subseteq># mset (map plain_frame fs)"
proof -
  let ?open = "opened so (rx_key r)"
  have "session_seen r {}" using assms(5) ReplayCache_inv_new by (auto simp: session_seen_def)
  from receive_all_fresh [OF this, of so hs] obtain acc where acc: "receive_all so hs r = map ?open acc" "distinct acc" "set acc \<subseteq> set hs"
    "list_all (\<lambda>h. aead_open so (rx_key r) h \<noteq> None \<and> 8 \<le> length (frame_payload h)) acc" by auto
  have sent: "map ?open gs = map plain_frame fs" "list_all (\<lambda>g. 8 \<le> length (frame_payload g)) gs"
    using encrypt_all_opens [OF assms(1-3)] by (simp_all add: assms(4))
  have "h \<in> set gs" if "h \<in> set acc" for h
  proof -
    have h: "aead_open so (rx_key r) h \<noteq> None" "8 \<le> length (frame_payload h)" "h \<in> set hs"
      using acc(3,4) that by (auto simp: list_all_iff)
    then have "aead_input h \<in> aead_input ` set gs" using assms(6) by (simp add: aead_unforged_def list_all_iff)
    then show ?thesis using aead_input_inject [of h] h(2) sent(2) by (fastforce simp: list_all_iff)
  qed
  then have "mset acc \<subseteq># mset gs" using acc(2) by (intro mset_distinct_subset) auto
  then have "image_mset ?open (mset acc) \<subseteq># image_mset ?open (mset gs)" by (rule image_mset_subseteq_mono)
  then show ?thesis using acc(1) sent(1) by (simp flip: mset_map)
qed

definition test_sent :: "Frame list" where
  "test_sent = fst (the (encrypt_all toy_sodium [test_frame, test_frame] active_test))"

theorem SecureSession_channel_authentic_witness:
  "receive_all toy_sodium (rev test_sent @ test_forged # test_sent) active_test = [test_frame, test_frame] \<and>
   mset (receive_all toy_sodium (rev test_sent @ test_forged # test_sent) active_test) \<subseteq># mset (map plain_frame [test_frame, test_frame])"
proof
  let ?hs = "rev test_sent @ test_forged # test_sent"
  show "receive_all toy_sodium ?hs active_test = [test_frame, test_frame]" by code_simp
  have "map_option fst (encrypt_all toy_sodium [test_frame, test_frame] active_test) = Some test_sent" by code_simp
  then obtain s' where enc: "encrypt_all toy_sodium [test_frame, test_frame] active_test = Some (test_sent, s')" by auto
  have keys: "rx_key active_test = tx_key active_test" "replay_cache active_test = ReplayCache_new 256"
    by (simp_all add: active_test_def SecureSession_new_def)
  have "aead_unforged toy_sodium (rx_key active_test) test_sent ?hs" by code_simp
  from SecureSession_channel_authentic [OF toy_sodium_ready toy_sodium_aead enc keys this]
  show "mset (receive_all toy_sodium ?hs active_test) \<subseteq># mset (map plain_frame [test_frame, test_frame])" .
qed

end
