(* ===== verification/Node_Sending.thy ===== *)
theory Node_Sending
  imports Node_Spec Secure_Channel
begin

text \<open>
  What an answer is: \<open>answers_on env cid g s s'\<close> says that between the states \<open>s\<close> and \<open>s'\<close> the frame \<open>g\<close> was
  queued on the open connection \<open>cid\<close>, in clear or sealed as the session of the connection demands.
  Under the documented behaviour of libsodium no operation on contacts throws; adding a contact keeps
  the connections open and attached as they are, and changes the routing table in one of three ways.
\<close>

section \<open>Operations that do not throw\<close>

definition nothrow :: "('s, 'a) eff \<Rightarrow> bool" where
  "nothrow m \<longleftrightarrow> (\<forall>s. \<exists>x. fst (m s) = Inr x)"

named_theorems nothrow_intros \<open>rules for showing that an operation does not throw\<close>

lemma nothrowD: "nothrow m \<Longrightarrow> \<exists>x s'. m s = (Inr x, s')"
  by (metis nothrow_def prod.collapse)

lemma nothrow_prims [nothrow_intros]: "nothrow (ret x)" "nothrow (gets f)" "nothrow (modify g)" "nothrow (liftE (Inr x))"
  by (simp_all add: nothrow_def eff_run)

lemma nothrow_bindE [nothrow_intros]: "nothrow m \<Longrightarrow> (\<And>x. nothrow (f x)) \<Longrightarrow> nothrow (bindE m f)"
proof -
  assume m: "nothrow m" and f: "\<And>x. nothrow (f x)"
  have "\<exists>y. fst (bindE m f s) = Inr y" for s
    using nothrowD [OF m, of s] f by (auto simp: bindE_def nothrow_def)
  then show ?thesis by (simp add: nothrow_def)
qed

lemma nothrow_thenE [nothrow_intros]: "nothrow m \<Longrightarrow> nothrow n \<Longrightarrow> nothrow (thenE m n)"
  unfolding thenE_def by (intro nothrow_bindE)

lemma nothrow_if [nothrow_intros]: "(c \<Longrightarrow> nothrow m) \<Longrightarrow> (\<not> c \<Longrightarrow> nothrow n) \<Longrightarrow> nothrow (if c then m else n)"
  by simp

lemma nothrow_whenE [nothrow_intros]: "nothrow m \<Longrightarrow> nothrow (whenE c m)"
  by (simp add: whenE_def nothrow_prims)

lemma nothrow_option [nothrow_intros]:
  "nothrow m \<Longrightarrow> (\<And>y. nothrow (f y)) \<Longrightarrow> nothrow (case x of None \<Rightarrow> m | Some y \<Rightarrow> f y)"
  by (cases x) simp_all

lemma nothrow_prod [nothrow_intros]: "(\<And>a b. nothrow (f a b)) \<Longrightarrow> nothrow (case x of (a, b) \<Rightarrow> f a b)"
  by (cases x) simp

lemma nothrow_ask [nothrow_intros]: "nothrow (ask f)"
  by (simp add: nothrow_def ask_run)

lemma send_nothrow:
  assumes "sodium_ready so" "aead_correct so"
  shows "\<exists>st. TcpConnection_send so f (ss, c) = (Inr (), st)"
proof (cases "session_active ss c")
  case None
  then show ?thesis using send_plain [of c ss f so] by (cases "sock_open c") (simp_all add: TcpConnection_send_def)
next
  case (Some r)
  then have "ss_state (ss r) = Active" by (simp add: session_active_iff)
  from encrypt_frame_ok [OF assms this, of f] obtain g s' where "encrypt_frame so f (ss r) = (Inr True, g, s')" by metis
  with Some send_sealed [of c ss r f so g s'] send_plain [of c ss f so] show ?thesis
    by (cases "sock_open c"; cases "must_encrypt f") (simp_all add: TcpConnection_send_def)
qed

lemma conn_send_nothrow [nothrow_intros]:
  assumes "sodium_ready (e_sodium env)" "aead_correct (e_sodium env)"
  shows "nothrow (conn_send env cid f)"
  unfolding nothrow_def conn_send_def using send_nothrow [OF assms, of f] by (auto split: prod.split) (metis fst_conv)

lemma rid_nothrow [nothrow_intros]: "sodium_ready (e_sodium env) \<Longrightarrow> nothrow (generate_request_id env)"
  by (simp add: nothrow_def generate_request_id_def RequestID_generate_def sodium_ready_def ask_run eff_run)

lemma connection_for_nothrow [nothrow_intros]: "nothrow (connection_for env peer)"
  unfolding connection_for_def tcp_connect_def update_conn_def new_connection_def Node_register_connection_def
  by (intro nothrow_intros)

lemma add_contact_nothrow:
  assumes "sodium_ready (e_sodium env)" "aead_correct (e_sodium env)"
  shows "nothrow (Node_add_contact env peer)"
  unfolding Node_add_contact_def Node_probe_lru_contact_def Node_send_ping_def routing_remove_def new_timer_def
    ping_result_def routing_touch_def
  by (intro nothrow_intros assms) (auto intro!: nothrow_intros split: ping_callback.split)

section \<open>What adding a contact leaves alone\<close>

definition contact_kept :: "env \<Rightarrow> Node \<Rightarrow> Node \<Rightarrow> bool" where
  "contact_kept env s0 s \<longleftrightarrow> node_inv env s \<and> n_store s = n_store s0 \<and> n_config s = n_config s0 \<and>
     n_keypair s = n_keypair s0 \<and> n_started s = n_started s0 \<and>
     n_pending_requests s = n_pending_requests s0 \<and> n_log s = n_log s0"

interpretation ct: node_contacts env "contact_kept env s0" for env s0
  by unfold_locales (auto simp: contact_kept_def inv_prims)

text \<open>
  The connection \<open>cid\<close> as it was in \<open>s0\<close>, apart from frames that were queued since: whether it is open,
  its session and its peer, and every session with its state and keys.
\<close>

definition link_kept :: "conn_ref \<Rightarrow> Node \<Rightarrow> Node \<Rightarrow> bool" where
  "link_kept cid s0 s \<longleftrightarrow> cid < n_conn_count s \<and> writer_wf (n_conns s cid) \<and>
     sock_open (n_conns s cid) = sock_open (n_conns s0 cid) \<and> tc_session (n_conns s cid) = tc_session (n_conns s0 cid) \<and>
     tc_peer_id (n_conns s cid) = tc_peer_id (n_conns s0 cid) \<and>
     (\<exists>more. ol_log (out_abs (n_conns s cid)) = ol_log (out_abs (n_conns s0 cid)) @ more) \<and>
     (\<forall>r. ss_state (n_sessions s r) = ss_state (n_sessions s0 r) \<and> tx_key (n_sessions s r) = tx_key (n_sessions s0 r))"

lemma link_kept_refl: "cid < n_conn_count s \<Longrightarrow> node_inv env s \<Longrightarrow> link_kept cid s s"
  by (simp add: link_kept_def inv.p_writers)

lemma link_kept_fields [simp]:
  "link_kept cid s0 (s\<lparr>n_tick := x1\<rparr>) = link_kept cid s0 s" "link_kept cid s0 (s\<lparr>n_store := x2\<rparr>) = link_kept cid s0 s"
  "link_kept cid s0 (s\<lparr>n_routing := x3\<rparr>) = link_kept cid s0 s" "link_kept cid s0 (s\<lparr>n_timers := x4, n_timer_count := x5\<rparr>) = link_kept cid s0 s"
  "link_kept cid s0 (s\<lparr>n_pending_pings := x6\<rparr>) = link_kept cid s0 s" "link_kept cid s0 (s\<lparr>n_connections := x7\<rparr>) = link_kept cid s0 s"
  by (simp_all add: link_kept_def)

text \<open>Sending changes a connection only by a queued frame, and a session only by its counter.\<close>

lemma encrypt_frame_session:
  "encrypt_frame so f ses = (r, g, ses') \<Longrightarrow> ss_state ses' = ss_state ses \<and> tx_key ses' = tx_key ses"
  by (auto simp: encrypt_frame_def Let_def split: if_splits sum.splits)

lemma send_link:
  assumes "TcpConnection_send so f (ss, c) = (r, ss', c')" "writer_wf c"
  shows "writer_wf c' \<and> sock_open c' = sock_open c \<and> tc_session c' = tc_session c \<and> tc_peer_id c' = tc_peer_id c \<and>
    (\<exists>more. ol_log (out_abs c') = ol_log (out_abs c) @ more) \<and>
    (\<forall>q. ss_state (ss' q) = ss_state (ss q) \<and> tx_key (ss' q) = tx_key (ss q))"
proof -
  have wf: "writer_wf (reset_io_timer c)" "out_abs (reset_io_timer c) = out_abs c"
    using assms(2) by (simp_all add: writer_wf_def out_abs_def)
  have enq: "writer_wf (enqueue x (reset_io_timer c)) \<and> ol_log (out_abs (enqueue x (reset_io_timer c))) = ol_log (out_abs c) @ [x]" for x
    using enqueue_refines [OF wf(1), of x] wf(2) by (simp add: out_put_def)
  show ?thesis
    using assms wf enq
    by (auto simp: TcpConnection_send_def Let_def dest!: encrypt_frame_session
        split: if_splits option.splits prod.splits sum.splits)
qed

lemma link_conn_send: "keeps (link_kept cid s0) (conn_send env x f)"
proof (rule keepsI)
  fix s assume l: "link_kept cid s0 s"
  obtain r ss c where se: "TcpConnection_send (e_sodium env) f (n_sessions s, n_conns s x) = (r, ss, c)"
    by (cases "TcpConnection_send (e_sodium env) f (n_sessions s, n_conns s x)") auto
  have sess: "ss_state (ss q) = ss_state (n_sessions s q) \<and> tx_key (ss q) = tx_key (n_sessions s q)" for q
    using se by (auto simp: TcpConnection_send_def Let_def dest!: encrypt_frame_session
        split: if_splits option.splits prod.splits sum.splits)
  have run: "snd (conn_send env x f s) = s\<lparr>n_sessions := ss, n_conns := (n_conns s)(x := c)\<rparr>" by (simp add: conn_send_def se)
  show "link_kept cid s0 (snd (conn_send env x f s))"
  proof (cases "x = cid")
    case True
    then have "writer_wf (n_conns s x)" using l by (simp add: link_kept_def)
    from send_link [OF se this] l sess True show ?thesis unfolding run link_kept_def by auto
  qed (use l sess in \<open>simp add: link_kept_def run\<close>)
qed

lemma link_connection_for: "keeps (link_kept cid s0) (connection_for env peer)"
proof (rule keepsI)
  fix s assume l: "link_kept cid s0 s"
  then have "cid \<noteq> n_conn_count s" by (simp add: link_kept_def)
  with l show "link_kept cid s0 (snd (connection_for env peer s))"
    by (cases "Node_get_connection_to (peer_node_id peer) s";
        cases "TcpConnection_connect (e_net env (n_tick s)) (host (peer_address peer)) (port (peer_address peer))
          (connect_timeout_ms (cfg_transport (n_config s)))")
      (auto simp: connection_for_def tcp_connect_def ask_def new_connection_def update_conn_def
        Node_register_connection_def eff_run link_kept_def)
qed

lemma link_ask: "keeps (link_kept cid s0) (ask f)"
  by (simp add: keeps_def ask_run)

lemma link_routing_remove: "keeps (link_kept cid s0) (routing_remove nid)"
  unfolding routing_remove_def by (rule keeps_modify) simp

lemma link_send_ping: "keeps (link_kept cid s0) (Node_send_ping env x expected (ProbeResult nid))"
  unfolding Node_send_ping_def ping_result_def routing_touch_def routing_remove_def generate_request_id_def new_timer_def
  by (auto intro!: keeps_intros keeps_modify link_conn_send link_ask)

lemma link_add_contact: "keeps (link_kept cid s0) (Node_add_contact env peer)"
  unfolding Node_add_contact_def Node_probe_lru_contact_def
  by (auto intro!: keeps_intros keeps_modify link_connection_for link_routing_remove link_send_ping link_ask)

section \<open>The routing table after adding a contact\<close>

text \<open>
  Either the table took the contact, or its bucket was full (or the contact is the node itself): then the
  contact is at most remembered as a replacement, and the least recently seen contact of the bucket is
  probed; it is removed at once only when it cannot be reached.
\<close>

definition contact_offered :: "env \<Rightarrow> PeerInfo \<Rightarrow> Node \<Rightarrow> RoutingTable \<Rightarrow> bool" where
  "contact_offered env p s rt' \<longleftrightarrow>
     (case RoutingTable_add_or_update (e_clock env (n_tick s)) p (n_routing s) of (added, rt) \<Rightarrow>
        if added then rt' = rt
        else rt' = rt \<or> (\<exists>l. RoutingTable_least_recently_seen_in_bucket (peer_node_id p) rt = Some l \<and>
          rt' = snd (RoutingTable_remove (peer_node_id l) rt)))"

lemma connection_for_routing: "n_routing (snd (connection_for env peer s)) = n_routing s"
  by (cases "Node_get_connection_to (peer_node_id peer) s";
      cases "TcpConnection_connect (e_net env (n_tick s)) (host (peer_address peer)) (port (peer_address peer))
        (connect_timeout_ms (cfg_transport (n_config s)))")
    (simp_all add: connection_for_def tcp_connect_def ask_def new_connection_def update_conn_def Node_register_connection_def eff_run)

lemma conn_send_fields:
  "n_routing (snd (conn_send env cid f s)) = n_routing s" "n_store (snd (conn_send env cid f s)) = n_store s"
  "n_pending_requests (snd (conn_send env cid f s)) = n_pending_requests s" "n_log (snd (conn_send env cid f s)) = n_log s"
  by (simp_all add: conn_send_def split: prod.split)

lemma send_probe_routing:
  "n_routing (snd (Node_send_ping env cid expected (ProbeResult nid) s)) \<in> {n_routing s, snd (RoutingTable_remove nid (n_routing s))}"
proof (cases "sock_open (n_conns s cid)")
  case False
  then show ?thesis by (simp add: Node_send_ping_def bindE_gets ping_result_def routing_remove_def modify_def)
next
  case True
  show ?thesis
  proof (cases "RequestID_generate (e_sodium env) (e_rid env (n_tick s))")
    case (Inl e)
    with True show ?thesis by (simp add: Node_send_ping_def generate_request_id_def ask_run eff_run)
  next
    case (Inr rid)
    with True show ?thesis
      by (simp add: Node_send_ping_def generate_request_id_def ask_run new_timer_def eff_run conn_send_fields)
  qed
qed

lemma probe_routing:
  "n_routing (snd (Node_probe_lru_contact env l s)) \<in> {n_routing s, snd (RoutingTable_remove (peer_node_id l) (n_routing s))}"
proof -
  obtain res s1 where cf: "connection_for env l s = (res, s1)" by fastforce
  then have "n_routing s1 = n_routing s" using connection_for_routing [of env l s] by simp
  with cf send_probe_routing show ?thesis
    by (auto simp: Node_probe_lru_contact_def bindE_def routing_remove_def modify_def split: sum.split option.split) metis
qed

lemma add_contact_offers: "n_started s \<Longrightarrow> contact_offered env p s (n_routing (snd (Node_add_contact env p s)))"
proof -
  assume st: "n_started s"
  obtain added rt where add: "RoutingTable_add_or_update (e_clock env (n_tick s)) p (n_routing s) = (added, rt)" by fastforce
  let ?s1 = "s\<lparr>n_tick := n_tick s + 1, n_routing := rt\<rparr>"
  have "n_routing (snd (Node_probe_lru_contact env l ?s1)) \<in> {rt, snd (RoutingTable_remove (peer_node_id l) rt)}" for l
    using probe_routing [of env l ?s1] by simp
  with st add show ?thesis
    by (auto simp: contact_offered_def Node_add_contact_def bindE_gets ask_run bindE_def thenE_run modify_def whenE_run ret_def
        gets_def split: option.split)
qed

lemma add_contact_kept:
  assumes "sodium_ready (e_sodium env)" "aead_correct (e_sodium env)" "node_inv env s"
  obtains s1 where "Node_add_contact env peer s = (Inr (), s1)" "contact_kept env s s1"
    "n_started s \<Longrightarrow> contact_offered env peer s (n_routing s1)" "\<And>cid. cid < n_conn_count s \<Longrightarrow> link_kept cid s s1"
proof -
  obtain s1 where s1: "Node_add_contact env peer s = (Inr (), s1)"
    using nothrowD [OF add_contact_nothrow [OF assms(1,2)], of peer s] by auto
  have "contact_kept env s s" using assms(3) by (simp add: contact_kept_def)
  from keepsD [OF ct.keeps_add_contact this, of peer] s1 have "contact_kept env s s1" by simp
  moreover have "link_kept cid s s1" if "cid < n_conn_count s" for cid
    using keepsD [OF link_add_contact link_kept_refl [OF that assms(3)], of env peer] s1 by simp
  moreover have "contact_offered env peer s (n_routing s1)" if "n_started s"
    using add_contact_offers [OF that, of env peer] s1 by simp
  ultimately show ?thesis using that [OF s1] by blast
qed

section \<open>Answers\<close>

text \<open>
  The frame \<open>g\<close> was queued on the connection, which is open, as the last of the frames queued since \<open>s\<close>:
  as it is when the connection has no active session, and otherwise marked as encrypted and with a
  payload that opens, under the sending key of the session, to the payload of \<open>g\<close>.
\<close>

definition answers_on :: "env \<Rightarrow> conn_ref \<Rightarrow> Frame \<Rightarrow> Node \<Rightarrow> Node \<Rightarrow> bool" where
  "answers_on env cid g s s' \<longleftrightarrow> sock_open (n_conns s' cid) \<and>
     (\<exists>more h. ol_log (out_abs (n_conns s' cid)) = ol_log (out_abs (n_conns s cid)) @ more @ [Frame_serialize h] \<and>
        (case session_active (n_sessions s) (n_conns s cid) of
           None \<Rightarrow> h = g
         | Some r \<Rightarrow> h = g\<lparr>frame_flags := flags_or (frame_flags g) IS_ENCRYPTED, frame_payload := frame_payload h\<rparr> \<and>
             aead_open (e_sodium env) (tx_key (n_sessions s r)) h = Some (frame_payload g)))"

lemma encrypt_frame_sealed:
  assumes "sodium_ready so" "aead_correct so" "ss_state ses = Active"
  obtains h ses' where "encrypt_frame so g ses = (Inr True, h, ses')"
    "h = g\<lparr>frame_flags := flags_or (frame_flags g) IS_ENCRYPTED, frame_payload := frame_payload h\<rparr>"
    "aead_open so (tx_key ses) h = Some (frame_payload g)"
proof -
  obtain c where enc: "encrypt_frame so g ses =
      (Inr True, g\<lparr>frame_flags := flags_or (frame_flags g) IS_ENCRYPTED, frame_payload := be_bytes 8 (tx_seq ses + 1) @ c\<rparr>,
       ses\<lparr>tx_seq := tx_seq ses + 1\<rparr>)" and len: "length c = length (frame_payload g) + 16"
    and dec: "crypto_aead_decrypt so c
      (bytes_of (build_frame_aad (g\<lparr>frame_flags := flags_or (frame_flags g) IS_ENCRYPTED\<rparr>)
         (of_nat (8 + length (frame_payload g) + 16))))
      (construct_aead_nonce (tx_seq ses + 1)) (tx_key ses) = Some (frame_payload g)"
    by (rule encrypt_frame_ok [OF assms])
  let ?h = "g\<lparr>frame_flags := flags_or (frame_flags g) IS_ENCRYPTED, frame_payload := be_bytes 8 (tx_seq ses + 1) @ c\<rparr>"
  have "frame_seq ?h = tx_seq ses + 1" using be_word_be_bytes [of 8 "tx_seq ses + 1"] by (simp add: frame_seq_def)
  then have "aead_open so (tx_key ses) ?h = Some (frame_payload g)"
    using dec len by (simp add: aead_open_def aead_input_def add.commute)
  with enc that [of ?h] show ?thesis by simp
qed

lemma conn_send_answers:
  assumes "sodium_ready (e_sodium env)" "aead_correct (e_sodium env)" "sock_open (n_conns s cid)" "must_encrypt g"
    and link: "link_kept cid s s1"
  shows "\<exists>ss c. conn_send env cid g s1 = (Inr (), s1\<lparr>n_sessions := ss, n_conns := (n_conns s1)(cid := c)\<rparr>) \<and>
    answers_on env cid g s (s1\<lparr>n_sessions := ss, n_conns := (n_conns s1)(cid := c)\<rparr>)"
proof -
  let ?c1 = "n_conns s1 cid"
  have op: "sock_open ?c1" and wf: "writer_wf (reset_io_timer ?c1)" "out_abs (reset_io_timer ?c1) = out_abs ?c1"
    using link assms(3) by (simp_all add: link_kept_def writer_wf_def out_abs_def)
  obtain more where more: "ol_log (out_abs ?c1) = ol_log (out_abs (n_conns s cid)) @ more" using link by (auto simp: link_kept_def)
  have enq: "ol_log (out_abs (enqueue x (reset_io_timer ?c1))) = ol_log (out_abs (n_conns s cid)) @ more @ [x]" for x
    using enqueue_refines [OF wf(1), of x] wf(2) more by (simp add: out_put_def)
  have act: "session_active (n_sessions s1) ?c1 = session_active (n_sessions s) (n_conns s cid)"
    using link by (simp add: session_active_def SecureSession_is_active_def link_kept_def split: option.split)
  show ?thesis
  proof (cases "session_active (n_sessions s) (n_conns s cid)")
    case None
    then have "TcpConnection_send (e_sodium env) g (n_sessions s1, ?c1) =
        (Inr (), n_sessions s1, enqueue (Frame_serialize g) (reset_io_timer ?c1))"
      using send_plain [OF op] act by simp
    then show ?thesis
      using enq op None by (intro exI [of _ "n_sessions s1"] exI) (auto simp: conn_send_def answers_on_def)
  next
    case (Some r)
    then have r: "session_active (n_sessions s1) ?c1 = Some r" "ss_state (n_sessions s1 r) = Active"
      using act link by (simp_all add: session_active_iff link_kept_def)
    obtain h ses' where enc: "encrypt_frame (e_sodium env) g (n_sessions s1 r) = (Inr True, h, ses')"
      and h: "h = g\<lparr>frame_flags := flags_or (frame_flags g) IS_ENCRYPTED, frame_payload := frame_payload h\<rparr>"
        "aead_open (e_sodium env) (tx_key (n_sessions s1 r)) h = Some (frame_payload g)"
      by (rule encrypt_frame_sealed [OF assms(1,2) r(2)])
    have "tx_key (n_sessions s1 r) = tx_key (n_sessions s r)" using link by (simp add: link_kept_def)
    then have "answers_on env cid g s (s1\<lparr>n_sessions := (n_sessions s1)(r := ses'),
        n_conns := (n_conns s1)(cid := enqueue (Frame_serialize h) (reset_io_timer ?c1))\<rparr>)"
      unfolding answers_on_def using enq [of "Frame_serialize h"] op Some h by auto
    moreover have "conn_send env cid g s1 = (Inr (), s1\<lparr>n_sessions := (n_sessions s1)(r := ses'),
        n_conns := (n_conns s1)(cid := enqueue (Frame_serialize h) (reset_io_timer ?c1))\<rparr>)"
      by (simp add: conn_send_def send_sealed [OF op r(1) assms(4) enc])
    ultimately show ?thesis by blast
  qed
qed

end
