(* ===== verification/Node_Contacts.thy ===== *)
theory Node_Contacts
  imports Node_Sending
begin

text \<open>
  How a node learns its contacts: PING and PONG are accepted only with a proof of identity, a full
  bucket makes the node probe its least recently seen contact, and the outcome of the probe decides
  whether that contact stays.
\<close>

section \<open>Lemmas\<close>

text \<open>A frame that answers no pending request goes to the handler of its type only.\<close>

lemma on_frame_dispatch:
  "\<not> flag_set (frame_flags f) IS_RESPONSE \<or> n_pending_requests s (frame_request_id f) = None \<Longrightarrow>
   Node_on_frame env cid f s = dispatch_frame env cid f s"
  by (auto simp: Node_on_frame_def take_pending_def eff_run fun_upd_idem split: prod.split sum.split)

lemma conn_close_open:
  "sock_open (n_conns s cid) \<Longrightarrow> conn_close reason cid s =
     (Inr (), s\<lparr>n_conns := (n_conns s)(cid := (n_conns s cid)\<lparr>sock_open := False\<rparr>), n_connections := removeAll cid (n_connections s)\<rparr>)"
  by (simp add: conn_close_def TcpConnection_close_def update_conn_def Node_on_disconnect_def eff_run)

text \<open>
  The payload of \<open>f\<close> proves the identity \<open>nid\<close>: it is a CBOR object with that identifier and a public
  key of 32 bytes whose hash is that identifier.
\<close>

definition proves_identity :: "env \<Rightarrow> Frame \<Rightarrow> json \<Rightarrow> NodeID \<Rightarrow> bool" where
  "proves_identity env f j nid \<longleftrightarrow>
     frame_payload f \<noteq> [] \<and> from_cbor (e_json env) (frame_payload f) = Some j \<and>
     j_contains (e_json env) j ''node_id'' \<and> j_contains (e_json env) j ''public_key'' \<and>
     (\<exists>hex pk. get_string (e_json env) (j_at (e_json env) j ''node_id'') = Some hex \<and> parse_NodeID hex = Some nid \<and>
        get_binary (e_json env) (j_at (e_json env) j ''public_key'') = Some pk \<and> length pk = 32 \<and>
        compute_node_id (e_sodium env) (barray_of pk) = nid)"

lemma read_identity_verified:
  "frame_payload f \<noteq> [] \<Longrightarrow> from_cbor (e_json env) (frame_payload f) = Some j \<Longrightarrow>
   read_identity env j = Inr (VerifiedPeer nid) \<longleftrightarrow> proves_identity env f j nid"
  by (auto simp: proves_identity_def read_identity_def Let_def json_result_def verify_node_id_iff throw_bind_Inr_iff
      split: option.splits if_splits prod.splits)

text \<open>The identity that a node sends in its PINGs and PONGs is a proof in this sense.\<close>

lemma identity_json_proves:
  assumes "json_laws (e_json env)" "cbor_roundtrip (e_json env) (identity_json env s)"
    and "frame_payload f = to_cbor (e_json env) (identity_json env s)"
  shows "proves_identity env f (identity_json env s) (Node_node_id env s)"
    and "value_u16 (e_json env) (identity_json env s) ''listen_port'' d = Some (listen_port (cfg_node (n_config s)))"
  using assms
  by (simp_all add: proves_identity_def identity_json_def json_law_simps cbor_roundtrip_def Node_node_id_def Keypair_node_id_def
      ucast_ucast_widen)

lemma remote_set_peer_id [simp]:
  "remote_ip (set_peer_id nid c) = remote_ip c" "remote_port (set_peer_id nid c) = remote_port c"
  "sock_open (set_peer_id nid c) = sock_open c" "tc_session (set_peer_id nid c) = tc_session c"
  by (simp_all add: remote_ip_def remote_port_def set_peer_id_def)

lemma add_contact_room:
  "n_started s \<Longrightarrow> RoutingTable_add_or_update (e_clock env (n_tick s)) peer (n_routing s) = (True, rt) \<Longrightarrow>
   Node_add_contact env peer s = (Inr (), s\<lparr>n_tick := n_tick s + 1, n_routing := rt\<rparr>)"
  by (simp add: Node_add_contact_def ask_run eff_run)

text \<open>The contact that a verified peer becomes, where its bucket has room.\<close>

lemma accept_peer_run:
  assumes "n_started s" "value_u16 (e_json env) j ''listen_port'' (remote_port (n_conns s cid)) = Some prt"
    and "RoutingTable_add_or_update (e_clock env (n_tick s)) (peer_of nid (remote_ip (n_conns s cid)) prt) (n_routing s) = (True, rt)"
  shows "accept_peer env cid j nid s =
    (Inr (), s\<lparr>n_conns := (n_conns s)(cid := set_peer_id nid (n_conns s cid)), n_tick := n_tick s + 1, n_routing := rt\<rparr>)"
  using assms
  by (simp add: accept_peer_def update_conn_def json_result_def add_contact_room eff_run)

section \<open>PING\<close>

definition pong_to :: "env \<Rightarrow> Frame \<Rightarrow> Node \<Rightarrow> Frame" where
  "pong_to env f s = (Frame_make_pong (frame_request_id f))\<lparr>frame_version := wire_version s,
     frame_payload := to_cbor (e_json env) (identity_json env s)\<rparr>"

lemma answers_on_cong:
  "out_abs (n_conns s0 cid) = out_abs (n_conns s cid) \<Longrightarrow> tc_session (n_conns s0 cid) = tc_session (n_conns s cid) \<Longrightarrow>
   n_sessions s0 = n_sessions s \<Longrightarrow> answers_on env cid g s0 s' = answers_on env cid g s s'"
  unfolding answers_on_def using session_active_cong [of "n_conns s0 cid" "n_conns s cid"] by (simp cong: option.case_cong)

lemma pong_plain: "must_encrypt (pong_to env f s)"
  by (simp add: must_encrypt_def pong_to_def Frame_make_pong_def Frame_default_def flag_set_def IS_RESPONSE_def IS_ENCRYPTED_def
      FLAG_NONE_def flags_or_def PONG_def HANDSHAKE_INIT_def HANDSHAKE_RESPONSE_def HANDSHAKE_COMPLETE_def)

lemma ping_verified_run:
  assumes "node_inv env s" "n_started s" "sodium_ready (e_sodium env)" "aead_correct (e_sodium env)"
    and "sock_open (n_conns s cid)" "cid < n_conn_count s" "proves_identity env f j nid"
    and "value_u16 (e_json env) j ''listen_port'' (remote_port (n_conns s cid)) = Some prt"
  shows "\<exists>s'. on_ping env cid f s = (Inr (), s') \<and> answers_on env cid (pong_to env f s) s s' \<and> tc_peer_id (n_conns s' cid) = Some nid \<and>
    contact_offered env (peer_of nid (remote_ip (n_conns s cid)) prt) s (n_routing s') \<and>
    n_store s' = n_store s \<and> n_pending_requests s' = n_pending_requests s \<and> n_log s' = n_log s"
proof -
  let ?peer = "peer_of nid (remote_ip (n_conns s cid)) prt"
  let ?s0 = "s\<lparr>n_conns := (n_conns s)(cid := set_peer_id nid (n_conns s cid))\<rparr>"
  have "writer_wf (set_peer_id nid (n_conns s cid))"
    using inv.p_writers [OF assms(1), of cid] by (simp add: set_peer_id_def writer_wf_def)
  then have inv0: "node_inv env ?s0" by (rule inv.p_conn_any [OF assms(1)])
  obtain s1 where s1: "Node_add_contact env ?peer ?s0 = (Inr (), s1)" "contact_kept env ?s0 s1"
      "contact_offered env ?peer ?s0 (n_routing s1)" "link_kept cid ?s0 s1"
    using add_contact_kept [OF assms(3,4) inv0, of ?peer] assms(2,6) by force
  have pong: "pong_to env f s1 = pong_to env f s"
    using s1(2) by (simp add: contact_kept_def pong_to_def wire_version_def identity_json_def Node_node_id_def)
  have op: "sock_open (n_conns ?s0 cid)" using assms(5) by (simp add: set_peer_id_def)
  obtain ss c where send: "conn_send env cid (pong_to env f s) s1 = (Inr (), s1\<lparr>n_sessions := ss, n_conns := (n_conns s1)(cid := c)\<rparr>)"
    and ans: "answers_on env cid (pong_to env f s) ?s0 (s1\<lparr>n_sessions := ss, n_conns := (n_conns s1)(cid := c)\<rparr>)"
    using conn_send_answers [OF assms(3,4) op pong_plain s1(4)] by blast
  let ?s' = "s1\<lparr>n_sessions := ss, n_conns := (n_conns s1)(cid := c)\<rparr>"
  have j: "frame_payload f \<noteq> []" "from_cbor (e_json env) (frame_payload f) = Some j"
    using assms(7) by (simp_all add: proves_identity_def)
  have ident: "read_identity env j = Inr (VerifiedPeer nid)" using read_identity_verified [OF j] assms(7) by blast
  have "accept_peer env cid j nid s = (Inr (), s1)"
    using assms(8) s1(1) by (simp add: accept_peer_def update_conn_def json_result_def eff_run)
  then have run: "on_ping env cid f s = (Inr (), ?s')"
    using j ident send pong by (simp add: on_ping_def json_result_def eff_run pong_to_def)
  have "answers_on env cid (pong_to env f s) s ?s'"
    using ans answers_on_cong [of ?s0 cid s env "pong_to env f s" ?s'] by (simp add: set_peer_id_def out_abs_def)
  moreover have "tc_peer_id (n_conns ?s' cid) = Some nid"
    using keepsD [OF link_conn_send s1(4), of env cid "pong_to env f s"] send by (simp add: link_kept_def set_peer_id_def)
  ultimately show ?thesis using run s1(2,3) by (auto simp: contact_kept_def contact_offered_def)
qed


text \<open>A node with one connection, and a peer that has another key pair.\<close>

definition test_peer_node :: Node where
  "test_peer_node = (Node_new Config_default)\<lparr>n_keypair := test_keys 6\<rparr>"

definition test_id_env :: env where
  "test_id_env = test_env (identity_json (test_env JNull JNull) test_peer_node) JNull"

definition test_accepted :: "env \<Rightarrow> Node" where
  "test_accepted env = snd (Node_handle env (Accepted (Accept_ok (''10.0.0.1'', 4000))) (test_node env))"

definition test_linked :: Node where
  "test_linked = test_accepted test_id_env"

definition test_ping :: Frame where
  "test_ping = (Frame_make_ping (barray_of [3]))\<lparr>frame_payload := [1]\<rparr>"

lemma test_ping_proves:
  "proves_identity test_id_env test_ping (identity_json test_id_env test_peer_node) (Node_node_id test_id_env test_peer_node)"
  "value_u16 (e_json test_id_env) (identity_json test_id_env test_peer_node) ''listen_port'' d = Some 9000"
proof -
  have same: "identity_json test_id_env test_peer_node = identity_json (test_env JNull JNull) test_peer_node"
    by (simp add: test_id_env_def test_env_def identity_json_def Node_node_id_def)
  have laws: "json_laws (e_json test_id_env)" "cbor_roundtrip (e_json test_id_env) (identity_json test_id_env test_peer_node)"
    unfolding same by (simp_all add: test_id_env_def test_env_def toy_json2_laws toy_json2_roundtrip)
  have "frame_payload test_ping = to_cbor (e_json test_id_env) (identity_json test_id_env test_peer_node)"
    unfolding same by (simp add: test_ping_def test_id_env_def test_env_def toy_json2_def plain_json_def)
  from identity_json_proves [OF laws this]
  show "proves_identity test_id_env test_ping (identity_json test_id_env test_peer_node) (Node_node_id test_id_env test_peer_node)"
    "value_u16 (e_json test_id_env) (identity_json test_id_env test_peer_node) ''listen_port'' d = Some 9000"
    by (simp_all add: test_peer_node_def Node_new_def Config_default_def)
qed

lemma test_node_keypair: "n_keypair (test_node (test_env j1 j2)) = test_keys 5"
  by (simp add: test_node_def Node_start_def eff_run ask_run Node_new_def Config_default_def test_env_def
        toy_sodium_def Keypair_load_or_generate_def Keypair_load_def fs_exists_def Keypair_generate_def Keypair_save_def
        test_fs_def write_file_def Node_schedule_purge_def Node_schedule_republish_def new_timer_def TcpListener_create_def test_keys_def barray_eq_iff)

lemma test_accepted_fields:
  "n_routing (test_accepted (test_env j1 j2)) = n_routing (test_node (test_env j1 j2))" "n_started (test_accepted (test_env j1 j2))"
  "n_conn_count (test_accepted (test_env j1 j2)) = 1" "sock_open (n_conns (test_accepted (test_env j1 j2)) 0)"
  "tc_session (n_conns (test_accepted (test_env j1 j2)) 0) = None" "n_connections (test_accepted (test_env j1 j2)) = [0]"
  "n_pending_requests (test_accepted (test_env j1 j2)) = Map.empty" "\<not> tc_writing (n_conns (test_accepted (test_env j1 j2)) 0)"
  "n_store (test_accepted (test_env j1 j2)) = RecordStore_new" "n_config (test_accepted (test_env j1 j2)) = Config_default"
  "n_record_seq (test_accepted (test_env j1 j2)) = n_record_seq (test_node (test_env j1 j2))"
  using test_node_fields [of j1 j2]
  by (simp_all add: test_accepted_def Node_handle_def bindE_gets accept_completed_def on_accepted_def update_listener_def
      Node_on_accept_def new_connection_def Node_register_connection_def update_conn_def TcpConnection_create_def
      TcpConnection_configure_def eff_run)

lemma test_accepted_reachable: "node_reachable (test_env j1 j2) test_fs Config_default (test_accepted (test_env j1 j2))"
  unfolding test_accepted_def by (rule node_reachable.event [OF test_node_reachable])

lemmas test_linked_fields = test_accepted_fields [of "identity_json (test_env JNull JNull) test_peer_node" JNull,
  folded test_id_env_def, folded test_linked_def]


section \<open>PONG and probes\<close>

lemma run_ping_callback_run:
  "run_ping_callback env p ok s =
     ping_result env (pp_callback p) ok (case n_timers s (pp_timer p) of Armed _ \<Rightarrow> s\<lparr>n_timers := (n_timers s)(pp_timer p := Idle)\<rparr> | _ \<Rightarrow> s)"
  by (simp add: run_ping_callback_def cancel_timer_def eff_run)

lemma probe_evicts:
  "pp_callback p = ProbeResult lru \<Longrightarrow> run_ping_callback env p False s = (Inr (), s') \<Longrightarrow>
   n_routing s' = snd (RoutingTable_remove lru (n_routing s)) \<and> n_pending_pings s' = n_pending_pings s"
  by (auto simp: run_ping_callback_run ping_result_def routing_remove_def eff_run split: timer_state.splits)

lemma probe_keeps:
  "pp_callback p = ProbeResult lru \<Longrightarrow> run_ping_callback env p True s = (Inr (), s') \<Longrightarrow>
   n_routing s' = RoutingTable_touch (e_clock env (n_tick s)) lru (n_routing s) \<and>
   n_pending_pings s' = n_pending_pings s \<and> n_conns s' = n_conns s"
  by (auto simp: run_ping_callback_run ping_result_def routing_touch_def ask_run eff_run split: timer_state.splits)

lemma run_ping_callback_ok: "fst (run_ping_callback env p ok s) = Inr ()"
  by (cases "pp_callback p") (auto simp: run_ping_callback_run ping_result_def routing_touch_def routing_remove_def ask_run eff_run)

lemma conn_close_fields:
  "fst (conn_close reason cid s) = Inr ()" "n_routing (snd (conn_close reason cid s)) = n_routing s"
  "n_pending_pings (snd (conn_close reason cid s)) = n_pending_pings s"
  by (simp_all add: conn_close_def TcpConnection_close_def update_conn_def Node_on_disconnect_def eff_run)

text \<open>The pending probe of the contact \<open>lru\<close>, and the state in which it has evicted that contact.\<close>

definition probe_of :: "NodeID \<Rightarrow> timer_ref \<Rightarrow> PendingPing" where
  "probe_of lru t = \<lparr>pp_expected_peer_id = Some lru, pp_timer = t, pp_callback = ProbeResult lru\<rparr>"

definition evicted :: "NodeID \<Rightarrow> RequestID \<Rightarrow> Node \<Rightarrow> Node \<Rightarrow> bool" where
  "evicted lru rid s s' \<longleftrightarrow>
     n_routing s' = snd (RoutingTable_remove lru (n_routing s)) \<and> n_pending_pings s' = (n_pending_pings s)(rid := None)"

lemma probe_fails:
  "n_routing s' = n_routing s \<Longrightarrow> n_pending_pings s' = (n_pending_pings s)(rid := None) \<Longrightarrow>
   evicted lru rid s (snd (run_ping_callback env (probe_of lru t) False s'))"
  using probe_evicts [of "probe_of lru t" lru env s'] run_ping_callback_ok [of env "probe_of lru t" False s']
  by (cases "run_ping_callback env (probe_of lru t) False s'") (simp add: probe_of_def evicted_def)

lemma probe_pong:
  assumes "n_pending_pings s (frame_request_id f) = Some (probe_of lru t)"
    and "s0 = s\<lparr>n_pending_pings := (n_pending_pings s)(frame_request_id f := None)\<rparr>"
  shows "on_pong env cid f s = (if frame_payload f = [] then run_ping_callback env (probe_of lru t) False s0
      else case from_cbor (e_json env) (frame_payload f) of
        None \<Rightarrow> run_ping_callback env (probe_of lru t) False s0
      | Some j \<Rightarrow> (case read_identity env j of
          Inr (VerifiedPeer nid) \<Rightarrow>
            if nid \<noteq> lru then run_ping_callback env (probe_of lru t) False (snd (conn_close ''Unexpected responder NodeID'' cid s0))
            else tryE (thenE (accept_peer env cid j nid) (run_ping_callback env (probe_of lru t) True))
                   (run_ping_callback env (probe_of lru t) False) s0
        | Inr KeyMismatch \<Rightarrow> run_ping_callback env (probe_of lru t) False (snd (conn_close ''NodeID mismatch with public key'' cid s0))
        | _ \<Rightarrow> run_ping_callback env (probe_of lru t) False s0))"
proof -
  have ok: "tryE (run_ping_callback env p b) h x = run_ping_callback env p b x" for p b h x
    using run_ping_callback_ok [of env p b x] by (cases "run_ping_callback env p b x") (simp add: tryE_def)
  have close: "tryE (thenE (conn_close r cid) (run_ping_callback env p b)) h x = run_ping_callback env p b (snd (conn_close r cid x))" for r p b h x
    using conn_close_fields(1) [of r cid x] ok [of p b h "snd (conn_close r cid x)"]
    by (cases "conn_close r cid x") (simp add: tryE_def thenE_run)
  have lift: "tryE (bindE (liftE r) g) h x = (case r of Inl e \<Rightarrow> h x | Inr y \<Rightarrow> tryE (g y) h x)" for r g h and x :: Node
    by (simp add: tryE_def bindE_def liftE_def split: sum.split)
  have "pp_expected_peer_id (probe_of lru t) = Some lru" by (simp add: probe_of_def)
  then show ?thesis
    using assms(1)
    by (simp add: assms(2) on_pong_def bindE_gets thenE_run modify_def json_result_def lift ok close
        split: option.split sum.split identity_claim.split)
qed

lemma probe_pong_bad:
  assumes "n_pending_pings s (frame_request_id f) = Some (probe_of lru t)" and "\<nexists>j. proves_identity env f j lru"
  shows "evicted lru (frame_request_id f) s (snd (on_pong env cid f s))"
proof -
  have "read_identity env j \<noteq> Inr (VerifiedPeer lru)"
    if "frame_payload f \<noteq> []" "from_cbor (e_json env) (frame_payload f) = Some j" for j
    using assms(2) read_identity_verified [OF that] by blast
  then show ?thesis
    unfolding probe_pong [OF assms(1) refl]
    by (auto simp: probe_fails conn_close_fields split: option.split sum.split identity_claim.split)
qed

lemma probe_pong_good:
  assumes "n_pending_pings s (frame_request_id f) = Some (probe_of lru t)" and "n_started s" and "proves_identity env f j lru"
    and "value_u16 (e_json env) j ''listen_port'' (remote_port (n_conns s cid)) = Some prt"
    and "RoutingTable_add_or_update (e_clock env (n_tick s)) (peer_of lru (remote_ip (n_conns s cid)) prt) (n_routing s) = (True, rt)"
    and s': "s' = snd (on_pong env cid f s)"
  shows "n_routing s' = RoutingTable_touch (e_clock env (n_tick s + 1)) lru rt \<and>
    n_pending_pings s' = (n_pending_pings s)(frame_request_id f := None) \<and> tc_peer_id (n_conns s' cid) = Some lru"
proof -
  let ?s0 = "s\<lparr>n_pending_pings := (n_pending_pings s)(frame_request_id f := None)\<rparr>"
  let ?s1 = "?s0\<lparr>n_conns := (n_conns s)(cid := set_peer_id lru (n_conns s cid)), n_tick := n_tick s + 1, n_routing := rt\<rparr>"
  have j: "frame_payload f \<noteq> []" "from_cbor (e_json env) (frame_payload f) = Some j"
    using assms(3) by (simp_all add: proves_identity_def)
  have "read_identity env j = Inr (VerifiedPeer lru)" using read_identity_verified [OF j] assms(3) by blast
  moreover have "accept_peer env cid j lru ?s0 = (Inr (), ?s1)"
    using accept_peer_run [of ?s0 env j cid prt lru rt] assms(2,4,5) by simp
  moreover obtain s2 where s2: "run_ping_callback env (probe_of lru t) True ?s1 = (Inr (), s2)"
    using run_ping_callback_ok by (metis prod.collapse)
  ultimately have "s' = s2" using j by (simp add: s' probe_pong [OF assms(1) refl] eff_run)
  then show ?thesis using probe_keeps [OF _ s2, of lru] by (simp add: set_peer_id_def probe_of_def)
qed



end
