(* ===== verification/Node_Requests.thy ===== *)
theory Node_Requests
  imports Node_Contacts
begin

text \<open>
  The DHT requests: every well-formed request is answered on its connection, from the records and the
  table of the node.
\<close>

section \<open>Answers\<close>

definition answer :: "Frame \<Rightarrow> MessageType \<Rightarrow> bytes \<Rightarrow> Frame" where
  "answer f mtype payload = (Frame_new mtype (frame_request_id f))\<lparr>frame_flags := IS_RESPONSE, frame_payload := payload\<rparr>"

lemma respond_answer: "respond env cid f mtype payload = conn_send env cid (answer f mtype payload)"
  by (simp add: respond_def answer_def Let_def Frame_new_def Frame_default_def FLAG_NONE_def flags_or_def)

lemmas request_dispatch = on_frame_dispatch dispatch_frame_def Let_def PING_def PONG_def FIND_NODE_REQUEST_def FIND_NODE_RESPONSE_def
  STORE_REQUEST_def STORE_RESPONSE_def FIND_VALUE_REQUEST_def

lemma answer_plain: "t \<in> {FIND_NODE_RESPONSE, STORE_RESPONSE, FIND_VALUE_RESPONSE} \<Longrightarrow> must_encrypt (answer f t payload)"
  by (auto simp: must_encrypt_def answer_def Frame_new_def flag_set_def IS_RESPONSE_def IS_ENCRYPTED_def FIND_NODE_RESPONSE_def
      STORE_RESPONSE_def FIND_VALUE_RESPONSE_def HANDSHAKE_INIT_def HANDSHAKE_RESPONSE_def HANDSHAKE_COMPLETE_def)

text \<open>What all requests do: offer the sender to the table, work on the store, answer.\<close>

definition request_handled :: "env \<Rightarrow> conn_ref \<Rightarrow> PeerInfo \<Rightarrow> Frame \<Rightarrow> RecordStore \<Rightarrow> Node \<Rightarrow> Node \<Rightarrow> bool" where
  "request_handled env cid sender g st s s' \<longleftrightarrow>
     contact_offered env sender s (n_routing s') \<and> answers_on env cid g s s' \<and> n_store s' = st \<and>
     n_pending_requests s' = n_pending_requests s \<and> n_log s' = n_log s"

lemma request_run:
  assumes ready: "sodium_ready (e_sodium env)" "aead_correct (e_sodium env)" and s: "node_inv env s" "n_started s"
    and cid: "sock_open (n_conns s cid)" "cid < n_conn_count s"
    and mt: "mt \<in> {FIND_NODE_RESPONSE, STORE_RESPONSE, FIND_VALUE_RESPONSE}"
    and run: "\<And>s1. Node_add_contact env sender s = (Inr (), s1) \<Longrightarrow> contact_kept env s s1 \<Longrightarrow>
      Node_on_frame env cid f s = conn_send env cid (answer f mt (payload s1)) (s1\<lparr>n_tick := n_tick s1 + d, n_store := st s1\<rparr>)"
  obtains s1 s' where "contact_kept env s s1" "Node_on_frame env cid f s = (Inr (), s')"
    "request_handled env cid sender (answer f mt (payload s1)) (st s1) s s'" "n_routing s' = n_routing s1"
    "n_tick s' = n_tick s1 + d" "\<And>x. x < n_conn_count s \<Longrightarrow> link_kept x s s'"
proof -
  obtain s1 where s1: "Node_add_contact env sender s = (Inr (), s1)" "contact_kept env s s1"
      "contact_offered env sender s (n_routing s1)" "\<And>x. x < n_conn_count s \<Longrightarrow> link_kept x s s1"
    using add_contact_kept [OF ready s(1), of sender] s(2) by blast
  let ?s2 = "s1\<lparr>n_tick := n_tick s1 + d, n_store := st s1\<rparr>" and ?g = "answer f mt (payload s1)"
  have link: "link_kept x s ?s2" if "x < n_conn_count s" for x using s1(4) [OF that] by (simp add: link_kept_def)
  obtain ss c where send: "conn_send env cid ?g ?s2 = (Inr (), ?s2\<lparr>n_sessions := ss, n_conns := (n_conns ?s2)(cid := c)\<rparr>)"
    and ans: "answers_on env cid ?g s (?s2\<lparr>n_sessions := ss, n_conns := (n_conns ?s2)(cid := c)\<rparr>)"
    using conn_send_answers [OF ready cid(1) answer_plain [OF mt] link [OF cid(2)]] by blast
  let ?s' = "?s2\<lparr>n_sessions := ss, n_conns := (n_conns ?s2)(cid := c)\<rparr>"
  have "link_kept x s ?s'" if "x < n_conn_count s" for x
    using keepsD [OF link_conn_send link [OF that], of env cid ?g] send by simp
  moreover have "request_handled env cid sender ?g (st s1) s ?s'"
    using s1(2,3) ans by (simp add: request_handled_def contact_kept_def)
  ultimately show ?thesis using that [of s1 ?s'] run [OF s1(1,2)] send s1(2) by simp
qed

lemma store_request_run:
  assumes "sodium_ready (e_sodium env)" "aead_correct (e_sodium env)" "node_inv env s" "n_started s"
    and "sock_open (n_conns s cid)" "cid < n_conn_count s" "\<not> flag_set (frame_flags f) IS_RESPONSE"
    and "frame_type f = STORE_REQUEST" "deserialize_store_request (e_json env) (frame_payload f) = Some req"
  obtains s' err st where "Node_on_frame env cid f s = (Inr (), s')"
    and "RecordStore_put (e_sodium env) (sq_key req) (sq_record req) (e_now env (n_tick s' - 1)) (n_store s) = (err, st)"
    and "request_handled env cid (sq_sender req) (answer f STORE_RESPONSE (serialize_store_response (e_json env)
      \<lparr>sr_key = sq_key req, sr_success = (err = ValidationNone),
       sr_message = (if err = ValidationNone then ''Stored successfully'' else record_validation_error_name err)\<rparr>)) st s s'"
    and "\<And>x. x < n_conn_count s \<Longrightarrow> link_kept x s s'"
proof -
  let ?put = "\<lambda>s1. RecordStore_put (e_sodium env) (sq_key req) (sq_record req) (e_now env (n_tick s1)) (n_store s)"
  let ?resp = "\<lambda>err. serialize_store_response (e_json env) \<lparr>sr_key = sq_key req, sr_success = (err = ValidationNone),
       sr_message = (if err = ValidationNone then ''Stored successfully'' else record_validation_error_name err)\<rparr>"
  have run: "Node_on_frame env cid f s =
      conn_send env cid (answer f STORE_RESPONSE (?resp (fst (?put s1)))) (s1\<lparr>n_tick := n_tick s1 + 1, n_store := snd (?put s1)\<rparr>)"
    if "Node_add_contact env (sq_sender req) s = (Inr (), s1)" "contact_kept env s s1" for s1
    using that assms(7-9)
    by (simp add: contact_kept_def request_dispatch on_store_request_def bindE_def thenE_run ask_run store_put_run respond_answer)
  show ?thesis
  proof (rule request_run [OF assms(1-6) _ run])
    fix s1 s' assume "Node_on_frame env cid f s = (Inr (), s')" "n_tick s' = n_tick s1 + 1"
      "request_handled env cid (sq_sender req) (answer f STORE_RESPONSE (?resp (fst (?put s1)))) (snd (?put s1)) s s'"
      "\<And>x. x < n_conn_count s \<Longrightarrow> link_kept x s s'"
    then show ?thesis using that [of s' "fst (?put s1)" "snd (?put s1)"] by simp
  qed simp_all
qed

lemma find_value_request_run:
  assumes "sodium_ready (e_sodium env)" "aead_correct (e_sodium env)" "node_inv env s" "n_started s"
    and "sock_open (n_conns s cid)" "cid < n_conn_count s" "\<not> flag_set (frame_flags f) IS_RESPONSE"
    and "frame_type f = FIND_VALUE_REQUEST" "deserialize_find_value_request (e_json env) (frame_payload f) = Some req"
  obtains s' found st where "Node_on_frame env cid f s = (Inr (), s')"
    and "RecordStore_get (fvq_key req) (e_now env (n_tick s' - 1)) (n_store s) = (found, st)"
    and "request_handled env cid (fvq_sender req) (answer f FIND_VALUE_RESPONSE (serialize_find_value_response (e_json env)
      (case found of
         Some r \<Rightarrow> FindValueResponse_default\<lparr>fvr_key := fvq_key req, fvr_has_value := True, fvr_record := Some r\<rparr>
       | None \<Rightarrow> FindValueResponse_default\<lparr>fvr_key := fvq_key req, fvr_has_value := False,
           fvr_closest_nodes := RoutingTable_find_closest (fvq_key req) (config_k s) (n_routing s')\<rparr>))) st s s'"
proof -
  let ?get = "\<lambda>s1. RecordStore_get (fvq_key req) (e_now env (n_tick s1)) (n_store s)"
  let ?resp = "\<lambda>found rt. serialize_find_value_response (e_json env) (case found of
         Some r \<Rightarrow> FindValueResponse_default\<lparr>fvr_key := fvq_key req, fvr_has_value := True, fvr_record := Some r\<rparr>
       | None \<Rightarrow> FindValueResponse_default\<lparr>fvr_key := fvq_key req, fvr_has_value := False,
           fvr_closest_nodes := RoutingTable_find_closest (fvq_key req) (config_k s) rt\<rparr>)"
  have run: "Node_on_frame env cid f s = conn_send env cid (answer f FIND_VALUE_RESPONSE (?resp (fst (?get s1)) (n_routing s1)))
      (s1\<lparr>n_tick := n_tick s1 + 1, n_store := snd (?get s1)\<rparr>)"
    if "Node_add_contact env (fvq_sender req) s = (Inr (), s1)" "contact_kept env s s1" for s1
    using that assms(7-9)
    by (simp add: contact_kept_def request_dispatch on_find_value_request_def bindE_def thenE_run ask_run store_get_run respond_answer
        gets_def config_k_def split: option.split)
  show ?thesis
  proof (rule request_run [OF assms(1-6) _ run])
    fix s1 s' assume "Node_on_frame env cid f s = (Inr (), s')" "n_tick s' = n_tick s1 + 1" "n_routing s' = n_routing s1"
      "request_handled env cid (fvq_sender req) (answer f FIND_VALUE_RESPONSE (?resp (fst (?get s1)) (n_routing s1))) (snd (?get s1)) s s'"
    then show ?thesis using that [of s' "fst (?get s1)" "snd (?get s1)"] by (simp cong: option.case_cong)
  qed simp_all
qed

lemma find_node_request_run:
  assumes "sodium_ready (e_sodium env)" "aead_correct (e_sodium env)" "node_inv env s" "n_started s"
    and "sock_open (n_conns s cid)" "cid < n_conn_count s" "\<not> flag_set (frame_flags f) IS_RESPONSE"
    and "frame_type f = FIND_NODE_REQUEST" "deserialize_find_node_request (e_json env) (frame_payload f) = Some req"
  obtains s' where "Node_on_frame env cid f s = (Inr (), s')"
    and "request_handled env cid (fnq_sender req) (answer f FIND_NODE_RESPONSE (serialize_find_node_response (e_json env)
      \<lparr>fnr_closest_nodes = RoutingTable_find_closest (fnq_target req) (config_k s) (n_routing s')\<rparr>)) (n_store s) s s'"
proof -
  let ?resp = "\<lambda>rt. serialize_find_node_response (e_json env)
      \<lparr>fnr_closest_nodes = RoutingTable_find_closest (fnq_target req) (config_k s) rt\<rparr>"
  have run: "Node_on_frame env cid f s =
      conn_send env cid (answer f FIND_NODE_RESPONSE (?resp (n_routing s1))) (s1\<lparr>n_tick := n_tick s1 + 0, n_store := n_store s1\<rparr>)"
    if "Node_add_contact env (fnq_sender req) s = (Inr (), s1)" "contact_kept env s s1" for s1
    using that(1) that(2) [unfolded contact_kept_def, THEN conjunct2, THEN conjunct2, THEN conjunct1] assms(7-9)
    by (simp add: request_dispatch on_find_node_request_def bindE_def thenE_run respond_answer gets_def config_k_def)
  show ?thesis
  proof (rule request_run [OF assms(1-6) _ run])
    fix s1 s' assume "contact_kept env s s1" "Node_on_frame env cid f s = (Inr (), s')" "n_routing s' = n_routing s1"
      "request_handled env cid (fnq_sender req) (answer f FIND_NODE_RESPONSE (?resp (n_routing s1))) (n_store s1) s s'"
    then show ?thesis using that [of s'] by (simp add: contact_kept_def)
  qed simp_all
qed

text \<open>
  C21. Every DHT request that decodes, on an open connection, is answered there: a frame with the request's id
  and the response flag is queued on the connection, sealed if its session is active, and the
  connection stays open. The sender is first offered to the table (a contact where its bucket has
  room, otherwise at most a replacement while the least recently seen contact is probed). FIND\_NODE is
  answered with the closest contacts of the table as it is then. STORE puts the record into the store, and
  the answer tells whether it was accepted. FIND\_VALUE is answered with the stored record, or, when there
  is none, with the closest contacts. The requests that wait for an answer are left alone and nothing is
  reported to the application.
\<close>

theorem Node_answers_requests:
  assumes "node_reachable env fs cfg s" and "sodium_ready (e_sodium env)" and "aead_correct (e_sodium env)"
    and "sock_open (n_conns s cid)" and "cid < n_conn_count s" and "\<not> flag_set (frame_flags f) IS_RESPONSE"
  shows "(\<forall>req. frame_type f = FIND_NODE_REQUEST \<longrightarrow> deserialize_find_node_request (e_json env) (frame_payload f) = Some req \<longrightarrow>
       (\<exists>s'. Node_on_frame env cid f s = (Inr (), s') \<and> contact_offered env (fnq_sender req) s (n_routing s') \<and>
          answers_on env cid (answer f FIND_NODE_RESPONSE (serialize_find_node_response (e_json env)
            \<lparr>fnr_closest_nodes = RoutingTable_find_closest (fnq_target req) (config_k s) (n_routing s')\<rparr>)) s s' \<and>
          n_store s' = n_store s \<and> n_pending_requests s' = n_pending_requests s \<and> n_log s' = n_log s)) \<and>
    (\<forall>req. frame_type f = STORE_REQUEST \<longrightarrow> deserialize_store_request (e_json env) (frame_payload f) = Some req \<longrightarrow>
       (\<exists>s' err st. RecordStore_put (e_sodium env) (sq_key req) (sq_record req) (e_now env (n_tick s' - 1)) (n_store s) = (err, st) \<and>
          Node_on_frame env cid f s = (Inr (), s') \<and> contact_offered env (sq_sender req) s (n_routing s') \<and>
          answers_on env cid (answer f STORE_RESPONSE (serialize_store_response (e_json env)
            \<lparr>sr_key = sq_key req, sr_success = (err = ValidationNone),
             sr_message = (if err = ValidationNone then ''Stored successfully'' else record_validation_error_name err)\<rparr>)) s s' \<and>
          n_store s' = st \<and> n_pending_requests s' = n_pending_requests s \<and> n_log s' = n_log s)) \<and>
    (\<forall>req. frame_type f = FIND_VALUE_REQUEST \<longrightarrow> deserialize_find_value_request (e_json env) (frame_payload f) = Some req \<longrightarrow>
       (\<exists>s' found st. RecordStore_get (fvq_key req) (e_now env (n_tick s' - 1)) (n_store s) = (found, st) \<and>
          Node_on_frame env cid f s = (Inr (), s') \<and> contact_offered env (fvq_sender req) s (n_routing s') \<and>
          answers_on env cid (answer f FIND_VALUE_RESPONSE (serialize_find_value_response (e_json env)
            (case found of
               Some r \<Rightarrow> FindValueResponse_default\<lparr>fvr_key := fvq_key req, fvr_has_value := True, fvr_record := Some r\<rparr>
             | None \<Rightarrow> FindValueResponse_default\<lparr>fvr_key := fvq_key req, fvr_has_value := False,
                 fvr_closest_nodes := RoutingTable_find_closest (fvq_key req) (config_k s) (n_routing s')\<rparr>))) s s' \<and>
          n_store s' = st \<and> n_pending_requests s' = n_pending_requests s \<and> n_log s' = n_log s))"
proof (intro conjI allI impI)
  have "n_started s" using reachable_same [OF assms(1)] by (auto simp: same_node_def)
  note pre = assms(2,3) reachable_inv [OF assms(1)] this assms(4-6)
  fix req assume f: "frame_type f = FIND_NODE_REQUEST" "deserialize_find_node_request (e_json env) (frame_payload f) = Some req"
  show "\<exists>s'. Node_on_frame env cid f s = (Inr (), s') \<and> contact_offered env (fnq_sender req) s (n_routing s') \<and>
          answers_on env cid (answer f FIND_NODE_RESPONSE (serialize_find_node_response (e_json env)
            \<lparr>fnr_closest_nodes = RoutingTable_find_closest (fnq_target req) (config_k s) (n_routing s')\<rparr>)) s s' \<and>
          n_store s' = n_store s \<and> n_pending_requests s' = n_pending_requests s \<and> n_log s' = n_log s"
    by (rule find_node_request_run [OF pre f]) (unfold request_handled_def, blast)
next
  have "n_started s" using reachable_same [OF assms(1)] by (auto simp: same_node_def)
  note pre = assms(2,3) reachable_inv [OF assms(1)] this assms(4-6)
  fix req assume f: "frame_type f = STORE_REQUEST" "deserialize_store_request (e_json env) (frame_payload f) = Some req"
  show "\<exists>s' err st. RecordStore_put (e_sodium env) (sq_key req) (sq_record req) (e_now env (n_tick s' - 1)) (n_store s) = (err, st) \<and>
          Node_on_frame env cid f s = (Inr (), s') \<and> contact_offered env (sq_sender req) s (n_routing s') \<and>
          answers_on env cid (answer f STORE_RESPONSE (serialize_store_response (e_json env)
            \<lparr>sr_key = sq_key req, sr_success = (err = ValidationNone),
             sr_message = (if err = ValidationNone then ''Stored successfully'' else record_validation_error_name err)\<rparr>)) s s' \<and>
          n_store s' = st \<and> n_pending_requests s' = n_pending_requests s \<and> n_log s' = n_log s"
    by (rule store_request_run [OF pre f]) (unfold request_handled_def, blast)
next
  have "n_started s" using reachable_same [OF assms(1)] by (auto simp: same_node_def)
  note pre = assms(2,3) reachable_inv [OF assms(1)] this assms(4-6)
  fix req assume f: "frame_type f = FIND_VALUE_REQUEST" "deserialize_find_value_request (e_json env) (frame_payload f) = Some req"
  show "\<exists>s' found st. RecordStore_get (fvq_key req) (e_now env (n_tick s' - 1)) (n_store s) = (found, st) \<and>
          Node_on_frame env cid f s = (Inr (), s') \<and> contact_offered env (fvq_sender req) s (n_routing s') \<and>
          answers_on env cid (answer f FIND_VALUE_RESPONSE (serialize_find_value_response (e_json env)
            (case found of
               Some r \<Rightarrow> FindValueResponse_default\<lparr>fvr_key := fvq_key req, fvr_has_value := True, fvr_record := Some r\<rparr>
             | None \<Rightarrow> FindValueResponse_default\<lparr>fvr_key := fvq_key req, fvr_has_value := False,
                 fvr_closest_nodes := RoutingTable_find_closest (fvq_key req) (config_k s) (n_routing s')\<rparr>))) s s' \<and>
          n_store s' = st \<and> n_pending_requests s' = n_pending_requests s \<and> n_log s' = n_log s"
    by (rule find_value_request_run [OF pre f]) (unfold request_handled_def, blast)
qed

lemma store_then_find:
  assumes s: "node_inv env s" "n_started s" and ready: "sodium_ready (e_sodium env)" "aead_correct (e_sodium env)"
    and conns: "sock_open (n_conns s cid)" "cid < n_conn_count s" "sock_open (n_conns s cid')" "cid' < n_conn_count s"
    and f1: "\<not> flag_set (frame_flags f1) IS_RESPONSE" "frame_type f1 = STORE_REQUEST"
      "deserialize_store_request (e_json env) (frame_payload f1) = Some req"
    and f2: "\<not> flag_set (frame_flags f2) IS_RESPONSE" "frame_type f2 = FIND_VALUE_REQUEST"
      "deserialize_find_value_request (e_json env) (frame_payload f2) = Some query" "fvq_key query = sq_key req"
    and valid: "\<forall>t. NodeRecord_validate (e_sodium env) (e_now env t) (sq_record req) = ValidationNone"
    and newer: "\<forall>n. highest_seq_tab (n_store s) (sq_key req) = Some n \<longrightarrow> n < sequence_number (sq_record req)"
  shows "\<exists>s1 s2. Node_on_frame env cid f1 s = (Inr (), s1) \<and>
    answers_on env cid (answer f1 STORE_RESPONSE (serialize_store_response (e_json env)
       \<lparr>sr_key = sq_key req, sr_success = True, sr_message = ''Stored successfully''\<rparr>)) s s1 \<and>
    (\<forall>t. fst (RecordStore_get (sq_key req) (e_now env t) (n_store s1)) = Some (sq_record req)) \<and>
    Node_on_frame env cid' f2 s1 = (Inr (), s2) \<and>
    answers_on env cid' (answer f2 FIND_VALUE_RESPONSE (serialize_find_value_response (e_json env)
       (FindValueResponse_default\<lparr>fvr_key := sq_key req, fvr_has_value := True, fvr_record := Some (sq_record req)\<rparr>))) s1 s2"
proof -
  obtain s1 err st where s1: "Node_on_frame env cid f1 s = (Inr (), s1)"
      "RecordStore_put (e_sodium env) (sq_key req) (sq_record req) (e_now env (n_tick s1 - 1)) (n_store s) = (err, st)"
    and done1: "request_handled env cid (sq_sender req) (answer f1 STORE_RESPONSE (serialize_store_response (e_json env)
      \<lparr>sr_key = sq_key req, sr_success = (err = ValidationNone),
       sr_message = (if err = ValidationNone then ''Stored successfully'' else record_validation_error_name err)\<rparr>)) st s s1"
    and link: "\<And>x. x < n_conn_count s \<Longrightarrow> link_kept x s s1"
    using store_request_run [OF ready s conns(1,2) f1] by metis
  have wf: "RecordStore_wf (e_sodium env) (n_store s)" using inv.p_records [OF s(1)] .
  have put: "err = ValidationNone" "st = (n_store s)\<lparr>records := AList.update (sq_key req) (sq_record req) (records (n_store s)),
      highest_seq_tab := (highest_seq_tab (n_store s))(sq_key req \<mapsto> sequence_number (sq_record req))\<rparr>"
    using s1(2) valid newer by (auto simp: put_eq [OF wf] split: if_splits)
  have found: "fst (RecordStore_get (sq_key req) (e_now env t) (n_store s1)) = Some (sq_record req)" for t
    using valid put(2) done1 by (simp add: request_handled_def get_result update_conv validate_None_iff)
  have "same_node env (n_config s) (n_keypair s) True s" using s by (simp add: same_node_def)
  from keepsD [OF same.keeps_on_frame this, of cid f1] s1(1) have inv1: "node_inv env s1" "n_started s1" by (simp_all add: same_node_def)
  have conn1: "sock_open (n_conns s1 cid')" "cid' < n_conn_count s1" using link [OF conns(4)] conns(3) by (simp_all add: link_kept_def)
  obtain s2 res st2 where s2: "Node_on_frame env cid' f2 s1 = (Inr (), s2)"
      "RecordStore_get (fvq_key query) (e_now env (n_tick s2 - 1)) (n_store s1) = (res, st2)"
    and done2: "request_handled env cid' (fvq_sender query) (answer f2 FIND_VALUE_RESPONSE (serialize_find_value_response (e_json env)
      (case res of
         Some r \<Rightarrow> FindValueResponse_default\<lparr>fvr_key := fvq_key query, fvr_has_value := True, fvr_record := Some r\<rparr>
       | None \<Rightarrow> FindValueResponse_default\<lparr>fvr_key := fvq_key query, fvr_has_value := False,
           fvr_closest_nodes := RoutingTable_find_closest (fvq_key query) (config_k s1) (n_routing s2)\<rparr>))) st2 s1 s2"
    using find_value_request_run [OF ready inv1 conn1 f2(1-3)] by metis
  have "res = Some (sq_record req)" using found [of "n_tick s2 - 1"] s2(2) f2(4) by simp
  with s1(1) s2(1) done1 done2 put(1) found f2(4) show ?thesis by (simp add: request_handled_def)
qed

text \<open>
  C15. What a node was asked to store, it gives back. When a STORE request on an open connection brings a
  record that is valid and newer than what the node has accepted for the key, the answer queued on that
  connection is success, and from then on the node's store returns the record for the key, as long as the
  clock stays within its validity; and a FIND\_VALUE request for the same key, on any open connection, is
  then answered there with exactly that record.
\<close>

theorem Node_store_then_find:
  assumes "node_reachable env fs cfg s" and "sodium_ready (e_sodium env)" and "aead_correct (e_sodium env)"
    and "sock_open (n_conns s cid)" and "cid < n_conn_count s" and "sock_open (n_conns s cid')" and "cid' < n_conn_count s"
    and f1: "\<not> flag_set (frame_flags f1) IS_RESPONSE" "frame_type f1 = STORE_REQUEST"
      "deserialize_store_request (e_json env) (frame_payload f1) = Some req"
    and f2: "\<not> flag_set (frame_flags f2) IS_RESPONSE" "frame_type f2 = FIND_VALUE_REQUEST"
      "deserialize_find_value_request (e_json env) (frame_payload f2) = Some query" "fvq_key query = sq_key req"
    and valid: "\<forall>t. NodeRecord_validate (e_sodium env) (e_now env t) (sq_record req) = ValidationNone"
    and newer: "\<forall>n. highest_seq_tab (n_store s) (sq_key req) = Some n \<longrightarrow> n < sequence_number (sq_record req)"
  shows "\<exists>s1 s2. Node_on_frame env cid f1 s = (Inr (), s1) \<and>
    answers_on env cid (answer f1 STORE_RESPONSE (serialize_store_response (e_json env)
       \<lparr>sr_key = sq_key req, sr_success = True, sr_message = ''Stored successfully''\<rparr>)) s s1 \<and>
    (\<forall>t. fst (RecordStore_get (sq_key req) (e_now env t) (n_store s1)) = Some (sq_record req)) \<and>
    Node_on_frame env cid' f2 s1 = (Inr (), s2) \<and>
    answers_on env cid' (answer f2 FIND_VALUE_RESPONSE (serialize_find_value_response (e_json env)
       (FindValueResponse_default\<lparr>fvr_key := sq_key req, fvr_has_value := True, fvr_record := Some (sq_record req)\<rparr>))) s1 s2"
proof -
  have "n_started s" using reachable_same [OF assms(1)] by (auto simp: same_node_def)
  from store_then_find [OF reachable_inv [OF assms(1)] this assms(2-7) f1 f2 valid newer] show ?thesis .
qed

section \<open>What the requests do not check\<close>

text \<open>
  Unlike PING, a DHT request needs no proof of identity: whatever sender it names becomes a contact.
\<close>

lemma unverified_sender_added:
  assumes "n_started s" "\<not> flag_set (frame_flags f) IS_RESPONSE" "frame_type f = FIND_NODE_REQUEST"
    and "deserialize_find_node_request (e_json env) (frame_payload f) = Some req"
    and "RoutingTable_add_or_update (e_clock env (n_tick s)) (fnq_sender req) (n_routing s) = (True, rt)"
  shows "n_routing (snd (Node_on_frame env cid f s)) = rt"
  using assms
  by (simp add: request_dispatch on_find_node_request_def add_contact_room bindE_gets thenE_run respond_answer conn_send_def split: prod.split)

text \<open>
  Answers, and the requests of the node, always carry the version the program was compiled with, also
  when another one is configured and demanded of the frames that come in.
\<close>

lemma answer_version: "frame_version (answer f t p) = PROTOCOL_VERSION"
  by (simp add: answer_def Frame_new_def Frame_default_def)

text \<open>
  The sender named in the requests is the configured listening address, by default the wildcard
  address, and receivers replace the address they know of the node by it.
\<close>

lemma self_peer_default: "n_config s = Config_default \<Longrightarrow> peer_address (self_peer env s) = \<lparr>host = ''0.0.0.0'', port = 9000\<rparr>"
  by (simp add: self_peer_def peer_of_def Config_default_def)

section \<open>A concrete run\<close>

text \<open>A STORE request, whose payload also decodes as a FIND\_VALUE request for the same key.\<close>

definition test_store_env :: env where
  "test_store_env = test_env (record_json (signed_test_record 3)) test_store_json"

definition test_signed_request :: StoreRequest where
  "test_signed_request = test_store_request\<lparr>sq_record := signed_test_record 3\<rparr>"

definition test_request_frame :: "MessageType \<Rightarrow> Frame" where
  "test_request_frame t = (Frame_new t (barray_of [3]))\<lparr>frame_payload := serialize_store_request (e_json test_store_env) test_signed_request\<rparr>"

lemma test_request_decodes:
  "deserialize_store_request (e_json test_store_env) (frame_payload (test_request_frame t)) = Some test_signed_request"
  "deserialize_find_value_request (e_json test_store_env) (frame_payload (test_request_frame t)) =
     Some \<lparr>fvq_key = sq_key test_signed_request, fvq_sender = sq_sender test_signed_request\<rparr>"
proof -
  let ?jl = "e_json test_store_env"
  have jl: "?jl = toy_json2 (record_json (signed_test_record 3)) test_store_json" by (simp add: test_store_env_def test_env_def)
  then have laws: "json_laws ?jl" by (simp add: toy_json2_laws)
  have json: "store_request_json ?jl test_signed_request = test_store_json"
    by (simp add: jl store_request_json_def test_store_json_def test_store_request_def test_signed_request_def NodeRecord_to_cbor_def
        toy_json2_def plain_json_def)
  have rt: "cbor_roundtrip ?jl (record_json (sq_record test_signed_request))" "cbor_roundtrip ?jl (store_request_json ?jl test_signed_request)"
    using toy_json2_roundtrip [of "record_json (signed_test_record 3)" test_store_json] jl json by (simp_all add: test_signed_request_def)
  show "deserialize_store_request ?jl (frame_payload (test_request_frame t)) = Some test_signed_request"
    using store_codecs_inverse(1) [OF laws rt] by (simp add: test_request_frame_def)
  show "deserialize_find_value_request ?jl (frame_payload (test_request_frame t)) =
     Some \<lparr>fvq_key = sq_key test_signed_request, fvq_sender = sq_sender test_signed_request\<rparr>"
    using rt(2) laws
    by (simp add: test_request_frame_def serialize_store_request_def deserialize_find_value_request_def cbor_roundtrip_def)
      (simp add: store_request_json_def json_law_simps)
qed

lemma test_store_ready:
  "sodium_ready (e_sodium test_store_env)" "aead_correct (e_sodium test_store_env)"
  "node_reachable test_store_env test_fs Config_default (test_accepted test_store_env)"
  "\<not> flag_set (frame_flags (test_request_frame t)) IS_RESPONSE" "frame_type (test_request_frame t) = t"
  "sock_open (n_conns (test_accepted test_store_env) 0)" "0 < n_conn_count (test_accepted test_store_env)"
  using toy_sodium_ready toy_sodium_aead test_accepted_reachable test_accepted_fields
  by (simp_all add: test_store_env_def test_env_def [THEN arg_cong, of e_sodium] test_request_frame_def Frame_new_def Frame_default_def
      FLAG_NONE_def flag_set_def)

theorem Node_answers_requests_witness:
  "\<exists>s' err st. RecordStore_put toy_sodium (barray_of [9]) (signed_test_record 3) (e_now test_store_env (n_tick s' - 1)) RecordStore_new = (err, st) \<and>
     Node_on_frame test_store_env 0 (test_request_frame STORE_REQUEST) (test_accepted test_store_env) = (Inr (), s') \<and>
     answers_on test_store_env 0 (answer (test_request_frame STORE_REQUEST) STORE_RESPONSE (serialize_store_response (e_json test_store_env)
       \<lparr>sr_key = barray_of [9], sr_success = (err = ValidationNone),
        sr_message = (if err = ValidationNone then ''Stored successfully'' else record_validation_error_name err)\<rparr>))
       (test_accepted test_store_env) s' \<and> n_store s' = st"
proof -
  have req: "sq_key test_signed_request = barray_of [9]" "sq_record test_signed_request = signed_test_record 3"
    by (simp_all add: test_signed_request_def test_store_request_def)
  have env: "e_sodium test_store_env = toy_sodium" "n_store (test_accepted test_store_env) = RecordStore_new"
    by (simp add: test_store_env_def test_env_def) (simp add: test_store_env_def test_accepted_fields)
  show ?thesis
    using Node_answers_requests [OF test_store_ready(3,1,2,6,7) test_store_ready(4) [of STORE_REQUEST], THEN conjunct2, THEN conjunct1, rule_format,
        OF test_store_ready(5) test_request_decodes(1)]
    unfolding req env by blast
qed

theorem Node_store_then_find_witness:
  "\<exists>s1 s2. Node_on_frame test_store_env 0 (test_request_frame STORE_REQUEST) (test_accepted test_store_env) = (Inr (), s1) \<and>
     fst (RecordStore_get (barray_of [9]) 100 (n_store s1)) = Some (signed_test_record 3) \<and>
     Node_on_frame test_store_env 0 (test_request_frame FIND_VALUE_REQUEST) s1 = (Inr (), s2) \<and>
     answers_on test_store_env 0 (answer (test_request_frame FIND_VALUE_REQUEST) FIND_VALUE_RESPONSE
       (serialize_find_value_response (e_json test_store_env) (FindValueResponse_default\<lparr>fvr_key := barray_of [9], fvr_has_value := True,
          fvr_record := Some (signed_test_record 3)\<rparr>))) s1 s2"
proof -
  have req: "sq_key test_signed_request = barray_of [9]" "sq_record test_signed_request = signed_test_record 3"
    by (simp_all add: test_signed_request_def test_store_request_def)
  have env: "e_sodium test_store_env = toy_sodium" "e_now test_store_env t = 100" for t
    by (simp_all add: test_store_env_def test_env_def)
  have "NodeRecord_validate toy_sodium 100 (signed_test_record 3) = ValidationNone" by code_simp
  then have valid: "\<forall>t. NodeRecord_validate (e_sodium test_store_env) (e_now test_store_env t) (sq_record test_signed_request) = ValidationNone"
    by (simp add: env req)
  have newer: "\<forall>n. highest_seq_tab (n_store (test_accepted test_store_env)) (sq_key test_signed_request) = Some n \<longrightarrow>
      n < sequence_number (sq_record test_signed_request)"
    by (simp add: test_store_env_def test_accepted_fields RecordStore_new_def)
  note pre = test_store_ready(3,1,2,6,7,6,7) test_store_ready(4,5) [of STORE_REQUEST] test_request_decodes(1) [of STORE_REQUEST]
    test_store_ready(4,5) [of FIND_VALUE_REQUEST] test_request_decodes(2) [of FIND_VALUE_REQUEST]
  have "fvq_key \<lparr>fvq_key = sq_key test_signed_request, fvq_sender = sq_sender test_signed_request\<rparr> = sq_key test_signed_request" by simp
  from Node_store_then_find [OF pre this valid newer] show ?thesis unfolding req env by blast
qed

end
