(* ===== verification/Lookup_Network.thy ===== *)
theory Lookup_Network
  imports Lookup_Engine
begin

text \<open>
  The iterative lookup in a network of nodes with routing tables: \<^verbatim>\<open>dht/lookup_engine\<close> together with the
  answers of \<^verbatim>\<open>RoutingTable::find_closest\<close>. The locale \<open>closest_source\<close> states what the lookup needs of an
  answer and is interpreted on the routing tables; a table \<open>covers\<close> a network if it satisfies the
  invariant that Kademlia maintains for its buckets. The central argument: a contact in the same
  bucket as some closer node is itself closer (\<open>same_bucket_closer\<close>), so a node that is not closest
  always names a closer one, and a complete lookup has asked the closest candidate it knows.
\<close>

section \<open>What a lookup needs of the tables\<close>

locale closest_source =
  fixes ok :: "'t \<Rightarrow> bool" and contacts :: "'t \<Rightarrow> PeerInfo list"
    and closest :: "NodeID \<Rightarrow> nat \<Rightarrow> 't \<Rightarrow> PeerInfo list"
  assumes contacts_distinct: "ok t \<Longrightarrow> distinct (map peer_node_id (contacts t))"
    and closest_sub: "ok t \<Longrightarrow> set (closest target n t) \<subseteq> set (contacts t)"
    and closest_length: "ok t \<Longrightarrow> length (closest target n t) = min n (length (contacts t))"
    and closest_distinct: "ok t \<Longrightarrow> distinct (map peer_node_id (closest target n t))"
    and closest_near: "ok t \<Longrightarrow> p \<in> set (closest target n t) \<Longrightarrow> q \<in> set (contacts t) \<Longrightarrow>
      q \<notin> set (closest target n t) \<Longrightarrow> peer_dist target p < peer_dist target q"
begin

lemma answer_progress:
  assumes "ok t" "w \<in> set (contacts t)" "peer_node_id w \<noteq> lid" "2 \<le> n"
  shows "\<exists>p \<in> set (closest target n t). peer_node_id p \<noteq> lid \<and> peer_dist target p \<le> peer_dist target w"
proof (cases "w \<in> set (closest target n t)")
  case False
  have "length (closest target n t) = n"
  proof (rule ccontr)
    assume "length (closest target n t) \<noteq> n"
    then have "card (set (closest target n t)) = card (set (contacts t))"
      using closest_length [OF assms(1)] closest_distinct [OF assms(1)] contacts_distinct [OF assms(1)]
      by (metis distinct_card distinct_map min_def)
    then show False using False assms(2) closest_sub [OF assms(1)] card_subset_eq [of "set (contacts t)"]
      by (metis List.finite_set)
  qed
  then obtain p q rest where pq: "closest target n t = p # q # rest"
    using assms(4) by (cases "closest target n t"; cases "tl (closest target n t)") auto
  then have "peer_node_id p \<noteq> lid \<or> peer_node_id q \<noteq> lid"
    using closest_distinct [OF assms(1), of target n] by auto
  moreover have "peer_dist target x < peer_dist target w" if "x \<in> {p, q}" for x
    using that closest_near [OF assms(1) _ assms(2) False] pq by auto
  ultimately show ?thesis using pq by fastforce
qed (use assms in blast)

end

interpretation rt: closest_source RoutingTable_wf RoutingTable_peers RoutingTable_find_closest
  by unfold_locales (simp_all add: RoutingTable_peers_distinct find_closest_laws)

section \<open>Networks\<close>

definition covers :: "NodeID \<Rightarrow> NodeID set \<Rightarrow> NodeID \<Rightarrow> RoutingTable \<Rightarrow> bool" where
  "covers lid N x rt \<longleftrightarrow> RoutingTable_wf rt \<and> local_id rt = x \<and>
     peer_node_id ` set (RoutingTable_peers rt) \<subseteq> insert lid N \<and>
     (\<forall>y \<in> N - {x}. \<exists>p \<in> set (KBucket_get_peers (buckets rt ! nat (bucket_index x y))). peer_node_id p \<in> N)"

lemma covers_closer:
  assumes "covers lid N x rt" "lid \<notin> N" "z \<in> N" "id_val (xor_distance z t) < id_val (xor_distance x t)"
  shows "\<exists>w \<in> set (RoutingTable_peers rt). peer_node_id w \<noteq> lid \<and> peer_dist t w < id_val (xor_distance x t)"
proof -
  have wf: "RoutingTable_wf rt" and x: "local_id rt = x" using assms(1) by (auto simp: covers_def)
  have zx: "z \<noteq> x" using assms(4) by auto
  let ?i = "nat (bucket_index x z)"
  obtain w where w: "w \<in> set (KBucket_get_peers (buckets rt ! ?i))" "peer_node_id w \<in> N"
    using assms(1,3) zx unfolding covers_def by blast
  have len: "length (buckets rt) = NUM_BUCKETS" using wf by (simp add: RoutingTable_wf_def kb.table_ok_def)
  have i: "?i < NUM_BUCKETS" by (simp add: NUM_BUCKETS_def)
  have "rt_place x (peer_node_id w) = ?i"
    using wf x i kb.peers_known [OF w(1)] by (simp add: RoutingTable_wf_def kb.table_ok_def)
  then have "bucket_index x (peer_node_id w) = bucket_index x z"
    using i zx bucket_index_range [of x z] bucket_index_range [of x "peer_node_id w"]
    by (auto simp: rt_place_def split: if_splits)
  then have "peer_dist t w < id_val (xor_distance x t)"
    using same_bucket_closer [of x z "peer_node_id w" t] zx assms(4) by (simp add: peer_dist_def)
  moreover have "w \<in> set (RoutingTable_peers rt)"
    using w(1) i len nth_mem [of ?i "buckets rt"] by (auto simp: RoutingTable_peers_def)
  ultimately show ?thesis using w(2) assms(2) by (intro bexI [of _ w]) auto
qed

text \<open>
  The driver again, now with answers of the network \<open>N\<close>: a node that is asked returns the contacts
  closest to the target from a table that covers \<open>N\<close>.
\<close>

inductive kademlia_drive :: "NodeID set \<Rightarrow> nat \<Rightarrow> LookupSession \<Rightarrow> LookupSession \<Rightarrow> bool" for N n where
  query: "\<not> LookupSession_is_complete s \<Longrightarrow> LookupSession_pick_next_queries s = (ps, s') \<Longrightarrow> ps \<noteq> [] \<Longrightarrow>
    kademlia_drive N n s s'"
| answer: "c \<in> set (shortlist s) \<Longrightarrow> cand_state c = IN_FLIGHT \<Longrightarrow> covers (ls_local_id s) N (cand_id c) rt \<Longrightarrow>
    kademlia_drive N n s
      (LookupSession_on_response now (cand_id c) (RoutingTable_find_closest (ls_target s) n rt) s)"
| give_up: "c \<in> set (shortlist s) \<Longrightarrow> cand_state c = IN_FLIGHT \<Longrightarrow>
    kademlia_drive N n s (LookupSession_on_failure now (cand_id c) s)"

lemma kademlia_drive_drive: "kademlia_drive N n s s' \<Longrightarrow> LookupSession_drive (insert (ls_local_id s) N) s s'"
proof (induction rule: kademlia_drive.induct)
  case (answer c s rt now)
  have "peer_node_id ` set (RoutingTable_find_closest (ls_target s) n rt) \<subseteq> insert (ls_local_id s) N"
    using answer(3) set_find_closest [of "ls_target s" n rt] unfolding covers_def by blast
  with answer(1,2) show ?case by (rule LookupSession_drive.answer)
qed (auto intro: LookupSession_drive.intros)

definition closer_known :: "NodeID set \<Rightarrow> LookupSession \<Rightarrow> NodeID \<Rightarrow> bool" where
  "closer_known N s x \<longleftrightarrow>
     (\<exists>z \<in> N. id_val (xor_distance z (ls_target s)) < id_val (xor_distance x (ls_target s))) \<longrightarrow>
     (\<exists>y \<in> cand_id ` set (shortlist s). id_val (xor_distance y (ls_target s)) < id_val (xor_distance x (ls_target s)))"

definition converging :: "NodeID \<Rightarrow> NodeID set \<Rightarrow> LookupSession \<Rightarrow> bool" where
  "converging lid N s \<longleftrightarrow> LookupSession_wf s \<and> ls_local_id s = lid \<and> shortlist s \<noteq> [] \<and>
     cand_id ` set (shortlist s) \<subseteq> N \<and>
     (\<forall>c \<in> set (shortlist s). cand_state c = RESPONDED \<longrightarrow> closer_known N s (cand_id c))"

lemma closer_known_mono:
  assumes "closer_known N s x" "cand_id ` set (shortlist s) \<subseteq> cand_id ` set (shortlist s')" "ls_target s' = ls_target s"
  shows "closer_known N s' x"
  unfolding closer_known_def assms(3)
proof
  assume "\<exists>z \<in> N. id_val (xor_distance z (ls_target s)) < id_val (xor_distance x (ls_target s))"
  then show "\<exists>y \<in> cand_id ` set (shortlist s'). id_val (xor_distance y (ls_target s)) < id_val (xor_distance x (ls_target s))"
    using assms(1,2) unfolding closer_known_def by (meson subsetD)
qed

lemma responded_update_first:
  "c \<in> set (update_first P (\<lambda>c. c\<lparr>cand_state := st\<rparr>) sl) \<Longrightarrow> cand_state c = RESPONDED \<Longrightarrow>
   c \<in> set sl \<or> st = RESPONDED \<and> (\<exists>d \<in> set sl. P d \<and> cand_id c = cand_id d)"
  by (induction sl) (auto split: if_splits)

lemma responded_mark_first:
  "c \<in> set (mark_first n sl) \<Longrightarrow> cand_state c = RESPONDED \<Longrightarrow> c \<in> set sl"
  by (induction n sl rule: mark_first.induct) (auto split: if_splits)

lemma converging_intro:
  assumes "LookupSession_step s s'" "converging lid N s"
    and "cand_id ` set (shortlist s) \<subseteq> cand_id ` set (shortlist s')" "cand_id ` set (shortlist s') \<subseteq> N"
    and "\<And>d. d \<in> set (shortlist s') \<Longrightarrow> cand_state d = RESPONDED \<Longrightarrow> d \<in> set (shortlist s) \<or> closer_known N s' (cand_id d)"
  shows "converging lid N s'"
proof -
  have wf: "LookupSession_wf s" and ne: "shortlist s \<noteq> []" using assms(2) by (auto simp: converging_def)
  note params = step_params [OF assms(1) wf] wf_step [OF assms(1) wf]
  have "closer_known N s' (cand_id d)" if d: "d \<in> set (shortlist s')" "cand_state d = RESPONDED" for d
    using assms(5) [OF d]
  proof
    assume "d \<in> set (shortlist s)"
    then have "closer_known N s (cand_id d)" using d(2) assms(2) by (auto simp: converging_def)
    then show ?thesis by (rule closer_known_mono) (use assms(3) params in auto)
  qed
  moreover have "shortlist s' \<noteq> []" using assms(3) ne by auto
  ultimately show ?thesis using assms(2,4) params unfolding converging_def by simp
qed

lemma ids_on_response:
  assumes "LookupSession_wf s"
  shows "cand_id ` set (shortlist (LookupSession_on_response now nid ps s)) =
    cand_id ` set (shortlist s) \<union> (peer_node_id ` set ps - {ls_local_id s})"
proof -
  have "ls_local_id (set_candidate_state nid RESPONDED s) = ls_local_id s" by (simp add: set_candidate_state_def)
  then show ?thesis
    using ids_add_candidates [OF wf_set_state [OF assms, of RESPONDED nid], of ps]
    by (simp add: LookupSession_on_response_def Let_def)
qed

lemma responded_on_response:
  assumes "LookupSession_wf s" "d \<in> set (shortlist (LookupSession_on_response now nid ps s))" "cand_state d = RESPONDED"
  shows "d \<in> set (shortlist s) \<or> cand_id d = nid"
proof -
  have "d \<in> set (shortlist (set_candidate_state nid RESPONDED s))"
    using assms(2,3) set_add_candidates [OF wf_set_state [OF assms(1), of RESPONDED nid], of ps]
    by (auto simp: LookupSession_on_response_def Let_def)
  then show ?thesis
    using responded_update_first [OF _ assms(3)] unfolding set_candidate_state_def by fastforce
qed

lemma answer_closer_known:
  assumes "LookupSession_wf s" "ls_local_id s = lid" "lid \<notin> N" "2 \<le> n" "covers lid N x rt"
  shows "closer_known N (LookupSession_on_response now x (RoutingTable_find_closest (ls_target s) n rt) s) x"
proof -
  let ?t = "ls_target s" and ?ps = "RoutingTable_find_closest (ls_target s) n rt"
  let ?s' = "LookupSession_on_response now x ?ps s"
  have wf: "RoutingTable_wf rt" using assms(5) by (simp add: covers_def)
  have t: "ls_target ?s' = ?t" using step_params [OF LookupSession_step.response assms(1)] by blast
  have "\<exists>y \<in> cand_id ` set (shortlist ?s'). id_val (xor_distance y ?t) < id_val (xor_distance x ?t)"
    if z: "z \<in> N" "id_val (xor_distance z ?t) < id_val (xor_distance x ?t)" for z
  proof -
    obtain w where w: "w \<in> set (RoutingTable_peers rt)" "peer_node_id w \<noteq> lid" "peer_dist ?t w < id_val (xor_distance x ?t)"
      using covers_closer [OF assms(5,3) z] by blast
    obtain p where p: "p \<in> set ?ps" "peer_node_id p \<noteq> lid" "peer_dist ?t p \<le> peer_dist ?t w"
      using rt.answer_progress [OF wf w(1,2) assms(4), of ?t] by blast
    then have "peer_node_id p \<in> cand_id ` set (shortlist ?s')"
      using ids_on_response [OF assms(1)] assms(2) by auto
    with p(3) w(3) show ?thesis by (intro bexI [of _ "peer_node_id p"]) (auto simp: peer_dist_def)
  qed
  then show ?thesis unfolding closer_known_def t by blast
qed

lemma converging_step:
  assumes "kademlia_drive N n s s'" "converging lid N s" "lid \<notin> N" "2 \<le> n"
  shows "converging lid N s'"
  using assms
proof (induction rule: kademlia_drive.induct)
  case (query s ps s')
  have step: "LookupSession_step s s'" using query(2) LookupSession_step.pick by (metis snd_conv)
  have "shortlist s' = mark_first (max 1 (alpha s - LookupSession_in_flight_count s)) (shortlist s)"
    using query(2) by (auto simp: pick_next_queries_eq Let_def)
  then have "d \<in> set (shortlist s)" if "d \<in> set (shortlist s')" "cand_state d = RESPONDED" for d
    using that responded_mark_first by metis
  with counts_pick(3) [OF query(2)] query(4) show ?case
    by (intro converging_intro [OF step query(4)]) (simp_all add: converging_def)
next
  case (answer c s rt now)
  let ?ps = "RoutingTable_find_closest (ls_target s) n rt"
  have wf: "LookupSession_wf s" and lid: "ls_local_id s = lid" and sub: "cand_id ` set (shortlist s) \<subseteq> N"
    using answer(4) by (auto simp: converging_def)
  have cov: "covers lid N (cand_id c) rt" using answer(3) lid by simp
  then have "peer_node_id ` set ?ps \<subseteq> insert lid N"
    using set_find_closest [of "ls_target s" n rt] by (auto simp: covers_def)
  with sub show ?case
    using ids_on_response [OF wf] lid answer_closer_known [OF wf lid answer(5,6) cov] responded_on_response [OF wf]
    by (intro converging_intro [OF LookupSession_step.response answer(4)]) (auto, metis)
next
  case (give_up c s now)
  have "cand_id ` set (shortlist (LookupSession_on_failure now (cand_id c) s)) = cand_id ` set (shortlist s)"
    using ids_set_state [of "cand_id c" FAILED s] by (simp add: LookupSession_on_failure_def Let_def)
  moreover have "d \<in> set (shortlist s)"
    if "d \<in> set (shortlist (LookupSession_on_failure now (cand_id c) s))" "cand_state d = RESPONDED" for d
    using that responded_update_first [of d "\<lambda>x. cand_id x = cand_id c" FAILED "shortlist s"]
    by (auto simp: LookupSession_on_failure_def set_candidate_state_def Let_def)
  ultimately show ?case using give_up(3)
    by (intro converging_intro [OF LookupSession_step.failure give_up(3)]) (auto simp: converging_def)
qed

lemma converging_run:
  "(kademlia_drive N n ^^ m) s s' \<Longrightarrow> converging lid N s \<Longrightarrow> lid \<notin> N \<Longrightarrow> 2 \<le> n \<Longrightarrow>
   converging lid N s' \<and> (LookupSession_drive (insert lid N) ^^ m) s s'"
proof (induction m arbitrary: s')
  case (Suc m)
  then obtain t where t: "(kademlia_drive N n ^^ m) s t" "kademlia_drive N n t s'" by auto
  with Suc have conv: "converging lid N t" "(LookupSession_drive (insert lid N) ^^ m) s t" by auto
  moreover have "LookupSession_drive (insert lid N) t s'"
    using kademlia_drive_drive [OF t(2)] conv(1) by (simp add: converging_def)
  ultimately show ?case using converging_step [OF t(2) conv(1)] Suc.prems by auto
qed simp

lemma converged_closest:
  assumes "converging lid N s" "LookupSession_is_complete s" "0 < ls_k s"
    and "\<forall>c \<in> set (shortlist s). cand_state c \<noteq> FAILED"
  shows "\<exists>p ps. LookupSession_get_closest k s = p # ps \<and> peer_node_id p \<in> N \<and>
    (\<forall>y \<in> N. id_val (xor_distance (peer_node_id p) (ls_target s)) \<le> id_val (xor_distance y (ls_target s)))"
proof -
  obtain c cs where sl: "shortlist s = c # cs" using assms(1) by (cases "shortlist s") (auto simp: converging_def)
  have "cand_state c \<noteq> UNQUERIED" "cand_state c \<noteq> IN_FLIGHT"
    using assms(2,3) by (auto simp: is_complete_eq sl LookupSession_in_flight_count_def take_Cons' split: if_splits)
  then have resp: "cand_state c = RESPONDED" using assms(4) sl by (cases "cand_state c") auto
  then have "\<exists>ps. LookupSession_get_closest k s = cand_peer c # ps"
    by (cases "max 1 k") (auto simp: LookupSession_get_closest_def get_closest_loop_eq sl)
  moreover have "id_val (xor_distance (cand_id c) (ls_target s)) \<le> id_val (xor_distance y (ls_target s))"
    if "y \<in> cand_id ` set (shortlist s)" for y
    using that assms(1) by (auto simp: converging_def LookupSession_wf_def sl cand_dist_def id_val_le_iff)
  then have "\<forall>y \<in> N. id_val (xor_distance (cand_id c) (ls_target s)) \<le> id_val (xor_distance y (ls_target s))"
    using assms(1) resp sl unfolding converging_def closer_known_def by (metis list.set_intros(1) linorder_not_less)
  ultimately show ?thesis using assms(1) by (auto simp: converging_def sl)
qed

lemma converging_start:
  assumes "lid \<notin> N" "peer_node_id ` set ps \<subseteq> N" "ps \<noteq> []"
  shows "converging lid N (LookupSession_add_candidates ps (LookupSession_new target lid a k now rid))"
proof -
  let ?s = "LookupSession_new target lid a k now rid"
  note wf = LookupSession_wf_new [of target lid a k now rid]
  have new: "shortlist ?s = []" "ls_local_id ?s = lid" by (simp_all add: LookupSession_new_def)
  have ids: "cand_id ` set (shortlist (LookupSession_add_candidates ps ?s)) = peer_node_id ` set ps"
    using ids_add_candidates [OF wf, of ps] assms by (auto simp: new)
  moreover have "cand_state c = UNQUERIED" if "c \<in> set (shortlist (LookupSession_add_candidates ps ?s))" for c
    using that set_add_candidates [OF wf, of ps] by (auto simp: new)
  ultimately show ?thesis
    using assms wf_add_candidates [OF wf] step_params [OF LookupSession_step.add wf, of ps] new
    by (force simp: converging_def)
qed

section \<open>A network of two nodes\<close>

definition net_peer :: "u8 \<Rightarrow> PeerInfo" where
  "net_peer x = \<lparr>peer_node_id = test_id x, peer_address = \<lparr>host = ''h'', port = 4000\<rparr>\<rparr>"

definition net_table :: "u8 \<Rightarrow> u8 \<Rightarrow> RoutingTable" where
  "net_table x y = snd (RoutingTable_add_or_update 0 (net_peer y) (RoutingTable_new (test_id x) 2))"

definition net_start :: LookupSession where
  "net_start = LookupSession_add_candidates [net_peer 4] (LookupSession_new (test_id 7) (test_id 1) 3 2 0 zero_barray)"

definition net_asked :: LookupSession where
  "net_asked = snd (LookupSession_pick_next_queries net_start)"

definition net_told :: LookupSession where
  "net_told = LookupSession_on_response 5 (test_id 4) (RoutingTable_find_closest (test_id 7) 2 (net_table 4 6)) net_asked"

definition net_asked2 :: LookupSession where
  "net_asked2 = snd (LookupSession_pick_next_queries net_told)"

definition net_done :: LookupSession where
  "net_done = LookupSession_on_response 9 (test_id 6) (RoutingTable_find_closest (test_id 7) 2 (net_table 6 4)) net_asked2"

lemma net_covers:
  assumes "(x, y) \<in> {(4, 6), (6, 4)}"
  shows "covers (test_id 1) {test_id 4, test_id 6} (test_id x) (net_table x y)"
proof -
  have "RoutingTable_peers (net_table 4 6) = [net_peer 6]" "RoutingTable_peers (net_table 6 4) = [net_peer 4]"
    "KBucket_get_peers (buckets (net_table 4 6) ! nat (bucket_index (test_id 4) (test_id 6))) = [net_peer 6]"
    "KBucket_get_peers (buckets (net_table 6 4) ! nat (bucket_index (test_id 6) (test_id 4))) = [net_peer 4]"
    by code_simp+
  moreover have "RoutingTable_wf (net_table x y)" "local_id (net_table x y) = test_id x"
    using RoutingTable_local_id(1) by (simp_all add: net_table_def RoutingTable_wf_add RoutingTable_wf_new) (simp add: RoutingTable_new_def)
  moreover have "peer_node_id (net_peer y) = test_id y" by (simp add: net_peer_def)
  ultimately show ?thesis using assms by (auto simp: covers_def net_peer_def)
qed

lemma query_step:
  "\<not> LookupSession_is_complete s \<Longrightarrow> fst (LookupSession_pick_next_queries s) \<noteq> [] \<Longrightarrow>
   kademlia_drive N n s (snd (LookupSession_pick_next_queries s))"
  by (rule kademlia_drive.query) simp_all

lemma net_answers:
  "RoutingTable_find_closest (test_id 7) 2 (net_table 4 6) = [net_peer 6]"
  "RoutingTable_find_closest (test_id 7) 2 (net_table 6 4) = [net_peer 4]"
  by code_simp+

lemma net_start_query: "\<not> LookupSession_is_complete net_start" "fst (LookupSession_pick_next_queries net_start) \<noteq> []"
  by code_simp+

lemma net_asked_eq:
  "shortlist net_asked = [\<lparr>cand_peer = net_peer 4, cand_state = IN_FLIGHT\<rparr>]"
  by code_simp

lemma net_params:
  "ls_target net_asked = test_id 7 \<and> ls_local_id net_asked = test_id 1 \<and> alpha net_asked = 3 \<and> ls_k net_asked = 2"
  "ls_target net_told = test_id 7 \<and> ls_local_id net_told = test_id 1 \<and> alpha net_told = 3 \<and> ls_k net_told = 2"
  "ls_target net_asked2 = test_id 7 \<and> ls_local_id net_asked2 = test_id 1 \<and> alpha net_asked2 = 3 \<and> ls_k net_asked2 = 2"
  "ls_target net_done = test_id 7 \<and> ls_local_id net_done = test_id 1 \<and> alpha net_done = 3 \<and> ls_k net_done = 2"
proof -
  let ?new = "LookupSession_new (test_id 7) (test_id 1) 3 2 0 zero_barray"
  have r0: "LookupSession_reachable ?new net_start"
    unfolding net_start_def by (rule r_into_rtranclp, rule LookupSession_step.add)
  have r1: "LookupSession_reachable ?new net_asked"
    using r0 LookupSession_step.pick [of net_start] unfolding net_asked_def by (rule rtranclp.rtrancl_into_rtrancl)
  have r2: "LookupSession_reachable ?new net_told"
    using r1 LookupSession_step.response unfolding net_told_def by (rule rtranclp.rtrancl_into_rtrancl)
  have r3: "LookupSession_reachable ?new net_asked2"
    using r2 LookupSession_step.pick [of net_told] unfolding net_asked2_def by (rule rtranclp.rtrancl_into_rtrancl)
  have r4: "LookupSession_reachable ?new net_done"
    using r3 LookupSession_step.response unfolding net_done_def by (rule rtranclp.rtrancl_into_rtrancl)
  show "ls_target net_asked = test_id 7 \<and> ls_local_id net_asked = test_id 1 \<and> alpha net_asked = 3 \<and> ls_k net_asked = 2"
    "ls_target net_told = test_id 7 \<and> ls_local_id net_told = test_id 1 \<and> alpha net_told = 3 \<and> ls_k net_told = 2"
    "ls_target net_asked2 = test_id 7 \<and> ls_local_id net_asked2 = test_id 1 \<and> alpha net_asked2 = 3 \<and> ls_k net_asked2 = 2"
    "ls_target net_done = test_id 7 \<and> ls_local_id net_done = test_id 1 \<and> alpha net_done = 3 \<and> ls_k net_done = 2"
    using reachable_params [OF r1 LookupSession_wf_new] reachable_params [OF r2 LookupSession_wf_new]
      reachable_params [OF r3 LookupSession_wf_new] reachable_params [OF r4 LookupSession_wf_new]
    by (simp_all add: LookupSession_new_def)
qed

lemma net_told_eq:
  "shortlist net_told = [\<lparr>cand_peer = net_peer 6, cand_state = UNQUERIED\<rparr>, \<lparr>cand_peer = net_peer 4, cand_state = RESPONDED\<rparr>]"
proof -
  have "test_id 4 \<noteq> test_id 6" "test_id 1 \<noteq> test_id 6" by code_simp+
  moreover have "\<not> cand_dist (test_id 7) \<lparr>cand_peer = net_peer 4, cand_state = RESPONDED\<rparr> \<le>
      cand_dist (test_id 7) \<lparr>cand_peer = net_peer 6, cand_state = UNQUERIED\<rparr>" by code_simp
  ultimately show ?thesis using net_params(1)
    by (simp add: net_told_def net_answers LookupSession_on_response_def LookupSession_add_candidates_def
        LookupSession_sort_shortlist_def set_candidate_state_def Let_def net_asked_eq net_peer_def)
qed

lemma net_told_query: "\<not> LookupSession_is_complete net_told" "fst (LookupSession_pick_next_queries net_told) \<noteq> []"
  using net_params(2) by (simp_all add: is_complete_eq pick_next_queries_eq Let_def net_told_eq)

lemma net_asked2_eq:
  "shortlist net_asked2 = [\<lparr>cand_peer = net_peer 6, cand_state = IN_FLIGHT\<rparr>, \<lparr>cand_peer = net_peer 4, cand_state = RESPONDED\<rparr>]"
  using net_params(2)
  by (simp add: net_asked2_def pick_next_queries_eq Let_def net_told_eq LookupSession_in_flight_count_def eval_nat_numeral)

lemma net_done_eq:
  "shortlist net_done = [\<lparr>cand_peer = net_peer 6, cand_state = RESPONDED\<rparr>, \<lparr>cand_peer = net_peer 4, cand_state = RESPONDED\<rparr>]"
  using net_params(3)
  by (simp add: net_done_def net_answers LookupSession_on_response_def LookupSession_add_candidates_def
      set_candidate_state_def Let_def net_asked2_eq net_peer_def)

lemma net_done_complete: "LookupSession_is_complete net_done"
  using net_params(4) by (simp add: is_complete_eq net_done_eq LookupSession_in_flight_count_def)

lemma net_run: "(kademlia_drive {test_id 4, test_id 6} 2 ^^ 4) net_start net_done"
proof -
  let ?K = "kademlia_drive {test_id 4, test_id 6} 2"
  have "?K net_start net_asked" unfolding net_asked_def using net_start_query by (rule query_step)
  moreover have "?K net_asked net_told"
    using kademlia_drive.answer [of "\<lparr>cand_peer = net_peer 4, cand_state = IN_FLIGHT\<rparr>" net_asked
        "{test_id 4, test_id 6}" "net_table 4 6" 2 5] net_covers [of 4 6]
    by (simp add: net_told_def net_asked_eq net_params net_peer_def)
  moreover have "?K net_told net_asked2" unfolding net_asked2_def using net_told_query by (rule query_step)
  moreover have "?K net_asked2 net_done"
    using kademlia_drive.answer [of "\<lparr>cand_peer = net_peer 6, cand_state = IN_FLIGHT\<rparr>" net_asked2
        "{test_id 4, test_id 6}" "net_table 6 4" 2 9] net_covers [of 6 4]
    by (simp add: net_done_def net_asked2_eq net_params net_peer_def)
  ultimately show ?thesis by (auto simp: eval_nat_numeral)
qed

section \<open>Property\<close>

text \<open>
  C10. Iterative lookups converge. Let \<open>N\<close> be a finite set of nodes, without the one that looks up, such
  that every answer comes from a table that covers \<open>N\<close>: it knows no other nodes (except the asking
  one), and in every bucket into which a node of \<open>N\<close> falls it has a contact of \<open>N\<close>. A lookup that
  starts with any contacts of \<open>N\<close> makes at most \<open>2 * (card N + 1)\<close> steps, in every interleaving of
  queries, answers and failures; if no step is possible it is complete; and if it is complete and no
  query failed, the first node of its result is the node of \<open>N\<close> closest to the target. Tables may
  change between two answers, and nodes may return as few as two contacts.
\<close>

theorem LookupSession_finds_closest:
  assumes "finite N" and "lid \<notin> N" and "2 \<le> n" and "0 < k"
    and "peer_node_id ` set ps \<subseteq> N" and "ps \<noteq> []"
    and "(kademlia_drive N n ^^ m) (LookupSession_add_candidates ps (LookupSession_new target lid a k now rid)) s"
  shows "m \<le> 2 * (card N + 1) \<and>
    ((\<nexists>s'. kademlia_drive N n s s') \<longrightarrow> LookupSession_is_complete s) \<and>
    (LookupSession_is_complete s \<and> (\<forall>c \<in> set (shortlist s). cand_state c \<noteq> FAILED) \<longrightarrow>
      (\<exists>p rest. LookupSession_get_closest k s = p # rest \<and> peer_node_id p \<in> N \<and>
        (\<forall>y \<in> N. id_val (xor_distance (peer_node_id p) target) \<le> id_val (xor_distance y target))))"
proof -
  let ?new = "LookupSession_new target lid a k now rid"
  let ?s0 = "LookupSession_add_candidates ps ?new"
  note start = converging_start [OF assms(2,5,6), of target a k now rid]
  from converging_run [OF assms(7) start assms(2,3)] have conv: "converging lid N s"
    and run: "(LookupSession_drive (insert lid N) ^^ m) ?s0 s" by auto
  have ok: "drive_ok (insert lid N) ?s0" using start assms(1) by (auto simp: drive_ok_def converging_def)
  have fl: "LookupSession_in_flight_count ?s0 = 0"
    using counts_add_candidates(1) [OF LookupSession_wf_new] by (simp add: LookupSession_in_flight_count_def LookupSession_new_def)
  have "m \<le> lookup_potential (insert lid N) ?s0" using drive_run_bound [OF run ok] by simp
  then have bound: "m \<le> 2 * (card N + 1)" using fl assms(1,2) by (simp add: lookup_potential_def)
  have "LookupSession_reachable ?s0 s"
    using run drive_step by (metis (no_types, lifting) mono_rtranclp relpowp_imp_rtranclp)
  then have "LookupSession_reachable ?new s"
    using LookupSession_step.add [of ?new ps] by (rule converse_rtranclp_into_rtranclp [rotated])
  then have params: "ls_target s = target" "ls_k s = k"
    using reachable_params [OF _ LookupSession_wf_new] by (auto simp: LookupSession_new_def)
  have "LookupSession_is_complete s" if "\<nexists>s'. kademlia_drive N n s s'"
    using that incomplete_progress [of s] kademlia_drive.query kademlia_drive.give_up by blast
  with bound converged_closest [OF conv] params assms(4) show ?thesis by auto
qed

theorem LookupSession_finds_closest_witness:
  "(\<exists>p rest. LookupSession_get_closest 2 net_done = p # rest \<and> peer_node_id p \<in> {test_id 4, test_id 6} \<and>
     (\<forall>y \<in> {test_id 4, test_id 6}. id_val (xor_distance (peer_node_id p) (test_id 7)) \<le> id_val (xor_distance y (test_id 7))))"
proof -
  have "test_id 1 \<notin> {test_id 4, test_id 6}" by code_simp
  moreover have "peer_node_id ` set [net_peer 4] \<subseteq> {test_id 4, test_id 6}" by (simp add: net_peer_def)
  moreover have "\<forall>c \<in> set (shortlist net_done). cand_state c \<noteq> FAILED"
    by (simp add: net_done_eq)
  ultimately show ?thesis
    using LookupSession_finds_closest [of "{test_id 4, test_id 6}" "test_id 1" 2 2 "[net_peer 4]" 4 "test_id 7" 3 0 zero_barray net_done]
      net_run net_done_complete by (simp add: net_start_def)
qed
end
