(* ===== verification/Lookup_Driver.thy ===== *)
theory Lookup_Driver
  imports Node_Requests Lookup_Network
begin

text \<open>
  The step function of a lookup (\<^verbatim>\<open>step_func\<close> of \<^verbatim>\<open>Node::async_lookup\<close>), once for all statements about it. The
  locale \<open>lookup_driver\<close> is over a predicate \<open>W\<close> of the node, with the log of the application, a bound on the
  candidates not yet queried and the set of candidates that were picked but not yet asked. Its laws say
  what one action of the step function does to \<open>W\<close>: picking, connecting, asking, giving up, reporting.
  Its result is that the step function returns and leaves no picked candidate unasked, and that the application was told the
  result exactly if the session is complete. \<open>Node_Lookup\<close> interprets it with the steps of the network,
  \<open>Node_Timeouts\<close> with the timers that guard the queries.
\<close>

section \<open>Queries in flight\<close>

definition flying :: "NodeID set \<Rightarrow> LookupSession \<Rightarrow> bool" where
  "flying F ls \<longleftrightarrow> (\<forall>x \<in> F. \<exists>c \<in> set (shortlist ls). cand_id c = x \<and> cand_state c = IN_FLIGHT)"

lemma flying_empty [simp]: "flying {} ls"
  by (simp add: flying_def)

lemma flying_mono: "flying G ls \<Longrightarrow> F \<subseteq> G \<Longrightarrow> flying F ls"
  by (auto simp: flying_def)

lemma update_first_other: "c \<in> set xs \<Longrightarrow> \<not> P c \<Longrightarrow> c \<in> set (update_first P f xs)"
  by (induction xs) auto

lemma flying_failure:
  assumes "flying F ls" "x \<notin> F"
  shows "flying F (LookupSession_on_failure now x ls)"
  unfolding flying_def
proof
  fix y assume y: "y \<in> F"
  then obtain c where "c \<in> set (shortlist ls)" "cand_id c = y" "cand_state c = IN_FLIGHT"
    using assms(1) by (auto simp: flying_def)
  with y assms(2) update_first_other [of c "shortlist ls" "\<lambda>c. cand_id c = x"]
  show "\<exists>c \<in> set (shortlist (LookupSession_on_failure now x ls)). cand_id c = y \<and> cand_state c = IN_FLIGHT"
    by (auto simp: LookupSession_on_failure_def set_candidate_state_def Let_def)
qed

lemma mark_first_nothing: "unqueried sl = [] \<Longrightarrow> mark_first n sl = sl"
  by (induction n sl rule: mark_first.induct) (auto split: if_splits)

lemma pick_nothing: "LookupSession_pick_next_queries ls = ([], ls1) \<Longrightarrow> ls1 = ls"
  by (auto simp: pick_next_queries_eq Let_def mark_first_nothing)

lemma pick_flying:
  assumes "LookupSession_wf ls" "LookupSession_pick_next_queries ls = (qs, ls1)" "flying F ls"
  shows "flying (F \<union> peer_node_id ` set qs) ls1" "distinct (map peer_node_id qs)" "F \<inter> peer_node_id ` set qs = {}"
proof -
  let ?n = "max 1 (alpha ls - LookupSession_in_flight_count ls)"
  have qs: "qs = map cand_peer (take ?n (unqueried (shortlist ls)))" and sl: "shortlist ls1 = mark_first ?n (shortlist ls)"
    using assms(2) by (auto simp: pick_next_queries_eq Let_def)
  have dist: "distinct (map cand_id (shortlist ls))" using assms(1) by (simp add: LookupSession_wf_def)
  show "distinct (map peer_node_id qs)"
    using dist by (simp add: qs comp_def distinct_map_filter take_map [symmetric])
  have free: "c \<in> set (shortlist ls) \<and> cand_state c = UNQUERIED" if "c \<in> set (take ?n (unqueried (shortlist ls)))" for c
    using in_set_takeD [OF that] by simp
  have "x \<notin> peer_node_id ` set qs" if x: "x \<in> F" for x
  proof
    assume "x \<in> peer_node_id ` set qs"
    then obtain d where d': "d \<in> set (take ?n (unqueried (shortlist ls)))" and dx: "x = cand_id d" by (auto simp: qs)
    note d = free [OF d'] dx
    obtain c where "c \<in> set (shortlist ls)" "cand_state c = IN_FLIGHT" "cand_id c = x"
      using assms(3) x by (auto simp: flying_def)
    with d dist have "c = d" by (metis distinct_map inj_on_eq_iff)
    with d \<open>cand_state c = IN_FLIGHT\<close> show False by simp
  qed
  then show "F \<inter> peer_node_id ` set qs = {}" by blast
  show "flying (F \<union> peer_node_id ` set qs) ls1"
    unfolding flying_def sl
  proof
    fix x assume "x \<in> F \<union> peer_node_id ` set qs"
    then show "\<exists>c \<in> set (mark_first ?n (shortlist ls)). cand_id c = x \<and> cand_state c = IN_FLIGHT"
    proof
      assume "x \<in> F"
      then obtain c where "c \<in> set (shortlist ls)" "cand_id c = x" "cand_state c = IN_FLIGHT"
        using assms(3) by (auto simp: flying_def)
      with mark_first_keeps [of c "shortlist ls" ?n] show ?thesis by auto
    next
      assume "x \<in> peer_node_id ` set qs"
      then obtain c where "c \<in> set (take ?n (unqueried (shortlist ls)))" "x = cand_id c" by (auto simp: qs)
      with mark_first_marks [of c ?n "shortlist ls"] show ?thesis
        by (intro bexI [of _ "c\<lparr>cand_state := IN_FLIGHT\<rparr>"]) auto
    qed
  qed
qed

lemma flying_in_flight: "flying F ls \<Longrightarrow> F \<noteq> {} \<Longrightarrow> LookupSession_in_flight_count ls \<noteq> 0"
  by (auto simp: flying_def LookupSession_in_flight_count_def filter_empty_conv)

lemma flying_incomplete: "flying F ls \<Longrightarrow> F \<noteq> {} \<Longrightarrow> \<not> LookupSession_is_complete ls"
  by (auto simp: is_complete_eq dest: flying_in_flight)

lemma flying_insertD: "flying (insert x F) ls \<Longrightarrow> flying {x} ls \<and> flying F ls"
  by (auto simp: flying_def)

section \<open>The step function\<close>

abbreviation lookup_ls :: "nat \<Rightarrow> Node \<Rightarrow> LookupSession" where
  "lookup_ls L s \<equiv> lo_session (n_lookups s L)"

abbreviation with_ls :: "nat \<Rightarrow> LookupSession \<Rightarrow> Node \<Rightarrow> Node" where
  "with_ls L ls s \<equiv> s\<lparr>n_lookups := (n_lookups s)(L := (n_lookups s L)\<lparr>lo_session := ls\<rparr>)\<rparr>"

lemma with_same_ls [simp]: "s\<lparr>n_lookups := (n_lookups s)(L := n_lookups s L)\<rparr> = (s :: Node)"
  by simp

definition result_log :: "Node \<Rightarrow> LookupSession \<Rightarrow> notification list" where
  "result_log s ls =
     (if LookupSession_is_complete ls then [LookupDone (LookupSession_get_closest (config_k s) ls) (metrics ls)] else [])"

lemma lookup_failure_run:
  "lookup_failure env L x s =
     (Inr (), with_ls L (LookupSession_on_failure (e_clock env (n_tick s)) x (lookup_ls L s)) (s\<lparr>n_tick := n_tick s + 1\<rparr>))"
  by (simp add: lookup_failure_def ask_run set_lookup_def eff_run)

lemma query_nothrow:
  assumes "sodium_ready (e_sodium env)" "aead_correct (e_sodium env)"
  shows "nothrow (query_find_node env L x cid)"
  unfolding query_find_node_def send_request_def new_timer_def
  by (intro nothrow_intros assms)

text \<open>
  \<open>told\<close>: the log has the result if the session is complete; otherwise it has nothing new, and a query is in flight. \<open>reports\<close>: an operation
  returns in such a state.
\<close>

type_synonym lookup_pred = "notification list \<Rightarrow> nat \<Rightarrow> NodeID set \<Rightarrow> Node \<Rightarrow> bool"

definition told :: "nat \<Rightarrow> lookup_pred \<Rightarrow> lookup_pred" where
  "told L W lg u F s \<longleftrightarrow> W (lg @ result_log s (lookup_ls L s)) u F s \<and>
     (LookupSession_is_complete (lookup_ls L s) \<or> LookupSession_in_flight_count (lookup_ls L s) \<noteq> 0)"

definition reports :: "nat \<Rightarrow> lookup_pred \<Rightarrow> unit node_op \<Rightarrow> lookup_pred" where
  "reports L W m lg u F s \<longleftrightarrow> (\<exists>s'. m s = (Inr (), s') \<and> told L W lg u F s')"

locale lookup_driver =
  fixes env :: env and L :: nat and W :: lookup_pred
  assumes w_session: "\<And>lg u F s. W lg u F s \<Longrightarrow>
      LookupSession_wf (lookup_ls L s) \<and> flying F (lookup_ls L s) \<and> unqueried_count (lookup_ls L s) \<le> u"
    and w_weaken: "\<And>lg u v F s. W lg u F s \<Longrightarrow> u \<le> v \<Longrightarrow> W lg v F s"
    and w_pick: "\<And>lg u F s qs ls. W lg u F s \<Longrightarrow> \<not> LookupSession_is_complete (lookup_ls L s) \<Longrightarrow>
      LookupSession_pick_next_queries (lookup_ls L s) = (qs, ls) \<Longrightarrow> qs \<noteq> [] \<Longrightarrow>
      W lg (unqueried_count ls) (F \<union> peer_node_id ` set qs) (with_ls L ls s)"
    and w_connect: "\<And>lg u F s peer. W lg u F s \<Longrightarrow> W lg u F (snd (connection_for env peer s))"
    and w_query: "\<And>lg u F s x cid. W lg u (insert x F) s \<Longrightarrow> x \<notin> F \<Longrightarrow>
      \<exists>s'. query_find_node env L x cid s = (Inr (), s') \<and> W lg u F s' \<and> flying {x} (lookup_ls L s')"
    and w_failure: "\<And>lg u F s x. W lg u (insert x F) s \<Longrightarrow> x \<notin> F \<Longrightarrow> W lg u F (snd (lookup_failure env L x s))"
    and w_log: "\<And>lg u F s ps m. W lg u F s \<Longrightarrow> W (lg @ [LookupDone ps m]) u F (s\<lparr>n_log := n_log s @ [LookupDone ps m]\<rparr>)"
begin

lemma told_weaken: "told L W lg u F s \<Longrightarrow> u \<le> v \<Longrightarrow> told L W lg v F s"
  unfolding told_def using w_weaken by blast

lemma told_flying: "flying G (lookup_ls L s) \<Longrightarrow> G \<noteq> {} \<Longrightarrow> told L W lg u F s \<longleftrightarrow> W lg u F s"
  by (simp add: told_def result_log_def flying_incomplete flying_in_flight)

lemma told_unasked: "told L W lg u F s \<Longrightarrow> F \<noteq> {} \<Longrightarrow> W lg u F s"
  using told_flying [of F s lg u F] w_session unfolding told_def by blast

lemma reports_forE:
  assumes body: "\<And>x G s. W lg u (insert (peer_node_id x) G) s \<Longrightarrow> peer_node_id x \<notin> G \<Longrightarrow> reports L W (body x) lg u G s"
  shows "W lg u (F \<union> peer_node_id ` set qs) s \<Longrightarrow> distinct (map peer_node_id qs) \<Longrightarrow> F \<inter> peer_node_id ` set qs = {} \<Longrightarrow>
    qs \<noteq> [] \<Longrightarrow> reports L W (forE qs body) lg u F s"
proof (induction qs arbitrary: s)
  case (Cons x qs)
  obtain s' where s': "body x s = (Inr (), s')" "told L W lg u (F \<union> peer_node_id ` set qs) s'"
    using body [of x "F \<union> peer_node_id ` set qs" s] Cons.prems by (auto simp: reports_def)
  show ?case
  proof (cases "qs = []")
    case True
    with s' show ?thesis by (simp add: reports_def thenE_run ret_def)
  next
    case False
    with told_unasked [OF s'(2)] Cons.IH [of s'] Cons.prems(2,3) s'(1) show ?thesis by (simp add: reports_def thenE_run)
  qed
qed simp

lemma reports_query:
  assumes step: "\<And>s. W lg u G s \<Longrightarrow> reports L W step lg u G s" and W: "W lg u (insert (peer_node_id x) G) s" "peer_node_id x \<notin> G"
  shows "reports L W (bindE (connection_for env x) (\<lambda>conn. case conn of
      None \<Rightarrow> thenE (lookup_failure env L (peer_node_id x)) step
    | Some cid \<Rightarrow> query_find_node env L (peer_node_id x) cid)) lg u G s"
proof -
  obtain conn s' where c: "connection_for env x s = (Inr conn, s')" using nothrowD [OF connection_for_nothrow] by blast
  have W': "W lg u (insert (peer_node_id x) G) s'" using w_connect [OF W(1), of x] c by simp
  show ?thesis
  proof (cases conn)
    case None
    with c step [OF w_failure [OF W' W(2)]] show ?thesis by (simp add: reports_def bindE_def thenE_run lookup_failure_run)
  next
    case (Some cid)
    from w_query [OF W' W(2), of cid] told_flying [of "{peer_node_id x}"] show ?thesis
      using c Some by (auto simp: reports_def bindE_def)
  qed
qed

lemma reports_step: "W lg u F s \<Longrightarrow> u < n \<Longrightarrow> reports L W (lookup_step n env (lookup_done env NotifyLookup) L) lg u F s"
proof (induction n arbitrary: F s u)
  case (Suc n)
  let ?ls = "lookup_ls L s" and ?finish = "lookup_done env NotifyLookup"
  obtain qs ls where pick: "LookupSession_pick_next_queries ?ls = (qs, ls)" by fastforce
  have wf: "LookupSession_wf ?ls" and fl: "flying F ?ls" and u: "unqueried_count ?ls \<le> u"
    using w_session [OF Suc.prems(1)] by auto
  consider (complete) "LookupSession_is_complete ?ls" | (idle) "\<not> LookupSession_is_complete ?ls" "qs = []"
    | (ask) "\<not> LookupSession_is_complete ?ls" "qs \<noteq> []" by blast
  then show ?case
  proof cases
    case complete
    with w_log [OF Suc.prems(1)] show ?thesis
      by (simp add: reports_def told_def bindE_gets lookup_done_def notify_def modify_def result_log_def config_k_def)
  next
    case idle
    have "ls = ?ls" using pick idle(2) pick_nothing by blast
    moreover have "LookupSession_in_flight_count ?ls \<noteq> 0" using pick_progress [OF idle(1)] pick idle(2) by auto
    ultimately show ?thesis
      using Suc.prems(1) idle pick
      by (simp add: reports_def told_def bindE_gets thenE_run set_lookup_def modify_def whenE_run result_log_def)
  next
    case ask
    let ?v = "unqueried_count ls"
    have v: "?v < n" "?v \<le> u" using pick_unqueried [OF pick] u Suc.prems(2) ask(2) by (auto simp: neq_Nil_conv)
    note body = reports_query [where step = "lookup_step n env ?finish L", OF Suc.IH [OF _ v(1)]]
    have "reports L W (forE qs (\<lambda>peer. bindE (connection_for env peer) (\<lambda>conn. case conn of
            None \<Rightarrow> thenE (lookup_failure env L (peer_node_id peer)) (lookup_step n env ?finish L)
          | Some cid \<Rightarrow> query_find_node env L (peer_node_id peer) cid))) lg ?v F (with_ls L ls s)"
      using w_pick [OF Suc.prems(1) ask(1) pick ask(2)] pick_flying(2,3) [OF wf pick fl] ask(2)
      by (rule reports_forE [rotated]) (rule body)
    with ask pick told_weaken [OF _ v(2)] show ?thesis
      by (auto simp: reports_def bindE_gets thenE_run set_lookup_def modify_def simp del: forE.simps)
  qed
qed simp

lemma reports_run:
  assumes "W lg u F s" "u \<le> unqueried_count (lookup_ls L s)"
  shows "reports L W (lookup_run env (lookup_done env NotifyLookup) L) lg u F s"
  using reports_step [OF assms(1), of "lookup_fuel L s"] assms(2) by (simp add: reports_def lookup_run_def bindE_gets lookup_fuel_def)

end

end
