(* ===== verification/Node_Lookup.thy ===== *)
theory Node_Lookup
  imports Lookup_Driver
begin

text \<open>
  The lookups of the node in a network of nodes: the handlers of \<^verbatim>\<open>src/node.cpp\<close> on both sides of a
  FIND\_NODE exchange implement the steps of \<open>Lookup_Network\<close>, for which the convergence of lookups is
  proved. \<open>driven\<close> says that the session of lookup \<open>L\<close> came about by such steps; it is kept by everything
  that a lookup does to the node.
\<close>

section \<open>The steps of a lookup\<close>

text \<open>
  A lookup that is under way: its session came about by steps of the network, the queries to \<open>F\<close> are in
  flight, at most \<open>u\<close> candidates are unqueried, and the log of the application is \<open>lg\<close>.
\<close>

definition driven :: "env \<Rightarrow> NodeID set \<Rightarrow> nat \<Rightarrow> nat \<Rightarrow> LookupSession \<Rightarrow> Config \<Rightarrow> lookup_pred" where
  "driven env N n L ls0 cfg lg u F s \<longleftrightarrow> sodium_ready (e_sodium env) \<and> aead_correct (e_sodium env) \<and>
     node_inv env s \<and> n_config s = cfg \<and> n_log s = lg \<and>
     (kademlia_drive N n)\<^sup>*\<^sup>* ls0 (lookup_ls L s) \<and> flying F (lookup_ls L s) \<and> unqueried_count (lookup_ls L s) \<le> u"

interpretation dr: node_contacts env "driven env N n L ls0 cfg lg u F" for env N n L ls0 cfg lg u F
  by unfold_locales (auto simp: driven_def inv_prims)

lemma driven_query:
  assumes "driven env N n L ls0 cfg lg u (insert x F) s"
  shows "\<exists>s'. query_find_node env L x cid s = (Inr (), s') \<and> driven env N n L ls0 cfg lg u F s' \<and> flying {x} (lookup_ls L s')"
proof -
  have "nothrow (query_find_node env L x cid)" using assms by (intro query_nothrow) (simp_all add: driven_def)
  then obtain s' where s': "query_find_node env L x cid s = (Inr (), s')" using nothrowD by fastforce
  have "keeps (driven env N n L ls0 cfg lg u (insert x F)) (query_find_node env L x cid)"
    unfolding query_find_node_def send_request_def
    by (intro keeps_intros dr.keeps_rid dr.keeps_new_timer dr.keeps_conn_send keeps_modify) (simp add: driven_def inv.p_pending)
  from keepsD [OF this assms] s' have "driven env N n L ls0 cfg lg u (insert x F) s'" by simp
  with s' flying_insertD [of x F] show ?thesis by (simp add: driven_def)
qed

lemma kademlia_reachable: "(kademlia_drive N n)\<^sup>*\<^sup>* ls ls' \<Longrightarrow> LookupSession_reachable ls ls'"
  by (erule mono_rtranclp [rule_format, rotated]) (blast dest: kademlia_drive_drive drive_step)

lemma converging_star:
  "(kademlia_drive N n)\<^sup>*\<^sup>* ls ls' \<Longrightarrow> converging lid N ls \<Longrightarrow> lid \<notin> N \<Longrightarrow> 2 \<le> n \<Longrightarrow> converging lid N ls'"
  by (induction rule: rtranclp_induct) (auto intro: converging_step)

lemma driven_set:
  assumes "driven env N n L ls0 cfg lg u G s" "(kademlia_drive N n)\<^sup>*\<^sup>* (lookup_ls L s) ls1" "flying F ls1"
    and "unqueried_count ls1 \<le> u'"
  shows "driven env N n L ls0 cfg lg u' F (with_ls L ls1 s)"
proof -
  have inv: "node_inv env s" using assms(1) by (simp add: driven_def)
  have "LookupSession_wf ls1"
    using wf_reachable [OF kademlia_reachable [OF assms(2)]] inv.p_lookup_wf [OF inv] by blast
  with assms show ?thesis by (auto simp: driven_def inv.p_lookup_any)
qed

lemma driven_pick:
  assumes "driven env N n L ls0 cfg lg u F s" "\<not> LookupSession_is_complete (lookup_ls L s)"
    "LookupSession_pick_next_queries (lookup_ls L s) = (qs, ls)" "qs \<noteq> []"
  shows "driven env N n L ls0 cfg lg (unqueried_count ls) (F \<union> peer_node_id ` set qs) (with_ls L ls s)"
  using assms inv.p_lookup_wf kademlia_drive.query [OF assms(2-4)]
  by (intro driven_set [OF assms(1)] pick_flying(1) [OF _ assms(3)]) (auto simp: driven_def)

lemma driven_failure:
  assumes "driven env N n L ls0 cfg lg u (insert x F) s" "x \<notin> F"
  shows "driven env N n L ls0 cfg lg u F (snd (lookup_failure env L x s))"
proof -
  let ?ls1 = "LookupSession_on_failure (e_clock env (n_tick s)) x (lookup_ls L s)"
  have d: "driven env N n L ls0 cfg lg u (insert x F) (s\<lparr>n_tick := n_tick s + 1\<rparr>)" by (rule dr.p_tick [OF assms(1)])
  obtain c where "c \<in> set (shortlist (lookup_ls L s))" "cand_state c = IN_FLIGHT" "cand_id c = x"
    using assms(1) by (auto simp: driven_def flying_def)
  then have "(kademlia_drive N n)\<^sup>*\<^sup>* (lookup_ls L s) ?ls1" using kademlia_drive.give_up by (metis r_into_rtranclp)
  moreover have "flying F ?ls1" "unqueried_count ?ls1 \<le> u"
    using assms flying_insertD flying_failure order_trans [OF unqueried_on_failure] by (auto simp: driven_def)
  ultimately show ?thesis using driven_set [OF d, of ?ls1 F u] by (simp add: lookup_failure_run)
qed

interpretation drv: lookup_driver env L "driven env N n L ls0 cfg" for env N n L ls0 cfg
proof
  show "driven env N n L ls0 cfg lg u F s \<Longrightarrow>
      LookupSession_wf (lookup_ls L s) \<and> flying F (lookup_ls L s) \<and> unqueried_count (lookup_ls L s) \<le> u" for lg u F s
    using inv.p_lookup_wf by (auto simp: driven_def)
  show "driven env N n L ls0 cfg lg u F s \<Longrightarrow>
      driven env N n L ls0 cfg (lg @ [LookupDone ps m]) u F (s\<lparr>n_log := n_log s @ [LookupDone ps m]\<rparr>)" for lg u F s ps m
    using inv.p_log [of env s "LookupDone ps m"] by (auto simp: driven_def notification_ok_def)
  show "driven env N n L ls0 cfg lg u F s \<Longrightarrow> u \<le> v \<Longrightarrow> driven env N n L ls0 cfg lg v F s" for lg u v F s
    by (auto simp: driven_def)
qed (rule driven_pick keepsD [OF dr.keeps_connection_for] driven_query driven_failure; assumption)+

section \<open>Answering a query\<close>

definition lookups_kept :: "env \<Rightarrow> Config \<Rightarrow> notification list \<Rightarrow> (nat \<Rightarrow> lookup_op) \<Rightarrow> Node \<Rightarrow> bool" where
  "lookups_kept env cfg lg los s \<longleftrightarrow> node_inv env s \<and> n_config s = cfg \<and> n_log s = lg \<and> n_lookups s = los"

interpretation lkept: node_contacts env "lookups_kept env cfg lg los" for env cfg lg los
  by unfold_locales (auto simp: lookups_kept_def inv_prims)

lemma contacts_added:
  assumes "sodium_ready (e_sodium env)" "aead_correct (e_sodium env)" "lookups_kept env cfg lg los s"
  shows "\<exists>s'. forE peers (Node_add_contact env) s = (Inr (), s') \<and> lookups_kept env cfg lg los s'"
  using assms(3)
proof (induction peers arbitrary: s)
  case (Cons p ps)
  obtain s1 where "Node_add_contact env p s = (Inr (), s1)"
    using nothrowD [OF add_contact_nothrow [OF assms(1,2)], of p s] by auto
  moreover from this keepsD [OF lkept.keeps_add_contact Cons.prems, of p] have "lookups_kept env cfg lg los s1" by simp
  ultimately show ?case using Cons.IH [of s1] by (simp add: thenE_run)
qed (simp add: ret_def)

text \<open>A FIND\_NODE response at the node that asked: the session takes the answer, then the lookup goes on.\<close>

lemma lookup_reply_run:
  assumes ready: "sodium_ready (e_sodium env)" "aead_correct (e_sodium env)" and inv: "node_inv env s"
    and g: "flag_set (frame_flags g) IS_RESPONSE" "frame_type g = FIND_NODE_RESPONSE"
      "deserialize_find_node_response (e_json env) (frame_payload g) = Some resp"
    and pending: "n_pending_requests s (frame_request_id g) = Some (PendingLookup L nid t)"
    and cb: "lo_callback (n_lookups s L) = NotifyLookup"
  shows "\<exists>now s1. Node_on_frame env cid g s = lookup_run env (lookup_done env NotifyLookup) L s1 \<and> node_inv env s1 \<and>
    n_config s1 = n_config s \<and> n_log s1 = n_log s \<and>
    lo_session (n_lookups s1 L) = LookupSession_on_response now nid (fnr_closest_nodes resp) (lo_session (n_lookups s L))"
proof -
  let ?ps = "fnr_closest_nodes resp" and ?ls = "lo_session (n_lookups s L)"
  let ?s0 = "s\<lparr>n_pending_requests := (n_pending_requests s)(frame_request_id g := None)\<rparr>"
  have "lookups_kept env (n_config s) (n_log s) (n_lookups s) ?s0" using inv.p_pending [OF inv] by (simp add: lookups_kept_def)
  then obtain s1 where s1: "forE ?ps (Node_add_contact env) ?s0 = (Inr (), s1)" "lookups_kept env (n_config s) (n_log s) (n_lookups s) s1"
    using contacts_added [OF ready] by blast
  obtain s2 where s2: "cancel_timer t s1 = (Inr (), s2)" "lookups_kept env (n_config s) (n_log s) (n_lookups s) s2"
    using keepsD [OF lkept.keeps_cancel_timer s1(2), of t] by (auto simp: cancel_timer_def modify_def)
  let ?now = "e_clock env (n_tick s2)"
  let ?los = "(n_lookups s)(L := (n_lookups s L)\<lparr>lo_session := LookupSession_on_response ?now nid ?ps ?ls\<rparr>)"
  let ?s3 = "s2\<lparr>n_tick := n_tick s2 + 1, n_lookups := ?los\<rparr>"
  have inv2: "node_inv env s2" and los: "n_lookups s2 = n_lookups s" "n_config s2 = n_config s" "n_log s2 = n_log s" using s2(2) by (auto simp: lookups_kept_def)
  have resp: "lookup_response env L nid ?ps s2 = (Inr (), ?s3)"
    by (simp add: lookup_response_def ask_run eff_run set_lookup_def los)
  have "node_inv env ?s3"
    using inv.p_lookup_any [OF inv.p_tick [OF inv2, of "n_tick s2 + 1"] wf_on_response [OF inv.p_lookup_wf [OF inv2, of L]],
        of L ?now nid ?ps] by (simp add: los)
  then have "lookups_kept env (n_config s) (n_log s) ?los ?s3" by (simp add: lookups_kept_def los)
  then obtain s4 where s4: "forE ?ps (Node_add_contact env) ?s3 = (Inr (), s4)" "lookups_kept env (n_config s) (n_log s) ?los s4"
    using contacts_added [OF ready] by blast
  have "Node_on_frame env cid g s = lookup_run env (lookup_done env NotifyLookup) L s4"
    using g pending s1(1) s2(1) resp s4 cb
    by (simp add: Node_on_frame_def take_pending_def eff_run dispatch_frame_def Let_def FIND_NODE_RESPONSE_def PING_def PONG_def
        FIND_NODE_REQUEST_def on_find_node_response_def run_pending_def on_lookup_reply_def lookup_resume_def lookups_kept_def)
  with s4(2) show ?thesis by (intro exI [of _ ?now] exI [of _ s4]) (simp add: lookups_kept_def)
qed

lemma find_node_answered:
  assumes "sodium_ready (e_sodium env)" "aead_correct (e_sodium env)" "node_inv env s" "\<not> flag_set (frame_flags f) IS_RESPONSE"
    and "frame_type f = FIND_NODE_REQUEST" "deserialize_find_node_request (e_json env) (frame_payload f) = Some req"
    and "s1 = snd (Node_add_contact env (fnq_sender req) s)"
  shows "Node_on_frame env cid f s = conn_send env cid (answer f FIND_NODE_RESPONSE (serialize_find_node_response (e_json env)
      \<lparr>fnr_closest_nodes = RoutingTable_find_closest (fnq_target req) (config_k s) (n_routing s1)\<rparr>)) s1"
proof -
  obtain s' where s': "Node_add_contact env (fnq_sender req) s = (Inr (), s')" "contact_kept env s s'"
    using add_contact_kept [OF assms(1-3)] by blast
  with assms(4-7) show ?thesis
    by (simp add: request_dispatch on_find_node_request_def bindE_def thenE_run respond_answer gets_def config_k_def contact_kept_def)
qed

section \<open>Properties\<close>

text \<open>
  C8. A lookup over the network, one exchange. Node \<open>A\<close> has a lookup under way that started with contacts
  of the network \<open>N\<close>, with a query to node \<open>B\<close> in flight. \<open>B\<close> answers the request of \<open>A\<close> without
  failing; if its table, with \<open>A\<close> added, covers \<open>N\<close>, then handling the answer at \<open>A\<close>, including all
  queries to further nodes and the nodes that turn out to be unreachable, is a sequence of at least
  one step of the abstract network. The application is told nothing while the lookup is incomplete,
  and exactly the result when it completes; and if no query failed, the first node of that result
  is the node of \<open>N\<close> closest to the target.
\<close>

theorem Node_lookup_refines_network:
  assumes a: "node_inv env_a sa" "sodium_ready (e_sodium env_a)" "aead_correct (e_sodium env_a)"
    and b: "node_inv env_b sb" "sodium_ready (e_sodium env_b)" "aead_correct (e_sodium env_b)"
    and jl: "e_json env_a = jl" "e_json env_b = jl" "json_laws jl"
    and ls: "ls = lo_session (n_lookups sa L)" "lo_callback (n_lookups sa L) = NotifyLookup"
    and start: "(kademlia_drive N (config_k sb))\<^sup>*\<^sup>*
        (LookupSession_add_candidates ps (LookupSession_new target lid al (config_k sa) now rq)) ls"
      "lid \<notin> N" "peer_node_id ` set ps \<subseteq> N" "ps \<noteq> []" "0 < config_k sa" "2 \<le> config_k sb"
    and pending: "n_pending_requests sa rid = Some (PendingLookup L nid t)" "flying {nid} ls"
    and q: "q = \<lparr>fnq_target = target, fnq_sender = self_peer env_a sa\<rparr>" "cbor_roundtrip jl (find_node_request_json q)"
      "f = (Frame_new FIND_NODE_REQUEST rid)\<lparr>frame_payload := serialize_find_node_request jl q\<rparr>"
    and sb1: "sb1 = snd (Node_add_contact env_b (self_peer env_a sa) sb)" "covers lid N nid (n_routing sb1)"
    and r: "r = \<lparr>fnr_closest_nodes = RoutingTable_find_closest target (config_k sb) (n_routing sb1)\<rparr>"
      "cbor_roundtrip jl (find_node_response_json r)"
    and ga: "g = answer f FIND_NODE_RESPONSE (serialize_find_node_response jl r)"
      "sa' = snd (Node_on_frame env_a ca g sa)" "ls' = lo_session (n_lookups sa' L)"
  shows "Node_on_frame env_b cb f sb = conn_send env_b cb g sb1 \<and>
    (kademlia_drive N (config_k sb))\<^sup>+\<^sup>+ ls ls' \<and>
    n_log sa' = n_log sa @ (if LookupSession_is_complete ls' then [LookupDone (LookupSession_get_closest (config_k sa) ls') (metrics ls')] else []) \<and>
    (LookupSession_is_complete ls' \<and> (\<forall>c \<in> set (shortlist ls'). cand_state c \<noteq> FAILED) \<longrightarrow>
      (\<exists>p rest. LookupSession_get_closest (config_k sa) ls' = p # rest \<and> peer_node_id p \<in> N \<and>
        (\<forall>y \<in> N. id_val (xor_distance (peer_node_id p) target) \<le> id_val (xor_distance y target))))"
proof -
  let ?n = "config_k sb"
  have fframe: "\<not> flag_set (frame_flags f) IS_RESPONSE" "frame_type f = FIND_NODE_REQUEST"
    by (simp_all add: q(3) Frame_new_def Frame_default_def FLAG_NONE_def flag_set_def)
  have deq: "deserialize_find_node_request (e_json env_b) (frame_payload f) = Some q"
    using find_node_codecs_inverse(1) [OF jl(3) q(2)] by (simp add: q(3) jl(2))
  have B: "Node_on_frame env_b cb f sb = conn_send env_b cb g sb1"
    using find_node_answered [OF b(2,3) b(1) fframe deq, of sb1 cb] sb1(1) by (simp add: q(1) ga(1) r(1) jl(2))
  have gframe: "flag_set (frame_flags g) IS_RESPONSE" "frame_type g = FIND_NODE_RESPONSE" "frame_request_id g = rid"
    by (simp_all add: ga(1) answer_def q(3) Frame_new_def flag_set_def IS_RESPONSE_def)
  have der: "deserialize_find_node_response (e_json env_a) (frame_payload g) = Some r"
    using find_node_codecs_inverse(2) [OF jl(3) r(2)] by (simp add: ga(1) answer_def jl(1))
  obtain now1 s1 where s1: "Node_on_frame env_a ca g sa = lookup_run env_a (lookup_done env_a NotifyLookup) L s1"
    "node_inv env_a s1" "n_config s1 = n_config sa" "n_log s1 = n_log sa"
    "lo_session (n_lookups s1 L) = LookupSession_on_response now1 nid (fnr_closest_nodes r) ls"
    using lookup_reply_run [OF a(2,3) a(1) gframe(1,2) der _ ls(2), of nid t ca] pending(1) gframe(3) ls(1) by auto
  have reach: "LookupSession_reachable (LookupSession_new target lid al (config_k sa) now rq) ls"
    using kademlia_reachable [OF start(1)] LookupSession_step.add by (meson converse_rtranclp_into_rtranclp)
  note params = reachable_params [OF reach LookupSession_wf_new]
  let ?ls1 = "LookupSession_on_response now1 nid (fnr_closest_nodes r) ls"
  obtain c where c: "c \<in> set (shortlist ls)" "cand_state c = IN_FLIGHT" "cand_id c = nid"
    using pending(2) by (auto simp: flying_def)
  have step: "kademlia_drive N ?n ls ?ls1"
    using kademlia_drive.answer [OF c(1,2), of N "n_routing sb1" ?n now1] sb1(2) params c(3)
    by (simp add: r(1) LookupSession_new_def)
  have "driven env_a N ?n L ?ls1 (n_config sa) (n_log sa) (unqueried_count ?ls1) {} s1"
    using s1 a(2,3) by (simp add: driven_def)
  then have "told L (driven env_a N ?n L ?ls1 (n_config sa)) (n_log sa) (unqueried_count ?ls1) {} sa'"
    using drv.reports_run [of env_a N ?n L ?ls1 "n_config sa" "n_log sa" "unqueried_count ?ls1" "{}" s1] s1(1,5)
    by (auto simp: reports_def ga(2))
  then have steps: "(kademlia_drive N ?n)\<^sup>*\<^sup>* ?ls1 ls'"
    and log: "n_log sa' = n_log sa @ result_log sa' ls'" and cfg: "config_k sa' = config_k sa"
    by (simp_all add: told_def driven_def ga(3) config_k_def)
  have plus: "(kademlia_drive N ?n)\<^sup>+\<^sup>+ ls ls'" using step steps by (rule rtranclp_into_tranclp2)
  have all: "(kademlia_drive N ?n)\<^sup>*\<^sup>* (LookupSession_add_candidates ps (LookupSession_new target lid al (config_k sa) now rq)) ls'"
    using start(1) tranclp_into_rtranclp [OF plus] by (rule rtranclp_trans)
  have conv: "converging lid N ls'"
    using converging_star [OF all converging_start [OF start(2-4)] start(2,6)] .
  have "LookupSession_reachable (LookupSession_new target lid al (config_k sa) now rq) ls'"
    using reach kademlia_reachable [OF tranclp_into_rtranclp [OF plus]] by (rule rtranclp_trans)
  then have "ls_target ls' = target" "ls_k ls' = config_k sa"
    using reachable_params [OF _ LookupSession_wf_new] by (auto simp: LookupSession_new_def)
  with converged_closest [OF conv, of "config_k sa"] start(5) B plus log cfg show ?thesis
    by (simp add: result_log_def)
qed

section \<open>A concrete exchange\<close>

text \<open>Two nodes with empty tables, and the lookup of the first, whose only candidate is the second.\<close>

definition net_node :: "u8 \<Rightarrow> env \<Rightarrow> Node" where
  "net_node x env = (test_node env)\<lparr>n_keypair := test_keys x, n_routing := RoutingTable_new (test_id x) 4\<rparr>"

definition net_session :: LookupSession where
  "net_session = LookupSession_add_candidates [net_peer 6] (LookupSession_new (test_id 7) (test_id 5) 3 4 0 zero_barray)"

definition net_looking :: "env \<Rightarrow> Node" where
  "net_looking env = (net_node 5 env)\<lparr>n_lookups := (n_lookups (net_node 5 env))(0 :=
       \<lparr>lo_session = snd (LookupSession_pick_next_queries net_session), lo_callback = NotifyLookup\<rparr>),
     n_lookup_count := 1, n_pending_requests := [barray_of [3] \<mapsto> PendingLookup 0 (test_id 6) 0]\<rparr>"

definition net_self :: PeerInfo where
  "net_self = peer_of (test_id 5) ''0.0.0.0'' 9000"

definition net_table_b :: RoutingTable where
  "net_table_b = snd (RoutingTable_add_or_update 1 net_self (RoutingTable_new (test_id 6) 4))"

definition net_request :: FindNodeRequest where
  "net_request = \<lparr>fnq_target = test_id 7, fnq_sender = net_self\<rparr>"

definition net_response :: FindNodeResponse where
  "net_response = \<lparr>fnr_closest_nodes = RoutingTable_find_closest (test_id 7) 4 net_table_b\<rparr>"

definition net_env :: env where
  "net_env = test_env (find_node_request_json net_request) (find_node_response_json net_response)"

definition net_query :: Frame where
  "net_query = (Frame_new FIND_NODE_REQUEST (barray_of [3]))\<lparr>frame_payload := serialize_find_node_request (e_json net_env) net_request\<rparr>"

definition net_answer :: Frame where
  "net_answer = answer net_query FIND_NODE_RESPONSE (serialize_find_node_response (e_json net_env) net_response)"

lemma barray_of_pad: "(barray_of (take LENGTH('n) (xs @ replicate LENGTH('n) 0)) :: 'n::len barray) = barray_of xs"
  by (simp add: barray_eq_iff)

lemma net_ids: "Keypair_node_id toy_sodium (test_keys x) = test_id x"
  using barray_of_pad [where xs = "[x]" and 'n = 32]
  by (simp add: Keypair_node_id_def compute_node_id_def sha256_def toy_sodium_def test_keys_def test_id_def)

lemma net_node_inv: "node_inv (test_env j1 j2) (net_node x (test_env j1 j2))"
proof -
  have "node_inv (test_env j1 j2) (test_node (test_env j1 j2))" by (rule reachable_inv [OF test_node_reachable])
  then show ?thesis
    using RoutingTable_new_params net_ids test_node_fields(5) [of j1 j2]
    by (simp add: node_inv_def net_node_def RoutingTable_wf_new Node_node_id_def config_k_def test_env_def to_size_t_def Config_default_def)
qed

lemma net_session_eq: "shortlist net_session = [\<lparr>cand_peer = net_peer 6, cand_state = UNQUERIED\<rparr>]"
  by code_simp

lemma net_session_query: "\<not> LookupSession_is_complete net_session" "fst (LookupSession_pick_next_queries net_session) \<noteq> []"
  by code_simp+

lemma net_flying: "flying {test_id 6} (snd (LookupSession_pick_next_queries net_session))"
proof -
  have "shortlist (snd (LookupSession_pick_next_queries net_session)) = [\<lparr>cand_peer = net_peer 6, cand_state = IN_FLIGHT\<rparr>]" by code_simp
  then show ?thesis by (simp add: flying_def net_peer_def)
qed

lemma net_session_wf: "LookupSession_wf (snd (LookupSession_pick_next_queries net_session))"
  by (simp add: wf_pick net_session_def wf_add_candidates LookupSession_wf_new)

lemma net_looking_inv: "node_inv net_env (net_looking net_env)"
proof -
  have "node_inv net_env (net_node 5 net_env)" "n_lookup_count (net_node 5 net_env) = 0"
    using net_node_inv test_node_fields(8) by (simp_all add: net_env_def net_node_def)
  with inv.p_lookup_new [of net_env "net_node 5 net_env" "\<lparr>lo_session = snd (LookupSession_pick_next_queries net_session), lo_callback = NotifyLookup\<rparr>"]
    net_session_wf have "node_inv net_env ((net_node 5 net_env)\<lparr>n_lookups := (n_lookups (net_node 5 net_env))(0 :=
      \<lparr>lo_session = snd (LookupSession_pick_next_queries net_session), lo_callback = NotifyLookup\<rparr>), n_lookup_count := 1\<rparr>)" by simp
  from inv.p_pending [OF this, of "[barray_of [3] \<mapsto> PendingLookup 0 (test_id 6) 0]"] show ?thesis by (simp add: net_looking_def)
qed

lemma net_table_b_added: "RoutingTable_add_or_update 1 net_self (RoutingTable_new (test_id 6) 4) = (True, net_table_b)"
proof -
  have "fst (RoutingTable_add_or_update 1 net_self (RoutingTable_new (test_id 6) 4))" by code_simp
  then show ?thesis by (simp add: net_table_b_def prod_eq_iff)
qed

lemma net_covers_b: "covers (test_id 5) {test_id 6} (test_id 6) net_table_b"
proof -
  have "RoutingTable_peers net_table_b = [net_self]" by code_simp
  moreover have "RoutingTable_wf net_table_b" "local_id net_table_b = test_id 6"
    using RoutingTable_local_id(1) by (simp_all add: net_table_b_def RoutingTable_wf_add RoutingTable_wf_new RoutingTable_new_params)
  ultimately show ?thesis by (simp add: covers_def net_self_def peer_of_def)
qed

lemma net_fields:
  "config_k (net_looking net_env) = 4" "config_k (net_node 6 net_env) = 4" "self_peer net_env (net_looking net_env) = net_self"
  "n_routing (snd (Node_add_contact net_env net_self (net_node 6 net_env))) = net_table_b"
proof -
  have cfg: "n_config (net_looking net_env) = Config_default" "n_config (net_node 6 net_env) = Config_default"
    using test_node_fields(5) by (simp_all add: net_looking_def net_node_def net_env_def)
  then show "config_k (net_looking net_env) = 4" "config_k (net_node 6 net_env) = 4"
    by (simp_all add: config_k_def Config_default_def to_size_t_def)
  have "n_keypair (net_looking net_env) = test_keys 5" by (simp add: net_looking_def net_node_def)
  with cfg net_ids [of 5] show "self_peer net_env (net_looking net_env) = net_self"
    by (simp add: self_peer_def Node_node_id_def net_self_def net_env_def test_env_def Config_default_def)
  have "n_started (net_node 6 net_env)" "n_routing (net_node 6 net_env) = RoutingTable_new (test_id 6) 4"
    using test_node_fields(2) by (simp_all add: net_node_def net_env_def)
  moreover have "e_clock net_env = (\<lambda>_. 1)" by (simp add: net_env_def test_env_def)
  ultimately show "n_routing (snd (Node_add_contact net_env net_self (net_node 6 net_env))) = net_table_b"
    using add_contact_room [of "net_node 6 net_env" net_env net_self net_table_b] net_table_b_added by simp
qed

theorem Node_lookup_refines_network_witness:
  "Node_on_frame net_env 0 net_query (net_node 6 net_env) =
     conn_send net_env 0 net_answer (snd (Node_add_contact net_env net_self (net_node 6 net_env))) \<and>
   (kademlia_drive {test_id 6} 4)\<^sup>+\<^sup>+ (lo_session (n_lookups (net_looking net_env) 0))
     (lo_session (n_lookups (snd (Node_on_frame net_env 0 net_answer (net_looking net_env))) 0))"
proof -
  have env: "sodium_ready (e_sodium net_env)" "aead_correct (e_sodium net_env)" "json_laws (e_json net_env)"
    "cbor_roundtrip (e_json net_env) (find_node_request_json net_request)" "cbor_roundtrip (e_json net_env) (find_node_response_json net_response)"
    by (simp_all add: net_env_def test_env_def toy_sodium_ready toy_sodium_aead toy_json2_laws toy_json2_roundtrip)
  have inv_b: "node_inv net_env (net_node 6 net_env)" using net_node_inv by (simp add: net_env_def)
  have start: "(kademlia_drive {test_id 6} 4)\<^sup>*\<^sup>* (LookupSession_add_candidates [net_peer 6]
      (LookupSession_new (test_id 7) (test_id 5) 3 4 0 zero_barray)) (snd (LookupSession_pick_next_queries net_session))"
    unfolding net_session_def [symmetric] using query_step [OF net_session_query] by blast
  have ne: "test_id 5 \<notin> {test_id 6}" by code_simp
  have looking: "lo_session (n_lookups (net_looking net_env) 0) = snd (LookupSession_pick_next_queries net_session)"
    "lo_callback (n_lookups (net_looking net_env) 0) = NotifyLookup"
    "n_pending_requests (net_looking net_env) (barray_of [3]) = Some (PendingLookup 0 (test_id 6) 0)"
    by (simp_all add: net_looking_def)
  note T = Node_lookup_refines_network [of net_env "net_looking net_env" net_env "net_node 6 net_env" "e_json net_env"
      "snd (LookupSession_pick_next_queries net_session)" 0 "{test_id 6}" "[net_peer 6]" "test_id 7" "test_id 5" 3 0 zero_barray
      "barray_of [3]" "test_id 6" 0 net_request net_query _ net_response net_answer _ 0 _ 0]
  show ?thesis unfolding looking(1)
    using T [unfolded net_fields, OF net_looking_inv env(1,2) inv_b env(1,2) refl refl env(3) looking(1) [symmetric] looking(2)
        start ne _ _ _ _ looking(3) net_flying net_request_def env(4) net_query_def refl _ _ env(5) net_answer_def refl refl]
      net_covers_b net_fields(4)
    by (simp add: net_peer_def net_response_def)
qed

end
