(* ===== verification/Node_Timeouts.thy ===== *)
theory Node_Timeouts
  imports Lookup_Driver
begin

text \<open>
  Lookups among nodes that do not answer. Every query of a lookup is guarded by an armed timer
  (\<open>waiting\<close>); the timer of a query that is in flight resumes the lookup, with one candidate
  less to ask, until the lookup reports.
\<close>

section \<open>Guarded queries\<close>

definition guarded :: "nat \<Rightarrow> NodeID \<Rightarrow> Node \<Rightarrow> bool" where
  "guarded L x s \<longleftrightarrow> (\<exists>t < n_timer_count s. \<exists>rid. n_timers s t = Armed (LookupTimeout L x rid))"

abbreviation open_queries :: "LookupSession \<Rightarrow> nat" where
  "open_queries ls \<equiv> unqueried_count ls + LookupSession_in_flight_count ls"

text \<open>
  Lookup \<open>L\<close> of a running node: nobody has answered, at most \<open>b\<close> candidates are unqueried or in flight, and
  a timer guards every query in flight except those to \<open>F\<close>.
\<close>

definition waiting :: "env \<Rightarrow> nat \<Rightarrow> nat \<Rightarrow> lookup_pred" where
  "waiting env L b lg u F s \<longleftrightarrow> sodium_ready (e_sodium env) \<and> aead_correct (e_sodium env) \<and> node_inv env s \<and> n_log s = lg \<and>
     \<not> n_stopped s \<and> \<not> n_hangs s \<and> lo_callback (n_lookups s L) = NotifyLookup \<and>
     flying F (lookup_ls L s) \<and> unqueried_count (lookup_ls L s) \<le> u \<and> open_queries (lookup_ls L s) \<le> b \<and>
     (\<forall>c \<in> set (shortlist (lookup_ls L s)). cand_state c \<noteq> RESPONDED \<and>
        (cand_state c = IN_FLIGHT \<longrightarrow> cand_id c \<notin> F \<longrightarrow> guarded L (cand_id c) s))"

definition conns_only :: "env \<Rightarrow> Node \<Rightarrow> Node \<Rightarrow> bool" where
  "conns_only env s0 s \<longleftrightarrow> node_inv env s \<and> n_log s = n_log s0 \<and> n_stopped s = n_stopped s0 \<and> n_hangs s = n_hangs s0 \<and>
     n_lookups s = n_lookups s0 \<and> n_timers s = n_timers s0 \<and> n_timer_count s = n_timer_count s0"

interpretation co: node_conns env "conns_only env s0" for env s0
  by unfold_locales (auto simp: conns_only_def inv_prims)

lemma waiting_conns: "waiting env L b lg u F s \<Longrightarrow> keeps (conns_only env s) m \<Longrightarrow> waiting env L b lg u F (snd (m s))"
  using keepsD [of "conns_only env s" m s] by (simp add: waiting_def conns_only_def guarded_def)

section \<open>The actions of the step function\<close>

lemma waiting_set:
  assumes "waiting env L b lg u G s" "LookupSession_wf ls" "flying F ls" "unqueried_count ls \<le> u'" "open_queries ls \<le> b'"
    and "\<And>c. c \<in> set (shortlist ls) \<Longrightarrow> cand_state c \<noteq> RESPONDED"
    and "\<And>c. c \<in> set (shortlist ls) \<Longrightarrow> cand_state c = IN_FLIGHT \<Longrightarrow> cand_id c \<notin> F \<Longrightarrow>
      c \<in> set (shortlist (lookup_ls L s)) \<and> cand_id c \<notin> G"
  shows "waiting env L b' lg u' F (with_ls L ls s)"
proof -
  have "node_inv env (with_ls L ls s)" using assms(1,2) inv.p_lookup_any by (simp add: waiting_def)
  with assms show ?thesis unfolding waiting_def guarded_def by simp
qed

lemma mark_first_in_flight:
  "c \<in> set (mark_first n sl) \<Longrightarrow> cand_state c = IN_FLIGHT \<Longrightarrow>
   c \<in> set sl \<or> (\<exists>d \<in> set (take n (unqueried sl)). cand_id d = cand_id c)"
  by (induction n sl rule: mark_first.induct) (auto split: if_splits)

lemma mark_first_not_responded:
  "c \<in> set (mark_first n sl) \<Longrightarrow> cand_state c \<noteq> RESPONDED \<or> c \<in> set sl"
  by (induction n sl rule: mark_first.induct) (auto split: if_splits)

lemma waiting_pick:
  assumes w: "waiting env L b lg u F s" and "\<not> LookupSession_is_complete (lookup_ls L s)"
    and pick: "LookupSession_pick_next_queries (lookup_ls L s) = (qs, ls)" and "qs \<noteq> []"
  shows "waiting env L b lg (unqueried_count ls) (F \<union> peer_node_id ` set qs) (with_ls L ls s)"
proof -
  let ?ls = "lookup_ls L s" and ?n = "max 1 (alpha (lookup_ls L s) - LookupSession_in_flight_count (lookup_ls L s))"
  have qs: "qs = map cand_peer (take ?n (unqueried (shortlist ?ls)))" and sl: "shortlist ls = mark_first ?n (shortlist ?ls)"
    using pick by (auto simp: pick_next_queries_eq Let_def)
  have wf: "LookupSession_wf ?ls" using w inv.p_lookup_wf by (auto simp: waiting_def)
  have "LookupSession_wf ls" "open_queries ls = open_queries ?ls"
    using pick_unqueried [OF pick] counts_pick(2) [OF pick] wf by auto
  moreover have "flying (F \<union> peer_node_id ` set qs) ls"
    using w by (intro pick_flying(1) [OF wf pick]) (simp add: waiting_def)
  moreover have "c \<in> set (shortlist ?ls) \<and> cand_id c \<notin> F"
    if "c \<in> set (shortlist ls)" "cand_state c = IN_FLIGHT" "cand_id c \<notin> F \<union> peer_node_id ` set qs" for c
    using mark_first_in_flight [of c ?n "shortlist ?ls"] that by (force simp: sl qs image_iff)
  moreover have "cand_state c \<noteq> RESPONDED" if "c \<in> set (shortlist ls)" for c
    using mark_first_not_responded [of c ?n "shortlist ?ls"] that w by (auto simp: sl waiting_def)
  ultimately show ?thesis using w by (intro waiting_set [OF w]) (simp_all add: waiting_def)
qed

lemma update_first_failed:
  assumes "distinct (map cand_id sl)" "c \<in> set (update_first (\<lambda>c. cand_id c = x) (\<lambda>c. c\<lparr>cand_state := FAILED\<rparr>) sl)"
  shows "cand_state c = FAILED \<or> c \<in> set sl \<and> cand_id c \<noteq> x"
  using assms by (induction sl) (auto simp: image_iff split: if_splits)

text \<open>A query that failed is no longer open.\<close>

lemma waiting_failure:
  assumes w: "waiting env L b lg u (insert x F) s" and x: "x \<notin> F"
  shows "waiting env L (b - 1) lg u F (snd (lookup_failure env L x s)) \<and> 0 < b"
proof -
  let ?ls = "lookup_ls L s" and ?now = "e_clock env (n_tick s)"
  let ?ls1 = "LookupSession_on_failure ?now x ?ls"
  have wf: "LookupSession_wf ?ls" using w inv.p_lookup_wf by (auto simp: waiting_def)
  have w1: "waiting env L b lg u (insert x F) (s\<lparr>n_tick := n_tick s + 1\<rparr>)"
    using w inv.p_tick by (simp add: waiting_def guarded_def)
  obtain c where "c \<in> set (shortlist ?ls)" "cand_state c = IN_FLIGHT" "cand_id c = x"
    using w by (auto simp: waiting_def flying_def)
  with counts_set_state(1) [OF wf, of c FAILED]
  have less: "Suc (LookupSession_in_flight_count ?ls1) = LookupSession_in_flight_count ?ls"
    by (simp add: LookupSession_on_failure_def Let_def)
  have sl: "shortlist ?ls1 = update_first (\<lambda>c. cand_id c = x) (\<lambda>c. c\<lparr>cand_state := FAILED\<rparr>) (shortlist ?ls)"
    by (simp add: LookupSession_on_failure_def set_candidate_state_def Let_def)
  have fl: "flying F ?ls1" using w x flying_insertD flying_failure by (auto simp: waiting_def)
  have old: "cand_state d = FAILED \<or> d \<in> set (shortlist ?ls) \<and> cand_id d \<noteq> x" if "d \<in> set (shortlist ?ls1)" for d
    using update_first_failed [of "shortlist ?ls" d x] that wf by (simp add: sl LookupSession_wf_def)
  have un: "unqueried_count ?ls1 \<le> unqueried_count ?ls" by (rule unqueried_on_failure)
  have b: "open_queries ?ls \<le> b" "unqueried_count ?ls \<le> u" using w by (simp_all add: waiting_def)
  have "waiting env L (b - 1) lg u F (with_ls L ?ls1 (s\<lparr>n_tick := n_tick s + 1\<rparr>))"
  proof (rule waiting_set [OF w1 wf_on_failure [OF wf] fl])
    show "cand_state d \<noteq> RESPONDED" if "d \<in> set (shortlist ?ls1)" for d
      using old [OF that] w by (auto simp: waiting_def)
    show "d \<in> set (shortlist (lookup_ls L (s\<lparr>n_tick := n_tick s + 1\<rparr>))) \<and> cand_id d \<notin> insert x F"
      if "d \<in> set (shortlist ?ls1)" "cand_state d = IN_FLIGHT" "cand_id d \<notin> F" for d
      using old [OF that(1)] that by auto
  qed (use un less b in simp_all)
  with less b show ?thesis by (simp add: lookup_failure_run)
qed

lemma waiting_query:
  assumes w: "waiting env L b lg u (insert x F) s"
  shows "\<exists>s'. query_find_node env L x cid s = (Inr (), s') \<and> waiting env L b lg u F s' \<and> flying {x} (lookup_ls L s')"
proof -
  let ?t = "n_timer_count s" and ?s1 = "s\<lparr>n_tick := n_tick s + 1\<rparr>"
  have ready: "sodium_ready (e_sodium env)" "aead_correct (e_sodium env)" using w by (simp_all add: waiting_def)
  define rid where "rid = e_rid env (n_tick s)"
  define s2 where "s2 = ?s1\<lparr>n_timers := (n_timers s)(?t := Armed (LookupTimeout L x rid)), n_timer_count := ?t + 1,
      n_pending_requests := (n_pending_requests s)(rid \<mapsto> PendingLookup L x ?t)\<rparr>"
  have run: "\<exists>f. query_find_node env L x cid s = conn_send env cid f s2"
    using ready(1) by (auto simp: query_find_node_def send_request_def generate_request_id_def RequestID_generate_def
        sodium_ready_def ask_run new_timer_def eff_run s2_def rid_def)
  have "node_inv env s2"
    using inv.p_pending [OF inv.p_timers [OF inv.p_tick]] w by (simp add: s2_def waiting_def)
  moreover have "guarded L y s2" if "guarded L y s \<or> y = x" for y
  proof (cases "y = x")
    case False
    with that obtain t r where "t < ?t" "n_timers s t = Armed (LookupTimeout L y r)" by (auto simp: guarded_def)
    then show ?thesis unfolding guarded_def s2_def by (intro exI [of _ t]) simp
  qed (auto simp: guarded_def s2_def intro: exI [of _ ?t])
  ultimately have "waiting env L b lg u F s2 \<and> flying {x} (lookup_ls L s2)"
    using w flying_insertD [of x F "lookup_ls L s"] unfolding waiting_def by (auto simp: s2_def)
  moreover obtain f where f: "query_find_node env L x cid s = conn_send env cid f s2" using run by blast
  moreover obtain s' where s': "conn_send env cid f s2 = (Inr (), s')" using nothrowD [OF conn_send_nothrow [OF ready]] by fastforce
  moreover have "conns_only env s2 s'"
    using keepsD [OF co.keeps_conn_send, of env s2 s2 cid f] \<open>node_inv env s2\<close> s' by (simp add: conns_only_def)
  ultimately show ?thesis
    using waiting_conns [of env L b lg u F s2 "conn_send env cid f"] co.keeps_conn_send by (auto simp: conns_only_def)
qed

interpretation wt: lookup_driver env L "waiting env L b" for env L b
proof
  show "waiting env L b lg u F s \<Longrightarrow>
      LookupSession_wf (lookup_ls L s) \<and> flying F (lookup_ls L s) \<and> unqueried_count (lookup_ls L s) \<le> u" for lg u F s
    using inv.p_lookup_wf by (auto simp: waiting_def)
  show "waiting env L b lg u F s \<Longrightarrow> u \<le> v \<Longrightarrow> waiting env L b lg v F s" for lg u v F s
    by (auto simp: waiting_def)
  show "waiting env L b lg u F s \<Longrightarrow>
      waiting env L b (lg @ [LookupDone ps m]) u F (s\<lparr>n_log := n_log s @ [LookupDone ps m]\<rparr>)" for lg u F s ps m
    using inv.p_log [of env s "LookupDone ps m"] by (auto simp: waiting_def notification_ok_def guarded_def)
  show "waiting env L b lg u (insert x F) s \<Longrightarrow> x \<notin> F \<Longrightarrow> waiting env L b lg u F (snd (lookup_failure env L x s))" for lg u F s x
    using waiting_failure [of env L b lg u x F s] by (auto simp: waiting_def)
qed (rule waiting_pick waiting_conns [OF _ co.keeps_connection_for] waiting_query; assumption)+

section \<open>Timeouts\<close>

text \<open>The timer \<open>t\<close> expires and its handler runs.\<close>

definition query_timeout :: "env \<Rightarrow> timer_ref \<Rightarrow> Node \<Rightarrow> Node" where
  "query_timeout env t s = snd (Node_handle env (TimerRun t) (snd (Node_handle env (TimerExpired t) s)))"

text \<open>\<open>n\<close> queries of lookup \<open>L\<close>, each in flight and guarded by an armed timer, time out one after the other, in any order.\<close>

inductive silent_run :: "env \<Rightarrow> nat \<Rightarrow> Node \<Rightarrow> nat \<Rightarrow> Node \<Rightarrow> bool" for env L where
  stop: "silent_run env L s 0 s"
| timeout: "n_timers s t = Armed (LookupTimeout L x rid) \<Longrightarrow> flying {x} (lookup_ls L s) \<Longrightarrow>
    silent_run env L (query_timeout env t s) n s' \<Longrightarrow> silent_run env L s (Suc n) s'"

lemma silent_run_snoc:
  "silent_run env L s n s' \<Longrightarrow> n_timers s' t = Armed (LookupTimeout L x rid) \<Longrightarrow> flying {x} (lookup_ls L s') \<Longrightarrow>
   silent_run env L s (Suc n) (query_timeout env t s')"
  by (induction rule: silent_run.induct) (auto intro: silent_run.intros)

lemma waiting_timeout:
  assumes w: "waiting env L b lg u {} s" and t: "n_timers s t = Armed (LookupTimeout L x rid)" and x: "flying {x} (lookup_ls L s)"
  shows "0 < b" "\<exists>v. told L (waiting env L (b - 1)) lg v {} (query_timeout env t s)"
proof -
  define s1 where "s1 = s\<lparr>n_timers := (n_timers s)(t := Idle), n_pending_requests := (n_pending_requests s)(rid := None)\<rparr>"
  define s2 where "s2 = snd (lookup_failure env L x s1)"
  have "guarded L y s1" if "guarded L y s" "y \<noteq> x" for y
  proof -
    from that(1) obtain t' r where "t' < n_timer_count s" "n_timers s t' = Armed (LookupTimeout L y r)" by (auto simp: guarded_def)
    moreover from this t that(2) have "t' \<noteq> t" by auto
    ultimately show ?thesis unfolding guarded_def s1_def by (intro exI [of _ t']) simp
  qed
  moreover have "node_inv env s1"
    using w inv.p_pending [OF inv.p_timers_only] by (simp add: waiting_def s1_def)
  ultimately have "waiting env L b lg u {x} s1" using w x unfolding waiting_def by (simp add: s1_def)
  from waiting_failure [OF this] have b: "0 < b" and w2: "waiting env L (b - 1) lg u {} s2" by (simp_all add: s2_def)
  show "0 < b" by (rule b)
  have cb: "lo_callback (n_lookups s L) = NotifyLookup" "\<not> n_stopped s" "\<not> n_hangs s" using w by (simp_all add: waiting_def)
  have "query_timeout env t s = snd (lookup_run env (lookup_done env NotifyLookup) L s2)"
    using t cb by (simp add: query_timeout_def Node_handle_def bindE_gets timer_expires_def timer_runs_def run_timer_def
        on_lookup_timeout_def lookup_resume_def thenE_run modify_def s1_def s2_def lookup_failure_run)
  moreover from w2 have "waiting env L (b - 1) lg (unqueried_count (lookup_ls L s2)) {} s2" by (simp add: waiting_def)
  from wt.reports_run [OF this] obtain s' where "lookup_run env (lookup_done env NotifyLookup) L s2 = (Inr (), s')"
    "told L (waiting env L (b - 1)) lg (unqueried_count (lookup_ls L s2)) {} s'" by (auto simp: reports_def)
  ultimately show "\<exists>v. told L (waiting env L (b - 1)) lg v {} (query_timeout env t s)" by auto
qed

lemma silent_run_told:
  "silent_run env L s n s' \<Longrightarrow> told L (waiting env L b) lg u {} s \<Longrightarrow>
   n \<le> b \<and> (\<exists>v. told L (waiting env L (b - n)) lg v {} s')"
proof (induction arbitrary: b u rule: silent_run.induct)
  case (timeout s t x rid n s')
  have w: "waiting env L b lg u {} s" using wt.told_flying [OF timeout(2)] timeout.prems by simp
  obtain v where "told L (waiting env L (b - 1)) lg v {} (query_timeout env t s)"
    using waiting_timeout(2) [OF w timeout(1,2)] by blast
  from timeout.IH [OF this] waiting_timeout(1) [OF w timeout(1,2)] show ?case by auto
qed auto

section \<open>The start of a lookup\<close>

lemma length_new_candidates: "length (new_candidates lid known ps) \<le> length ps"
  by (induction ps arbitrary: known) (auto intro: le_SucI)

lemma new_shortlist:
  assumes "new_session env target s = (Inr ls, s1)"
  shows "length (shortlist (LookupSession_add_candidates ps ls)) \<le> length ps"
    and "\<forall>c \<in> set (shortlist (LookupSession_add_candidates ps ls)). cand_state c = UNQUERIED"
proof -
  have "shortlist ls = []"
    using assms by (auto simp: new_session_def eff_run LookupSession_new_def split: prod.splits sum.splits)
  then show "length (shortlist (LookupSession_add_candidates ps ls)) \<le> length ps"
    and "\<forall>c \<in> set (shortlist (LookupSession_add_candidates ps ls)). cand_state c = UNQUERIED"
    by (auto simp: add_candidates_eq length_new_candidates)
qed

lemma lookup_started:
  assumes "node_inv env s" "\<not> n_stopped s" "\<not> n_hangs s" "sodium_ready (e_sodium env)" "aead_correct (e_sodium env)"
  shows "\<exists>u. told (n_lookup_count s) (waiting env (n_lookup_count s) (length (initial_candidates target s))) (n_log s) u {}
    (snd (Node_handle env (CallLookup target) s))"
proof -
  obtain ls where ns: "new_session env target s = (Inr ls, s\<lparr>n_tick := n_tick s + 2\<rparr>)" "LookupSession_wf ls"
    using new_session_ready [OF assms(4)] by metis
  let ?L = "n_lookup_count s" and ?s1 = "s\<lparr>n_tick := n_tick s + 2\<rparr>" and ?b = "length (initial_candidates target s)"
  define ls1 where "ls1 = LookupSession_add_candidates (initial_candidates target s) ls"
  define s2 where "s2 = ?s1\<lparr>n_lookups := (n_lookups s)(?L := \<lparr>lo_session = ls1, lo_callback = NotifyLookup\<rparr>), n_lookup_count := ?L + 1\<rparr>"
  have new: "length (shortlist ls1) \<le> ?b" "\<forall>c \<in> set (shortlist ls1). cand_state c = UNQUERIED"
    unfolding ls1_def using new_shortlist [OF ns(1)] by blast+
  have "node_inv env s2"
    using inv.p_lookup_new [OF inv.p_tick [OF assms(1)], of "\<lparr>lo_session = ls1, lo_callback = NotifyLookup\<rparr>" "n_tick s + 2"]
    by (simp add: s2_def ls1_def wf_add_candidates ns(2))
  moreover have "LookupSession_in_flight_count ls1 = 0"
    using new(2) by (simp add: LookupSession_in_flight_count_def filter_empty_conv)
  ultimately have w: "waiting env ?L ?b (n_log s) (unqueried_count ls1) {} s2"
    using assms new order_trans [OF length_filter_le new(1)] by (simp add: waiting_def s2_def)
  from wt.reports_run [OF this] obtain s' where
    "lookup_run env (lookup_done env NotifyLookup) ?L s2 = (Inr (), s')" "told ?L (waiting env ?L ?b) (n_log s) (unqueried_count ls1) {} s'"
    by (auto simp: reports_def s2_def)
  moreover have "initial_candidates target ?s1 = initial_candidates target s" by (simp add: initial_candidates_def)
  ultimately show ?thesis
    using assms(2,3) ns(1)
    by (auto simp: Node_handle_def Node_async_lookup_def bindE_gets bindE_def thenE_run modify_def gets_def s2_def ls1_def)
qed

section \<open>Properties\<close>

text \<open>
  C9. A lookup among silent nodes ends, and reports once. The application starts a lookup at a running
  node, and no query is answered: the queries in flight time out, in any order, each timeout followed by
  whatever the lookup then does (further queries, connections that fail). There are at most as many timeouts
  as the lookup had candidates at the start; after each of them, either the application has been told, once, that no node was
  found, and no query is in flight; or it has been told nothing, and the timer of some query in flight is armed, so that
  the lookup goes on.
\<close>

theorem Node_lookup_times_out:
  assumes "node_inv env s" and "\<not> n_stopped s" and "\<not> n_hangs s"
    and "sodium_ready (e_sodium env)" and "aead_correct (e_sodium env)"
    and "L = n_lookup_count s" and "silent_run env L (snd (Node_handle env (CallLookup target) s)) n s'"
  shows "n \<le> length (initial_candidates target s) \<and>
    ((\<exists>m. n_log s' = n_log s @ [LookupDone [] m]) \<and> LookupSession_in_flight_count (lookup_ls L s') = 0 \<or>
     n_log s' = n_log s \<and> (\<exists>t x rid. n_timers s' t = Armed (LookupTimeout L x rid) \<and> flying {x} (lookup_ls L s')))"
proof -
  let ?ls = "lookup_ls L s'" and ?b = "length (initial_candidates target s)"
  obtain v where n: "n \<le> ?b" and told: "told L (waiting env L (?b - n)) (n_log s) v {} s'"
    using lookup_started [OF assms(1-5)] silent_run_told [OF assms(7)] assms(6) by blast
  have w: "waiting env L (?b - n) (n_log s @ result_log s' ?ls) v {} s'" and go: "LookupSession_is_complete ?ls \<or> LookupSession_in_flight_count ?ls \<noteq> 0"
    using told by (simp_all add: told_def)
  show ?thesis
  proof (cases "LookupSession_is_complete ?ls")
    case True
    have "filter (\<lambda>c. cand_state c = RESPONDED) (shortlist ?ls) = []" using w by (simp add: waiting_def filter_empty_conv)
    then have "LookupSession_get_closest (config_k s') ?ls = []" by (simp add: LookupSession_get_closest_def get_closest_loop_eq)
    with True w n show ?thesis by (simp add: waiting_def result_log_def is_complete_eq)
  next
    case False
    with go obtain c where c: "c \<in> set (shortlist ?ls)" "cand_state c = IN_FLIGHT"
      by (auto simp: LookupSession_in_flight_count_def filter_empty_conv)
    with w obtain t rid where "n_timers s' t = Armed (LookupTimeout L (cand_id c) rid)" by (auto simp: waiting_def guarded_def)
    moreover have "flying {cand_id c} ?ls" using c by (auto simp: flying_def)
    moreover have "n_log s' = n_log s" using w False by (simp add: waiting_def result_log_def)
    ultimately show ?thesis using n by blast
  qed
qed

text \<open>A node with one contact, in a network in which every connection succeeds and nobody answers.\<close>

definition silent_env :: env where
  "silent_env = (test_env JNull JNull)\<lparr>e_net := (\<lambda>_. unreachable_net\<lparr>os_resolve := (\<lambda>h p. Some [(h, p)])\<rparr>)\<rparr>"

definition silent_node :: Node where
  "silent_node = (test_node (test_env JNull JNull))\<lparr>n_routing :=
     snd (RoutingTable_add_or_update 1 (peer_of (test_id 6) ''10.0.0.6'' 9000) (n_routing (test_node (test_env JNull JNull))))\<rparr>"

lemma silent_node_inv: "node_inv silent_env silent_node"
proof -
  let ?s = "test_node (test_env JNull JNull)"
  have inv: "node_inv (test_env JNull JNull) ?s" by (rule reachable_inv [OF test_node_reachable])
  have "node_inv (test_env JNull JNull) silent_node"
    unfolding silent_node_def
    by (rule inv.p_routing [OF inv RoutingTable_wf_add [OF inv.p_table [OF inv]]]) (simp_all add: RoutingTable_add_eq Let_def)
  then show ?thesis by (simp add: node_inv_def silent_env_def Node_node_id_def)
qed

theorem Node_lookup_times_out_witness:
  "\<exists>n s' m. silent_run silent_env 0 (snd (Node_handle silent_env (CallLookup (test_id 7)) silent_node)) n s' \<and>
     n_log s' = [LookupDone [] m]"
proof -
  let ?s0 = "snd (Node_handle silent_env (CallLookup (test_id 7)) silent_node)"
  have so: "e_sodium silent_env = toy_sodium" by (simp add: silent_env_def test_env_def)
  have run: "\<not> n_stopped silent_node" "\<not> n_hangs silent_node" "0 = n_lookup_count silent_node" "n_log silent_node = []"
    by (simp_all add: silent_node_def test_node_fields)
  note ends = Node_lookup_times_out [OF silent_node_inv run(1,2) _ _ run(3), unfolded so, OF toy_sodium_ready toy_sodium_aead, of "test_id 7"]
  define P where "P n \<longleftrightarrow> (\<exists>s'. silent_run silent_env 0 ?s0 n s')" for n
  have "P 0" using silent_run.stop by (auto simp: P_def)
  moreover have "\<forall>n. P n \<longrightarrow> n \<le> length (initial_candidates (test_id 7) silent_node)" using ends by (auto simp: P_def)
  ultimately obtain n where n: "P n" "\<forall>m. P m \<longrightarrow> m \<le> n" using GreatestI_nat Greatest_le_nat by metis
  then obtain s' where s': "silent_run silent_env 0 ?s0 n s'" by (auto simp: P_def)
  with silent_run_snoc [OF s'] n(2) have "\<nexists>t x rid. n_timers s' t = Armed (LookupTimeout 0 x rid) \<and> flying {x} (lookup_ls 0 s')"
    by (metis P_def Suc_n_not_le_n)
  with ends [OF s'] have "\<exists>m. n_log s' = n_log silent_node @ [LookupDone [] m]" by blast
  with s' run(4) show ?thesis by auto
qed

end
