(* ===== verification/Node_Publish.thy ===== *)
theory Node_Publish
  imports Node_Sending
begin

text \<open>
  Publications: which nodes are asked to keep a record, and what the caller is told. A publication is
  specified by the states of its keepers (\<open>keeper_next\<close>, \<open>publish_report\<close>); the node, from the moment
  it asks them and through all their answers and timers, refines that. A keeper whose answer is dealt
  with between the expiry of its timer and the timer's handler is outside: it is counted twice
  (\<open>late_timer_settles_again\<close>). The lookup of a node reports again whenever such a timer resumes it
  (\<open>late_timer_reports_again\<close>).
\<close>

section \<open>Keepers\<close>

lemma choose_keepers_eq:
  "length keepers + 1 < r \<Longrightarrow> choose_keepers self r ps keepers =
     keepers @ take (r - 1 - length keepers) (filter (\<lambda>p. peer_node_id p \<noteq> self) ps)"
proof (induction ps arbitrary: keepers)
  case (Cons p ps)
  show ?case
  proof (cases "peer_node_id p = self")
    case False
    obtain n where n: "r - 1 - length keepers = Suc n" "r - Suc (Suc (length keepers)) = n"
      using Cons.prems by (cases "r - 1 - length keepers") auto
    then show ?thesis
      using False Cons.prems Cons.IH [of "keepers @ [p]"] by (cases n) (auto simp: Let_def)
  qed (use Cons in simp)
qed simp

text \<open>
  A record is sent to the closest nodes other than the publisher itself, as many as the replication
  factor less one, the publisher being a keeper too. A replication factor of one or less, however,
  does not mean that the publisher keeps the record alone: the closest node is asked all the same,
  unless it is the publisher.
\<close>

theorem choose_keepers_spec:
  "choose_keepers self r closest [] =
     (if 2 \<le> r then take (r - 1) (filter (\<lambda>p. peer_node_id p \<noteq> self) closest)
      else filter (\<lambda>p. peer_node_id p \<noteq> self) (take 1 closest))"
proof (cases "2 \<le> r")
  case False
  then show ?thesis by (cases closest) (auto simp: Let_def)
qed (use choose_keepers_eq [of "[]" r self closest] in simp)

section \<open>The keepers of a publication\<close>

text \<open>
  The specification: every keeper is waited for, has let its timer expire (whose handler has not run
  yet), or is settled, with a confirmation or without. The publication reports when all are settled.
\<close>

datatype keeper_state = Waiting | Lapsed | Settled bool

datatype keeper_event = Answer nat bool | Expire nat | Run nat | Other

fun keeper_next :: "keeper_state list \<Rightarrow> keeper_event \<Rightarrow> keeper_state list" where
  "keeper_next ks (Answer i b) = (if ks ! i = Waiting then ks[i := Settled b] else ks)"
| "keeper_next ks (Expire i) = (if ks ! i = Waiting then ks[i := Lapsed] else ks)"
| "keeper_next ks (Run i) = (if ks ! i = Lapsed then ks[i := Settled False] else ks)"
| "keeper_next ks Other = ks"

fun is_open :: "keeper_state \<Rightarrow> bool" where
  "is_open (Settled b) = False"
| "is_open x = True"

definition publish_report :: "keeper_state list \<Rightarrow> notification list" where
  "publish_report ks = (if list_ex is_open ks then [] else [PublishDone (Settled True \<in> set ks) (1 + count_list ks (Settled True))])"

text \<open>
  The program: for every keeper its identifier and, unless it could not be reached, the request id and the
  timer of the STORE request. Answers go to \<open>Node_on_frame\<close>; an answer is not dealt with while the
  handler of the keeper's expired timer is queued. Between the events of the keepers anything may
  happen that leaves the publication, its requests and its timers alone.
\<close>

type_synonym asked_keeper = "NodeID \<times> (RequestID \<times> timer_ref) option"

definition requests :: "asked_keeper list \<Rightarrow> (RequestID \<times> timer_ref) list" where
  "requests asked = List.map_filter snd asked"

definition confirms :: "env \<Rightarrow> Frame \<Rightarrow> bool" where
  "confirms env f = (case deserialize_store_response (e_json env) (frame_payload f) of Some resp \<Rightarrow> sr_success resp | None \<Rightarrow> False)"

inductive keeper_step :: "env \<Rightarrow> nat \<Rightarrow> asked_keeper list \<Rightarrow> Node \<Rightarrow> keeper_event \<Rightarrow> Node \<Rightarrow> bool"
  for env :: env and P :: nat and asked :: "asked_keeper list" where
  answer: "i < length asked \<Longrightarrow> asked ! i = (nid, Some (rid, t)) \<Longrightarrow> frame_type f = STORE_RESPONSE \<Longrightarrow>
    flag_set (frame_flags f) IS_RESPONSE \<Longrightarrow> frame_request_id f = rid \<Longrightarrow> \<forall>a. n_timers s t \<noteq> Queued a \<Longrightarrow>
    keeper_step env P asked s (Answer i (confirms env f)) (snd (Node_on_frame env cid f s))"
| expire: "i < length asked \<Longrightarrow> asked ! i = (nid, Some (rid, t)) \<Longrightarrow> keeper_step env P asked s (Expire i) (snd (timer_expires t s))"
| run: "i < length asked \<Longrightarrow> asked ! i = (nid, Some (rid, t)) \<Longrightarrow> keeper_step env P asked s (Run i) (snd (timer_runs env t s))"
| other: "n_publishes s' P = n_publishes s P \<Longrightarrow>
    \<forall>(rid, t) \<in> set (requests asked). n_pending_requests s' rid = n_pending_requests s rid \<and> n_timers s' t = n_timers s t \<Longrightarrow>
    keeper_step env P asked s Other s'"

text \<open>A run, with what the steps of the publication add to the log.\<close>

inductive keeper_run :: "env \<Rightarrow> nat \<Rightarrow> asked_keeper list \<Rightarrow> Node \<Rightarrow> keeper_event list \<Rightarrow> Node \<Rightarrow> notification list \<Rightarrow> bool"
  for env :: env and P :: nat and asked :: "asked_keeper list" where
  start: "keeper_run env P asked s [] s []"
| step: "keeper_run env P asked s evs s' told \<Longrightarrow> keeper_step env P asked s' ev s'' \<Longrightarrow>
    keeper_run env P asked s (evs @ [ev]) s'' (told @ (if ev = Other then [] else drop (length (n_log s')) (n_log s'')))"

section \<open>Quorum\<close>

text \<open>How the node's state represents that of the keepers.\<close>

definition counted :: "nat \<Rightarrow> keeper_state list \<Rightarrow> Node \<Rightarrow> bool" where
  "counted P ks s \<longleftrightarrow> n_publishes s P = \<lparr>po_acks = 1 + count_list ks (Settled True), po_remaining = of_nat (length (filter is_open ks)),
     po_finished = (\<not> list_ex is_open ks), po_quorum = 2, po_callback = Leaf NotifyPublish\<rparr>"

fun keeper_view :: "nat \<Rightarrow> Node \<Rightarrow> asked_keeper \<Rightarrow> keeper_state \<Rightarrow> bool" where
  "keeper_view P s (nid, None) x = (x = Settled False)"
| "keeper_view P s (nid, Some (rid, t)) x =
     (case x of
        Waiting \<Rightarrow> n_pending_requests s rid = Some (PendingStore P nid t) \<and> n_timers s t = Armed (StoreTimeout P nid rid)
      | Lapsed \<Rightarrow> n_pending_requests s rid = Some (PendingStore P nid t) \<and> n_timers s t = Queued (StoreTimeout P nid rid)
      | Settled b \<Rightarrow> n_pending_requests s rid = None \<and> n_timers s t = Idle)"

definition separate :: "asked_keeper list \<Rightarrow> bool" where
  "separate asked \<longleftrightarrow> distinct (map fst (requests asked)) \<and> distinct (map snd (requests asked))"

definition initially :: "asked_keeper list \<Rightarrow> keeper_state list" where
  "initially = map (\<lambda>(nid, a). if a = None then Settled False else Waiting)"

lemma requests_append [simp]: "requests (a @ b) = requests a @ requests b" "requests [] = []"
  "requests (x # b) = (case snd x of None \<Rightarrow> [] | Some q \<Rightarrow> [q]) @ requests b"
  by (simp_all add: requests_def List.map_filter_def split: option.split)

lemma settle_step:
  assumes "n_publishes s P = \<lparr>po_acks = a, po_remaining = of_nat (Suc r), po_finished = False, po_quorum = q, po_callback = Leaf NotifyPublish\<rparr>"
    and "Suc r < 2 ^ 64"
  shows "n_publishes (snd (publish_resume env P b s)) P = \<lparr>po_acks = (if b then Suc a else a), po_remaining = of_nat r,
      po_finished = (r = 0), po_quorum = q, po_callback = Leaf NotifyPublish\<rparr>"
    and "n_log (snd (publish_resume env P b s)) = n_log s @
      (if r = 0 then [PublishDone (q \<le> (if b then Suc a else a)) (if b then Suc a else a)] else [])"
proof -
  have "(of_nat r :: u64) = 0 \<longleftrightarrow> r = 0" using assms(2) by (auto simp: word_of_nat_eq_0_iff dest: dvd_imp_le)
  then show "n_publishes (snd (publish_resume env P b s)) P = \<lparr>po_acks = (if b then Suc a else a), po_remaining = of_nat r,
      po_finished = (r = 0), po_quorum = q, po_callback = Leaf NotifyPublish\<rparr>"
    and "n_log (snd (publish_resume env P b s)) = n_log s @
      (if r = 0 then [PublishDone (q \<le> (if b then Suc a else a)) (if b then Suc a else a)] else [])"
    using assms(1) by (auto simp: publish_resume_def keeper_settled_def update_publish_def notify_def eff_run)
qed

text \<open>Settling a keeper that is open.\<close>

lemma keeper_settles:
  assumes "counted P (xs @ x # ys) s" "is_open x" "length (xs @ x # ys) < 2 ^ 64" "s' = snd (publish_resume env P b s)"
  shows "counted P (xs @ Settled b # ys) s'" and "n_log s' = n_log s @ publish_report (xs @ Settled b # ys)"
    and "n_pending_requests s' = n_pending_requests s" and "n_timers s' = n_timers s" and "n_tick s' = n_tick s"
    and "n_timer_count s' = n_timer_count s" and "fst (publish_resume env P b s) = Inr ()" and "n_config s' = n_config s"
proof -
  let ?r = "length (filter is_open (xs @ ys))" and ?a = "1 + count_list (xs @ ys) (Settled True)"
  have x: "x \<noteq> Settled c" for c using assms(2) by (cases x) auto
  have pub: "n_publishes s P = \<lparr>po_acks = ?a, po_remaining = of_nat (Suc ?r), po_finished = False, po_quorum = 2, po_callback = Leaf NotifyPublish\<rparr>"
    using assms(1,2) x by (simp add: counted_def)
  have "Suc ?r \<le> length (xs @ x # ys)" using length_filter_le [of is_open "xs @ ys"] by simp
  then have small: "Suc ?r < 2 ^ 64" using assms(3) by linarith
  have none: "?r = 0 \<longleftrightarrow> \<not> list_ex is_open (xs @ ys)" by (auto simp: list_ex_iff filter_empty_conv)
  have yes: "0 < count_list (xs @ ys) (Settled True) \<longleftrightarrow> Settled True \<in> set (xs @ ys)"
    by (metis count_list_0_iff gr0I less_numeral_extra(3))
  note step = settle_step [OF pub small, of env b, folded assms(4)]
  from step(1) none show "counted P (xs @ Settled b # ys) s'" by (cases b) (simp_all add: counted_def)
  from step(2) none yes show "n_log s' = n_log s @ publish_report (xs @ Settled b # ys)"
    by (cases b) (auto simp: publish_report_def Suc_le_eq)
  show "n_pending_requests s' = n_pending_requests s" "n_timers s' = n_timers s" "n_tick s' = n_tick s" "n_timer_count s' = n_timer_count s"
    "fst (publish_resume env P b s) = Inr ()" "n_config s' = n_config s"
    using pub by (simp_all add: assms(4) publish_resume_def keeper_settled_def update_publish_def notify_def eff_run)
qed

lemma views_elsewhere:
  assumes "list_all2 (keeper_view P s) asked ks"
    and "\<forall>(rid, t) \<in> set (requests asked). n_pending_requests s' rid = n_pending_requests s rid \<and> n_timers s' t = n_timers s t"
  shows "list_all2 (keeper_view P s') asked ks"
  using assms
proof (induction rule: list_all2_induct)
  case (Cons a asked x ks)
  obtain nid q where a: "a = (nid, q)" by fastforce
  show ?case using Cons by (cases q) (auto simp: a split: keeper_state.splits)
qed simp

text \<open>The keeper that an event is about, between the others.\<close>

lemma split_keepers:
  assumes "list_all2 (keeper_view P s) asked ks" "separate asked" "i < length asked" "asked ! i = (nid, Some (rid, t))"
  obtains a1 a2 xs x ys where "asked = a1 @ (nid, Some (rid, t)) # a2" "ks = xs @ x # ys" "length xs = i" "length a1 = i" "ks ! i = x"
    "list_all2 (keeper_view P s) a1 xs" "keeper_view P s (nid, Some (rid, t)) x" "list_all2 (keeper_view P s) a2 ys"
    "rid \<notin> fst ` set (requests (a1 @ a2))" "t \<notin> snd ` set (requests (a1 @ a2))"
proof -
  let ?a1 = "take i asked" and ?a2 = "drop (Suc i) asked"
  have len: "length asked = length ks" using assms(1) by (rule list_all2_lengthD)
  have asked: "asked = ?a1 @ (nid, Some (rid, t)) # ?a2" using id_take_nth_drop [OF assms(3)] assms(4) by simp
  have ks: "ks = take i ks @ ks ! i # drop (Suc i) ks" using id_take_nth_drop [of i ks] assms(3) len by simp
  have "separate (?a1 @ (nid, Some (rid, t)) # ?a2)" using assms(2) asked by simp
  then have "rid \<notin> fst ` set (requests (?a1 @ ?a2))" "t \<notin> snd ` set (requests (?a1 @ ?a2))"
    by (auto simp: separate_def)
  moreover have "list_all2 (keeper_view P s) ?a1 (take i ks)" "list_all2 (keeper_view P s) ?a2 (drop (Suc i) ks)"
    using assms(1) by (simp_all add: list_all2_takeI list_all2_dropI)
  moreover have "keeper_view P s (nid, Some (rid, t)) (ks ! i)" using list_all2_nthD [OF assms(1,3)] assms(4) by simp
  ultimately show ?thesis using that [OF asked ks] assms(3) len by simp
qed

lemma views_changed:
  assumes "list_all2 (keeper_view P s) a1 xs" "list_all2 (keeper_view P s) a2 ys" "keeper_view P s' (nid, Some (rid, t)) x'"
    and "rid \<notin> fst ` set (requests (a1 @ a2))" "t \<notin> snd ` set (requests (a1 @ a2))"
    and "\<And>q. q \<noteq> rid \<Longrightarrow> n_pending_requests s' q = n_pending_requests s q" "\<And>u. u \<noteq> t \<Longrightarrow> n_timers s' u = n_timers s u"
  shows "list_all2 (keeper_view P s') (a1 @ (nid, Some (rid, t)) # a2) (xs @ x' # ys)"
proof -
  have "\<forall>(q, u) \<in> set (requests (a1 @ a2)). n_pending_requests s' q = n_pending_requests s q \<and> n_timers s' u = n_timers s u"
    using assms(4-7) by force
  then have "list_all2 (keeper_view P s') a1 xs" "list_all2 (keeper_view P s') a2 ys"
    using views_elsewhere [OF assms(1)] views_elsewhere [OF assms(2)] by simp_all
  then show ?thesis using assms(3) by (simp add: list_all2_appendI)
qed

lemma store_answer_run:
  assumes "frame_type f = STORE_RESPONSE" "flag_set (frame_flags f) IS_RESPONSE"
  shows "n_pending_requests s (frame_request_id f) = Some (PendingStore P nid t) \<Longrightarrow> n_timers s t = Armed a \<Longrightarrow>
      Node_on_frame env cid f s = publish_resume env P (confirms env f)
        (s\<lparr>n_pending_requests := (n_pending_requests s)(frame_request_id f := None), n_timers := (n_timers s)(t := Idle)\<rparr>)"
    and "n_pending_requests s (frame_request_id f) = None \<Longrightarrow> Node_on_frame env cid f s = (Inr (), s)"
  using assms
  by (simp_all add: Node_on_frame_def take_pending_def dispatch_frame_def Let_def PING_def PONG_def FIND_NODE_REQUEST_def FIND_NODE_RESPONSE_def
      STORE_REQUEST_def STORE_RESPONSE_def run_pending_def on_store_reply_def cancel_timer_def confirms_def eff_run fun_upd_idem)

lemma pending_timers_swap:
  "(s :: Node)\<lparr>n_timers := x, n_pending_requests := y\<rparr> = s\<lparr>n_pending_requests := y, n_timers := x\<rparr>"
  by (cases s) simp

lemma store_timer_run:
  "n_timers s t = Queued (StoreTimeout P nid rid) \<Longrightarrow> timer_runs env t s =
     publish_resume env P False (s\<lparr>n_pending_requests := (n_pending_requests s)(rid := None), n_timers := (n_timers s)(t := Idle)\<rparr>)"
  "\<forall>a. n_timers s t \<noteq> Queued a \<Longrightarrow> timer_runs env t s = (Inr (), s)"
  by (simp_all add: timer_runs_def run_timer_def on_store_timeout_def pending_timers_swap eff_run split: timer_state.split)

definition tracks :: "nat \<Rightarrow> asked_keeper list \<Rightarrow> keeper_state list \<Rightarrow> Node \<Rightarrow> bool" where
  "tracks P asked ks s \<longleftrightarrow> counted P ks s \<and> list_all2 (keeper_view P s) asked ks \<and> separate asked \<and> length ks < 2 ^ 64"

lemma publish_report_open: "list_ex is_open ks \<Longrightarrow> publish_report ks = []"
  by (simp add: publish_report_def)

lemma tracks_settles:
  assumes "tracks P (a1 @ (nid, Some (rid, t)) # a2) (xs @ x # ys) s" "is_open x" "length a1 = length xs"
    and "rid \<notin> fst ` set (requests (a1 @ a2))" "t \<notin> snd ` set (requests (a1 @ a2))"
    and "s' = snd (publish_resume env P b (s\<lparr>n_pending_requests := (n_pending_requests s)(rid := None), n_timers := (n_timers s)(t := Idle)\<rparr>))"
  shows "tracks P (a1 @ (nid, Some (rid, t)) # a2) (xs @ Settled b # ys) s' \<and>
    n_log s' = n_log s @ publish_report (xs @ Settled b # ys)"
proof -
  let ?s = "s\<lparr>n_pending_requests := (n_pending_requests s)(rid := None), n_timers := (n_timers s)(t := Idle)\<rparr>"
  have views: "list_all2 (keeper_view P s) a1 xs" "list_all2 (keeper_view P s) a2 ys"
    using assms(1,3) by (simp_all add: tracks_def list_all2_append)
  have "counted P (xs @ x # ys) ?s" "length (xs @ x # ys) < 2 ^ 64" using assms(1) by (simp_all add: tracks_def counted_def)
  note settles = keeper_settles [OF this(1) assms(2) this(2) assms(6)]
  have "list_all2 (keeper_view P s') (a1 @ (nid, Some (rid, t)) # a2) (xs @ Settled b # ys)"
    by (rule views_changed [OF views _ assms(4,5)]) (simp_all add: settles(3,4))
  with settles(1,2) assms(1) show ?thesis by (simp add: tracks_def)
qed

definition advances :: "nat \<Rightarrow> asked_keeper list \<Rightarrow> keeper_state list \<Rightarrow> Node \<Rightarrow> keeper_state list \<Rightarrow> Node \<Rightarrow> bool" where
  "advances P asked ks s ks' s' \<longleftrightarrow> tracks P asked ks' s' \<and>
     (\<exists>new. n_log s' = n_log s @ new \<and> publish_report ks @ new = publish_report ks')"

lemma advances_refl: "tracks P asked ks s \<Longrightarrow> advances P asked ks s ks s"
  by (simp add: advances_def)

lemma answer_advances:
  assumes "tracks P asked ks s" "i < length asked" "asked ! i = (nid, Some (rid, t))"
    and f: "frame_type f = STORE_RESPONSE" "flag_set (frame_flags f) IS_RESPONSE" "frame_request_id f = rid" and "\<forall>a. n_timers s t \<noteq> Queued a"
  shows "advances P asked ks s (keeper_next ks (Answer i (confirms env f))) (snd (Node_on_frame env cid f s))"
proof -
  from assms(1) have views: "list_all2 (keeper_view P s) asked ks" "separate asked" by (simp_all add: tracks_def)
  from split_keepers [OF this assms(2,3)] obtain a1 a2 xs x ys where sp: "asked = a1 @ (nid, Some (rid, t)) # a2" "ks = xs @ x # ys"
      "length xs = i" "length a1 = i" "ks ! i = x" "keeper_view P s (nid, Some (rid, t)) x"
      "rid \<notin> fst ` set (requests (a1 @ a2))" "t \<notin> snd ` set (requests (a1 @ a2))" by metis
  show ?thesis
  proof (cases x)
    case Waiting
    then have "Node_on_frame env cid f s = publish_resume env P (confirms env f)
        (s\<lparr>n_pending_requests := (n_pending_requests s)(rid := None), n_timers := (n_timers s)(t := Idle)\<rparr>)"
      using store_answer_run(1) [OF f(1,2)] sp(6) f(3) by simp
    with tracks_settles [of P a1 nid rid t a2 xs x ys s _ env "confirms env f", OF _ _ _ sp(7,8) refl] assms(1) sp(1-5) Waiting
    show ?thesis by (auto simp: advances_def publish_report_open)
  next
    case (Settled b)
    then have "Node_on_frame env cid f s = (Inr (), s)" using store_answer_run(2) [OF f(1,2)] sp(6) f(3) by simp
    with Settled sp(5) advances_refl [OF assms(1)] show ?thesis by simp
  qed (use sp(6) assms(7) in simp)
qed

lemma expire_advances:
  assumes "tracks P asked ks s" "i < length asked" "asked ! i = (nid, Some (rid, t))"
  shows "advances P asked ks s (keeper_next ks (Expire i)) (snd (timer_expires t s))"
proof -
  from assms(1) have views: "list_all2 (keeper_view P s) asked ks" "separate asked" by (simp_all add: tracks_def)
  from split_keepers [OF this assms(2,3)] obtain a1 a2 xs x ys where sp: "asked = a1 @ (nid, Some (rid, t)) # a2" "ks = xs @ x # ys"
      "length xs = i" "ks ! i = x" "keeper_view P s (nid, Some (rid, t)) x"
      "rid \<notin> fst ` set (requests (a1 @ a2))" "t \<notin> snd ` set (requests (a1 @ a2))"
      "list_all2 (keeper_view P s) a1 xs" "list_all2 (keeper_view P s) a2 ys" by metis
  show ?thesis
  proof (cases "x = Waiting")
    case True
    let ?s' = "s\<lparr>n_timers := (n_timers s)(t := Queued (StoreTimeout P nid rid))\<rparr>"
    have run: "snd (timer_expires t s) = ?s'" using True sp(5) by (simp add: timer_expires_def eff_run)
    have "list_all2 (keeper_view P ?s') asked (xs @ Lapsed # ys)"
      unfolding sp(1) by (rule views_changed [OF sp(8,9) _ sp(6,7)]) (use sp(5) True in simp_all)
    moreover have "ks[i := Lapsed] = xs @ Lapsed # ys" using sp(2,3) by auto
    ultimately show ?thesis using assms(1) sp(2,4) True run by (simp add: advances_def tracks_def counted_def publish_report_def)
  next
    case False
    then have "snd (timer_expires t s) = s" using sp(5) by (cases x) (simp_all add: timer_expires_def eff_run)
    with False sp(4) advances_refl [OF assms(1)] show ?thesis by simp
  qed
qed

lemma run_advances:
  assumes "tracks P asked ks s" "i < length asked" "asked ! i = (nid, Some (rid, t))"
  shows "advances P asked ks s (keeper_next ks (Run i)) (snd (timer_runs env t s))"
proof -
  from assms(1) have views: "list_all2 (keeper_view P s) asked ks" "separate asked" by (simp_all add: tracks_def)
  from split_keepers [OF this assms(2,3)] obtain a1 a2 xs x ys where sp: "asked = a1 @ (nid, Some (rid, t)) # a2" "ks = xs @ x # ys"
      "length xs = i" "length a1 = i" "ks ! i = x" "keeper_view P s (nid, Some (rid, t)) x"
      "rid \<notin> fst ` set (requests (a1 @ a2))" "t \<notin> snd ` set (requests (a1 @ a2))" by metis
  show ?thesis
  proof (cases "x = Lapsed")
    case True
    then have "timer_runs env t s = publish_resume env P False
        (s\<lparr>n_pending_requests := (n_pending_requests s)(rid := None), n_timers := (n_timers s)(t := Idle)\<rparr>)"
      using store_timer_run(1) [of s t P nid rid env] sp(6) by simp
    with tracks_settles [of P a1 nid rid t a2 xs x ys s _ env False, OF _ _ _ sp(7,8) refl] assms(1) sp(1-5) True
    show ?thesis by (auto simp: advances_def publish_report_open)
  next
    case False
    then have "\<forall>a. n_timers s t \<noteq> Queued a" using sp(6) by (cases x) simp_all
    then have "timer_runs env t s = (Inr (), s)" by (rule store_timer_run(2))
    with False sp(5) advances_refl [OF assms(1)] show ?thesis by simp
  qed
qed

lemma keeper_run_tracks:
  assumes "keeper_run env P asked s evs s' told" "tracks P asked ks s"
  shows "tracks P asked (foldl keeper_next ks evs) s' \<and> publish_report ks @ told = publish_report (foldl keeper_next ks evs)"
  using assms
proof (induction rule: keeper_run.induct)
  case (step s evs s' told ev s'')
  let ?ks = "foldl keeper_next ks evs"
  have IH: "tracks P asked ?ks s'" "publish_report ks @ told = publish_report ?ks" using step.IH step.prems by simp_all
  have told: ?case if adv: "advances P asked ?ks s' (keeper_next ?ks ev) s''" and ev: "ev \<noteq> Other"
  proof -
    obtain new where "n_log s'' = n_log s' @ new" "publish_report ?ks @ new = publish_report (keeper_next ?ks ev)"
      using adv by (auto simp: advances_def)
    with adv ev show ?thesis using IH(2) [symmetric] by (simp add: advances_def)
  qed
  from step.hyps(2) show ?case
  proof cases
    case other
    then show ?thesis using IH views_elsewhere [of P s' asked ?ks s''] by (simp add: tracks_def counted_def)
  next
    case answer
    with answer_advances [OF IH(1)] told show ?thesis by blast
  next
    case expire
    with expire_advances [OF IH(1)] told show ?thesis by blast
  next
    case run
    with run_advances [OF IH(1)] told show ?thesis by blast
  qed
qed simp

section \<open>Asking the keepers\<close>

lemma initially_simps [simp]:
  "initially [] = []" "initially (a @ b) = initially a @ initially b" "initially ((nid, q) # b) = (if q = None then Settled False else Waiting) # initially b"
  "length (initially a) = length a"
  by (simp_all add: initially_def)

lemma connection_for_run:
  obtains res s' where "connection_for env peer s = (Inr res, s')" "n_publishes s' = n_publishes s" "n_pending_requests s' = n_pending_requests s"
    "n_timers s' = n_timers s" "n_timer_count s' = n_timer_count s" "n_log s' = n_log s" "n_config s' = n_config s"
    "n_tick s \<le> n_tick s'" "n_tick s' \<le> Suc (n_tick s)"
    "res = None \<Longrightarrow> TcpConnection_connect (e_net env (n_tick s)) (host (peer_address peer)) (port (peer_address peer))
       (connect_timeout_ms (cfg_transport (n_config s))) = None"
proof -
  let ?connect = "TcpConnection_connect (e_net env (n_tick s)) (host (peer_address peer)) (port (peer_address peer))
        (connect_timeout_ms (cfg_transport (n_config s)))"
  have "case connection_for env peer s of (x, s') \<Rightarrow> (\<exists>res. x = Inr res \<and> (res = None \<longrightarrow> ?connect = None)) \<and>
      n_publishes s' = n_publishes s \<and> n_pending_requests s' = n_pending_requests s \<and> n_timers s' = n_timers s \<and>
      n_timer_count s' = n_timer_count s \<and> n_log s' = n_log s \<and> n_config s' = n_config s \<and> n_tick s \<le> n_tick s' \<and> n_tick s' \<le> Suc (n_tick s)"
    by (cases "Node_get_connection_to (peer_node_id peer) s"; cases ?connect)
      (auto simp: connection_for_def tcp_connect_def ask_def new_connection_def update_conn_def Node_register_connection_def eff_run)
  then show ?thesis using that by (auto split: prod.splits)
qed

lemma query_store_run:
  assumes "sodium_ready (e_sodium env)" "aead_correct (e_sodium env)"
  obtains s' where "query_store env P key r nid cid s = (Inr (), s')" "n_publishes s' = n_publishes s" "n_log s' = n_log s"
    "n_pending_requests s' = (n_pending_requests s)(e_rid env (n_tick s) \<mapsto> PendingStore P nid (n_timer_count s))"
    "n_timers s' = (n_timers s)(n_timer_count s := Armed (StoreTimeout P nid (e_rid env (n_tick s))))"
    "n_timer_count s' = Suc (n_timer_count s)" "n_tick s' = Suc (n_tick s)" "n_config s' = n_config s"
proof -
  let ?rid = "e_rid env (n_tick s)" and ?t = "n_timer_count s"
  let ?s1 = "s\<lparr>n_tick := n_tick s + 1, n_timers := (n_timers s)(?t := Armed (StoreTimeout P nid ?rid)), n_timer_count := ?t + 1,
      n_pending_requests := (n_pending_requests s)(?rid \<mapsto> PendingStore P nid ?t)\<rparr>"
  have "\<exists>g. query_store env P key r nid cid s = conn_send env cid g ?s1"
    using assms(1) by (auto simp: query_store_def send_request_def generate_request_id_def RequestID_generate_def sodium_ready_def
        new_timer_def ask_run eff_run)
  then obtain g where g: "query_store env P key r nid cid s = conn_send env cid g ?s1" by blast
  obtain s' where "conn_send env cid g ?s1 = (Inr (), s')" using nothrowD [OF conn_send_nothrow [OF assms], of cid g ?s1] by auto
  with g that show ?thesis by (auto simp: conn_send_def split: prod.splits)
qed

text \<open>
  While the keepers are asked, from the tick \<open>n0\<close> on: those asked so far are waited for or could not be
  reached, and \<open>m\<close> are still to be asked.
\<close>

definition asking :: "env \<Rightarrow> nat \<Rightarrow> notification list \<Rightarrow> nat \<Rightarrow> asked_keeper list \<Rightarrow> nat \<Rightarrow> Node \<Rightarrow> bool" where
  "asking env P L n0 asked m s \<longleftrightarrow>
     counted P (initially asked @ replicate m Waiting) s \<and> n_log s = L @ publish_report (initially asked @ replicate m Waiting) \<and>
     list_all2 (keeper_view P s) asked (initially asked) \<and> separate asked \<and>
     fst ` set (requests asked) \<subseteq> e_rid env ` {n0..<n_tick s} \<and> snd ` set (requests asked) \<subseteq> {..<n_timer_count s} \<and>
     n0 \<le> n_tick s \<and> n_tick s \<le> n0 + 2 * length asked"

definition ask_keeper :: "env \<Rightarrow> nat \<Rightarrow> NodeID \<Rightarrow> NodeRecord \<Rightarrow> PeerInfo \<Rightarrow> unit node_op" where
  "ask_keeper env P key r target = bindE (connection_for env target) (\<lambda>conn. case conn of
     None \<Rightarrow> keeper_settled (publish_done env (Leaf NotifyPublish)) P False
   | Some cid \<Rightarrow> query_store env P key r (peer_node_id target) cid)"

lemma asking_unreachable:
  assumes "asking env P L n0 asked (Suc m) s" "Suc (length asked + m) < 2 ^ 64" "n_tick s \<le> n_tick s1" "n_tick s1 \<le> Suc (n_tick s)"
    "n_publishes s1 = n_publishes s" "n_pending_requests s1 = n_pending_requests s" "n_timers s1 = n_timers s"
    "n_timer_count s1 = n_timer_count s" "n_log s1 = n_log s"
  obtains s' where "keeper_settled (publish_done env (Leaf NotifyPublish)) P False s1 = (Inr (), s')"
    "n_config s' = n_config s1" "asking env P L n0 (asked @ [(nid, None)]) m s'"
proof -
  let ?xs = "initially asked" and ?ys = "replicate m Waiting" and ?s' = "snd (publish_resume env P False s1)"
  have c: "counted P (?xs @ Waiting # ?ys) s1" using assms(1,5) by (simp add: asking_def counted_def)
  have small: "length (?xs @ Waiting # ?ys) < 2 ^ 64" using assms(2) by simp
  have "is_open Waiting" by simp
  note settles = keeper_settles [OF c this small refl, where env = env and b = False]
  have a: "n_log s = L" "list_all2 (keeper_view P s) asked ?xs" "separate asked" "fst ` set (requests asked) \<subseteq> e_rid env ` {n0..<n_tick s}"
    "snd ` set (requests asked) \<subseteq> {..<n_timer_count s}" "n0 \<le> n_tick s" "n_tick s \<le> n0 + 2 * length asked"
    using assms(1) by (simp_all add: asking_def publish_report_open)
  have "list_all2 (keeper_view P ?s') asked ?xs"
    by (rule views_elsewhere [OF a(2)]) (simp add: settles(3,4) assms(6,7))
  then have "list_all2 (keeper_view P ?s') (asked @ [(nid, None)]) (?xs @ [Settled False])"
    by (rule list_all2_appendI) simp
  moreover have "e_rid env ` {n0..<n_tick s} \<subseteq> e_rid env ` {n0..<n_tick s1}" using assms(3) by (intro image_mono) auto
  then have "fst ` set (requests asked) \<subseteq> e_rid env ` {n0..<n_tick s1}" using a(4) by (rule subset_trans [rotated])
  ultimately have "asking env P L n0 (asked @ [(nid, None)]) m ?s'"
    using a(3-7) settles(1,2) assms(3,4)
    by (simp add: asking_def separate_def settles(5,6) assms(8,9) a(1))
  moreover have "keeper_settled (publish_done env (Leaf NotifyPublish)) P False s1 = (Inr (), ?s')"
    using c settles(7) by (simp add: publish_resume_def bindE_gets counted_def prod_eq_iff)
  ultimately show ?thesis using that settles(8) by blast
qed

lemma asking_sent:
  assumes "asking env P L n0 asked (Suc m) s" "n_tick s \<le> n_tick s1" "n_tick s1 \<le> Suc (n_tick s)"
    "n_publishes s1 = n_publishes s" "n_pending_requests s1 = n_pending_requests s" "n_timers s1 = n_timers s"
    "n_timer_count s1 = n_timer_count s" "n_log s1 = n_log s"
    and ready: "sodium_ready (e_sodium env)" "aead_correct (e_sodium env)" and inj: "inj_on (e_rid env) {n0..<n0 + 2 * Suc (length asked)}"
  obtains s' where "query_store env P key r nid cid s1 = (Inr (), s')" "n_config s' = n_config s1"
    "asking env P L n0 (asked @ [(nid, Some (e_rid env (n_tick s1), n_timer_count s))]) m s'"
proof -
  let ?rid = "e_rid env (n_tick s1)" and ?t = "n_timer_count s"
  obtain s' where s': "query_store env P key r nid cid s1 = (Inr (), s')" "n_publishes s' = n_publishes s1" "n_log s' = n_log s1"
      "n_pending_requests s' = (n_pending_requests s1)(?rid \<mapsto> PendingStore P nid (n_timer_count s1))"
      "n_timers s' = (n_timers s1)(n_timer_count s1 := Armed (StoreTimeout P nid ?rid))"
      "n_timer_count s' = Suc (n_timer_count s1)" "n_tick s' = Suc (n_tick s1)" "n_config s' = n_config s1"
    by (rule query_store_run [OF ready])
  have a: "fst ` set (requests asked) \<subseteq> e_rid env ` {n0..<n_tick s}" "snd ` set (requests asked) \<subseteq> {..<?t}" "separate asked"
    "n0 \<le> n_tick s" "n_tick s \<le> n0 + 2 * length asked" "list_all2 (keeper_view P s) asked (initially asked)"
    using assms(1) by (simp_all add: asking_def)
  have "?rid \<notin> e_rid env ` {n0..<n_tick s}"
  proof
    assume "?rid \<in> e_rid env ` {n0..<n_tick s}"
    then obtain n where "n0 \<le> n" "n < n_tick s" "e_rid env (n_tick s1) = e_rid env n" by auto
    then show False using inj_onD [OF inj, of "n_tick s1" n] a(4,5) assms(2,3) by auto
  qed
  then have fresh: "?rid \<notin> fst ` set (requests (asked @ []))" "?t \<notin> snd ` set (requests (asked @ []))" using a(1,2) by auto
  have "list_all2 (keeper_view P s') (asked @ (nid, Some (?rid, ?t)) # []) (initially asked @ Waiting # [])"
    by (rule views_changed [OF a(6) _ _ fresh]) (simp_all add: s' assms)
  moreover have "separate (asked @ [(nid, Some (?rid, ?t))])" using a(3) fresh by (auto simp: separate_def)
  moreover have "fst ` set (requests (asked @ [(nid, Some (?rid, ?t))])) \<subseteq> e_rid env ` {n0..<n_tick s'}"
    using a(1,4) assms(2) s'(7) by (auto simp: image_iff) force+
  ultimately have "asking env P L n0 (asked @ [(nid, Some (?rid, ?t))]) m s'"
    using assms a(2,4,5) s' by (auto simp: asking_def counted_def)
  with s'(1,8) that show ?thesis by simp
qed

text \<open>A keeper that is not asked could not be reached.\<close>

fun asked_of :: "env \<Rightarrow> int \<Rightarrow> asked_keeper \<Rightarrow> PeerInfo \<Rightarrow> bool" where
  "asked_of env timeout (nid, q) p \<longleftrightarrow> nid = peer_node_id p \<and>
     (q = None \<longrightarrow> (\<exists>n. TcpConnection_connect (e_net env n) (host (peer_address p)) (port (peer_address p)) timeout = None))"

lemma ask_one_keeper:
  assumes "asking env P L n0 asked (Suc m) s" "Suc (length asked + m) < 2 ^ 64"
    and ready: "sodium_ready (e_sodium env)" "aead_correct (e_sodium env)" and inj: "inj_on (e_rid env) {n0..<n0 + 2 * Suc (length asked)}"
  obtains a s' where "ask_keeper env P key r p s = (Inr (), s')" "asking env P L n0 (asked @ [a]) m s'" "n_config s' = n_config s"
    "asked_of env (connect_timeout_ms (cfg_transport (n_config s))) a p"
proof -
  obtain res s1 where run: "connection_for env p s = (Inr res, s1)"
    and s1: "n_tick s \<le> n_tick s1" "n_tick s1 \<le> Suc (n_tick s)" "n_publishes s1 = n_publishes s" "n_pending_requests s1 = n_pending_requests s"
      "n_timers s1 = n_timers s" "n_timer_count s1 = n_timer_count s" "n_log s1 = n_log s"
    and cfg: "n_config s1 = n_config s"
    and failed: "res = None \<Longrightarrow> TcpConnection_connect (e_net env (n_tick s)) (host (peer_address p)) (port (peer_address p))
       (connect_timeout_ms (cfg_transport (n_config s))) = None"
    by (rule connection_for_run [of env p s]) blast
  show ?thesis
  proof (cases res)
    case None
    from asking_unreachable [OF assms(1,2) s1, of "peer_node_id p"] obtain s' where
      "keeper_settled (publish_done env (Leaf NotifyPublish)) P False s1 = (Inr (), s')" "n_config s' = n_config s1"
      "asking env P L n0 (asked @ [(peer_node_id p, None)]) m s'" by metis
    with that [of s' "(peer_node_id p, None)"] run None failed cfg show ?thesis by (auto simp: ask_keeper_def bindE_def)
  next
    case (Some cid)
    from asking_sent [OF assms(1) s1 ready inj, of key r "peer_node_id p" cid] obtain s' where
      "query_store env P key r (peer_node_id p) cid s1 = (Inr (), s')" "n_config s' = n_config s1"
      "asking env P L n0 (asked @ [(peer_node_id p, Some (e_rid env (n_tick s1), n_timer_count s))]) m s'" by metis
    with that [of s' "(peer_node_id p, Some (e_rid env (n_tick s1), n_timer_count s))"] run Some cfg
    show ?thesis by (simp add: ask_keeper_def bindE_def)
  qed
qed

lemma ask_keepers:
  assumes "sodium_ready (e_sodium env)" "aead_correct (e_sodium env)"
  shows "asking env P L n0 asked (length ps) s \<Longrightarrow> length asked + length ps < 2 ^ 64 \<Longrightarrow>
    inj_on (e_rid env) {n0..<n0 + 2 * (length asked + length ps)} \<Longrightarrow>
    \<exists>new s'. forE ps (ask_keeper env P key r) s = (Inr (), s') \<and> asking env P L n0 (asked @ new) 0 s' \<and>
      list_all2 (asked_of env (connect_timeout_ms (cfg_transport (n_config s)))) new ps"
proof (induction ps arbitrary: asked s)
  case Nil
  then show ?case by (intro exI [of _ "[]"] exI [of _ s]) (simp add: ret_def)
next
  case (Cons p ps)
  have pre: "asking env P L n0 asked (Suc (length ps)) s" "Suc (length asked + length ps) < 2 ^ 64" using Cons.prems by simp_all
  have "inj_on (e_rid env) {n0..<n0 + 2 * Suc (length asked)}" by (rule inj_on_subset [OF Cons.prems(3)]) auto
  from ask_one_keeper [OF pre assms this, of key r p] obtain a s1 where a: "ask_keeper env P key r p s = (Inr (), s1)"
      "asking env P L n0 (asked @ [a]) (length ps) s1" "n_config s1 = n_config s"
      "asked_of env (connect_timeout_ms (cfg_transport (n_config s))) a p" by metis
  from Cons.IH [OF a(2)] Cons.prems obtain new s' where "forE ps (ask_keeper env P key r) s1 = (Inr (), s')"
      "asking env P L n0 (asked @ a # new) 0 s'" "list_all2 (asked_of env (connect_timeout_ms (cfg_transport (n_config s1)))) new ps" by auto
  with a show ?case by (intro exI [of _ "a # new"] exI [of _ s']) (simp add: thenE_run)
qed

lemma store_at_keepers_asks:
  assumes "sodium_ready (e_sodium env)" "aead_correct (e_sodium env)"
    and keepers: "keepers = choose_keepers (Node_node_id env s) (to_size_t (replication (cfg_dht (n_config s)))) closest []"
      "keepers \<noteq> []" "length keepers < 2 ^ 64"
    and inj: "inj_on (e_rid env) {n_tick s..<n_tick s + 2 * length keepers}"
  obtains asked s1 where "store_at_keepers env (Leaf NotifyPublish) (publish_done env (Leaf NotifyPublish)) key r closest s = (Inr (), s1)"
    "asking env (n_publish_count s) (n_log s) (n_tick s) asked 0 s1"
    "list_all2 (asked_of env (connect_timeout_ms (cfg_transport (n_config s)))) asked keepers"
proof -
  let ?P = "n_publish_count s" and ?k = "length keepers"
  let ?s0 = "s\<lparr>n_publishes := (n_publishes s)(?P := \<lparr>po_acks = 1, po_remaining = of_nat ?k, po_finished = False,
      po_quorum = min 2 (?k + 1), po_callback = Leaf NotifyPublish\<rparr>), n_publish_count := ?P + 1\<rparr>"
  have "count_list (replicate n Waiting) (Settled True) = 0" for n by (induction n) simp_all
  then have start: "asking env ?P (n_log s) (n_tick s) [] ?k ?s0"
    using keepers(2) by (cases keepers) (simp_all add: asking_def counted_def separate_def publish_report_open)
  have "store_at_keepers env (Leaf NotifyPublish) (publish_done env (Leaf NotifyPublish)) key r closest s = forE keepers (ask_keeper env ?P key r) ?s0"
    using keepers(1,2) by (simp add: store_at_keepers_def bindE_gets thenE_run modify_def Let_def ask_keeper_def [abs_def])
  moreover from ask_keepers [OF assms(1,2) start, of key r] keepers(3) inj obtain asked s1 where "forE keepers (ask_keeper env ?P key r) ?s0 = (Inr (), s1)"
      "asking env ?P (n_log s) (n_tick s) asked 0 s1" "list_all2 (asked_of env (connect_timeout_ms (cfg_transport (n_config s)))) asked keepers"
    by auto
  ultimately show ?thesis using that by simp
qed

section \<open>Property\<close>

text \<open>
  C16. The caller of a publication is told exactly once, when every keeper is settled. For each of the
  chosen keepers, except those that cannot be reached, a request with an id and a timer of its own
  waits for an answer.
  A keeper is settled by its answer, which confirms or not, by its timeout, or because it cannot be
  reached; later answers and its timer then count for nothing. However the answers and
  timers of the keepers are ordered and whatever else the node does in between, the publication says
  nothing while a keeper is open, and when all are settled it has reported once: the number of nodes
  that confirmed, this node included, and success exactly when another node confirmed. The only order
  left out is an answer that is dealt with between the expiry of its keeper's timer and the handler of that
  timer: see \<open>late_timer_settles_again\<close>. The request ids drawn must differ.
\<close>

theorem Node_publish_quorum:
  assumes "sodium_ready (e_sodium env)" and "aead_correct (e_sodium env)"
    and "keepers = choose_keepers (Node_node_id env s) (to_size_t (replication (cfg_dht (n_config s)))) closest []"
    and "keepers \<noteq> []" and "length keepers < 2 ^ 64"
    and "inj_on (e_rid env) {n_tick s..<n_tick s + 2 * length keepers}"
  shows "\<exists>s1 asked. store_at_keepers env (Leaf NotifyPublish) (publish_done env (Leaf NotifyPublish)) key r closest s = (Inr (), s1) \<and>
    list_all2 (asked_of env (connect_timeout_ms (cfg_transport (n_config s)))) asked keepers \<and>
    separate asked \<and> list_all2 (keeper_view (n_publish_count s) s1) asked (initially asked) \<and>
    n_log s1 = n_log s @ publish_report (initially asked) \<and>
    (\<forall>evs s2 told. keeper_run env (n_publish_count s) asked s1 evs s2 told \<longrightarrow>
       publish_report (initially asked) @ told = publish_report (foldl keeper_next (initially asked) evs))"
proof -
  let ?P = "n_publish_count s"
  obtain asked s1 where run: "store_at_keepers env (Leaf NotifyPublish) (publish_done env (Leaf NotifyPublish)) key r closest s = (Inr (), s1)"
    and ask: "asking env ?P (n_log s) (n_tick s) asked 0 s1"
    and asked: "list_all2 (asked_of env (connect_timeout_ms (cfg_transport (n_config s)))) asked keepers"
    by (rule store_at_keepers_asks [OF assms])
  have "length asked < 2 ^ 64" using list_all2_lengthD [OF asked] assms(5) by simp
  with ask have "tracks ?P asked (initially asked) s1" by (simp add: asking_def tracks_def)
  with keeper_run_tracks run asked ask show ?thesis by (intro exI [of _ s1] exI [of _ asked]) (auto simp: asking_def)
qed

text \<open>A node that asks one keeper, which never answers.\<close>

definition mute_env :: env where
  "mute_env = (test_env JNull JNull)\<lparr>e_net := (\<lambda>_. unreachable_net\<lparr>os_resolve := (\<lambda>h p. Some [(h, p)])\<rparr>)\<rparr>"

definition mute_keeper :: PeerInfo where
  "mute_keeper = peer_of (barray_of [6]) ''10.0.0.6'' 9000"

lemma mute_connects: "TcpConnection_connect (e_net mute_env n) (host (peer_address mute_keeper)) (port (peer_address mute_keeper)) timeout \<noteq> None"
  by (simp add: mute_env_def mute_keeper_def peer_of_def unreachable_net_def TcpConnection_connect_def)

theorem Node_publish_quorum_witness:
  "\<exists>s1 s2 a. store_at_keepers mute_env (Leaf NotifyPublish) (publish_done mute_env (Leaf NotifyPublish)) (barray_of [9]) (signed_test_record 3)
       [mute_keeper] (Node_new Config_default) = (Inr (), s1) \<and>
     n_log s1 = [] \<and> keeper_run mute_env 0 [a] s1 [Expire 0, Run 0] s2 [PublishDone False 1]"
proof -
  let ?s = "Node_new Config_default"
  have env: "sodium_ready (e_sodium mute_env)" "aead_correct (e_sodium mute_env)" "e_rid mute_env = (\<lambda>n. barray_of [word_of_nat n])"
    using toy_sodium_ready toy_sodium_aead by (simp_all add: mute_env_def test_env_def)
  have "Keypair_node_id toy_sodium \<lparr>kp_public_key = zero_barray, kp_secret_key = zero_barray\<rparr> \<noteq> barray_of [6]" by code_simp
  then have keepers: "[mute_keeper] = choose_keepers (Node_node_id mute_env ?s) (to_size_t (replication (cfg_dht (n_config ?s)))) [mute_keeper] []"
    by (simp add: Node_node_id_def mute_env_def test_env_def Node_new_def mute_keeper_def peer_of_def Let_def)
  have "n_tick ?s = 0" "n_publish_count ?s = 0" "n_log ?s = []" by (simp_all add: Node_new_def)
  moreover have "barray_of [0] \<noteq> (barray_of [1] :: RequestID)" by code_simp
  ultimately have inj: "inj_on (e_rid mute_env) {n_tick ?s..<n_tick ?s + 2 * length [mute_keeper]}"
    by (auto simp: inj_on_def env(3) less_Suc_eq numeral_2_eq_2)
  from Node_publish_quorum [OF env(1,2) keepers _ _ inj, of "barray_of [9]" "signed_test_record 3"] obtain s1 asked where
    s1: "store_at_keepers mute_env (Leaf NotifyPublish) (publish_done mute_env (Leaf NotifyPublish)) (barray_of [9]) (signed_test_record 3)
      [mute_keeper] ?s = (Inr (), s1)"
    and of: "list_all2 (asked_of mute_env (connect_timeout_ms (cfg_transport (n_config ?s)))) asked [mute_keeper]"
    and log: "n_log s1 = n_log ?s @ publish_report (initially asked)"
    and told: "\<And>evs s2 told. keeper_run mute_env (n_publish_count ?s) asked s1 evs s2 told \<Longrightarrow>
       publish_report (initially asked) @ told = publish_report (foldl keeper_next (initially asked) evs)" by auto
  from of obtain nid q where asked: "asked = [(nid, q)]" "asked_of mute_env (connect_timeout_ms (cfg_transport (n_config ?s))) (nid, q) mute_keeper"
    by (auto simp: list_all2_Cons2)
  have "q \<noteq> None" using asked(2) mute_connects unfolding asked_of.simps by blast
  then obtain rid t where q: "q = Some (rid, t)" by auto
  let ?a = "(nid, Some (rid, t))" and ?s' = "snd (timer_expires t s1)"
  have run: "keeper_run mute_env 0 [?a] s1 ([] @ [Expire 0]) ?s' ([] @ drop (length (n_log s1)) (n_log ?s'))"
    using keeper_run.step [OF keeper_run.start keeper_step.expire [of 0 "[?a]"]] by simp
  have "keeper_run mute_env 0 [?a] s1 (([] @ [Expire 0]) @ [Run 0]) (snd (timer_runs mute_env t ?s'))
      (([] @ drop (length (n_log s1)) (n_log ?s')) @ drop (length (n_log ?s')) (n_log (snd (timer_runs mute_env t ?s'))))"
    using keeper_run.step [OF run keeper_step.run [of 0 "[?a]"]] by simp
  moreover from told [unfolded asked(1) q \<open>n_publish_count ?s = 0\<close>, OF this]
  have "([] @ drop (length (n_log s1)) (n_log ?s')) @ drop (length (n_log ?s')) (n_log (snd (timer_runs mute_env t ?s'))) = [PublishDone False 1]"
    by (simp add: publish_report_def)
  ultimately show ?thesis using s1 log asked(1) q \<open>n_log ?s = []\<close>
    by (intro exI [of _ s1] exI [of _ "snd (timer_runs mute_env t ?s')"] exI [of _ ?a]) (simp add: publish_report_def)
qed

section \<open>Timers that expire while an answer is on its way\<close>

text \<open>
  Cancelling a timer whose handler is already queued has no effect. With two keepers, an answer from
  the first and its late timer settle the publication, although the second has not answered yet.
\<close>

lemma late_timer_settles_again:
  assumes "n_timers s t = Queued (StoreTimeout P nid rid)" and "n_pending_requests s rid = Some (PendingStore P nid t)"
    and "n_publishes s P = \<lparr>po_acks = 1, po_remaining = of_nat 2, po_finished = False, po_quorum = 2, po_callback = Leaf NotifyPublish\<rparr>"
    and "frame_type f = STORE_RESPONSE" and "flag_set (frame_flags f) IS_RESPONSE" and "frame_request_id f = rid"
    and "deserialize_store_response (e_json env) (frame_payload f) = Some resp" and "\<not> sr_success resp"
  shows "n_log (snd (timer_runs env t (snd (Node_on_frame env cid f s)))) = n_log s @ [PublishDone False 1]"
  using assms
  by (simp add: Node_on_frame_def take_pending_def dispatch_frame_def Let_def PING_def PONG_def FIND_NODE_REQUEST_def FIND_NODE_RESPONSE_def
      STORE_REQUEST_def STORE_RESPONSE_def run_pending_def on_store_reply_def cancel_timer_def publish_resume_def keeper_settled_def
      update_publish_def notify_def eff_run timer_runs_def run_timer_def on_store_timeout_def)

text \<open>
  A lookup has no record of having reported: a timer that resumes it after its completion makes it
  report again.
\<close>

lemma late_timer_reports_again:
  assumes "n_timers s t = Queued (LookupTimeout L nid rid)" and "lo_callback (n_lookups s L) = NotifyLookup"
    and "LookupSession_is_complete (LookupSession_on_failure (e_clock env (n_tick s)) nid (lo_session (n_lookups s L)))"
  shows "\<exists>ps m. n_log (snd (timer_runs env t s)) = n_log s @ [LookupDone ps m]"
  using assms
  by (simp add: timer_runs_def run_timer_def on_lookup_timeout_def lookup_failure_def lookup_resume_def lookup_run_def lookup_fuel_def
      set_lookup_def lookup_done_def notify_def eff_run ask_run)

section \<open>The sequence numbers of a restarted node\<close>

text \<open>
  The counter of a node's own records starts at zero with every start of the program, while keepers
  remember the highest number they ever accepted: the first record after a restart is refused.
\<close>

lemma first_record_after_restart:
  assumes "Node_create_self_record env a s = (Inr r, s')" and "n_record_seq s = n_record_seq (Node_new cfg)"
    and "RecordStore_wf so st" and "highest_seq_tab st key = Some n" and "1 \<le> n"
  shows "fst (RecordStore_put so key r now st) \<noteq> ValidationNone"
proof -
  have "sequence_number r = 1"
    using assms(1,2)
    by (auto simp: Node_create_self_record_def Node_new_def bindE_Inr thenE_Inr ask_run gets_def modify_def liftE_def NodeRecord_sign_def
        throw_bind_Inr_iff ret_def whenE_run split: if_splits sum.splits)
  then show ?thesis using assms(4,5) by (auto simp: put_eq [OF assms(3)])
qed

end
