(* ===== verification/Node_Directory.thy ===== *)
theory Node_Directory
  imports Node_Requests Node_Publish
begin

text \<open>
  The network as a directory: the record that a node makes of itself is accepted by the nodes it is sent
  to, and a node that searches for it gets it. Three nodes take part, the publisher, a keeper and a
  seeker, each with its own surroundings; they share the JSON library and libsodium.
\<close>

section \<open>A node's own record\<close>

text \<open>The clock readings at which a record issued at \<open>t0\<close> is valid; no reading is close to overflow.\<close>

definition in_window :: "u64 \<Rightarrow> nat \<Rightarrow> u64 \<Rightarrow> bool" where
  "in_window t0 ttl now \<longleftrightarrow> unat t0 \<le> unat now + 30 \<and> unat now + 30 < 2 ^ 64 \<and> unat now \<le> unat t0 + ttl"

definition can_publish :: "env \<Rightarrow> string \<Rightarrow> Node \<Rightarrow> bool" where
  "can_publish env a s \<longleftrightarrow> n_started s \<and> (\<exists>seed. Keypair_generate (e_sodium env) seed = Inr (n_keypair s)) \<and>
     length a \<le> 256 \<and> listen_address (cfg_node (n_config s)) \<noteq> [] \<and> listen_port (cfg_node (n_config s)) \<noteq> 0 \<and>
     0 \<le> record_ttl_sec (cfg_dht (n_config s)) \<and>
     unat (e_now env (n_tick s)) + nat (record_ttl_sec (cfg_dht (n_config s))) < 2 ^ 64"

lemma unat_add_of_nat: "unat (x :: u64) + n < 2 ^ 64 \<Longrightarrow> unat (x + of_nat n) = unat x + n"
proof -
  assume small: "unat x + n < 2 ^ 64"
  have "x + of_nat n = of_nat (unat x + n)" by simp
  moreover have "take_bit LENGTH(64) (unat x + n) = unat x + n" using small by (intro take_bit_nat_eq_self) simp
  ultimately show ?thesis by (simp only: unsigned_of_nat of_nat_id)
qed

lemma self_record:
  assumes "ed25519_correct (e_sodium env)" "can_publish env a s" "ttl = nat (record_ttl_sec (cfg_dht (n_config s)))"
  obtains r s' where "Node_create_self_record env a s = (Inr r, s')" "rec_node_id r = Node_node_id env s"
    "addresses r = [\<lparr>host = listen_address (cfg_node (n_config s)), port = listen_port (cfg_node (n_config s))\<rparr>]"
    "rec_alias r = a" "sequence_number r = n_record_seq s + 1"
    "\<And>now. in_window (e_now env (n_tick s)) ttl now \<Longrightarrow> NodeRecord_validate (e_sodium env) now r = ValidationNone"
proof -
  let ?so = "e_sodium env" and ?kp = "n_keypair s" and ?t0 = "e_now env (n_tick s)"
  let ?q = "\<lparr>rec_node_id = Keypair_node_id ?so ?kp, identity_public_key = kp_public_key ?kp,
      addresses = [\<lparr>host = listen_address (cfg_node (n_config s)), port = listen_port (cfg_node (n_config s))\<rparr>],
      sequence_number = n_record_seq s + 1, issued_at = ?t0,
      expires_at = ?t0 + word_of_int (record_ttl_sec (cfg_dht (n_config s))), rec_alias = a, rec_signature = zero_barray\<rparr>"
  obtain seed where seed: "Keypair_generate ?so seed = Inr ?kp" using assms(2) by (auto simp: can_publish_def)
  have ttl: "word_of_int (record_ttl_sec (cfg_dht (n_config s))) = (of_nat ttl :: u64)"
    using assms(2,3) by (simp add: can_publish_def)
  have expires: "unat (expires_at ?q) = unat ?t0 + ttl"
  proof -
    have "unat ?t0 + ttl < 2 ^ 64" using assms(2,3) by (simp add: can_publish_def)
    from unat_add_of_nat [OF this] show ?thesis by (simp add: ttl)
  qed
  have ok: "length (rec_alias ?q) \<le> 256" "addresses ?q \<noteq> []" "length (addresses ?q) \<le> 16"
    "\<forall>b \<in> set (addresses ?q). host b \<noteq> [] \<and> port b \<noteq> 0"
    using assms(2) by (simp_all add: can_publish_def)
  let ?q1 = "?q\<lparr>rec_node_id := Keypair_node_id ?so ?kp, identity_public_key := kp_public_key ?kp\<rparr>"
  obtain sig where "Keypair_sign ?so (canonical_bytes ?q1) ?kp = Inr sig"
    using generate_keypair_layout(2) [OF assms(1) seed] by blast
  then have sign: "NodeRecord_sign ?so ?kp ?q = Inr (?q1\<lparr>rec_signature := sig\<rparr>)" by (simp add: NodeRecord_sign_def Let_def)
  have valid: "NodeRecord_validate ?so now (?q1\<lparr>rec_signature := sig\<rparr>) = ValidationNone" if w: "in_window ?t0 ttl now" for now
  proof -
    have "unat (issued_at ?q) \<le> unat now + 30" "unat now + 30 < 2 ^ 64" using w by (simp_all add: in_window_def)
    moreover have "now \<le> expires_at ?q" using w by (simp only: word_le_nat_alt expires in_window_def)
    ultimately show ?thesis using NodeRecord_sign_validates [OF assms(1) seed ok, of now] sign by auto
  qed
  have "Node_create_self_record env a s = (Inr (?q1\<lparr>rec_signature := sig\<rparr>),
      snd (Node_create_self_record env a s))"
    using assms(2) sign
    by (simp add: Node_create_self_record_def can_publish_def ask_run bindE_def thenE_run gets_def modify_def liftE_def ret_def whenE_run Node_node_id_def)
  from that [OF this _ _ _ _ valid] show ?thesis by (simp add: Node_node_id_def)
qed

section \<open>The answer to a search\<close>

lemma find_reply_run:
  assumes inv: "node_inv env s" and g: "flag_set (frame_flags g) IS_RESPONSE" "frame_type g = FIND_VALUE_RESPONSE"
      "deserialize_find_value_response (e_json env) (frame_payload g) FindValueResponse_default = Some resp"
      "fvr_has_value resp" "fvr_record resp = Some r"
    and pending: "n_pending_requests s (frame_request_id g) = Some (PendingFind V nid t)" "\<not> fo_finished (n_finds s V)"
    and valid: "\<forall>u. NodeRecord_validate (e_sodium env) (e_now env u) r = ValidationNone"
    and s': "s' = snd (Node_on_frame env cid g s)"
  shows "\<exists>m. n_log s' = n_log s @ [FindDone (Some r) m] \<and> success m \<and> fo_finished (n_finds s' V) \<and>
    n_store s' = snd (RecordStore_put (e_sodium env) (fo_key (n_finds s V)) r (e_now env (n_tick s)) (n_store s))"
  using g pending valid
  by (simp add: s' Node_on_frame_def take_pending_def eff_run dispatch_frame_def Let_def FIND_VALUE_RESPONSE_def PING_def PONG_def
      FIND_NODE_REQUEST_def FIND_NODE_RESPONSE_def STORE_REQUEST_def STORE_RESPONSE_def FIND_VALUE_REQUEST_def
      run_pending_def on_find_reply_def cancel_timer_def ask_run store_put_run update_find_def find_run_def find_finish_def notify_def
      split: timer_state.split)

section \<open>Property\<close>

text \<open>
  C6. What a node publishes about itself is found by others. A started node with a key pair that the program
  generated makes a record of its own address without failing. Let that record be sent to a keeper in
  a STORE request, under any key for which the keeper has accepted neither this nor a higher sequence
  number; let a seeker ask the keeper for that key in a search that is under way; let the keeper's two
  connections be open, and all their clocks be within the validity of the record. Then the keeper stores
  the record (from then on its store returns it for the key) and queues the answer that it did; it
  queues that record, on the connection of the seeker, as its answer to the request; and the
  application of the seeker is told that its search succeeded with that record, which names the
  publisher's identifier and its configured address.
\<close>

theorem Node_published_record_found:
  assumes so: "ed25519_correct so" "sodium_ready so" "aead_correct so"
      "e_sodium env_a = so" "e_sodium env_b = so" "e_sodium env_c = so"
    and jl: "json_laws jl" "e_json env_b = jl" "e_json env_c = jl"
    and a: "can_publish env_a nick sa" "ttl = nat (record_ttl_sec (cfg_dht (n_config sa)))"
      "r = projr (fst (Node_create_self_record env_a nick sa))"
    and clocks: "\<forall>u. in_window (e_now env_a (n_tick sa)) ttl (e_now env_b u) \<and> in_window (e_now env_a (n_tick sa)) ttl (e_now env_c u)"
    and b: "node_inv env_b sb" "n_started sb" "sock_open (n_conns sb cb1)" "cb1 < n_conn_count sb"
      "sock_open (n_conns sb cb2)" "cb2 < n_conn_count sb" "\<forall>n. highest_seq_tab (n_store sb) key = Some n \<longrightarrow> n < n_record_seq sa + 1"
    and c: "node_inv env_c sc" "n_pending_requests sc rid = Some (PendingFind V nid t)" "\<not> fo_finished (n_finds sc V)"
    and f1: "f1 = (Frame_new STORE_REQUEST rid1)\<lparr>frame_payload := serialize_store_request jl q1\<rparr>"
      "q1 = \<lparr>sq_key = key, sq_record = r, sq_sender = p1\<rparr>"
      "cbor_roundtrip jl (record_json r)" "cbor_roundtrip jl (store_request_json jl q1)"
    and f2: "f2 = (Frame_new FIND_VALUE_REQUEST rid)\<lparr>frame_payload := serialize_find_value_request jl q2\<rparr>"
      "q2 = \<lparr>fvq_key = key, fvq_sender = p2\<rparr>" "cbor_roundtrip jl (find_value_request_json q2)"
    and g: "g = answer f2 FIND_VALUE_RESPONSE (serialize_find_value_response jl resp)"
      "resp = FindValueResponse_default\<lparr>fvr_key := key, fvr_has_value := True, fvr_record := Some r\<rparr>"
      "cbor_roundtrip jl (find_value_response_json jl resp)"
  shows "fst (Node_create_self_record env_a nick sa) = Inr r \<and> rec_node_id r = Node_node_id env_a sa \<and> rec_alias r = nick \<and>
    addresses r = [\<lparr>host = listen_address (cfg_node (n_config sa)), port = listen_port (cfg_node (n_config sa))\<rparr>] \<and>
    (\<exists>sb' sb''. Node_on_frame env_b cb1 f1 sb = (Inr (), sb') \<and>
       answers_on env_b cb1 (answer f1 STORE_RESPONSE (serialize_store_response jl
         \<lparr>sr_key = key, sr_success = True, sr_message = ''Stored successfully''\<rparr>)) sb sb' \<and>
       (\<forall>u. fst (RecordStore_get key (e_now env_b u) (n_store sb')) = Some r) \<and>
       Node_on_frame env_b cb2 f2 sb' = (Inr (), sb'') \<and> answers_on env_b cb2 g sb' sb'') \<and>
    (\<exists>m. n_log (snd (Node_on_frame env_c cc g sc)) = n_log sc @ [FindDone (Some r) m] \<and> success m)"
proof -
  obtain sa' where cr: "Node_create_self_record env_a nick sa = (Inr r, sa')"
    and fields: "rec_node_id r = Node_node_id env_a sa" "rec_alias r = nick" "sequence_number r = n_record_seq sa + 1"
      "addresses r = [\<lparr>host = listen_address (cfg_node (n_config sa)), port = listen_port (cfg_node (n_config sa))\<rparr>]"
    and valid: "\<And>now. in_window (e_now env_a (n_tick sa)) ttl now \<Longrightarrow> NodeRecord_validate so now r = ValidationNone"
    using self_record [OF _ a(1,2)] so(1,4) a(3) by (metis fst_conv sum.sel(2))
  have frames: "\<not> flag_set (frame_flags f1) IS_RESPONSE" "frame_type f1 = STORE_REQUEST"
    "\<not> flag_set (frame_flags f2) IS_RESPONSE" "frame_type f2 = FIND_VALUE_REQUEST"
    "flag_set (frame_flags g) IS_RESPONSE" "frame_type g = FIND_VALUE_RESPONSE" "frame_request_id g = rid"
    by (simp_all add: f1(1) f2(1) g(1) answer_def Frame_new_def Frame_default_def FLAG_NONE_def flag_set_def IS_RESPONSE_def)
  have d1: "deserialize_store_request (e_json env_b) (frame_payload f1) = Some q1"
    using store_codecs_inverse(1) [OF jl(1), of q1] f1 jl(2) by simp
  have d2: "deserialize_find_value_request (e_json env_b) (frame_payload f2) = Some q2"
    using find_value_codecs_inverse(1) [OF jl(1) f2(3)] f2(1) jl(2) by simp
  have d3: "deserialize_find_value_response (e_json env_c) (frame_payload g) FindValueResponse_default = Some resp"
  proof -
    have "carried_response resp = resp" by (simp add: carried_response_def g(2) FindValueResponse_default_def)
    then show ?thesis
      using find_value_codecs_inverse(2) [OF jl(1) _ g(3)] f1(3) jl(3) g(2) by (simp add: g(1) answer_def)
  qed
  have valid_b: "\<forall>u. NodeRecord_validate (e_sodium env_b) (e_now env_b u) (sq_record q1) = ValidationNone"
    and valid_c: "\<forall>u. NodeRecord_validate (e_sodium env_c) (e_now env_c u) r = ValidationNone"
    using valid clocks so(5,6) f1(2) by simp_all
  have newer: "\<forall>n. highest_seq_tab (n_store sb) (sq_key q1) = Some n \<longrightarrow> n < sequence_number (sq_record q1)"
    using b(7) fields(3) f1(2) by simp
  have key: "fvq_key q2 = sq_key q1" using f1(2) f2(2) by simp
  have ready: "sodium_ready (e_sodium env_b)" "aead_correct (e_sodium env_b)" using so(2,3,5) by simp_all
  note keeper = store_then_find [OF b(1,2) ready b(3-6) frames(1,2) d1 frames(3,4) d2 key valid_b newer]
  have "fvr_has_value resp" "fvr_record resp = Some r" by (simp_all add: g(2))
  from find_reply_run [OF c(1) frames(5,6) d3 this _ c(3) valid_c refl, of nid t cc] c(2) frames(7)
  have "\<exists>m. n_log (snd (Node_on_frame env_c cc g sc)) = n_log sc @ [FindDone (Some r) m] \<and> success m" by auto
  with cr fields(1,2,4) keeper f1(2) g(1,2) jl(2) show ?thesis by simp
qed

section \<open>A concrete run\<close>

text \<open>A JSON library whose CBOR form of a given value is its place in a list.\<close>

definition list_json :: "json list \<Rightarrow> json_lib" where
  "list_json js = plain_json
     (\<lambda>j. case List.find (\<lambda>i. js ! i = j) [0..<length js] of Some i \<Rightarrow> [of_nat i] | None \<Rightarrow> [])
     (\<lambda>b. case b of [x] \<Rightarrow> if unat x < length js then Some (js ! unat x) else None | _ \<Rightarrow> None)"

lemma list_json_roundtrip:
  assumes "j \<in> set js" "length js < 256"
  shows "cbor_roundtrip (list_json js) j"
proof -
  obtain i where i: "List.find (\<lambda>i. js ! i = j) [0..<length js] = Some i"
    using assms(1) by (cases "List.find (\<lambda>i. js ! i = j) [0..<length js]") (auto simp: find_None_iff in_set_conv_nth)
  then have "js ! i = j" "i < length js" by (auto simp: find_Some_iff)
  moreover from this(2) assms(2) have "unat (of_nat i :: u8) = i" by (simp add: unsigned_of_nat take_bit_nat_eq_self)
  ultimately show ?thesis using i by (simp add: cbor_roundtrip_def list_json_def plain_json_def)
qed

lemma list_json_head: "to_cbor (list_json (j # js)) j = [0]"
  by (simp add: list_json_def plain_json_def upt_conv_Cons del: upt_Suc)

abbreviation dir_node :: Node where
  "dir_node \<equiv> test_node (test_env JNull JNull)"

definition dir_record :: NodeRecord where
  "dir_record = projr (fst (Node_create_self_record (test_env JNull JNull) [] dir_node))"

definition dir_store :: StoreRequest where
  "dir_store = \<lparr>sq_key = barray_of [9], sq_record = dir_record, sq_sender = peer_of (barray_of [5]) ''10.0.0.5'' 4000\<rparr>"

definition dir_query :: FindValueRequest where
  "dir_query = \<lparr>fvq_key = barray_of [9], fvq_sender = peer_of (barray_of [8]) ''10.0.0.8'' 4000\<rparr>"

definition dir_response :: FindValueResponse where
  "dir_response = FindValueResponse_default\<lparr>fvr_key := barray_of [9], fvr_has_value := True, fvr_record := Some dir_record\<rparr>"

definition dir_json :: json_lib where
  "dir_json = list_json [record_json dir_record, store_request_json (list_json [record_json dir_record]) dir_store,
     find_value_request_json dir_query, find_value_response_json (list_json [record_json dir_record]) dir_response]"

definition dir_env :: env where
  "dir_env = (test_env JNull JNull)\<lparr>e_json := dir_json\<rparr>"

definition dir_seeker :: Node where
  "dir_seeker = dir_node\<lparr>n_finds := (n_finds dir_node)(0 := \<lparr>fo_session = LookupSession_new (barray_of [9]) (barray_of [5]) 3 4 0 zero_barray,
       fo_key = barray_of [9], fo_found = None, fo_finished = False\<rparr>), n_find_count := 1,
     n_pending_requests := [barray_of [3] \<mapsto> PendingFind 0 (barray_of [7]) 0]\<rparr>"

definition dir_store_frame :: Frame where
  "dir_store_frame = (Frame_new STORE_REQUEST (barray_of [2]))\<lparr>frame_payload := serialize_store_request dir_json dir_store\<rparr>"

definition dir_query_frame :: Frame where
  "dir_query_frame = (Frame_new FIND_VALUE_REQUEST (barray_of [3]))\<lparr>frame_payload := serialize_find_value_request dir_json dir_query\<rparr>"

definition dir_answer :: Frame where
  "dir_answer = answer dir_query_frame FIND_VALUE_RESPONSE (serialize_find_value_response dir_json dir_response)"

lemma dir_json_facts:
  "json_laws dir_json" "cbor_roundtrip dir_json (record_json dir_record)" "cbor_roundtrip dir_json (store_request_json dir_json dir_store)"
  "cbor_roundtrip dir_json (find_value_request_json dir_query)" "cbor_roundtrip dir_json (find_value_response_json dir_json dir_response)"
proof -
  have rec: "NodeRecord_to_cbor dir_json dir_record = [0]" "NodeRecord_to_cbor (list_json [record_json dir_record]) dir_record = [0]"
    by (simp_all add: NodeRecord_to_cbor_def dir_json_def list_json_head)
  have eq: "store_request_json dir_json dir_store = store_request_json (list_json [record_json dir_record]) dir_store"
    "find_value_response_json dir_json dir_response = find_value_response_json (list_json [record_json dir_record]) dir_response"
    by (simp_all add: store_request_json_def find_value_response_json_def dir_store_def dir_response_def rec)
  show "json_laws dir_json" by (simp add: dir_json_def list_json_def plain_json_laws)
  show "cbor_roundtrip dir_json (record_json dir_record)" "cbor_roundtrip dir_json (store_request_json dir_json dir_store)"
    "cbor_roundtrip dir_json (find_value_request_json dir_query)" "cbor_roundtrip dir_json (find_value_response_json dir_json dir_response)"
    unfolding eq by (simp_all add: dir_json_def list_json_roundtrip)
qed

lemma node_inv_json: "node_inv (env\<lparr>e_json := jl\<rparr>) s = node_inv env s"
  by (simp add: node_inv_def Node_node_id_def)

abbreviation dir_keeper :: Node where
  "dir_keeper \<equiv> test_accepted (test_env JNull JNull)"

lemma dir_inv: "node_inv dir_env dir_keeper" "node_inv dir_env dir_seeker"
proof -
  have inv: "node_inv (test_env JNull JNull) dir_node" by (rule reachable_inv [OF test_node_reachable])
  show "node_inv dir_env dir_keeper"
    using reachable_inv [OF test_accepted_reachable [of JNull JNull]] by (simp add: dir_env_def node_inv_json)
  have "n_find_count dir_node = 0" using test_node_fields(9) .
  with inv.p_pending [OF inv.p_find_new [OF inv, of "\<lparr>fo_session = LookupSession_new (barray_of [9]) (barray_of [5]) 3 4 0 zero_barray,
       fo_key = barray_of [9], fo_found = None, fo_finished = False\<rparr>"], of "[barray_of [3] \<mapsto> PendingFind 0 (barray_of [7]) 0]"]
  show "node_inv dir_env dir_seeker" by (simp add: dir_env_def node_inv_json dir_seeker_def LookupSession_wf_new)
qed

theorem Node_published_record_found_witness:
  "(\<exists>s' s''. Node_on_frame dir_env 0 dir_store_frame dir_keeper = (Inr (), s') \<and>
     fst (RecordStore_get (barray_of [9]) 100 (n_store s')) = Some dir_record \<and>
     Node_on_frame dir_env 0 dir_query_frame s' = (Inr (), s'') \<and> answers_on dir_env 0 dir_answer s' s'') \<and>
   (\<exists>m. n_log (snd (Node_on_frame dir_env 0 dir_answer dir_seeker)) = n_log dir_seeker @ [FindDone (Some dir_record) m] \<and> success m)"
proof -
  let ?env = "test_env JNull JNull"
  have env: "e_sodium ?env = toy_sodium" "e_sodium dir_env = toy_sodium" "e_json dir_env = dir_json"
    "e_now ?env u = 100" "e_now dir_env u = 100" for u
    by (simp_all add: dir_env_def) (simp_all add: test_env_def)
  have cfg: "n_config dir_node = Config_default" using test_node_fields(5) .
  have can: "can_publish ?env [] dir_node"
    using test_node_fields(2) [of JNull JNull] test_keys_generated [of 5] test_node_keypair [of JNull JNull]
    by (auto simp: can_publish_def env cfg) (simp_all add: Config_default_def)
  have clocks: "\<forall>u. in_window (e_now ?env (n_tick dir_node)) (nat (record_ttl_sec (cfg_dht (n_config dir_node)))) (e_now dir_env u) \<and>
      in_window (e_now ?env (n_tick dir_node)) (nat (record_ttl_sec (cfg_dht (n_config dir_node)))) (e_now dir_env u)"
    by (simp add: env in_window_def)
  have newer: "\<forall>n. highest_seq_tab (n_store dir_keeper) (barray_of [9]) = Some n \<longrightarrow> n < n_record_seq dir_node + 1"
    by (simp add: test_accepted_fields RecordStore_new_def)
  have keeper: "n_started dir_keeper" "sock_open (n_conns dir_keeper 0)" "0 < n_conn_count dir_keeper"
    by (simp_all add: test_accepted_fields)
  have seeker: "n_pending_requests dir_seeker (barray_of [3]) = Some (PendingFind 0 (barray_of [7]) 0)" "\<not> fo_finished (n_finds dir_seeker 0)"
    by (simp_all add: dir_seeker_def)
  note T = Node_published_record_found [OF toy_sodium_ed25519 toy_sodium_ready toy_sodium_aead env(1) env(2) env(2)
      dir_json_facts(1) env(3) env(3) can refl dir_record_def clocks dir_inv(1) keeper(1,2,3,2,3) newer dir_inv(2) seeker
      dir_store_frame_def dir_store_def dir_json_facts(2,3) dir_query_frame_def dir_query_def dir_json_facts(4)
      dir_answer_def dir_response_def dir_json_facts(5), of 0]
  then show ?thesis unfolding env(5) by blast
qed

end
