(* ===== verification/Node_Handshake.thy ===== *)
theory Node_Handshake
  imports Node_Contacts
begin

text \<open>
  The handshake between two nodes: the four session operations of \<open>Secure_Session\<close>, carried by the
  frames and the handlers of the nodes.
\<close>

section \<open>The four steps\<close>

lemma conn_send_handshake:
  assumes "sock_open (n_conns s cid)" "\<not> must_encrypt f"
  shows "conn_send env cid f s = (Inr (), s\<lparr>n_conns := (n_conns s)(cid := enqueue (Frame_serialize f) (reset_io_timer (n_conns s cid)))\<rparr>)"
  using send_plain [OF assms(1), of "n_sessions s" f "e_sodium env"] assms(2) by (simp add: conn_send_def)

lemma enqueue_queue [simp]: "write_queue (enqueue d c) = write_queue c @ [d]"
  by (simp add: enqueue_def do_write_def Let_def)

lemma handshake_frames_plain:
  "\<not> must_encrypt ((Frame_new HANDSHAKE_INIT rid)\<lparr>frame_payload := p\<rparr>)"
  "\<not> must_encrypt ((Frame_new HANDSHAKE_RESPONSE rid)\<lparr>frame_flags := fl, frame_payload := p\<rparr>)"
  "\<not> must_encrypt ((Frame_new HANDSHAKE_COMPLETE rid)\<lparr>frame_payload := p\<rparr>)"
  by (simp_all add: must_encrypt_def Frame_new_def)

lemma handshake_initiated:
  assumes "sock_open (n_conns s cid)" "sodium_ready (e_sodium env)"
    and "initiate_handshake (e_sodium env) (e_rand env (n_tick s)) (e_rand env (n_tick s + 1)) (n_keypair s) SecureSession_new = (Inr init, a1)"
    and "f = (Frame_new HANDSHAKE_INIT (e_rid env (n_tick s + 2)))\<lparr>frame_payload := serialize_handshake_init (e_json env) init\<rparr>"
  obtains s1 where "Node_initiate_handshake env cid s = (Inr (), s1)"
    "write_queue (n_conns s1 cid) = write_queue (n_conns s cid) @ [Frame_serialize f]" "sock_open (n_conns s1 cid)"
    "n_pending_requests s1 (frame_request_id f) = Some (PendingHandshake cid (n_session_count s) (n_timer_count s))"
    "n_sessions s1 (n_session_count s) = a1" "tc_session (n_conns s1 cid) = Some (n_session_count s)"
    "n_keypair s1 = n_keypair s" "n_log s1 = n_log s"
proof -
  have "\<exists>s1. Node_initiate_handshake env cid s = (Inr (), s1) \<and>
    write_queue (n_conns s1 cid) = write_queue (n_conns s cid) @ [Frame_serialize f] \<and> sock_open (n_conns s1 cid) \<and>
    n_pending_requests s1 (frame_request_id f) = Some (PendingHandshake cid (n_session_count s) (n_timer_count s)) \<and>
    n_sessions s1 (n_session_count s) = a1 \<and> tc_session (n_conns s1 cid) = Some (n_session_count s) \<and>
    n_keypair s1 = n_keypair s \<and> n_log s1 = n_log s"
    using assms
    by (simp add: Node_initiate_handshake_def new_secure_session_def update_conn_def set_secure_session_def session_call_def send_request_def
        generate_request_id_def RequestID_generate_def sodium_ready_def new_timer_def ask_run eff_run conn_send_handshake
        handshake_frames_plain Frame_new_def [THEN arg_cong, of frame_request_id])
  then show ?thesis using that by blast
qed

lemmas handshake_dispatch = dispatch_frame_def Let_def PING_def PONG_def FIND_NODE_REQUEST_def FIND_NODE_RESPONSE_def
  STORE_REQUEST_def STORE_RESPONSE_def FIND_VALUE_REQUEST_def FIND_VALUE_RESPONSE_def HANDSHAKE_INIT_def HANDSHAKE_RESPONSE_def
  HANDSHAKE_COMPLETE_def

lemma handshake_answered:
  assumes "sock_open (n_conns s cid)" "\<not> flag_set (frame_flags f) IS_RESPONSE" "frame_type f = HANDSHAKE_INIT"
    and "deserialize_handshake_init (e_json env) (frame_payload f) = Some init"
    and "process_handshake_init (e_sodium env) (e_rand env (n_tick s)) (e_rand env (n_tick s + 1)) (e_rid env (n_tick s + 2)) init
      (n_keypair s) SecureSession_new = (Inr (Some resp), b1)"
    and "g = (Frame_new HANDSHAKE_RESPONSE (frame_request_id f))\<lparr>frame_flags := IS_RESPONSE,
      frame_payload := serialize_handshake_response (e_json env) resp\<rparr>"
  obtains s1 where "Node_on_frame env cid f s = (Inr (), s1)"
    "write_queue (n_conns s1 cid) = write_queue (n_conns s cid) @ [Frame_serialize g]" "sock_open (n_conns s1 cid)"
    "n_sessions s1 (n_session_count s) = b1" "tc_session (n_conns s1 cid) = Some (n_session_count s)"
proof -
  have flags: "flags_or (frame_flags (Frame_new HANDSHAKE_RESPONSE rid)) IS_RESPONSE = IS_RESPONSE" for rid
    by (simp add: Frame_new_def Frame_default_def FLAG_NONE_def flags_or_def)
  have "\<exists>s1. Node_on_frame env cid f s = (Inr (), s1) \<and>
    write_queue (n_conns s1 cid) = write_queue (n_conns s cid) @ [Frame_serialize g] \<and> sock_open (n_conns s1 cid) \<and>
    n_sessions s1 (n_session_count s) = b1 \<and> tc_session (n_conns s1 cid) = Some (n_session_count s)"
    using assms flags handshake_frames_plain(2)
    by (simp add: on_frame_dispatch handshake_dispatch on_handshake_init_def new_secure_session_def
        session_call_def update_conn_def set_secure_session_def respond_def ask_run eff_run conn_send_handshake)
  then show ?thesis using that by blast
qed

lemma handshake_confirmed:
  assumes "sock_open (n_conns s cid)" "sodium_ready (e_sodium env)"
    and "flag_set (frame_flags f) IS_RESPONSE" "frame_type f = HANDSHAKE_RESPONSE"
    and "n_pending_requests s (frame_request_id f) = Some (PendingHandshake cid r t)"
    and "deserialize_handshake_response (e_json env) (frame_payload f) = Some resp"
    and "process_handshake_response (e_sodium env) resp (n_keypair s) (n_sessions s r) = (Inr (Some cmp), a2)"
  obtains s1 rid where "Node_on_frame env cid f s = (Inr (), s1)"
    "write_queue (n_conns s1 cid) = write_queue (n_conns s cid) @
       [Frame_serialize ((Frame_new HANDSHAKE_COMPLETE rid)\<lparr>frame_payload := serialize_handshake_complete (e_json env) cmp\<rparr>)]"
    "n_sessions s1 r = a2" "tc_session (n_conns s1 cid) = tc_session (n_conns s cid)" "tc_peer_id (n_conns s1 cid) = Some (ss_peer_node_id a2)"
    "n_log s1 = n_log s @ [HandshakeDone True]"
proof -
  have "\<exists>s1 rid. Node_on_frame env cid f s = (Inr (), s1) \<and> write_queue (n_conns s1 cid) = write_queue (n_conns s cid) @
       [Frame_serialize ((Frame_new HANDSHAKE_COMPLETE rid)\<lparr>frame_payload := serialize_handshake_complete (e_json env) cmp\<rparr>)] \<and>
    n_sessions s1 r = a2 \<and> tc_session (n_conns s1 cid) = tc_session (n_conns s cid) \<and> tc_peer_id (n_conns s1 cid) = Some (ss_peer_node_id a2) \<and>
    n_log s1 = n_log s @ [HandshakeDone True]"
    using assms handshake_frames_plain(3)
    by (cases "n_timers s t")
      (simp_all add: Node_on_frame_def take_pending_def handshake_dispatch run_pending_def on_handshake_reply_def cancel_timer_def session_call_def
        update_conn_def set_peer_id_def generate_request_id_def RequestID_generate_def sodium_ready_def notify_def ask_run eff_run
        conn_send_handshake, blast+)
  then show ?thesis using that by blast
qed

lemma handshake_completed:
  assumes "\<not> flag_set (frame_flags f) IS_RESPONSE" "frame_type f = HANDSHAKE_COMPLETE"
    and "deserialize_handshake_complete (e_json env) (frame_payload f) = Some cmp" "tc_session (n_conns s cid) = Some r"
    and "process_handshake_complete (e_sodium env) cmp (n_sessions s r) = (True, b2)"
  obtains s1 where "Node_on_frame env cid f s = (Inr (), s1)"
    "n_sessions s1 r = b2" "tc_session (n_conns s1 cid) = Some r" "tc_peer_id (n_conns s1 cid) = Some (ss_peer_node_id b2)"
proof -
  have "\<exists>s1. Node_on_frame env cid f s = (Inr (), s1) \<and>
    n_sessions s1 r = b2 \<and> tc_session (n_conns s1 cid) = Some r \<and> tc_peer_id (n_conns s1 cid) = Some (ss_peer_node_id b2)"
    using assms
    by (simp add: on_frame_dispatch handshake_dispatch on_handshake_complete_def session_call_def update_conn_def set_peer_id_def eff_run)
  then show ?thesis using that by blast
qed

section \<open>End to end\<close>

text \<open>
  C12. Two nodes with generated identities, connected by one connection, complete the handshake. Node A
  starts it; when B handles the frame that A queues, A the frame that B queues in answer, and B the
  last frame of A, then no step fails, A's application is told of the success, each side's
  connection is attached to the other side's true identifier, and the sessions of the two
  connections are active with matching keys and counters, in both directions.
\<close>

theorem Node_handshake_end_to_end:
  assumes so: "sodium_ready so" "ed25519_correct so" "x25519_agrees so" and jl: "json_laws jl"
    and env: "e_sodium ea = so" "e_sodium eb = so" "e_json ea = jl" "e_json eb = jl"
    and opened: "sock_open (n_conns sa ca)" "sock_open (n_conns sb cb)"
    and keys: "Keypair_generate so seed_a = Inr (n_keypair sa)" "Keypair_generate so seed_b = Inr (n_keypair sb)"
    and eph: "crypto_scalarmult_base so (e_rand ea (n_tick sa)) = Some pa" "crypto_scalarmult_base so (e_rand eb (n_tick sb)) = Some pb"
    and dh: "crypto_scalarmult so (e_rand ea (n_tick sa)) pb = Some ss" "ss \<noteq> zero_barray"
    and msg1: "initiate_handshake so (e_rand ea (n_tick sa)) (e_rand ea (n_tick sa + 1)) (n_keypair sa) SecureSession_new = (Inr init, a1)"
      "cbor_roundtrip jl (handshake_init_json init)"
    and msg2: "process_handshake_init so (e_rand eb (n_tick sb)) (e_rand eb (n_tick sb + 1)) (e_rid eb (n_tick sb + 2)) init
      (n_keypair sb) SecureSession_new = (Inr (Some resp), b1)" "cbor_roundtrip jl (handshake_response_json resp)"
    and msg3: "process_handshake_response so resp (n_keypair sa) a1 = (Inr (Some cmp), a2)" "cbor_roundtrip jl (handshake_complete_json cmp)"
  shows "\<exists>f1 f2 f3 sa1 sa2 sb1 sb2 ra rb.
    Node_initiate_handshake ea ca sa = (Inr (), sa1) \<and> write_queue (n_conns sa1 ca) = write_queue (n_conns sa ca) @ [Frame_serialize f1] \<and>
    Node_on_frame eb cb f1 sb = (Inr (), sb1) \<and> write_queue (n_conns sb1 cb) = write_queue (n_conns sb cb) @ [Frame_serialize f2] \<and>
    Node_on_frame ea ca f2 sa1 = (Inr (), sa2) \<and> write_queue (n_conns sa2 ca) = write_queue (n_conns sa1 ca) @ [Frame_serialize f3] \<and>
    Node_on_frame eb cb f3 sb1 = (Inr (), sb2) \<and> n_log sa2 = n_log sa @ [HandshakeDone True] \<and>
    tc_peer_id (n_conns sa2 ca) = Some (Node_node_id eb sb) \<and> tc_peer_id (n_conns sb2 cb) = Some (Node_node_id ea sa) \<and>
    tc_session (n_conns sa2 ca) = Some ra \<and> tc_session (n_conns sb2 cb) = Some rb \<and>
    in_sync (n_sessions sa2 ra) (n_sessions sb2 rb) \<and> in_sync (n_sessions sb2 rb) (n_sessions sa2 ra)"
proof -
  obtain b2 where b2: "process_handshake_complete so cmp b1 = (True, b2)" and sync: "in_sync a2 b2" "in_sync b2 a2"
    and ids: "ss_peer_node_id a2 = Keypair_node_id so (n_keypair sb)" "ss_peer_node_id b2 = Keypair_node_id so (n_keypair sa)"
    using honest_handshake [OF so keys eph dh, of "e_rand ea (n_tick sa + 1)" "e_rand eb (n_tick sb + 1)" "e_rid eb (n_tick sb + 2)"]
      msg1(1) msg2(1) msg3(1) by auto
  define f1 where "f1 = (Frame_new HANDSHAKE_INIT (e_rid ea (n_tick sa + 2)))\<lparr>frame_payload := serialize_handshake_init jl init\<rparr>"
  define f2 where "f2 = (Frame_new HANDSHAKE_RESPONSE (frame_request_id f1))\<lparr>frame_flags := IS_RESPONSE,
    frame_payload := serialize_handshake_response jl resp\<rparr>"
  note codecs = handshake_codecs_inverse [OF jl]
  obtain sa1 where sa1: "Node_initiate_handshake ea ca sa = (Inr (), sa1)"
    "write_queue (n_conns sa1 ca) = write_queue (n_conns sa ca) @ [Frame_serialize f1]" "sock_open (n_conns sa1 ca)"
    "n_pending_requests sa1 (frame_request_id f1) = Some (PendingHandshake ca (n_session_count sa) (n_timer_count sa))"
    "n_sessions sa1 (n_session_count sa) = a1" "tc_session (n_conns sa1 ca) = Some (n_session_count sa)"
    "n_keypair sa1 = n_keypair sa" "n_log sa1 = n_log sa"
    using handshake_initiated [OF opened(1), of ea init a1 f1] so(1) msg1(1) env f1_def by metis
  have f1: "\<not> flag_set (frame_flags f1) IS_RESPONSE" "frame_type f1 = HANDSHAKE_INIT" "deserialize_handshake_init (e_json eb) (frame_payload f1) = Some init"
    using codecs(1) [OF msg1(2)] env by (simp_all add: f1_def Frame_new_def Frame_default_def FLAG_NONE_def flag_set_def)
  obtain sb1 where sb1: "Node_on_frame eb cb f1 sb = (Inr (), sb1)"
    "write_queue (n_conns sb1 cb) = write_queue (n_conns sb cb) @ [Frame_serialize f2]"
    "n_sessions sb1 (n_session_count sb) = b1" "tc_session (n_conns sb1 cb) = Some (n_session_count sb)"
    using handshake_answered [OF opened(2) f1, of resp b1 f2] msg2(1) env f2_def by metis
  have f2: "flag_set (frame_flags f2) IS_RESPONSE" "frame_type f2 = HANDSHAKE_RESPONSE" "frame_request_id f2 = frame_request_id f1"
    "deserialize_handshake_response (e_json ea) (frame_payload f2) = Some resp"
    using codecs(2) [OF msg2(2)] env by (simp_all add: f2_def Frame_new_def IS_RESPONSE_def flag_set_def)
  obtain sa2 rid where sa2: "Node_on_frame ea ca f2 sa1 = (Inr (), sa2)"
    "write_queue (n_conns sa2 ca) = write_queue (n_conns sa1 ca) @
       [Frame_serialize ((Frame_new HANDSHAKE_COMPLETE rid)\<lparr>frame_payload := serialize_handshake_complete jl cmp\<rparr>)]"
    "n_sessions sa2 (n_session_count sa) = a2" "tc_session (n_conns sa2 ca) = Some (n_session_count sa)"
    "tc_peer_id (n_conns sa2 ca) = Some (ss_peer_node_id a2)" "n_log sa2 = n_log sa @ [HandshakeDone True]"
    using handshake_confirmed [OF sa1(3) _ f2(1,2) _ f2(4), of "n_session_count sa" "n_timer_count sa" cmp a2] so(1) msg3(1) env sa1 f2(3) by metis
  let ?f3 = "(Frame_new HANDSHAKE_COMPLETE rid)\<lparr>frame_payload := serialize_handshake_complete jl cmp\<rparr>"
  have f3: "\<not> flag_set (frame_flags ?f3) IS_RESPONSE" "frame_type ?f3 = HANDSHAKE_COMPLETE"
    "deserialize_handshake_complete (e_json eb) (frame_payload ?f3) = Some cmp"
    using codecs(3) [OF msg3(2)] env by (simp_all add: Frame_new_def Frame_default_def FLAG_NONE_def flag_set_def)
  obtain sb2 where sb2: "Node_on_frame eb cb ?f3 sb1 = (Inr (), sb2)" "n_sessions sb2 (n_session_count sb) = b2"
    "tc_session (n_conns sb2 cb) = Some (n_session_count sb)" "tc_peer_id (n_conns sb2 cb) = Some (ss_peer_node_id b2)"
    using handshake_completed [OF f3 sb1(4), of b2] b2 env sb1(3) by metis
  show ?thesis
    using sa1(1,2) sb1(1,2) sa2 sb2 sync ids env by (auto simp: Node_node_id_def intro!: exI)
qed

text \<open>A JSON library for three values, and two nodes that use it.\<close>

definition toy_json3 :: "json \<Rightarrow> json \<Rightarrow> json \<Rightarrow> json_lib" where
  "toy_json3 j1 j2 j3 = plain_json (\<lambda>j. if j = j1 then [1] else if j = j2 then [2] else [3])
     (\<lambda>b. if b = [1] then Some j1 else if b = [2] then Some j2 else if b = [3] then Some j3 else None)"

lemma toy_json3_roundtrip:
  "cbor_roundtrip (toy_json3 j1 j2 j3) j1" "cbor_roundtrip (toy_json3 j1 j2 j3) j2" "cbor_roundtrip (toy_json3 j1 j2 j3) j3"
  by (simp_all add: cbor_roundtrip_def toy_json3_def plain_json_def)

definition test_handshake_env :: "json_lib \<Rightarrow> u8 \<Rightarrow> env" where
  "test_handshake_env jl n = (test_env JNull JNull)\<lparr>e_json := jl, e_rand := \<lambda>_. barray_of [n]\<rparr>"

definition test_handshake_node :: "u8 \<Rightarrow> Node" where
  "test_handshake_node n = (Node_new Config_default)\<lparr>n_keypair := test_keys n\<rparr>"

theorem Node_handshake_end_to_end_witness:
  "\<exists>jl f1 f2 f3 sa1 sa2 sb1 sb2 ra rb.
    Node_initiate_handshake (test_handshake_env jl 1) 0 (test_handshake_node 5) = (Inr (), sa1) \<and>
    Node_on_frame (test_handshake_env jl 2) 0 f1 (test_handshake_node 6) = (Inr (), sb1) \<and>
    Node_on_frame (test_handshake_env jl 1) 0 f2 sa1 = (Inr (), sa2) \<and>
    Node_on_frame (test_handshake_env jl 2) 0 f3 sb1 = (Inr (), sb2) \<and> n_log sa2 = [HandshakeDone True] \<and>
    in_sync (n_sessions sa2 ra) (n_sessions sb2 rb)"
proof -
  let ?rid = "e_rid (test_env JNull JNull) 2"
  obtain init a1 resp b1 cmp a2 where
    hs: "initiate_handshake toy_sodium (barray_of [1]) (barray_of [1]) (test_keys 5) SecureSession_new = (Inr init, a1)"
      "process_handshake_init toy_sodium (barray_of [2]) (barray_of [2]) ?rid init (test_keys 6) SecureSession_new = (Inr (Some resp), b1)"
      "process_handshake_response toy_sodium resp (test_keys 5) a1 = (Inr (Some cmp), a2)"
    using honest_handshake [OF toy_sodium_ready toy_sodium_ed25519 toy_sodium_x25519 test_keys_generated [of 5] test_keys_generated [of 6]
        toy_base toy_base toy_shared, of "barray_of [1]" "barray_of [2]" ?rid] by blast
  define jl where "jl = toy_json3 (handshake_init_json init) (handshake_response_json resp) (handshake_complete_json cmp)"
  have laws: "json_laws jl" by (simp add: jl_def toy_json3_def plain_json_laws)
  have codecs: "cbor_roundtrip jl (handshake_init_json init)" "cbor_roundtrip jl (handshake_response_json resp)"
    "cbor_roundtrip jl (handshake_complete_json cmp)"
    by (simp_all add: jl_def toy_json3_roundtrip)
  let ?ea = "test_handshake_env jl 1" and ?eb = "test_handshake_env jl 2" and ?sa = "test_handshake_node 5" and ?sb = "test_handshake_node 6"
  have env: "e_sodium ?ea = toy_sodium" "e_sodium ?eb = toy_sodium" "e_json ?ea = jl" "e_json ?eb = jl"
    "e_rand ?ea t = barray_of [1]" "e_rand ?eb t = barray_of [2]" "e_rid ?eb = e_rid (test_env JNull JNull)" for t
    by (simp_all add: test_handshake_env_def test_env_def)
  have nodes: "sock_open (n_conns ?sa 0)" "sock_open (n_conns ?sb 0)" "n_keypair ?sa = test_keys 5" "n_keypair ?sb = test_keys 6"
    "n_tick ?sa = 0" "n_tick ?sb = 0" "n_log ?sa = []"
    by (simp_all add: test_handshake_node_def Node_new_def TcpConnection_create_def)
  have "\<exists>f1 f2 f3 sa1 sa2 sb1 sb2 ra rb.
    Node_initiate_handshake ?ea 0 ?sa = (Inr (), sa1) \<and> Node_on_frame ?eb 0 f1 ?sb = (Inr (), sb1) \<and> Node_on_frame ?ea 0 f2 sa1 = (Inr (), sa2) \<and>
    Node_on_frame ?eb 0 f3 sb1 = (Inr (), sb2) \<and> n_log sa2 = n_log ?sa @ [HandshakeDone True] \<and> in_sync (n_sessions sa2 ra) (n_sessions sb2 rb)"
    using Node_handshake_end_to_end [OF toy_sodium_ready toy_sodium_ed25519 toy_sodium_x25519 laws env(1-4) nodes(1,2),
        of "barray_of [5]" "barray_of [6]" "barray_of [1]" "barray_of [2]" _ init a1 resp b1 cmp a2]
      test_keys_generated toy_base toy_shared hs codecs by (simp add: env nodes numeral_2_eq_2) blast
  then show ?thesis unfolding nodes append_Nil by blast
qed

end
