(* ===== verification/Node_Total.thy ===== *)
theory Node_Total
  imports Node_Requests
begin

text \<open>
  The event loop of a started node does not throw, and hangs in one case only. \<open>lively m\<close> says that the operation \<open>m\<close> returns
  normally in every state of a started node, and leaves it started; the collection \<open>lively_intros\<close> has
  one rule per combinator and per operation. The only sources of exceptions behind a handler are
  libsodium and the JSON library: the first is assumed to work as documented (\<open>sodium_total\<close>),
  the exceptions of the second are all caught, whatever bytes a peer sends. asio is called with error
  codes; closing the socket of a failed connection attempt, the one exception, is taken to succeed.
\<close>

section \<open>Operations that return normally\<close>

text \<open>
  libsodium documents that signing, the base point multiplication and the encryption always succeed;
  a Diffie-Hellman exchange may fail, and so may the verification of a signature.
\<close>

definition sodium_total :: "sodium \<Rightarrow> bool" where
  "sodium_total so \<longleftrightarrow> sodium_ready so \<and> aead_correct so \<and>
     (\<forall>m sk. crypto_sign_ed25519_detached so m sk \<noteq> None) \<and> (\<forall>sk. crypto_scalarmult_base so sk \<noteq> None)"

lemma sodium_totalD: "sodium_total so \<Longrightarrow> sodium_ready so" "sodium_total so \<Longrightarrow> aead_correct so"
  by (simp_all add: sodium_total_def)

definition lively :: "'a node_op \<Rightarrow> bool" where
  "lively m \<longleftrightarrow> (\<forall>s. n_started s \<longrightarrow> (\<exists>x s'. m s = (Inr x, s') \<and> n_started s'))"

named_theorems lively_intros \<open>rules for showing that an operation returns normally\<close>

lemma livelyD: "lively m \<Longrightarrow> n_started s \<Longrightarrow> \<exists>x s'. m s = (Inr x, s') \<and> n_started s'"
  by (simp add: lively_def)

lemma lively_keeps: "lively m \<Longrightarrow> keeps n_started m"
  by (auto simp: lively_def keeps_def)

lemma lively_nothrow: "nothrow m \<Longrightarrow> keeps n_started m \<Longrightarrow> lively m"
  using nothrowD [of m] by (fastforce simp: lively_def keeps_def)

lemma lively_prims [lively_intros]: "lively (ret x)" "lively (gets f)" "lively (liftE (Inr x))" "lively (ask g)"
  by (simp_all add: lively_def eff_run ask_run)

lemma lively_modify: "(\<And>s. n_started (f s) = n_started s) \<Longrightarrow> lively (modify f)"
  by (simp add: lively_def modify_def)

lemma lively_bindE [lively_intros]: "lively m \<Longrightarrow> (\<And>x. lively (f x)) \<Longrightarrow> lively (bindE m f)"
  unfolding lively_def bindE_def by (fastforce split: prod.split)

lemma lively_thenE [lively_intros]: "lively m \<Longrightarrow> lively n \<Longrightarrow> lively (thenE m n)"
  unfolding thenE_def by (intro lively_bindE)

lemma lively_if [lively_intros]: "(c \<Longrightarrow> lively m) \<Longrightarrow> (\<not> c \<Longrightarrow> lively n) \<Longrightarrow> lively (if c then m else n)"
  by simp

lemma lively_whenE [lively_intros]: "lively m \<Longrightarrow> lively (whenE c m)"
  by (simp add: whenE_def lively_prims)

lemma lively_option [lively_intros]:
  "lively m \<Longrightarrow> (\<And>y. lively (f y)) \<Longrightarrow> lively (case x of None \<Rightarrow> m | Some y \<Rightarrow> f y)"
  by (cases x) simp_all

lemma lively_prod [lively_intros]: "(\<And>a b. lively (f a b)) \<Longrightarrow> lively (case x of (a, b) \<Rightarrow> f a b)"
  by (cases x) simp

lemma lively_Let [lively_intros]: "(\<And>y. lively (f y)) \<Longrightarrow> lively (let y = x in f y)"
  by simp

lemma lively_forE [lively_intros]: "(\<And>x. lively (body x)) \<Longrightarrow> lively (forE xs body)"
  by (induction xs) (auto intro: lively_intros)

lemma lively_tryE [lively_intros]: "keeps n_started m \<Longrightarrow> lively h \<Longrightarrow> lively (tryE m h)"
  unfolding lively_def tryE_def keeps_def by (fastforce split: prod.split sum.split)

section \<open>Connections, pings and contacts\<close>

lemma lively_local [lively_intros]:
  "lively (notify e)" "lively (new_timer a)" "lively (cancel_timer t)" "lively (update_conn cid f)"
  "lively (Node_on_disconnect cid)" "lively (new_connection ep)" "lively (Node_register_connection cid)"
  "lively (routing_touch env nid)" "lively (routing_remove nid)" "lively (Node_on_accept ep)" "lively (conn_close reason cid)"
  unfolding notify_def new_timer_def cancel_timer_def update_conn_def Node_on_disconnect_def new_connection_def
    Node_register_connection_def routing_touch_def routing_remove_def Node_on_accept_def conn_close_def
  by (intro lively_intros lively_modify; simp split: timer_state.split)+

lemma lively_store [lively_intros]: "lively (store_put env key r now)" "lively (store_get key now)"
  by (simp_all add: lively_def store_put_run store_get_run)

lemma lively_rid [lively_intros]: "sodium_total (e_sodium env) \<Longrightarrow> lively (generate_request_id env)"
  by (simp add: lively_def generate_request_id_def RequestID_generate_def sodium_total_def sodium_ready_def ask_run eff_run)

lemma lively_conn_send [lively_intros]: "sodium_total (e_sodium env) \<Longrightarrow> lively (conn_send env cid f)"
  by (intro lively_nothrow conn_send_nothrow sodium_totalD) (auto simp: keeps_def conn_send_def split: prod.split)

lemma lively_connect [lively_intros]: "lively (tcp_connect env addr)" "lively (connection_for env peer)"
  unfolding tcp_connect_def connection_for_def by (intro lively_intros)+

lemma lively_ping_result [lively_intros]: "lively (ping_result env cb ok)" "lively (run_ping_callback env p ok)"
  unfolding ping_result_def run_ping_callback_def by (auto intro!: lively_intros split: ping_callback.split)

lemma lively_pings [lively_intros]:
  assumes "sodium_total (e_sodium env)"
  shows "lively (Node_send_ping env cid expected cb)" "lively (ping_timeout env rid)" "lively (Node_ping_all env)"
    "lively (Node_connect_to_peer env h p)" "lively (Node_probe_lru_contact env lru)" "lively (Node_add_contact env peer)"
    "lively (Node_send_find_node env cid target)"
proof -
  show ping: "lively (Node_send_ping env cid expected cb)" for cid expected cb
    unfolding Node_send_ping_def by (intro lively_intros lively_modify assms) simp
  show "lively (ping_timeout env rid)" unfolding ping_timeout_def by (intro lively_intros lively_modify) simp
  show "lively (Node_ping_all env)" unfolding Node_ping_all_def by (intro lively_intros ping)
  show "lively (Node_connect_to_peer env h p)" unfolding Node_connect_to_peer_def by (intro lively_intros ping)
  show probe: "lively (Node_probe_lru_contact env lru)" for lru
    unfolding Node_probe_lru_contact_def by (intro lively_intros ping)
  show "lively (Node_add_contact env peer)" unfolding Node_add_contact_def by (intro lively_intros lively_modify probe) simp
  show "lively (Node_send_find_node env cid target)" unfolding Node_send_find_node_def by (intro lively_intros assms)
qed

section \<open>Lookups, publications, searches\<close>

lemma lively_send_request [lively_intros]: "sodium_total (e_sodium env) \<Longrightarrow> lively (send_request env cid t pl tm pn)"
  unfolding send_request_def by (intro lively_intros lively_modify) simp_all

lemma lively_queries [lively_intros]:
  assumes "sodium_total (e_sodium env)"
  shows "lively (query_find_node env L nid cid)" "lively (query_store env Q key r nid cid)" "lively (query_find_value env V nid cid)"
  unfolding query_find_node_def query_store_def query_find_value_def by (intro lively_intros assms)+

lemma lively_sessions [lively_intros]:
  "lively (set_lookup L ls)" "lively (lookup_failure env L nid)" "lively (lookup_response env L nid peers)"
  "lively (update_publish Q f)" "lively (update_find V g)" "lively (find_failure env V nid)" "lively (find_response env V nid peers)"
  "lively (find_finish V r)"
  unfolding set_lookup_def lookup_failure_def lookup_response_def update_publish_def update_find_def find_failure_def find_response_def
    find_finish_def notify_def
  by (intro lively_intros lively_modify; simp)+

lemma lively_lookup_step [lively_intros]:
  assumes "sodium_total (e_sodium env)" "\<And>ps m. lively (finish ps m)"
  shows "lively (lookup_step n env finish L)"
  by (induction n) (auto intro!: lively_intros assms split: prod.split)

lemma lively_lookup [lively_intros]:
  assumes "sodium_total (e_sodium env)" "\<And>ps m. lively (finish ps m)"
  shows "lively (lookup_run env finish L)" "lively (Node_async_lookup env cb finish target)"
  unfolding lookup_run_def Node_async_lookup_def new_session_def by (intro lively_intros lively_modify assms; simp)+

lemma lively_settled [lively_intros]: "(\<And>ok acks. lively (finish ok acks)) \<Longrightarrow> lively (keeper_settled finish Q acked)"
  unfolding keeper_settled_def by (intro lively_intros)

lemma lively_keepers [lively_intros]:
  assumes "sodium_total (e_sodium env)" "\<And>ok acks. lively (finish ok acks)"
  shows "lively (store_at_keepers env cb finish key r closest)" "lively (publish_with env cb finish key r)"
proof -
  show at: "lively (store_at_keepers env cb finish key r closest)" for closest
    unfolding store_at_keepers_def by (intro lively_intros lively_modify assms) simp
  show "lively (publish_with env cb finish key r)"
    unfolding publish_with_def by (intro lively_intros at assms)
qed

lemma lively_leaf [lively_intros]: "lively (leaf_done l ok acks)"
  by (cases l) (auto intro: lively_intros)

lemma lively_publish_done [lively_intros]: "sodium_total (e_sodium env) \<Longrightarrow> lively (publish_done env cb ok acks)"
  by (cases cb) (auto intro!: lively_intros)

lemma lively_sign: "sodium_total so \<Longrightarrow> \<exists>sig. Keypair_sign so m kp = Inr sig"
  by (auto simp: Keypair_sign_def sodium_total_def split: option.split)

lemma lively_create_self_record [lively_intros]:
  assumes "sodium_total (e_sodium env)"
  shows "lively (Node_create_self_record env a)"
proof -
  have "\<forall>kp r. \<exists>r'. NodeRecord_sign (e_sodium env) kp r = Inr r'"
    using lively_sign [OF assms] by (metis NodeRecord_sign_def throw_bind_simps(1))
  then obtain sg where "\<And>kp r. NodeRecord_sign (e_sodium env) kp r = Inr (sg kp r)" by metis
  then show ?thesis
    by (simp add: lively_def Node_create_self_record_def bindE_def thenE_run gets_def modify_def liftE_def ask_run whenE_run ret_def)
qed

lemma lively_publishing [lively_intros]:
  assumes "sodium_total (e_sodium env)"
  shows "lively (Node_publish_record env cb key r)" "lively (Node_publish_self_record env a)" "lively (lookup_done env lcb closest m)"
    "lively (lookup_resume env L)" "lively (on_lookup_timeout env L nid rid)" "lively (publish_resume env Q acked)"
    "lively (on_store_timeout env Q rid)" "lively (on_store_reply env Q t f)"
proof -
  show rec: "lively (Node_publish_record env cb key r)" for cb key r
    unfolding Node_publish_record_def by (intro lively_intros assms)
  show "lively (Node_publish_self_record env a)"
    unfolding Node_publish_self_record_def by (intro lively_intros rec assms)
  show ldone: "lively (lookup_done env lcb closest m)" for lcb closest m
    unfolding lookup_done_def by (cases lcb) (auto intro!: lively_intros assms)
  show resume: "lively (lookup_resume env L)" unfolding lookup_resume_def by (intro lively_intros ldone assms)
  show "lively (on_lookup_timeout env L nid rid)"
    unfolding on_lookup_timeout_def by (intro lively_intros lively_modify resume) simp
  show pres: "lively (publish_resume env Q acked)" for acked unfolding publish_resume_def by (intro lively_intros assms)
  show "lively (on_store_timeout env Q rid)" unfolding on_store_timeout_def by (intro lively_intros lively_modify pres) simp
  show "lively (on_store_reply env Q t f)" unfolding on_store_reply_def by (intro lively_intros pres)
qed

lemma lively_find_step [lively_intros]:
  assumes "sodium_total (e_sodium env)"
  shows "lively (find_step n env V)"
  by (induction n) (auto intro!: lively_intros assms split: prod.split option.split)

lemma lively_finds [lively_intros]:
  assumes "sodium_total (e_sodium env)"
  shows "lively (find_run env V)" "lively (Node_async_find_value env key)" "lively (Node_async_resolve_alias env a)"
    "lively (on_find_timeout env V nid rid)" "lively (on_find_reply env V nid t f)"
  unfolding Node_async_resolve_alias_def Node_async_find_value_def new_session_def find_run_def on_find_timeout_def on_find_reply_def
  by (auto intro!: lively_intros lively_modify assms split: option.split bool.split)

section \<open>Handshakes\<close>

lemma lively_session_call:
  "(\<And>ses. \<exists>x ses'. f ses = (Inr x, ses')) \<Longrightarrow> lively (session_call r f)"
  unfolding lively_def
proof (intro allI impI)
  fix s :: Node assume f: "\<And>ses. \<exists>x ses'. f ses = (Inr x, ses')" and s: "n_started s"
  obtain x ses' where "f (n_sessions s r) = (Inr x, ses')" using f by blast
  with s show "\<exists>x s'. session_call r f s = (Inr x, s') \<and> n_started s'" by (simp add: session_call_def eff_run)
qed

lemma ake_total:
  assumes "sodium_total so"
  shows "\<exists>eph. X25519Keypair_generate so rand = Inr eph" "generate_nonce so rand = Inr rand" "RequestID_generate so sid = Inr sid"
    "\<exists>dh. x25519_diffie_hellman so sk pk = Inr dh" "\<exists>keys. derive_session_keys so shared na nb = Inr keys"
  using assms
  by (auto simp: sodium_total_def ensure_ready X25519Keypair_generate_def generate_nonce_def RequestID_generate_def sodium_ready_def
      x25519_diffie_hellman_def derive_session_keys_def hkdf_extract_def hmac_sha256_def hkdf_expand_def Let_def split: option.split)

lemma handshakes_total:
  assumes "sodium_total so"
  shows "\<exists>x ses'. initiate_handshake so eph nonce kp ses = (Inr x, ses')"
    "\<exists>x ses'. process_handshake_response so resp kp ses = (Inr x, ses')"
    "\<exists>x ses'. process_handshake_init so eph nonce sid init kp ses = (Inr x, ses')"
proof -
  obtain gen where gen: "\<And>rand. X25519Keypair_generate so rand = Inr (gen rand)" using ake_total(1) [OF assms] by metis
  obtain dh where dh: "\<And>sk pk. x25519_diffie_hellman so sk pk = Inr (dh sk pk)" using ake_total(4) [OF assms] by metis
  obtain ks where ks: "\<And>sh na nb. derive_session_keys so sh na nb = Inr (ks sh na nb)" using ake_total(5) [OF assms] by metis
  obtain sg where sg: "\<And>m kp. Keypair_sign so m kp = Inr (sg m kp)" using lively_sign [OF assms] by metis
  note total_simps = gen dh ks sg ake_total(2,3) [OF assms] Let_def
  show "\<exists>x ses'. initiate_handshake so eph nonce kp ses = (Inr x, ses')" by (simp add: initiate_handshake_def total_simps)
  show "\<exists>x ses'. process_handshake_response so resp kp ses = (Inr x, ses')"
    by (simp add: process_handshake_response_def total_simps split: SessionState.split option.split)
  show "\<exists>x ses'. process_handshake_init so eph nonce sid init kp ses = (Inr x, ses')"
    by (simp add: process_handshake_init_def total_simps split: option.split)
qed

lemma lively_handshakes [lively_intros]:
  assumes "sodium_total (e_sodium env)"
  shows "lively new_secure_session" "lively (Node_initiate_handshake env cid)" "lively (on_handshake_reply env cid r t f)"
    "lively (on_handshake_timeout rid)" "lively (respond env cid f mt pl)" "lively (on_handshake_init env cid f)"
    "lively (on_handshake_complete env cid f)"
proof -
  show new: "lively new_secure_session" unfolding new_secure_session_def by (intro lively_intros lively_modify) simp
  show "lively (on_handshake_timeout rid)" unfolding on_handshake_timeout_def by (intro lively_intros lively_modify) simp
  show resp: "lively (respond env cid f mt pl)" for mt pl unfolding respond_def by (intro lively_intros assms)
  note calls = lively_session_call [OF handshakes_total(1) [OF assms]] lively_session_call [OF handshakes_total(2) [OF assms]]
    lively_session_call [OF handshakes_total(3) [OF assms]]
  show "lively (Node_initiate_handshake env cid)"
    unfolding Node_initiate_handshake_def by (intro lively_intros new calls assms)
  show "lively (on_handshake_reply env cid r t f)"
    unfolding on_handshake_reply_def by (intro lively_intros calls assms)
  show "lively (on_handshake_init env cid f)"
    unfolding on_handshake_init_def by (intro lively_intros new resp calls assms)
  show "lively (on_handshake_complete env cid f)"
    unfolding on_handshake_complete_def by (intro lively_intros lively_session_call) (simp split: prod.split)
qed

section \<open>Frames, timers, the event loop\<close>

lemma started_accept_peer:
  assumes "sodium_total (e_sodium env)"
  shows "keeps n_started (accept_peer env cid j nid)"
  unfolding accept_peer_def by (intro keeps_intros lively_keeps lively_intros assms)

lemma lively_ping_pong [lively_intros]:
  assumes "sodium_total (e_sodium env)"
  shows "lively (on_ping env cid f)" "lively (on_pong env cid f)"
proof -
  note acc = started_accept_peer [OF assms]
  note close = lively_keeps [OF lively_local(11)]
  note send = lively_keeps [OF lively_conn_send [OF assms]]
  note call = lively_keeps [OF lively_ping_result(2)]
  show "lively (on_ping env cid f)"
    unfolding on_ping_def
    by (intro lively_intros keeps_bindE keeps_liftE) (auto split: identity_claim.split intro!: keeps_thenE keeps_bindE keeps_gets acc close send)
  show "lively (on_pong env cid f)"
    unfolding on_pong_def
    by (intro lively_intros lively_modify keeps_bindE keeps_liftE)
      (auto split: identity_claim.split intro!: keeps_thenE keeps_if acc close call)
qed

lemma lively_requests [lively_intros]:
  assumes "sodium_total (e_sodium env)"
  shows "lively (on_find_node_request env cid f)" "lively (on_find_node_response env f)" "lively (on_store_request env cid f)"
    "lively (on_find_value_request env cid f)" "lively (on_lookup_reply env L nid t f)"
  unfolding on_find_node_request_def on_find_node_response_def on_store_request_def on_find_value_request_def on_lookup_reply_def
  by (intro lively_intros assms)+

lemma lively_on_frame [lively_intros]:
  assumes "sodium_total (e_sodium env)"
  shows "lively (Node_on_frame env cid f)"
proof -
  have "lively (run_pending env p f)" for p
    unfolding run_pending_def by (cases p) (auto intro!: lively_intros assms)
  moreover have "lively (dispatch_frame env cid f)" unfolding dispatch_frame_def by (intro lively_intros assms)
  moreover have "lively (take_pending f)" unfolding take_pending_def by (intro lively_intros lively_modify) simp
  ultimately show ?thesis unfolding Node_on_frame_def by (intro lively_intros)
qed

lemma round_not_thrown:
  assumes "sodium_ready so"
  shows "process_incoming_round so st \<noteq> (Thrown e, st')"
proof -
  have "decrypt_frame so f ses \<noteq> Some (Inl x, f', ses')" for f ses x f' ses'
    using assms by (auto simp: decrypt_frame_def chacha20_poly1305_decrypt_def ensure_ready Let_def split: option.splits if_splits)
  then show ?thesis
    by (cases st) (auto simp: process_incoming_round_def drop_connection_def Let_def split: prod.splits sum.splits option.splits if_splits)
qed

lemma lively_conn_incoming [lively_intros]:
  assumes "sodium_total (e_sodium env)"
  shows "lively (conn_incoming n env cid)"
proof (induction n)
  case (Suc n)
  show ?case unfolding lively_def
  proof (intro allI impI)
    fix s :: Node assume s: "n_started s"
    obtain i ss c where rd: "process_incoming_round (e_sodium env) (n_sessions s, n_conns s cid) = (i, ss, c)"
      by (cases "process_incoming_round (e_sodium env) (n_sessions s, n_conns s cid)") auto
    let ?s1 = "s\<lparr>n_sessions := ss, n_conns := (n_conns s)(cid := c)\<rparr>"
    have "lively (case i of Deliver f \<Rightarrow> thenE (Node_on_frame env cid f) (conn_incoming n env cid)
      | Need_more \<Rightarrow> ret () | Dropped d \<Rightarrow> whenE (d \<noteq> None) (Node_on_disconnect cid) | Ignored \<Rightarrow> conn_incoming n env cid
      | Thrown e \<Rightarrow> liftE (Inl e) | Hangs \<Rightarrow> modify (\<lambda>s. s\<lparr>n_hangs := True\<rparr>))"
      using rd round_not_thrown [OF sodium_totalD(1) [OF assms]]
      by (cases i) (auto intro!: lively_intros lively_modify Suc.IH assms)
    from livelyD [OF this, of ?s1] s rd show "\<exists>x s'. conn_incoming (Suc n) env cid s = (Inr x, s') \<and> n_started s'"
      by (simp add: bindE_gets thenE_run modify_def)
  qed
qed (simp add: lively_prims)

lemma lively_timer [lively_intros]:
  assumes "sodium_total (e_sodium env)"
  shows "lively (timer_expires t)" "lively (timer_runs env t)"
proof -
  show "lively (timer_expires t)" unfolding timer_expires_def by (rule lively_modify) (simp split: timer_state.split)
  have sched: "lively Node_schedule_purge" "lively Node_schedule_republish"
    unfolding Node_schedule_purge_def Node_schedule_republish_def by (intro lively_intros lively_modify; simp)+
  have "lively (run_timer env a)" for a
    unfolding run_timer_def purge_tick_def republish_tick_def
    by (cases a) (auto intro!: lively_intros lively_modify sched assms)
  then show "lively (timer_runs env t)"
    unfolding timer_runs_def by (auto intro!: lively_intros lively_modify split: timer_state.split)
qed

lemma lively_connection [lively_intros]:
  assumes "sodium_total (e_sodium env)"
  shows "lively (conn_read env cid r)" "lively (conn_written cid ec)" "lively (conn_io_timer cid)" "lively (accept_completed ar)"
    "lively Node_stop"
  unfolding conn_read_def conn_written_def conn_io_timer_def accept_completed_def Node_stop_def update_listener_def
  by (intro lively_intros lively_modify assms; simp)+

lemma lively_use [lively_intros]: "lively (use_table env u)" "lively (use_store env op)"
  unfolding use_table_def use_store_def by (cases u) (auto intro!: lively_intros lively_modify)

lemma lively_handle: "sodium_total (e_sodium env) \<Longrightarrow> lively (Node_handle env ev)"
  unfolding Node_handle_def by (cases ev) (auto intro!: lively_intros)


lemma toy_sodium_total: "sodium_total toy_sodium"
  using toy_sodium_ready toy_sodium_aead by (simp add: sodium_total_def) (simp add: toy_sodium_def)


end
