(* ===== verification/Routing_Json.thy ===== *)
theory Routing_Json
  imports Routing_Table Json Sodium
begin

text \<open>
  Model of \<^verbatim>\<open>RoutingTable::to_json\<close> (\<^verbatim>\<open>src/dht/routing_table.cpp\<close>): the JSON export of a routing table,
  which \<^verbatim>\<open>main.cpp\<close> prints or stores when the node ends. \<^verbatim>\<open>json::dump\<close> belongs to the JSON library: it is
  a parameter, and may throw (a host name that is not UTF-8 makes it throw). The loop over the
  buckets and its counter are as in the source; \<open>std::size_t\<close> values are 64-bit.
\<close>

section \<open>Export\<close>

definition contact_json :: "PeerInfo \<Rightarrow> json" where
  "contact_json p = json_obj
     [(''node_id'', JString (NodeID_to_hex (peer_node_id p))),
      (''host'', JString (host (peer_address p))),
      (''port'', JUInt (ucast (port (peer_address p))))]"

definition bucket_json :: "nat \<Rightarrow> KBucket \<Rightarrow> json" where
  "bucket_json i b = json_obj
     [(''bucket_index'', JUInt (of_nat i)),
      (''size'', JUInt (of_nat (KBucket_size b))),
      (''replacements'', JUInt (of_nat (KBucket_replacement_count b))),
      (''contacts'', JArray (map contact_json (KBucket_get_peers b)))]"

fun buckets_loop :: "nat \<Rightarrow> KBucket list \<Rightarrow> json list \<Rightarrow> nat \<Rightarrow> json list \<times> nat" where
  "buckets_loop i [] buckets_arr n = (buckets_arr, n)"
| "buckets_loop i (b # bs) buckets_arr n =
     (if KBucket_size b = 0 then buckets_loop (i + 1) bs buckets_arr n
      else buckets_loop (i + 1) bs (buckets_arr @ [bucket_json i b]) (n + length (KBucket_get_peers b)))"

definition RoutingTable_json :: "RoutingTable \<Rightarrow> json" where
  "RoutingTable_json rt =
     (let (buckets_arr, n) = buckets_loop 0 (buckets rt) [] 0
      in json_obj
        [(''local_id'', JString (NodeID_to_hex (local_id rt))),
         (''k'', JUInt (of_nat (k_param rt))),
         (''total_contacts'', JUInt (of_nat n)),
         (''active_buckets'', JArray buckets_arr)])"

definition RoutingTable_to_json :: "(json \<Rightarrow> string throwing) \<Rightarrow> RoutingTable \<Rightarrow> string throwing" where
  "RoutingTable_to_json dump2 rt = dump2 (RoutingTable_json rt)"

section \<open>Reading an export\<close>

text \<open>What a consumer of the export reads: the contacts of every bucket that is listed, with its index.\<close>

definition read_contact :: "json_lib \<Rightarrow> json \<Rightarrow> PeerInfo option" where
  "read_contact jl j = do {
     hex \<leftarrow> get_string jl (j_at jl j ''node_id'');
     nid \<leftarrow> parse_NodeID hex;
     h \<leftarrow> get_string jl (j_at jl j ''host'');
     p \<leftarrow> get_u16 jl (j_at jl j ''port'');
     Some \<lparr>peer_node_id = nid, peer_address = \<lparr>host = h, port = p\<rparr>\<rparr> }"

definition read_bucket :: "json_lib \<Rightarrow> json \<Rightarrow> (u64 \<times> PeerInfo list) option" where
  "read_bucket jl j = do {
     i \<leftarrow> get_u64 jl (j_at jl j ''bucket_index'');
     ps \<leftarrow> those (map (read_contact jl) (j_items jl (j_at jl j ''contacts'')));
     Some (i, ps) }"

definition read_table :: "json_lib \<Rightarrow> json \<Rightarrow> (NodeID \<times> u64 \<times> u64 \<times> (u64 \<times> PeerInfo list) list) option" where
  "read_table jl j = do {
     hex \<leftarrow> get_string jl (j_at jl j ''local_id'');
     lid \<leftarrow> parse_NodeID hex;
     k \<leftarrow> get_u64 jl (j_at jl j ''k'');
     n \<leftarrow> get_u64 jl (j_at jl j ''total_contacts'');
     bs \<leftarrow> those (map (read_bucket jl) (j_items jl (j_at jl j ''active_buckets'')));
     Some (lid, k, n, bs) }"

definition active_buckets :: "RoutingTable \<Rightarrow> (nat \<times> KBucket) list" where
  "active_buckets rt = filter (\<lambda>(i, b). KBucket_get_peers b \<noteq> []) (enumerate 0 (buckets rt))"

lemma those_map_Some: "(\<And>x. x \<in> set xs \<Longrightarrow> f x = Some (g x)) \<Longrightarrow> those (map f xs) = Some (map g xs)"
  by (induction xs) auto

lemma read_contact_json: "json_laws jl \<Longrightarrow> read_contact jl (contact_json p) = Some p"
  by (simp add: read_contact_def contact_json_def json_law_simps)

lemma read_bucket_json: "json_laws jl \<Longrightarrow> read_bucket jl (bucket_json i b) = Some (of_nat i, KBucket_get_peers b)"
  using those_map_Some [of "KBucket_get_peers b" "\<lambda>p. read_contact jl (contact_json p)" id]
  by (simp add: read_bucket_def bucket_json_def json_law_simps read_contact_json comp_def)

lemma KBucket_size_peers: "KBucket_size b = length (KBucket_get_peers b)"
  by (simp add: KBucket_size_def KBucket_get_peers_def)

lemma buckets_loop_eq:
  "buckets_loop i bs arr n =
     (arr @ map (\<lambda>(i, b). bucket_json i b) (filter (\<lambda>(i, b). KBucket_get_peers b \<noteq> []) (enumerate i bs)),
      n + length (concat (map KBucket_get_peers bs)))"
  by (induction i bs arr n rule: buckets_loop.induct) (simp_all add: KBucket_size_peers)

lemma concat_active: "concat (map (\<lambda>(i, b). KBucket_get_peers b) (filter (\<lambda>(i, b). KBucket_get_peers b \<noteq> []) (enumerate n bs))) =
    concat (map KBucket_get_peers bs)"
  by (induction bs arbitrary: n) simp_all

lemma RoutingTable_json_eq:
  "RoutingTable_json rt = json_obj
     [(''local_id'', JString (NodeID_to_hex (local_id rt))), (''k'', JUInt (of_nat (k_param rt))),
      (''total_contacts'', JUInt (of_nat (length (RoutingTable_peers rt)))),
      (''active_buckets'', JArray (map (\<lambda>(i, b). bucket_json i b) (active_buckets rt)))]"
  by (simp add: RoutingTable_json_def buckets_loop_eq active_buckets_def RoutingTable_peers_def)

lemma read_RoutingTable_json:
  assumes "json_laws jl"
  shows "read_table jl (RoutingTable_json rt) =
    Some (local_id rt, of_nat (k_param rt), of_nat (length (RoutingTable_peers rt)),
      map (\<lambda>(i, b). (of_nat i, KBucket_get_peers b)) (active_buckets rt))"
  using assms those_map_Some [of "active_buckets rt" "\<lambda>x. read_bucket jl (case x of (i, b) \<Rightarrow> bucket_json i b)"
      "\<lambda>(i, b). (of_nat i, KBucket_get_peers b)"]
  by (simp add: read_table_def RoutingTable_json_eq json_law_simps read_bucket_json comp_def split: prod.split)

lemma total_contacts_peers: "RoutingTable_total_contacts rt = length (RoutingTable_peers rt)"
proof -
  have "foldl (\<lambda>n b. n + KBucket_size b) m bs = m + length (concat (map KBucket_get_peers bs))" for m bs
    by (induction bs arbitrary: m) (simp_all add: KBucket_size_peers)
  then show ?thesis by (simp add: RoutingTable_total_contacts_def RoutingTable_peers_def)
qed

lemma active_bucket:
  assumes "RoutingTable_wf rt" "(i, b) \<in> set (active_buckets rt)"
  shows "i < NUM_BUCKETS" "KBucket_get_peers b \<noteq> []" "length (KBucket_get_peers b) \<le> k_param rt"
    "\<And>p. p \<in> set (KBucket_get_peers b) \<Longrightarrow> bucket_index (local_id rt) (peer_node_id p) = int i"
proof -
  have ok: "kb.table_ok (rt_place (local_id rt)) NUM_BUCKETS (buckets rt)" and cap: "\<forall>b \<in> set (buckets rt). capacity b = k_param rt"
    using assms(1) by (auto simp: RoutingTable_wf_def)
  have i: "i < NUM_BUCKETS" "b = buckets rt ! i" and ne: "KBucket_get_peers b \<noteq> []"
    using assms(2) ok by (auto simp: active_buckets_def kb.table_ok_def in_set_enumerate_eq)
  show "i < NUM_BUCKETS" "KBucket_get_peers b \<noteq> []" by fact+
  have wf: "KBucket_wf b" using ok i by (simp add: kb.table_ok_def)
  have "b \<in> set (buckets rt)" using ok i by (simp add: kb.table_ok_def)
  with wf cap show "length (KBucket_get_peers b) \<le> k_param rt" by (auto simp: KBucket_wf_def KBucket_get_peers_def)
  show "bucket_index (local_id rt) (peer_node_id p) = int i" if "p \<in> set (KBucket_get_peers b)" for p
  proof -
    have "rt_place (local_id rt) (peer_node_id p) = i" using ok i kb.peers_known [OF that] by (auto simp: kb.table_ok_def)
    with i(1) bucket_index_range [of "local_id rt" "peer_node_id p"] show ?thesis by (auto simp: rt_place_def split: if_splits)
  qed
qed

section \<open>Property\<close>

text \<open>
  C39. The export of a routing table is complete. What a reader of the JSON value gets is the identifier
  of the node, its bucket size, and for every non-empty bucket, in ascending order, its index and its
  contacts: together they are the contacts of the table, in order; every contact is listed under the
  index of the bucket it belongs to by its distance; no bucket is listed that is empty or holds more than
  \<open>k\<close> contacts; and \<^verbatim>\<open>total_contacts\<close> is what \<^verbatim>\<open>total_contacts()\<close> returns.
\<close>

theorem RoutingTable_json_complete:
  assumes "RoutingTable_wf rt" "json_laws jl"
  shows "\<exists>bs. read_table jl (RoutingTable_json rt) =
      Some (local_id rt, of_nat (k_param rt), of_nat (RoutingTable_total_contacts rt), bs) \<and>
    concat (map snd bs) = RoutingTable_peers rt \<and> sorted_wrt (<) (map fst bs) \<and>
    (\<forall>(i, ps) \<in> set bs. ps \<noteq> [] \<and> length ps \<le> k_param rt \<and>
       (\<forall>p \<in> set ps. bucket_index (local_id rt) (peer_node_id p) = uint i))"
proof (intro exI conjI)
  let ?bs = "map (\<lambda>(i, b). (of_nat i :: u64, KBucket_get_peers b)) (active_buckets rt)"
  show "read_table jl (RoutingTable_json rt) =
      Some (local_id rt, of_nat (k_param rt), of_nat (RoutingTable_total_contacts rt), ?bs)"
    using read_RoutingTable_json [OF assms(2)] by (simp add: total_contacts_peers)
  show "concat (map snd ?bs) = RoutingTable_peers rt"
    using concat_active [of 0 "buckets rt"] by (simp add: active_buckets_def RoutingTable_peers_def comp_def split_def)
  have small: "uint (of_nat i :: u64) = int i" if "i < NUM_BUCKETS" for i
    using that by (simp add: unsigned_of_nat take_bit_eq_mod NUM_BUCKETS_def)
  have "sorted_wrt (<) (map fst (enumerate 0 (buckets rt)))" by simp
  then have "sorted_wrt (\<lambda>x y. fst x < fst y) (active_buckets rt)"
    unfolding active_buckets_def sorted_wrt_map by (rule sorted_wrt_filter)
  then show "sorted_wrt (<) (map fst ?bs)"
    using active_bucket(1) [OF assms(1)] small
    by (auto simp: sorted_wrt_map split_def word_less_def elim!: sorted_wrt_mono_rel [rotated])
  show "\<forall>(i, ps) \<in> set ?bs. ps \<noteq> [] \<and> length ps \<le> k_param rt \<and>
       (\<forall>p \<in> set ps. bucket_index (local_id rt) (peer_node_id p) = uint i)"
    using active_bucket [OF assms(1)] small by fastforce
qed

theorem RoutingTable_json_complete_witness:
  "\<exists>bs. read_table (toy_json JNull) (RoutingTable_json test_table) =
      Some (local_id test_table, of_nat (k_param test_table), of_nat (RoutingTable_total_contacts test_table), bs) \<and>
    concat (map snd bs) = RoutingTable_peers test_table"
  using RoutingTable_json_complete [OF _ toy_json_laws, of test_table] RoutingTable_reachable_wf [OF test_table_reachable] by blast

end
