(* ===== verification/Main_Program.thy ===== *)
theory Main_Program
  imports Node_Total Routing_Json
begin

text \<open>
  Model of \<^verbatim>\<open>main\<close> (\<^verbatim>\<open>src/main.cpp\<close>): logging, start-up, the event loop with the signal handler and the thread
  that ends the program after \<^verbatim>\<open>--duration\<close> seconds, and the export of the routing table. \<open>main_program\<close>
  returns what the program does in given surroundings: how it ends (\<open>Terminated\<close> is \<^verbatim>\<open>std::terminate\<close>
  after an exception that nothing catches, or because a joinable thread is destroyed; \<open>Running\<close> means that the
  events given do not end it), what it prints, and the files it writes. The texts of the log are left out.

  \<open>Completion\<close> is an event that the loop handles, \<open>Signal\<close> a SIGINT or SIGTERM, \<open>DurationOver\<close> the end of
  the sleep of the timer thread, which has no effect without \<^verbatim>\<open>--duration\<close>; the last two call \<^verbatim>\<open>Node::stop\<close>,
  which does not throw (\<open>lively_connection\<close>).
\<close>

section \<open>Logging\<close>

datatype spdlog_level = level_trace | level_debug | level_info | level_warn | level_err | level_critical

definition setup_logging :: "string \<Rightarrow> spdlog_level" where
  "setup_logging level =
     (if level = ''trace'' then level_trace
      else if level = ''debug'' then level_debug
      else if level = ''info'' then level_info
      else if level = ''warn'' then level_warn
      else if level = ''error'' then level_err
      else if level = ''critical'' then level_critical
      else level_info)"

section \<open>The event loop\<close>

datatype main_event = Completion node_event | Signal | DurationOver

text \<open>What an event does; \<open>duration\<close> is the option's value, and without it there is no timer thread.\<close>

definition main_step :: "env \<Rightarrow> int \<Rightarrow> main_event \<Rightarrow> unit node_op" where
  "main_step env duration ev =
     (case ev of
        Completion e \<Rightarrow> Node_handle env e
      | Signal \<Rightarrow> Node_handle env CallStop
      | DurationOver \<Rightarrow> whenE (0 < duration) (Node_handle env CallStop))"

text \<open>
  \<^verbatim>\<open>Node::run\<close> on the events that happen, in their order: \<open>None\<close> when it has not returned after them,
  otherwise its result, and whether the timer thread has ended by then.
\<close>

primrec Node_run ::
  "env \<Rightarrow> int \<Rightarrow> main_event list \<Rightarrow> bool \<Rightarrow> Node \<Rightarrow> (unit throwing \<times> bool) option \<times> Node" where
  "Node_run env duration [] over s = (if n_stopped s then Some (Inr (), over) else None, s)"
| "Node_run env duration (ev # evs) over s =
     (if n_stopped s then (Some (Inr (), over), s)
      else if n_hangs s then (None, s)
      else case main_step env duration ev s of
        (Inl e, s') \<Rightarrow> (Some (Inl e, over), s')
      | (Inr _, s') \<Rightarrow> Node_run env duration evs (over \<or> ev = DurationOver) s')"

section \<open>The export of the routing table\<close>

definition Node_export_routing_table_json :: "(json \<Rightarrow> string throwing) \<Rightarrow> Node \<Rightarrow> string throwing" where
  "Node_export_routing_table_json dump2 s =
     (if \<not> n_started s then Inr ''{}'' else RoutingTable_to_json dump2 (n_routing s))"

text \<open>\<^verbatim>\<open>path::parent_path\<close>: what precedes the last separators; empty when there is none.\<close>

definition parent_path :: "string \<Rightarrow> string" where
  "parent_path p =
     (let dir = rev (dropWhile (\<lambda>c. c \<noteq> CHR ''/'') (rev p));
          stripped = rev (dropWhile (\<lambda>c. c = CHR ''/'') (rev dir))
      in if stripped = [] \<and> dir \<noteq> [] then ''/'' else stripped)"

record machine =
  m_env :: env
  m_fs :: filesystem
  m_toml :: toml_lib
  m_events :: "main_event list"
  m_dump :: "json \<Rightarrow> string throwing"
  m_create_directories :: "string \<Rightarrow> unit throwing"
  m_can_open :: "string \<Rightarrow> bool"

datatype program_end = Exit int | Terminated | Running

record program =
  p_end :: program_end
  p_stdout :: string
  p_files :: "(string \<times> string) list"
  p_level :: spdlog_level

definition dump_start :: string where
  "dump_start = [CHR 0x0A] @ ''--- ROUTING_TABLE_JSON_START ---'' @ [CHR 0x0A]"

definition dump_end :: string where
  "dump_end = [CHR 0x0A] @ ''--- ROUTING_TABLE_JSON_END ---'' @ [CHR 0x0A]"

text \<open>
  The block after the event loop, with the exit code: an exception while printing reaches the outer
  handler; one while writing a file is caught, and the file, if it was opened, stays empty.
\<close>

definition dump_routing :: "machine \<Rightarrow> string \<Rightarrow> Node \<Rightarrow> int \<times> string \<times> (string \<times> string) list" where
  "dump_routing m path s =
     (if path = [] then (0, [], [])
      else if path = ''-''
      then (case Node_export_routing_table_json (m_dump m) s of
              Inl e \<Rightarrow> (1, dump_start, [])
            | Inr txt \<Rightarrow> (0, dump_start @ txt @ dump_end, []))
      else case (if parent_path path \<noteq> [] then m_create_directories m (parent_path path) else Inr ()) of
          Inl e \<Rightarrow> (0, [], [])
        | Inr _ \<Rightarrow>
            if \<not> m_can_open m path then (0, [], [])
            else case Node_export_routing_table_json (m_dump m) s of
              Inl e \<Rightarrow> (0, [], [(path, [])])
            | Inr txt \<Rightarrow> (0, [], [(path, txt)]))"

section \<open>The program\<close>

text \<open>
  The try block. The timer thread exists from the start of the loop on; when the loop throws, its
  destructor ends the program. After the loop it is joined: if it has not stopped the node yet,
  it does so then.
\<close>

definition run_node :: "machine \<Rightarrow> options \<Rightarrow> Config \<Rightarrow> spdlog_level \<Rightarrow> program" where
  "run_node m opt cfg level =
     (case Node_start (m_env m) (m_fs m) (Node_new cfg) of
        (Inl e, s) \<Rightarrow> \<lparr>p_end = Exit 1, p_stdout = [], p_files = [], p_level = level\<rparr>
      | (Inr _, s) \<Rightarrow>
          (case Node_run (m_env m) (duration_sec opt) (m_events m) False s of
             (None, s1) \<Rightarrow> \<lparr>p_end = Running, p_stdout = [], p_files = [], p_level = level\<rparr>
           | (Some (Inl e, over), s1) \<Rightarrow>
               \<lparr>p_end = (if 0 < duration_sec opt then Terminated else Exit 1), p_stdout = [], p_files = [], p_level = level\<rparr>
           | (Some (Inr _, over), s1) \<Rightarrow>
               (let joined = (if 0 < duration_sec opt \<and> \<not> over then snd (Node_stop s1) else s1);
                    (code, out, files) = dump_routing m (dump_routing_path opt) joined
                in \<lparr>p_end = Exit code, p_stdout = out, p_files = files, p_level = level\<rparr>)))"

definition usage :: string where
  "usage = ''P2P Overlay Node v0.1.0'' @ [CHR 0x0A] @ ''Usage: p2p_node [options]'' @ [CHR 0x0A]
     @ ''  --config, -c <path>      Config file (default: config/default.toml)'' @ [CHR 0x0A]
     @ ''  --port, -p <port>        Listen port'' @ [CHR 0x0A]
     @ ''  --address, -a <addr>     Listen address'' @ [CHR 0x0A]
     @ ''  --data-dir, -d <dir>     Data directory'' @ [CHR 0x0A]
     @ ''  --bootstrap, -b <peers>  Bootstrap peers (host:port,...)'' @ [CHR 0x0A]
     @ ''  --log-level, -l <level>  Log level (trace/debug/info/warn/error)'' @ [CHR 0x0A]
     @ ''  --dump-routing <path>    Dump routing table JSON to path on exit'' @ [CHR 0x0A]
     @ ''  --duration <seconds>     Auto-terminate after duration'' @ [CHR 0x0A]
     @ ''  --help, -h               Show this help'' @ [CHR 0x0A]"

text \<open>\<open>args\<close> are the arguments after the program's name. spdlog starts at level info.\<close>

definition main_program :: "machine \<Rightarrow> string list \<Rightarrow> program" where
  "main_program m args =
     (case parse_args args options_default of
        Inl e \<Rightarrow> \<lparr>p_end = Terminated, p_stdout = [], p_files = [], p_level = level_info\<rparr>
      | Inr None \<Rightarrow> \<lparr>p_end = Exit 0, p_stdout = usage, p_files = [], p_level = level_info\<rparr>
      | Inr (Some opt) \<Rightarrow>
          (let level = setup_logging (log_level opt) in
           if sodium_init (e_sodium (m_env m)) < 0
           then \<lparr>p_end = Exit 1, p_stdout = [], p_files = [], p_level = level\<rparr>
           else case main_config (m_toml m) opt of
             Inl e \<Rightarrow> \<lparr>p_end = Terminated, p_stdout = [], p_files = [], p_level = level\<rparr>
           | Inr cfg \<Rightarrow>
               run_node m opt cfg
                 (if log_level opt = ''info'' \<and> cfg_log_level cfg \<noteq> [] then setup_logging (cfg_log_level cfg) else level)))"

section \<open>The loop returns when the node is stopped\<close>

lemma main_step_lively: "sodium_total (e_sodium env) \<Longrightarrow> lively (main_step env duration ev)"
  unfolding main_step_def by (cases ev) (auto intro!: lively_intros lively_handle)

lemma Node_run_total:
  assumes "sodium_total (e_sodium env)" "n_started s"
  shows "(\<exists>over. fst (Node_run env duration evs over0 s) = Some (Inr (), over)) \<or> fst (Node_run env duration evs over0 s) = None"
    "n_started (snd (Node_run env duration evs over0 s))"
    "fst (Node_run env duration evs over0 s) \<noteq> None \<Longrightarrow> n_stopped (snd (Node_run env duration evs over0 s))"
proof -
  have "((\<exists>over. fst (Node_run env duration evs over0 s) = Some (Inr (), over)) \<or> fst (Node_run env duration evs over0 s) = None) \<and>
    n_started (snd (Node_run env duration evs over0 s)) \<and>
    (fst (Node_run env duration evs over0 s) \<noteq> None \<longrightarrow> n_stopped (snd (Node_run env duration evs over0 s)))"
    using assms(2)
  proof (induction evs arbitrary: s over0)
    case (Cons ev evs)
    obtain s' where "main_step env duration ev s = (Inr (), s')" "n_started s'"
      using livelyD [OF main_step_lively [OF assms(1)] Cons.prems, of duration ev] by auto
    with Cons.IH [of s'] Cons.prems show ?case by simp
  qed simp
  then show "(\<exists>over. fst (Node_run env duration evs over0 s) = Some (Inr (), over)) \<or> fst (Node_run env duration evs over0 s) = None"
    "n_started (snd (Node_run env duration evs over0 s))"
    "fst (Node_run env duration evs over0 s) \<noteq> None \<Longrightarrow> n_stopped (snd (Node_run env duration evs over0 s))" by auto
qed

definition stopping :: "int \<Rightarrow> main_event \<Rightarrow> bool" where
  "stopping duration ev \<longleftrightarrow> ev = Signal \<or> ev = Completion CallStop \<or> (ev = DurationOver \<and> 0 < duration)"

lemma Node_stop_run: "\<exists>s'. Node_stop s = (Inr (), s') \<and> n_stopped s' \<and> n_routing s' = n_routing s \<and> n_started s' = n_started s"
proof -
  let ?Q = "\<lambda>s'. n_routing s' = n_routing s \<and> n_started s' = n_started s"
  have cancel: "keeps ?Q (case t of None \<Rightarrow> ret () | Some t \<Rightarrow> cancel_timer t)" for t
    unfolding cancel_timer_def by (intro keeps_intros keeps_modify) (auto split: timer_state.split)
  have close: "keeps ?Q (forE conns (conn_close reason))" for conns reason
    unfolding conn_close_def update_conn_def Node_on_disconnect_def by (intro keeps_intros keeps_modify) auto
  have nt: "nothrow (case t of None \<Rightarrow> ret () | Some t \<Rightarrow> cancel_timer t)" for t
    unfolding cancel_timer_def by (intro nothrow_intros)
  have nc: "nothrow (forE conns (conn_close reason))" for conns reason
    by (induction conns) (auto simp: conn_close_def update_conn_def Node_on_disconnect_def intro!: nothrow_intros)
  obtain s1 where s1: "(case n_purge_timer s of None \<Rightarrow> ret () | Some t \<Rightarrow> cancel_timer t) s = (Inr (), s1)"
    using nothrowD [OF nt] by auto
  obtain s2 where s2: "(case n_republish_timer s of None \<Rightarrow> ret () | Some t \<Rightarrow> cancel_timer t) s1 = (Inr (), s2)"
    using nothrowD [OF nt] by auto
  let ?s3 = "s2\<lparr>n_listener := map_option TcpListener_stop (n_listener s2), n_connections := []\<rparr>"
  obtain s4 where s4: "forE (n_connections s) (conn_close ''Node shutting down'') ?s3 = (Inr (), s4)"
    using nothrowD [OF nc, of "n_connections s" "''Node shutting down''" ?s3] by auto
  have "?Q s1" using keepsD [OF cancel, of s "n_purge_timer s"] s1 by simp
  then have "?Q ?s3" using keepsD [OF cancel, of s1 "n_republish_timer s"] s2 by simp
  then have "?Q s4" using keepsD [OF close, of ?s3 "n_connections s" "''Node shutting down''"] s4 by simp
  with s1 s2 s4 show ?thesis by (simp add: Node_stop_def bindE_gets thenE_run modify_def)
qed

lemma main_step_stops:
  assumes "stopping duration ev" "\<not> n_stopped s" "\<not> n_hangs s"
  shows "\<exists>s'. main_step env duration ev s = (Inr (), s') \<and> n_stopped s'"
proof -
  have "main_step env duration ev s = Node_stop s"
    using assms by (auto simp: stopping_def main_step_def Node_handle_def bindE_gets whenE_run)
  with Node_stop_run [of s] show ?thesis by auto
qed

lemma Node_run_stops:
  assumes "sodium_total (e_sodium env)"
  shows "n_started s \<Longrightarrow> ev \<in> set evs \<Longrightarrow> stopping duration ev \<Longrightarrow> fst (Node_run env duration evs over0 s) = None \<Longrightarrow>
    n_hangs (snd (Node_run env duration evs over0 s))"
proof (induction evs arbitrary: s over0)
  case (Cons e evs)
  obtain s' where s': "main_step env duration e s = (Inr (), s')" "n_started s'"
    using livelyD [OF main_step_lively [OF assms] Cons.prems(1), of duration e] by auto
  have stopped: "fst (Node_run env duration evs over1 s'') \<noteq> None" if "n_stopped s''" for over1 s''
    using that by (cases evs) simp_all
  show ?case
  proof (cases "n_stopped s \<or> n_hangs s")
    case False
    show ?thesis
    proof (cases "stopping duration e")
      case True
      with main_step_stops [OF True, of s env] s' False stopped [of s' "over0 \<or> e = DurationOver"] Cons.prems(4) show ?thesis by auto
    next
      case False
      with Cons.prems Cons.IH [OF s'(2)] s' \<open>\<not> (n_stopped s \<or> n_hangs s)\<close> show ?thesis by auto
    qed
  qed (use Cons.prems in auto)
qed simp

lemma Node_run_reachable:
  "node_reachable env fs cfg s \<Longrightarrow> node_reachable env fs cfg (snd (Node_run env duration evs over s))"
proof (induction evs arbitrary: s over)
  case (Cons ev evs)
  obtain r s' where st: "main_step env duration ev s = (r, s')" by fastforce
  have "node_reachable env fs cfg s'"
    using node_reachable.event [OF Cons.prems] Cons.prems st
    by (cases ev) (auto simp: main_step_def whenE_run split: if_splits dest!: arg_cong [where f = snd])
  with Cons st show ?case by (cases r) simp_all
qed simp

lemma export_state: "n_routing s' = n_routing s \<Longrightarrow> n_started s' = n_started s \<Longrightarrow> dump_routing m path s' = dump_routing m path s"
proof -
  assume "n_routing s' = n_routing s" "n_started s' = n_started s"
  then have "Node_export_routing_table_json (m_dump m) s' = Node_export_routing_table_json (m_dump m) s"
    by (simp add: Node_export_routing_table_json_def)
  then show ?thesis by (simp only: dump_routing_def)
qed

definition ends_with :: "program \<Rightarrow> int \<times> string \<times> (string \<times> string) list \<Rightarrow> bool" where
  "ends_with p r \<longleftrightarrow> (case r of (code, out, files) \<Rightarrow> p_end p = Exit code \<and> p_stdout p = out \<and> p_files p = files)"

lemma run_node_stopped:
  assumes "Node_start (m_env m) (m_fs m) (Node_new cfg) = (Inr (), s0)"
    and "Node_run (m_env m) (duration_sec opt) (m_events m) False s0 = (Some (Inr (), over), s1)"
  shows "ends_with (run_node m opt cfg level) (dump_routing m (dump_routing_path opt) s1)"
proof -
  have "dump_routing m (dump_routing_path opt) (snd (Node_stop s1)) = dump_routing m (dump_routing_path opt) s1"
    using Node_stop_run [of s1] by (auto intro: export_state)
  then show ?thesis using assms by (simp add: run_node_def ends_with_def Let_def split: prod.split)
qed

lemma run_node_cases:
  assumes "sodium_total (e_sodium (m_env m))" "Node_start (m_env m) (m_fs m) (Node_new cfg) = (Inr (), s0)"
  shows "(fst (Node_run (m_env m) (duration_sec opt) (m_events m) False s0) = None \<and> p_end (run_node m opt cfg level) = Running) \<or>
    (\<exists>s. node_reachable (m_env m) (m_fs m) cfg s \<and> n_stopped s \<and> n_started s \<and>
       ends_with (run_node m opt cfg level) (dump_routing m (dump_routing_path opt) s))"
proof -
  let ?r = "Node_run (m_env m) (duration_sec opt) (m_events m) False s0"
  have reach: "node_reachable (m_env m) (m_fs m) cfg s0" by (rule node_reachable.started [OF assms(2)])
  then have started: "n_started s0" using reachable_same by (fastforce simp: same_node_def)
  note run = Node_run_total [OF assms(1) started, of "duration_sec opt" "m_events m" False]
  show ?thesis
  proof (cases "fst ?r")
    case None
    then obtain s1 where "?r = (None, s1)" by (cases ?r) auto
    with assms(2) show ?thesis by (simp add: run_node_def)
  next
    case (Some x)
    with run(1) obtain over s1 where over: "?r = (Some (Inr (), over), s1)" by (cases ?r) auto
    then have s1: "n_stopped s1" "n_started s1" "node_reachable (m_env m) (m_fs m) cfg s1"
      using run(2,3) Node_run_reachable [OF reach, of "duration_sec opt" "m_events m" False] by simp_all
    with run_node_stopped [OF assms(2) over] show ?thesis by blast
  qed
qed

lemma dump_code:
  assumes "n_started s"
  shows "fst (dump_routing m path s) = (if path = ''-'' \<and> (\<exists>e. m_dump m (RoutingTable_json (n_routing s)) = Inl e) then 1 else 0)"
  using assms by (auto simp: dump_routing_def Node_export_routing_table_json_def RoutingTable_to_json_def split: sum.split)

lemma run_node_end:
  assumes "sodium_total (e_sodium (m_env m))"
  shows "p_end (run_node m opt cfg level) \<noteq> Terminated"
    "p_end (run_node m opt cfg level) = Exit 1 \<longleftrightarrow>
       (\<exists>e s. Node_start (m_env m) (m_fs m) (Node_new cfg) = (Inl e, s)) \<or>
       (\<exists>s0 s1 over e. Node_start (m_env m) (m_fs m) (Node_new cfg) = (Inr (), s0) \<and>
          Node_run (m_env m) (duration_sec opt) (m_events m) False s0 = (Some (Inr (), over), s1) \<and>
          dump_routing_path opt = ''-'' \<and> m_dump m (RoutingTable_json (n_routing s1)) = Inl e)"
proof -
  obtain r s0 where start: "Node_start (m_env m) (m_fs m) (Node_new cfg) = (r, s0)" by fastforce
  let ?run = "Node_run (m_env m) (duration_sec opt) (m_events m) False s0"
  let ?E = "p_end (run_node m opt cfg level) = Exit 1 \<longleftrightarrow>
       (\<exists>e s. Node_start (m_env m) (m_fs m) (Node_new cfg) = (Inl e, s)) \<or>
       (\<exists>s0 s1 over e. Node_start (m_env m) (m_fs m) (Node_new cfg) = (Inr (), s0) \<and>
          Node_run (m_env m) (duration_sec opt) (m_events m) False s0 = (Some (Inr (), over), s1) \<and>
          dump_routing_path opt = ''-'' \<and> m_dump m (RoutingTable_json (n_routing s1)) = Inl e)"
  have "p_end (run_node m opt cfg level) \<noteq> Terminated \<and> ?E"
  proof (cases r)
    case (Inr u)
    with start have ok: "Node_start (m_env m) (m_fs m) (Node_new cfg) = (Inr (), s0)" by simp
    then have started: "n_started s0" using reachable_same [OF node_reachable.started [OF ok]] by (auto simp: same_node_def)
    note run = Node_run_total [OF assms started, of "duration_sec opt" "m_events m" False]
    show ?thesis
    proof (cases "fst ?run")
      case None
      then obtain s1 where "?run = (None, s1)" by (cases ?run) auto
      with ok show ?thesis by (simp add: run_node_def)
    next
      case (Some x)
      with run(1) obtain over s1 where over: "?run = (Some (Inr (), over), s1)" by (cases ?run) auto
      have s1: "n_started s1" using run(2) over by simp
      have "p_end (run_node m opt cfg level) = Exit (fst (dump_routing m (dump_routing_path opt) s1))"
        using run_node_stopped [OF ok over, of level] by (auto simp: ends_with_def split: prod.splits)
      with dump_code [OF s1, of m "dump_routing_path opt"] over ok show ?thesis by simp
    qed
  qed (simp add: start run_node_def)
  then show "p_end (run_node m opt cfg level) \<noteq> Terminated" ?E by blast+
qed

section \<open>Properties\<close>

text \<open>
  C11. The program shuts down cleanly. Once the options and the configuration are read and the node has
  started, \<^verbatim>\<open>main\<close> never ends by an exception of the event loop: either it is still running, or the
  node was stopped and the program ends with the exit code, the output and the files of the export
  block for a reachable state of the node, the one it was stopped in. After a signal, or when the
  duration given is over, it is running only if a handler hangs. An exit code other than 0 then means that
  the table was to be printed and could not be converted to text.
\<close>

theorem main_program_shutdown:
  assumes "sodium_total (e_sodium (m_env m))" "parse_args args options_default = Inr (Some opt)"
    and "main_config (m_toml m) opt = Inr cfg" "Node_start (m_env m) (m_fs m) (Node_new cfg) = (Inr (), s0)"
    and "p = main_program m args" "r = Node_run (m_env m) (duration_sec opt) (m_events m) False s0"
  shows "(p_end p = Running \<and> fst r = None \<or>
     (\<exists>s. node_reachable (m_env m) (m_fs m) cfg s \<and> n_stopped s \<and> ends_with p (dump_routing m (dump_routing_path opt) s) \<and>
        (p_end p = Exit 0 \<or> dump_routing_path opt = ''-'' \<and> p_end p = Exit 1 \<and> (\<exists>e. m_dump m (RoutingTable_json (n_routing s)) = Inl e)))) \<and>
     ((\<exists>ev \<in> set (m_events m). stopping (duration_sec opt) ev) \<and> p_end p = Running \<longrightarrow> n_hangs (snd r))"
proof -
  have ready: "\<not> sodium_init (e_sodium (m_env m)) < 0" using assms(1) by (simp add: sodium_total_def sodium_ready_def)
  obtain level where p: "p = run_node m opt cfg level"
    using assms(2,3,5) ready by (simp add: main_program_def Let_def)
  note cases = run_node_cases [OF assms(1,4), of opt level, folded assms(6) p]
  have ends: "p_end p = Running \<and> fst r = None \<or>
     (\<exists>s. node_reachable (m_env m) (m_fs m) cfg s \<and> n_stopped s \<and> ends_with p (dump_routing m (dump_routing_path opt) s) \<and>
        (p_end p = Exit 0 \<or> dump_routing_path opt = ''-'' \<and> p_end p = Exit 1 \<and> (\<exists>e. m_dump m (RoutingTable_json (n_routing s)) = Inl e)))"
    using cases
  proof
    assume "\<exists>s. node_reachable (m_env m) (m_fs m) cfg s \<and> n_stopped s \<and> n_started s \<and> ends_with p (dump_routing m (dump_routing_path opt) s)"
    then obtain s where s: "node_reachable (m_env m) (m_fs m) cfg s" "n_stopped s" "n_started s"
      "ends_with p (dump_routing m (dump_routing_path opt) s)" by blast
    then have "p_end p = Exit (fst (dump_routing m (dump_routing_path opt) s))" by (auto simp: ends_with_def split: prod.splits)
    with dump_code [OF s(3), of m "dump_routing_path opt"] s show ?thesis by (metis (no_types))
  qed simp
  have "n_hangs (snd r)" if "\<exists>ev \<in> set (m_events m). stopping (duration_sec opt) ev" "p_end p = Running"
  proof -
    have "fst r = None" using cases that(2) by (auto simp: ends_with_def split: prod.splits)
    moreover have "n_started s0" using reachable_same [OF node_reachable.started [OF assms(4)]] by (auto simp: same_node_def)
    ultimately show ?thesis using Node_run_stops [OF assms(1)] that(1) assms(6) by blast
  qed
  with ends show ?thesis by blast
qed

definition test_machine :: machine where
  "test_machine = \<lparr>m_env = test_env JNull JNull, m_fs = test_fs, m_toml = test_toml, m_events = [Signal],
     m_dump = (\<lambda>_. Inr ''{}''), m_create_directories = (\<lambda>_. Inr ()), m_can_open = (\<lambda>_. True)\<rparr>"

lemma test_options: "parse_args [''--dump-routing'', ''-''] options_default = Inr (Some (options_default\<lparr>dump_routing_path := ''-''\<rparr>))"
  by simp

lemma test_main_config: "main_config (m_toml test_machine) (options_default\<lparr>dump_routing_path := ''-''\<rparr>) = Inr Config_default"
  by (simp add: main_config_def test_machine_def load_config_with_def load_config_def test_toml_def options_default_def)

theorem main_program_shutdown_witness:
  "p_end (main_program test_machine [''--dump-routing'', ''-'']) = Exit 0"
proof -
  let ?opt = "options_default\<lparr>dump_routing_path := ''-''\<rparr>" and ?env = "test_env JNull JNull"
  let ?r = "Node_run (m_env test_machine) (duration_sec ?opt) (m_events test_machine) False (test_node ?env)"
  have total: "sodium_total (e_sodium (m_env test_machine))" using toy_sodium_total by (simp add: test_machine_def test_env_def)
  have start: "Node_start (m_env test_machine) (m_fs test_machine) (Node_new Config_default) = (Inr (), test_node ?env)"
    using test_node_start by (simp add: test_machine_def)
  note T = main_program_shutdown [OF total test_options test_main_config start refl refl]
  have "fst ?r \<noteq> None"
    using main_step_stops [of 0 Signal "test_node ?env" ?env] test_node_fields(3,4) [of JNull JNull]
    by (auto simp: test_machine_def options_default_def stopping_def)
  with T show ?thesis by (auto simp: test_machine_def)
qed

lemma main_config_fails:
  "(\<exists>e. main_config tm opt = Inl e) \<longleftrightarrow> (\<exists>e. toml_exists tm (config_path opt) = Inl e) \<or>
     toml_exists tm (config_path opt) = Inr True \<and> (\<exists>err. toml_parse_file tm (config_path opt) = Inl err)"
proof -
  have "(\<exists>e. main_config tm opt = Inl e) \<longleftrightarrow> (\<exists>e. load_config tm (config_path opt) = Inl e)"
    by (cases "load_config tm (config_path opt)") (simp_all add: main_config_def load_config_with_def Let_def)
  moreover have "(\<exists>e. load_config tm (config_path opt) = Inl e) \<longleftrightarrow> (\<exists>e. toml_exists tm (config_path opt) = Inl e) \<or>
     toml_exists tm (config_path opt) = Inr True \<and> (\<exists>err. toml_parse_file tm (config_path opt) = Inl err)"
    by (cases "toml_exists tm (config_path opt)"; cases "toml_parse_file tm (config_path opt)") (simp_all add: load_config_def Let_def)
  ultimately show ?thesis by simp
qed

lemma start_without_keys:
  "Keypair_load fs (data_dir (cfg_node cfg)) = Inl e \<Longrightarrow> \<exists>e' s. Node_start env fs (Node_new cfg) = (Inl e', s)"
  by (simp add: Node_start_def Node_new_def Keypair_load_or_generate_def eff_run ask_run)

text \<open>
  C38. How the program fails, given that libsodium initialises. It ends by an uncaught exception exactly
  if a number on the command line cannot be read, or it cannot be found out whether the configuration
  file exists (\<^verbatim>\<open>std::filesystem::exists\<close> throws, as for a directory that may not be searched), or the
  file is there and does not parse: all of this happens outside the try block of \<^verbatim>\<open>main\<close>. It ends with
  exit code 1 exactly if the node does not start, or the printed export of the routing table fails; among
  the former is that it cannot be found out whether the files of the key pair exist. With \<^verbatim>\<open>--help\<close> it
  prints the usage and does nothing else.
\<close>

theorem main_program_errors:
  assumes "sodium_total (e_sodium (m_env m))" "opts = parse_args args options_default" "p = main_program m args"
  shows "(p_end p = Terminated \<longleftrightarrow> (\<exists>e. opts = Inl e) \<or> (\<exists>opt. opts = Inr (Some opt) \<and>
       ((\<exists>e. toml_exists (m_toml m) (config_path opt) = Inl e) \<or>
        toml_exists (m_toml m) (config_path opt) = Inr True \<and> (\<exists>err. toml_parse_file (m_toml m) (config_path opt) = Inl err)))) \<and>
    (p_end p = Exit 1 \<longleftrightarrow> (\<exists>opt cfg. opts = Inr (Some opt) \<and> main_config (m_toml m) opt = Inr cfg \<and>
       ((\<exists>e s. Node_start (m_env m) (m_fs m) (Node_new cfg) = (Inl e, s)) \<or>
        (\<exists>s0 s1 over e. Node_start (m_env m) (m_fs m) (Node_new cfg) = (Inr (), s0) \<and>
           Node_run (m_env m) (duration_sec opt) (m_events m) False s0 = (Some (Inr (), over), s1) \<and>
           dump_routing_path opt = ''-'' \<and> m_dump m (RoutingTable_json (n_routing s1)) = Inl e)))) \<and>
    (\<forall>opt cfg e. opts = Inr (Some opt) \<longrightarrow> main_config (m_toml m) opt = Inr cfg \<longrightarrow>
       Keypair_load (m_fs m) (data_dir (cfg_node cfg)) = Inl e \<longrightarrow> p_end p = Exit 1) \<and>
    (opts = Inr None \<longrightarrow> p = \<lparr>p_end = Exit 0, p_stdout = usage, p_files = [], p_level = level_info\<rparr>)"
proof -
  have ready: "\<not> sodium_init (e_sodium (m_env m)) < 0" using assms(1) by (simp add: sodium_total_def sodium_ready_def)
  consider (bad) e where "opts = Inl e" | (asked) "opts = Inr None"
    | (unread) opt e where "opts = Inr (Some opt)" "main_config (m_toml m) opt = Inl e"
    | (good) opt cfg where "opts = Inr (Some opt)" "main_config (m_toml m) opt = Inr cfg"
    by (metis option.exhaust sumE)
  then show ?thesis
  proof cases
    case good
    obtain level where p: "p = run_node m opt cfg level"
      using good assms(2,3) ready by (simp add: main_program_def Let_def)
    have "p_end p \<noteq> Terminated" "p_end p = Exit 1 \<longleftrightarrow>
       (\<exists>e s. Node_start (m_env m) (m_fs m) (Node_new cfg) = (Inl e, s)) \<or>
        (\<exists>s0 s1 over e. Node_start (m_env m) (m_fs m) (Node_new cfg) = (Inr (), s0) \<and>
           Node_run (m_env m) (duration_sec opt) (m_events m) False s0 = (Some (Inr (), over), s1) \<and>
           dump_routing_path opt = ''-'' \<and> m_dump m (RoutingTable_json (n_routing s1)) = Inl e)"
      using run_node_end [OF assms(1), of opt cfg level] p by auto
    moreover have "\<not> (\<exists>e. main_config (m_toml m) opt = Inl e)" using good(2) by simp
    ultimately show ?thesis using good start_without_keys [of "m_fs m" cfg _ "m_env m"]
      unfolding main_config_fails by simp blast
  next
    case unread
    then have "p_end p = Terminated" using assms(2,3) ready by (simp add: main_program_def Let_def)
    moreover have "\<exists>e. main_config (m_toml m) opt = Inl e" using unread(2) by simp
    ultimately show ?thesis using unread unfolding main_config_fails by simp
  qed (use assms(2,3) ready in \<open>auto simp: main_program_def Let_def\<close>)
qed

theorem main_program_errors_witness:
  "p_end (main_program test_machine [''--port'', ''http'']) = Terminated"
proof -
  have "sodium_total (e_sodium (m_env test_machine))" using toy_sodium_total by (simp add: test_machine_def test_env_def)
  moreover have "parse_args [''--port'', ''http''] options_default = Inl (invalid_argument ''stoi'')"
    by (simp add: stoi_def Let_def is_space_def is_digit_def)
  ultimately show ?thesis using main_program_errors [OF _ refl refl, of test_machine "[''--port'', ''http'']"] by auto
qed

text \<open>
  An explicit \<^verbatim>\<open>--log-level info\<close> cannot be told from no option at all: the level of the configuration
  file replaces it.
\<close>

lemma log_level_info_replaced:
  assumes "parse_args args options_default = Inr (Some opt)" "log_level opt = ''info''" "main_config (m_toml m) opt = Inr cfg"
    and "cfg_log_level cfg = ''debug''" "sodium_ready (e_sodium (m_env m))"
  shows "p_level (main_program m args) = level_debug"
proof -
  have "p_level (run_node m opt cfg level) = level" for level
    by (auto simp: run_node_def Let_def split: prod.splits sum.splits option.splits)
  with assms show ?thesis by (simp add: main_program_def Let_def setup_logging_def sodium_ready_def)
qed

text \<open>A peer whose host name cannot be converted makes the export of a table that has it as a contact fail.\<close>

lemma export_fails:
  assumes "m_dump m (RoutingTable_json (n_routing s)) = Inl e" "n_started s" "path \<noteq> []" "path \<noteq> ''-''"
    and "\<And>d. m_create_directories m d = Inr ()" "m_can_open m path"
  shows "dump_routing m path s = (0, [], [(path, [])])"
  using assms by (simp add: dump_routing_def Node_export_routing_table_json_def RoutingTable_to_json_def)

end
