(* ===== verification/Key_Lifecycle.thy ===== *)
theory Key_Lifecycle
  imports Identity
begin

text \<open>
  Model of the destructor and the move operations of \<^verbatim>\<open>Keypair\<close> (\<^verbatim>\<open>src/identity/keypair.cpp\<close>), which wipe
  secret keys. Objects live at places of a memory; a place keeps its bytes when the lifetime of its
  object ends. Copying is deleted, so these steps are all that can happen to an object that
  holds a secret key; two objects with the same key exist only when the key was made twice, by
  \<^verbatim>\<open>load\<close> from the same files.
\<close>

section \<open>Members\<close>

definition memzero_secret :: "Keypair \<Rightarrow> Keypair" where
  "memzero_secret kp = kp\<lparr>kp_secret_key := zero_barray\<rparr>"

record memory =
  place :: "nat \<Rightarrow> Keypair"
  alive :: "nat set"

definition set_place :: "nat \<Rightarrow> Keypair \<Rightarrow> memory \<Rightarrow> memory" where
  "set_place l kp m = m\<lparr>place := (place m)(l := kp)\<rparr>"

definition Keypair_destroy :: "nat \<Rightarrow> memory \<Rightarrow> memory" where
  "Keypair_destroy l m =
     (let m1 = set_place l (memzero_secret (place m l)) m in m1\<lparr>alive := alive m1 - {l}\<rparr>)"

definition Keypair_move_construct :: "nat \<Rightarrow> nat \<Rightarrow> memory \<Rightarrow> memory" where
  "Keypair_move_construct l other m =
     (let m1 = set_place l \<lparr>kp_public_key = kp_public_key (place m other), kp_secret_key = kp_secret_key (place m other)\<rparr> m;
          m2 = set_place other (memzero_secret (place m1 other)) m1
      in m2\<lparr>alive := insert l (alive m2)\<rparr>)"

definition Keypair_move_assign :: "nat \<Rightarrow> nat \<Rightarrow> memory \<Rightarrow> memory" where
  "Keypair_move_assign l other m =
     (if l \<noteq> other
      then
        let m1 = set_place l (memzero_secret (place m l)) m;
            m2 = set_place l ((place m1 l)\<lparr>kp_public_key := kp_public_key (place m1 other)\<rparr>) m1;
            m3 = set_place l ((place m2 l)\<lparr>kp_secret_key := kp_secret_key (place m2 other)\<rparr>) m2
        in set_place other (memzero_secret (place m3 other)) m3
      else m)"

section \<open>Histories\<close>

text \<open>
  What can happen to objects: \<^verbatim>\<open>generate\<close> and \<^verbatim>\<open>load\<close> make one, with any key pair, at a place without an
  object; objects are moved and destroyed. \<^verbatim>\<open>load\<close> may read a key that another object already holds,
  so nothing is asked of the new key. The step carries the list of the secret keys it creates.
\<close>

inductive key_step :: "memory \<Rightarrow> secret_key list \<Rightarrow> memory \<Rightarrow> bool" where
  create: "l \<notin> alive m \<Longrightarrow> key_step m [kp_secret_key kp] ((set_place l kp m)\<lparr>alive := insert l (alive m)\<rparr>)"
| move: "other \<in> alive m \<Longrightarrow> l \<notin> alive m \<Longrightarrow> key_step m [] (Keypair_move_construct l other m)"
| assign: "l \<in> alive m \<Longrightarrow> other \<in> alive m \<Longrightarrow> key_step m [] (Keypair_move_assign l other m)"
| destroy: "l \<in> alive m \<Longrightarrow> key_step m [] (Keypair_destroy l m)"

text \<open>A history, with the secret keys created in it, in order.\<close>

inductive key_run :: "memory \<Rightarrow> secret_key list \<Rightarrow> memory \<Rightarrow> bool" where
  key_run_refl: "key_run m [] m"
| key_run_step: "key_run m cs m1 \<Longrightarrow> key_step m1 c m2 \<Longrightarrow> key_run m (cs @ c) m2"

definition fresh_memory :: "memory \<Rightarrow> bool" where
  "fresh_memory m \<longleftrightarrow> alive m = {} \<and> (\<forall>l. kp_secret_key (place m l) = zero_barray)"

text \<open>The places where a secret key can be read.\<close>

definition holders :: "secret_key \<Rightarrow> memory \<Rightarrow> nat set" where
  "holders k m = {l. kp_secret_key (place m l) = k}"

text \<open>
  The invariant: only live objects hold a secret key, and a key is in memory at most as often as
  it was created.
\<close>

definition keys_counted :: "secret_key list \<Rightarrow> memory \<Rightarrow> bool" where
  "keys_counted cs m \<longleftrightarrow> (\<forall>k. k \<noteq> zero_barray \<longrightarrow> holders k m \<subseteq> alive m) \<and>
     (\<forall>k. k \<noteq> zero_barray \<longrightarrow> finite (holders k m) \<and> card (holders k m) \<le> count_list cs k)"

lemma moved_places:
  assumes "l \<noteq> other"
  shows "place (Keypair_move_construct l other m) = (place m)(l := place m other, other := memzero_secret (place m other))"
    "place (Keypair_move_assign l other m) = (place m)(l := place m other, other := memzero_secret (place m other))"
    "alive (Keypair_move_construct l other m) = insert l (alive m)" "alive (Keypair_move_assign l other m) = alive m"
  using assms by (auto simp: Keypair_move_construct_def Keypair_move_assign_def set_place_def memzero_secret_def Let_def)

text \<open>Handing a key over keeps the number of its copies: the target is a new holder, the source none.\<close>

lemma handed_over_holders:
  assumes "l \<noteq> other" "k \<noteq> zero_barray"
    and "place m' = (place m)(l := place m other, other := memzero_secret (place m other))"
  shows "holders k m' = (if other \<in> holders k m then insert l (holders k m - {other}) else holders k m - {l})"
  using assms by (auto simp: holders_def memzero_secret_def)

lemma handed_over_counted:
  assumes inv: "keys_counted cs m" and ne: "l \<noteq> other"
    and pl: "place m' = (place m)(l := place m other, other := memzero_secret (place m other))"
    and al: "alive m' = insert l (alive m)"
  shows "keys_counted cs m'"
proof -
  have "holders k m' \<subseteq> alive m' \<and> finite (holders k m') \<and> card (holders k m') \<le> count_list cs k"
    if k: "k \<noteq> zero_barray" for k
  proof -
    have fin: "finite (holders k m)" and sub: "holders k m \<subseteq> alive m" and le: "card (holders k m) \<le> count_list cs k"
      using inv k by (auto simp: keys_counted_def)
    have "card (insert l (holders k m - {other})) \<le> card (holders k m)" if "other \<in> holders k m"
      using that fin card_insert_le_m1 [of "card (holders k m)" "holders k m - {other}" l]
      by (metis card.remove card_insert_if finite_Diff le_SucI order_refl)
    moreover have "card (holders k m - {l}) \<le> card (holders k m)" using fin by (simp add: card_mono)
    ultimately show ?thesis using fin sub le al by (auto simp: handed_over_holders [OF ne k pl])
  qed
  then show ?thesis by (simp add: keys_counted_def)
qed

lemma key_step_counted: "key_step m c m' \<Longrightarrow> keys_counted cs m \<Longrightarrow> keys_counted (cs @ c) m'"
proof (induction rule: key_step.induct)
  case (create l m kp)
  let ?m = "(set_place l kp m)\<lparr>alive := insert l (alive m)\<rparr>"
  have "holders k ?m = (if k = kp_secret_key kp then insert l (holders k m) else holders k m - {l})" for k
    by (auto simp: holders_def set_place_def)
  moreover have "card (insert l (holders k m)) \<le> Suc (card (holders k m))" "card (holders k m - {l}) \<le> card (holders k m)"
    if "finite (holders k m)" for k
    using that by (auto simp: card_insert_if card_mono)
  ultimately show ?case
    using create(2) by (fastforce simp: keys_counted_def set_place_def)
next
  case (move other m l)
  then have "l \<noteq> other" by blast
  from handed_over_counted [OF move(3) this moved_places(1,3) [OF this]] show ?case by simp
next
  case (assign l m other)
  show ?case
  proof (cases "l = other")
    case False
    have "alive (Keypair_move_assign l other m) = insert l (alive m)" using assign(1) by (auto simp: moved_places(4) [OF False])
    from handed_over_counted [OF assign(3) False moved_places(2) [OF False] this] show ?thesis by simp
  qed (use assign in \<open>simp add: Keypair_move_assign_def\<close>)
next
  case (destroy l m)
  have "holders k (Keypair_destroy l m) = holders k m - {l}" if "k \<noteq> zero_barray" for k
    using that by (auto simp: holders_def Keypair_destroy_def set_place_def memzero_secret_def Let_def)
  moreover have "alive (Keypair_destroy l m) = alive m - {l}"
    by (simp add: Keypair_destroy_def set_place_def Let_def)
  moreover have "card (holders k m - {l}) \<le> card (holders k m)" if "finite (holders k m)" for k
    using that by (simp add: card_mono)
  ultimately show ?case using destroy(2) by (fastforce simp: keys_counted_def)
qed

lemma key_run_counted: "key_run m cs m' \<Longrightarrow> keys_counted [] m \<Longrightarrow> keys_counted cs m'"
  by (induction rule: key_run.induct) (auto intro: key_step_counted)

section \<open>Property\<close>

text \<open>
  C40. Moving never copies a secret key. Whatever sequence of creations (with any keys, also keys that
  live objects hold already), moves, assignments (also of an object to itself) and destructions
  happens, a secret key can be read at no more places of the memory than it was created times,
  by \<^verbatim>\<open>generate\<close> or \<^verbatim>\<open>load\<close>, and never at a place without a live object. So a key that was created once
  has at most one copy. A move or an assignment hands the key over: the target has the key pair of
  the source, whose place has no secret key any more; assigning an object to itself keeps its key
  pair; the destructor leaves no secret key behind.
\<close>

theorem Keypair_secret_linear:
  assumes "fresh_memory m0" "key_run m0 created m"
  shows "(\<forall>l. l \<notin> alive m \<longrightarrow> kp_secret_key (place m l) = zero_barray) \<and>
    (\<forall>k. k \<noteq> zero_barray \<longrightarrow> finite {l. kp_secret_key (place m l) = k} \<and>
       card {l. kp_secret_key (place m l) = k} \<le> count_list created k) \<and>
    (\<forall>l x. l \<noteq> x \<longrightarrow>
       place (Keypair_move_construct l x m) l = place m x \<and> kp_secret_key (place (Keypair_move_construct l x m) x) = zero_barray \<and>
       place (Keypair_move_assign l x m) l = place m x \<and> kp_secret_key (place (Keypair_move_assign l x m) x) = zero_barray) \<and>
    (\<forall>l. Keypair_move_assign l l m = m) \<and>
    (\<forall>l. l \<notin> alive (Keypair_destroy l m) \<and> kp_secret_key (place (Keypair_destroy l m) l) = zero_barray)"
proof -
  have "holders k m0 = {}" if "k \<noteq> zero_barray" for k
    using assms(1) that by (auto simp: fresh_memory_def holders_def)
  then have "keys_counted [] m0" by (simp add: keys_counted_def)
  from key_run_counted [OF assms(2) this] have counted: "keys_counted created m" .
  then have "kp_secret_key (place m l) = zero_barray" if "l \<notin> alive m" for l
    using that by (auto simp: keys_counted_def holders_def)
  moreover have "finite {l. kp_secret_key (place m l) = k} \<and> card {l. kp_secret_key (place m l) = k} \<le> count_list created k"
    if "k \<noteq> zero_barray" for k
    using counted that by (simp add: keys_counted_def holders_def)
  moreover have "Keypair_move_assign l l m = m" for l by (simp add: Keypair_move_assign_def)
  moreover have "l \<notin> alive (Keypair_destroy l m) \<and> kp_secret_key (place (Keypair_destroy l m) l) = zero_barray" for l
    by (simp add: Keypair_destroy_def set_place_def memzero_secret_def Let_def)
  ultimately show ?thesis by (simp add: moved_places memzero_secret_def)
qed

definition key_memory :: memory where
  "key_memory = \<lparr>place = (\<lambda>_. \<lparr>kp_public_key = zero_barray, kp_secret_key = zero_barray\<rparr>), alive = {}\<rparr>"

text \<open>One key is generated and moved, another object with the same key is loaded.\<close>

definition key_pair_5 :: Keypair where
  "key_pair_5 = \<lparr>kp_public_key = barray_of [5], kp_secret_key = barray_of [5]\<rparr>"

definition key_moved :: memory where
  "key_moved = Keypair_move_construct 1 0 ((set_place 0 key_pair_5 key_memory)\<lparr>alive := insert 0 (alive key_memory)\<rparr>)"

definition key_loaded :: memory where
  "key_loaded = (set_place 2 key_pair_5 key_moved)\<lparr>alive := insert 2 (alive key_moved)\<rparr>"

theorem Keypair_secret_linear_witness:
  "card {l. kp_secret_key (place key_loaded l) = barray_of [5]} \<le> 2 \<and>
   kp_secret_key (place key_loaded 0) = zero_barray \<and> kp_secret_key (place key_loaded 1) = barray_of [5] \<and>
   kp_secret_key (place key_loaded 2) = barray_of [5] \<and>
   kp_secret_key (place (Keypair_move_assign 2 1 key_loaded) 1) = zero_barray"
proof -
  have ne: "(barray_of [5] :: secret_key) \<noteq> zero_barray" by code_simp
  have al: "alive key_moved = {0, 1}"
    by (auto simp: key_moved_def Keypair_move_construct_def set_place_def key_memory_def Let_def)
  let ?m1 = "(set_place 0 key_pair_5 key_memory)\<lparr>alive := insert 0 (alive key_memory)\<rparr>"
  have r1: "key_run key_memory ([] @ [kp_secret_key key_pair_5]) ?m1"
    by (rule key_run_step [OF key_run_refl], rule key_step.create) (simp add: key_memory_def)
  have "key_step ?m1 [] key_moved"
    unfolding key_moved_def by (rule key_step.move) (simp_all add: key_memory_def set_place_def)
  from key_run_step [OF r1 this] have r2: "key_run key_memory [kp_secret_key key_pair_5] key_moved" by simp
  have "key_step key_moved [kp_secret_key key_pair_5] key_loaded"
    unfolding key_loaded_def by (rule key_step.create) (simp add: al)
  from key_run_step [OF r2 this]
  have "key_run key_memory [barray_of [5], barray_of [5]] key_loaded" by (simp add: key_pair_5_def)
  moreover have "fresh_memory key_memory" by (simp add: fresh_memory_def key_memory_def)
  ultimately have P: "(\<forall>k. k \<noteq> zero_barray \<longrightarrow> finite {l. kp_secret_key (place key_loaded l) = k} \<and>
       card {l. kp_secret_key (place key_loaded l) = k} \<le> count_list [barray_of [5], barray_of [5]] k) \<and>
    (\<forall>l x. l \<noteq> x \<longrightarrow> kp_secret_key (place (Keypair_move_assign l x key_loaded) x) = zero_barray)"
    using Keypair_secret_linear [of key_memory "[barray_of [5], barray_of [5]]" key_loaded] by simp
  have "count_list [barray_of [5], barray_of [5] :: secret_key] (barray_of [5]) = 2" by simp
  with P ne have "card {l. kp_secret_key (place key_loaded l) = barray_of [5]} \<le> 2" by metis
  moreover have "kp_secret_key (place (Keypair_move_assign 2 1 key_loaded) 1) = zero_barray" using P by simp
  ultimately show ?thesis
    by (simp add: key_loaded_def key_moved_def Keypair_move_construct_def set_place_def key_memory_def
        memzero_secret_def key_pair_5_def Let_def)
qed

end
