(* ===== verification/Handshake_Agreement.thy ===== *)
theory Handshake_Agreement
  imports Secure_Session Node_Record
begin

text \<open>
  What the handshake and the signed records guarantee when several nodes run the code at the same
  time and an adversary controls the network. The state holds the sessions of the honest nodes, by
  an arbitrary number, and a log of what the honest keys signed: \<open>Responded\<close> for a responder
  transcript (\<^verbatim>\<open>process_handshake_init\<close>), \<open>Completed\<close> for an initiator transcript
  (\<^verbatim>\<open>process_handshake_response\<close>) and \<open>Recorded\<close> for a record (\<^verbatim>\<open>NodeRecord::sign\<close>). A step is one call of
  the code on one session, with any message the adversary likes. The only restriction on messages is
  that signatures are not forged: one that verifies under an honest key was made with that key. Keys
  outside of \<open>honest\<close> are not restricted in any way.
\<close>

section \<open>Honest nodes on an adversarial network\<close>

datatype signing =
    Responded Keypair SecureSession
  | Completed Keypair SecureSession
  | Recorded Keypair NodeRecord

fun signed_bytes :: "signing \<Rightarrow> public_key \<times> bytes" where
  "signed_bytes (Responded kp s) = (kp_public_key kp, transcript_b s)"
| "signed_bytes (Completed kp s) = (kp_public_key kp, compute_transcript_a (transcript_b s))"
| "signed_bytes (Recorded kp r) = (kp_public_key kp, canonical_bytes r)"

record protocol =
  pr_sessions :: "nat \<rightharpoonup> Keypair \<times> SecureSession"
  pr_log :: "signing list"

definition protocol_start :: protocol where
  "protocol_start = \<lparr>pr_sessions = Map.empty, pr_log = []\<rparr>"

text \<open>A signature that verifies under an honest key was issued.\<close>

definition unforged :: "sodium \<Rightarrow> Keypair set \<Rightarrow> signing list \<Rightarrow> signature \<Rightarrow> bytes \<Rightarrow> public_key \<Rightarrow> bool" where
  "unforged so honest log sig m pk \<longleftrightarrow>
     (pk \<in> kp_public_key ` honest \<and> Keypair_verify so sig m pk \<longrightarrow> (pk, m) \<in> signed_bytes ` set log)"

definition put_session :: "nat \<Rightarrow> Keypair \<Rightarrow> SecureSession \<Rightarrow> signing list \<Rightarrow> protocol \<Rightarrow> protocol" where
  "put_session i kp s new p = p\<lparr>pr_sessions := (pr_sessions p)(i \<mapsto> (kp, s)), pr_log := new @ pr_log p\<rparr>"

inductive protocol_step :: "sodium \<Rightarrow> Keypair set \<Rightarrow> protocol \<Rightarrow> protocol \<Rightarrow> bool" for so honest where
  create: "pr_sessions p i = None \<Longrightarrow> kp \<in> honest \<Longrightarrow>
    protocol_step so honest p (put_session i kp SecureSession_new [] p)"
| initiate: "pr_sessions p i = Some (kp, s) \<Longrightarrow> initiate_handshake so r1 r2 kp s = (Inr init, s') \<Longrightarrow>
    protocol_step so honest p (put_session i kp s' [] p)"
| init: "pr_sessions p i = Some (kp, s) \<Longrightarrow> process_handshake_init so r1 r2 r3 init kp s = (Inr res, s') \<Longrightarrow>
    protocol_step so honest p (put_session i kp s' (if res = None then [] else [Responded kp s']) p)"
| response: "pr_sessions p i = Some (kp, s) \<Longrightarrow> process_handshake_response so resp kp s = (Inr res', s') \<Longrightarrow>
    unforged so honest (pr_log p) (hr_signature resp) (transcript_b s') (hr_identity_public_key resp) \<Longrightarrow>
    protocol_step so honest p (put_session i kp s' (if res' = None then [] else [Completed kp s']) p)"
| complete: "pr_sessions p i = Some (kp, s) \<Longrightarrow> process_handshake_complete so cmp s = (ok, s') \<Longrightarrow>
    unforged so honest (pr_log p) (hc_signature cmp) (compute_transcript_a (transcript_b s)) (peer_identity_pub s) \<Longrightarrow>
    protocol_step so honest p (put_session i kp s' [] p)"
| encrypt: "pr_sessions p i = Some (kp, s) \<Longrightarrow> encrypt_frame so f s = (r, g, s') \<Longrightarrow>
    protocol_step so honest p (put_session i kp s' [] p)"
| decrypt: "pr_sessions p i = Some (kp, s) \<Longrightarrow> decrypt_frame so f s = Some (r, g, s') \<Longrightarrow>
    protocol_step so honest p (put_session i kp s' [] p)"
| close: "pr_sessions p i = Some (kp, s) \<Longrightarrow>
    protocol_step so honest p (put_session i kp (SecureSession_close s) [] p)"
| sign: "kp \<in> honest \<Longrightarrow> NodeRecord_sign so kp rec = Inr rec' \<Longrightarrow>
    protocol_step so honest p (p\<lparr>pr_log := Recorded kp rec' # pr_log p\<rparr>)"

abbreviation protocol_reachable :: "sodium \<Rightarrow> Keypair set \<Rightarrow> protocol \<Rightarrow> bool" where
  "protocol_reachable so honest \<equiv> (protocol_step so honest)\<^sup>*\<^sup>* protocol_start"

section \<open>What a side has computed\<close>

text \<open>The transcript and the keys of a session, in the terms of the two sides.\<close>

definition initiator_done :: "sodium \<Rightarrow> Keypair \<Rightarrow> SecureSession \<Rightarrow> bool" where
  "initiator_done so kp s \<longleftrightarrow> (\<exists>ini (eph :: X25519Keypair) pe sh keys.
     transcript_b s = compute_transcript_b ini (session_id s) (ss_peer_node_id s) (peer_identity_pub s) pe (peer_nonce s) \<and>
     hi_identity_public_key ini = kp_public_key kp \<and> hi_node_id ini = Keypair_node_id so kp \<and>
     hi_nonce ini = local_nonce s \<and> hi_ephemeral_public_key ini = x_public_key eph \<and>
     crypto_scalarmult_base so (x_secret_key eph) = Some (x_public_key eph) \<and>
     x25519_diffie_hellman so (x_secret_key eph) pe = Inr (Some sh) \<and>
     derive_session_keys so sh (local_nonce s) (peer_nonce s) = Inr keys \<and>
     tx_key s = key_a_to_b keys \<and> rx_key s = key_b_to_a keys)"

definition responder_done :: "sodium \<Rightarrow> Keypair \<Rightarrow> SecureSession \<Rightarrow> bool" where
  "responder_done so kp s \<longleftrightarrow> (\<exists>ini (eph :: X25519Keypair) sh keys.
     transcript_b s = compute_transcript_b ini (session_id s) (Keypair_node_id so kp) (kp_public_key kp)
       (x_public_key eph) (local_nonce s) \<and>
     hi_identity_public_key ini = peer_identity_pub s \<and> hi_node_id ini = ss_peer_node_id s \<and>
     hi_nonce ini = peer_nonce s \<and>
     crypto_scalarmult_base so (x_secret_key eph) = Some (x_public_key eph) \<and>
     x25519_diffie_hellman so (x_secret_key eph) (hi_ephemeral_public_key ini) = Inr (Some sh) \<and>
     derive_session_keys so sh (peer_nonce s) (local_nonce s) = Inr keys \<and>
     tx_key s = key_b_to_a keys \<and> rx_key s = key_a_to_b keys)"

text \<open>The initiator session waits for an answer to the message it made from its current secrets.\<close>

definition initiator_waits :: "sodium \<Rightarrow> Keypair \<Rightarrow> SecureSession \<Rightarrow> bool" where
  "initiator_waits so kp s \<longleftrightarrow> ss_role s = Initiator \<and> (\<exists>ini eph.
     saved_init s = Some ini \<and> eph_keypair s = Some eph \<and>
     hi_identity_public_key ini = kp_public_key kp \<and> hi_node_id ini = Keypair_node_id so kp \<and>
     hi_nonce ini = local_nonce s \<and> hi_ephemeral_public_key ini = x_public_key eph \<and>
     crypto_scalarmult_base so (x_secret_key eph) = Some (x_public_key eph))"

text \<open>The two sides agree: identities, ids, nonces, the transcript and both keys.\<close>

definition agree :: "sodium \<Rightarrow> Keypair \<Rightarrow> SecureSession \<Rightarrow> Keypair \<Rightarrow> SecureSession \<Rightarrow> bool" where
  "agree so kp s kp' s' \<longleftrightarrow>
     peer_identity_pub s = kp_public_key kp' \<and> peer_identity_pub s' = kp_public_key kp \<and>
     ss_peer_node_id s = Keypair_node_id so kp' \<and> ss_peer_node_id s' = Keypair_node_id so kp \<and>
     session_id s = session_id s' \<and> transcript_b s = transcript_b s' \<and>
     local_nonce s = peer_nonce s' \<and> peer_nonce s = local_nonce s' \<and>
     tx_key s = rx_key s' \<and> rx_key s = tx_key s'"

lemma agree_sym: "agree so kp s kp' s' \<Longrightarrow> agree so kp' s' kp s"
  by (simp add: agree_def)

lemma diffie_hellman_Some:
  "x25519_diffie_hellman so sk pk = Inr (Some sh) \<Longrightarrow> crypto_scalarmult so sk pk = Some sh"
  by (auto simp: x25519_diffie_hellman_def Let_def throw_bind_Inr_iff split: option.splits if_splits)

lemma equal_transcripts_agree:
  assumes "x25519_agrees so" "initiator_done so kp s" "responder_done so kp' s'" "transcript_b s = transcript_b s'"
  shows "agree so kp s kp' s'"
proof -
  from assms(2) obtain ini and eph :: X25519Keypair and pe sh keys where
    tb: "transcript_b s = compute_transcript_b ini (session_id s) (ss_peer_node_id s) (peer_identity_pub s) pe (peer_nonce s)"
    and me: "hi_identity_public_key ini = kp_public_key kp" "hi_node_id ini = Keypair_node_id so kp"
      "hi_nonce ini = local_nonce s" "hi_ephemeral_public_key ini = x_public_key eph"
      "crypto_scalarmult_base so (x_secret_key eph) = Some (x_public_key eph)"
    and dh: "x25519_diffie_hellman so (x_secret_key eph) pe = Inr (Some sh)"
    and kd: "derive_session_keys so sh (local_nonce s) (peer_nonce s) = Inr keys"
      "tx_key s = key_a_to_b keys" "rx_key s = key_b_to_a keys"
    unfolding initiator_done_def by blast
  from assms(3) obtain ini' and eph' :: X25519Keypair and sh' keys' where
    tb': "transcript_b s' = compute_transcript_b ini' (session_id s') (Keypair_node_id so kp') (kp_public_key kp')
       (x_public_key eph') (local_nonce s')"
    and you: "hi_identity_public_key ini' = peer_identity_pub s'" "hi_node_id ini' = ss_peer_node_id s'"
      "hi_nonce ini' = peer_nonce s'" "crypto_scalarmult_base so (x_secret_key eph') = Some (x_public_key eph')"
    and dh': "x25519_diffie_hellman so (x_secret_key eph') (hi_ephemeral_public_key ini') = Inr (Some sh')"
    and kd': "derive_session_keys so sh' (peer_nonce s') (local_nonce s') = Inr keys'"
      "tx_key s' = key_b_to_a keys'" "rx_key s' = key_a_to_b keys'"
    unfolding responder_done_def by blast
  note same = transcript_b_inject [OF assms(4) [unfolded tb tb']]
  have "crypto_scalarmult so (x_secret_key eph) (x_public_key eph') =
    crypto_scalarmult so (x_secret_key eph') (x_public_key eph)"
    using assms(1) me(5) you(4) unfolding x25519_agrees_def by blast
  with diffie_hellman_Some [OF dh] diffie_hellman_Some [OF dh'] same me(4) have "sh = sh'" by simp
  with kd kd' same me(3) you(3) have "keys = keys'" by simp
  with same me you kd kd' assms(4) show ?thesis by (simp add: agree_def)
qed

section \<open>The calls, one at a time\<close>

lemma X25519Keypair_generate_pair:
  "X25519Keypair_generate so r = Inr eph \<Longrightarrow> crypto_scalarmult_base so (x_secret_key eph) = Some (x_public_key eph)"
  by (auto simp: X25519Keypair_generate_def throw_bind_Inr_iff split: option.splits if_splits)

lemma initiate_waits:
  assumes "initiate_handshake so r1 r2 kp s = (Inr ini, s')"
  shows "ss_state s' = HandshakeInitSent \<and> initiator_waits so kp s'"
  using assms X25519Keypair_generate_pair [of so r1]
  by (auto simp: initiate_handshake_def initiator_waits_def Let_def split: sum.splits)

lemma process_init_done:
  assumes "process_handshake_init so r1 r2 r3 ini kp s = (Inr res, s')"
  shows "if res = None then ss_state s' = Failed
    else ss_state s' = HandshakeRespSent \<and> ss_role s' = Responder \<and> responder_done so kp s'"
  using assms X25519Keypair_generate_pair [of so r1]
  by (fastforce simp: process_handshake_init_def responder_done_def Let_def split: sum.splits option.splits if_splits)

lemma process_response_done:
  assumes "process_handshake_response so resp kp s = (Inr res, s')"
    and "ss_state s = HandshakeInitSent \<Longrightarrow> initiator_waits so kp s"
  shows "if res = None then ss_state s' = Failed
    else ss_state s' = Active \<and> ss_role s' = Initiator \<and> initiator_done so kp s' \<and>
      peer_identity_pub s' = hr_identity_public_key resp \<and>
      Keypair_verify so (hr_signature resp) (transcript_b s') (peer_identity_pub s')"
  using assms
  by (fastforce simp: process_handshake_response_def initiator_waits_def initiator_done_def Let_def
      split: SessionState.splits sum.splits option.splits if_splits)

lemma process_complete_done:
  assumes "process_handshake_complete so cmp s = (ok, s')"
  shows "if ok then ss_state s = HandshakeRespSent \<and> s' = s\<lparr>ss_state := Active\<rparr> \<and>
      Keypair_verify so (hc_signature cmp) (compute_transcript_a (transcript_b s)) (peer_identity_pub s)
    else ss_state s' = Failed"
  using process_complete_result [OF assms] by auto

section \<open>Signatures have one meaning\<close>

text \<open>
  The transcripts start with labels of 15 bytes, the canonical form of a record with the node id.
  Signatures of the three kinds are told apart as long as no honest node id starts with a label.
\<close>

definition label_free :: "sodium \<Rightarrow> Keypair \<Rightarrow> bool" where
  "label_free so kp \<longleftrightarrow>
     take 15 (bytes_of (Keypair_node_id so kp)) \<notin> {string_bytes ''P2P-AKE-V1-RESP'', string_bytes ''P2P-AKE-V1-COMP''}"

lemma message_labels:
  "take 15 (compute_transcript_b ini sid n p e nonce) = string_bytes ''P2P-AKE-V1-RESP''"
  "take 15 (compute_transcript_a t) = string_bytes ''P2P-AKE-V1-COMP''"
  "take 15 (canonical_bytes r) = take 15 (bytes_of (rec_node_id r))"
  "string_bytes ''P2P-AKE-V1-RESP'' \<noteq> string_bytes ''P2P-AKE-V1-COMP''"
  by (simp_all add: compute_transcript_b_def compute_transcript_a_def canonical_bytes_def)

lemma done_label:
  "initiator_done so kp s \<Longrightarrow> take 15 (transcript_b s) = string_bytes ''P2P-AKE-V1-RESP''"
  "responder_done so kp s \<Longrightarrow> take 15 (transcript_b s) = string_bytes ''P2P-AKE-V1-RESP''"
  by (auto simp: initiator_done_def responder_done_def message_labels)

fun signing_ok :: "sodium \<Rightarrow> Keypair set \<Rightarrow> signing \<Rightarrow> bool" where
  "signing_ok so honest (Responded kp s) \<longleftrightarrow> kp \<in> honest \<and> responder_done so kp s"
| "signing_ok so honest (Completed kp s) \<longleftrightarrow> kp \<in> honest \<and> initiator_done so kp s"
| "signing_ok so honest (Recorded kp r) \<longleftrightarrow> kp \<in> honest \<and> rec_node_id r = Keypair_node_id so kp"

lemma signed_origin:
  assumes "(pk, m) \<in> signed_bytes ` set log" "list_all (signing_ok so honest) log" "\<forall>kp \<in> honest. label_free so kp"
  shows "(take 15 m = string_bytes ''P2P-AKE-V1-RESP'' \<longrightarrow>
      (\<exists>kp s. Responded kp s \<in> set log \<and> kp \<in> honest \<and> responder_done so kp s \<and> kp_public_key kp = pk \<and> transcript_b s = m)) \<and>
    (take 15 m = string_bytes ''P2P-AKE-V1-COMP'' \<longrightarrow>
      (\<exists>kp s. Completed kp s \<in> set log \<and> kp \<in> honest \<and> initiator_done so kp s \<and> kp_public_key kp = pk \<and>
         compute_transcript_a (transcript_b s) = m)) \<and>
    (take 15 m \<notin> {string_bytes ''P2P-AKE-V1-RESP'', string_bytes ''P2P-AKE-V1-COMP''} \<longrightarrow>
      (\<exists>kp r. Recorded kp r \<in> set log \<and> kp \<in> honest \<and> kp_public_key kp = pk \<and> canonical_bytes r = m))"
proof -
  from assms(1) obtain x where x: "x \<in> set log" "signed_bytes x = (pk, m)" by force
  have ok: "signing_ok so honest x" using assms(2) x(1) by (simp add: list_all_iff)
  show ?thesis
  proof (cases x)
    case (Responded kp s)
    with ok done_label(2) have "take 15 (transcript_b s) = string_bytes ''P2P-AKE-V1-RESP''" by auto
    with x ok Responded message_labels(4) show ?thesis by auto
  next
    case (Completed kp s)
    with x ok message_labels(2,4) show ?thesis by auto
  next
    case (Recorded kp r)
    with ok assms(3) have "label_free so kp" "take 15 (canonical_bytes r) = take 15 (bytes_of (Keypair_node_id so kp))"
      by (simp_all add: message_labels)
    with x ok Recorded show ?thesis by (auto simp: label_free_def)
  qed
qed

section \<open>The invariant\<close>

definition session_ok :: "sodium \<Rightarrow> Keypair set \<Rightarrow> signing list \<Rightarrow> Keypair \<Rightarrow> SecureSession \<Rightarrow> bool" where
  "session_ok so honest log kp s \<longleftrightarrow> kp \<in> honest \<and>
     (ss_state s = HandshakeInitSent \<longrightarrow> initiator_waits so kp s) \<and>
     (ss_state s = HandshakeRespSent \<longrightarrow> ss_role s = Responder \<and> responder_done so kp s) \<and>
     (ss_state s = Active \<and> peer_identity_pub s \<in> kp_public_key ` honest \<longrightarrow>
       (\<exists>kp' \<in> honest. \<exists>s'. agree so kp s kp' s' \<and>
          (if ss_role s = Initiator then Responded kp' s' else Completed kp' s') \<in> set log))"

definition protocol_inv :: "sodium \<Rightarrow> Keypair set \<Rightarrow> protocol \<Rightarrow> bool" where
  "protocol_inv so honest p \<longleftrightarrow> list_all (signing_ok so honest) (pr_log p) \<and>
     (\<forall>i kp s. pr_sessions p i = Some (kp, s) \<longrightarrow> session_ok so honest (pr_log p) kp s)"

lemma session_ok_append: "session_ok so honest log kp s \<Longrightarrow> session_ok so honest (new @ log) kp s"
  by (fastforce simp: session_ok_def)

lemmas session_ok_Cons = session_ok_append [of _ _ _ _ _ "[x]" for x, simplified]

lemma protocol_invD:
  assumes "protocol_inv so honest p" "pr_sessions p i = Some (kp, s)"
  shows "session_ok so honest (pr_log p) kp s" "list_all (signing_ok so honest) (pr_log p)" "kp \<in> honest"
  using assms by (auto simp: protocol_inv_def session_ok_def)

lemma put_session_inv:
  assumes "protocol_inv so honest p" "session_ok so honest (new @ pr_log p) kp s" "list_all (signing_ok so honest) new"
  shows "protocol_inv so honest (put_session i kp s new p)"
  using assms by (auto simp: protocol_inv_def put_session_def intro: session_ok_append)

text \<open>The calls on frames touch neither keys nor identities.\<close>

lemma session_ok_frames:
  "session_ok so honest log kp (s\<lparr>tx_seq := n\<rparr>) = session_ok so honest log kp s"
  "session_ok so honest log kp (s\<lparr>replay_cache := c\<rparr>) = session_ok so honest log kp s"
  by (simp_all add: session_ok_def initiator_waits_def responder_done_def agree_def)

lemma session_ok_dead:
  "kp \<in> honest \<Longrightarrow> ss_state s \<notin> {HandshakeInitSent, HandshakeRespSent, Active} \<Longrightarrow> session_ok so honest log kp s"
  by (simp add: session_ok_def)

lemma response_ok:
  assumes inv: "protocol_inv so honest p" "pr_sessions p i = Some (kp, s)"
    and call: "process_handshake_response so resp kp s = (Inr res, s')"
    and sig: "unforged so honest (pr_log p) (hr_signature resp) (transcript_b s') (hr_identity_public_key resp)"
    and hyp: "x25519_agrees so" "\<forall>kp \<in> honest. label_free so kp"
  shows "session_ok so honest (pr_log p) kp s' \<and> (res \<noteq> None \<longrightarrow> initiator_done so kp s')"
proof (cases "res = None")
  case False
  note ok = protocol_invD(1) [OF inv] and log = protocol_invD(2) [OF inv]
  then have now: "ss_state s' = Active" "ss_role s' = Initiator" "initiator_done so kp s'"
    "peer_identity_pub s' = hr_identity_public_key resp"
    "Keypair_verify so (hr_signature resp) (transcript_b s') (peer_identity_pub s')"
    using process_response_done [OF call] False by (auto simp: session_ok_def)
  have "\<exists>kp' \<in> honest. \<exists>s2. agree so kp s' kp' s2 \<and> Responded kp' s2 \<in> set (pr_log p)"
    if "peer_identity_pub s' \<in> kp_public_key ` honest"
  proof -
    have "(peer_identity_pub s', transcript_b s') \<in> signed_bytes ` set (pr_log p)"
      using sig now(4,5) that by (simp add: unforged_def)
    with signed_origin [OF this log hyp(2)] done_label(1) [OF now(3)] equal_transcripts_agree [OF hyp(1) now(3)]
    show ?thesis by metis
  qed
  with now ok show ?thesis by (simp add: session_ok_def)
next
  case True
  with inv process_response_done [OF call] show ?thesis
    by (auto simp: protocol_inv_def session_ok_def)
qed

lemma complete_ok:
  assumes inv: "protocol_inv so honest p" "pr_sessions p i = Some (kp, s)"
    and call: "process_handshake_complete so cmp s = (ok, s')"
    and sig: "unforged so honest (pr_log p) (hc_signature cmp) (compute_transcript_a (transcript_b s)) (peer_identity_pub s)"
    and hyp: "x25519_agrees so" "\<forall>kp \<in> honest. label_free so kp"
  shows "session_ok so honest (pr_log p) kp s'"
proof (cases ok)
  case True
  note s = protocol_invD(1) [OF inv] and log = protocol_invD(2) [OF inv]
  with True process_complete_done [OF call]
  have now: "ss_role s = Responder" "responder_done so kp s" "s' = s\<lparr>ss_state := Active\<rparr>"
    "Keypair_verify so (hc_signature cmp) (compute_transcript_a (transcript_b s)) (peer_identity_pub s)"
    by (auto simp: session_ok_def)
  have "\<exists>kp' \<in> honest. \<exists>s2. agree so kp s kp' s2 \<and> Completed kp' s2 \<in> set (pr_log p)"
    if "peer_identity_pub s \<in> kp_public_key ` honest"
  proof -
    have "(peer_identity_pub s, compute_transcript_a (transcript_b s)) \<in> signed_bytes ` set (pr_log p)"
      using sig now(4) that by (simp add: unforged_def)
    from signed_origin [OF this log hyp(2)] obtain kp' s2 where
      "Completed kp' s2 \<in> set (pr_log p)" "kp' \<in> honest" "initiator_done so kp' s2"
      "compute_transcript_a (transcript_b s2) = compute_transcript_a (transcript_b s)"
      by (auto simp: message_labels)
    moreover from this(4) have "transcript_b s2 = transcript_b s" by (simp add: compute_transcript_a_def)
    ultimately show ?thesis using equal_transcripts_agree [OF hyp(1) _ now(2)] agree_sym by metis
  qed
  with now s show ?thesis by (simp add: session_ok_def agree_def)
next
  case False
  with inv process_complete_done [OF call] show ?thesis by (auto simp: protocol_inv_def session_ok_def)
qed

lemma frames_ok:
  assumes "protocol_inv so honest p" "pr_sessions p i = Some (kp, s)"
  shows "encrypt_frame so f s = (r, g, s') \<Longrightarrow> session_ok so honest (pr_log p) kp s'"
    and "decrypt_frame so f s = Some (r, g, s') \<Longrightarrow> session_ok so honest (pr_log p) kp s'"
    and "session_ok so honest (pr_log p) kp (SecureSession_close s)"
  using protocol_invD [OF assms]
  by (auto simp: session_ok_frames SecureSession_close_def dest!: encrypt_keeps elim!: decrypt_keeps intro: session_ok_dead)

lemma protocol_inv_step:
  assumes "protocol_step so honest p p'" and inv: "protocol_inv so honest p"
    and hyp: "x25519_agrees so" "\<forall>kp \<in> honest. label_free so kp"
  shows "protocol_inv so honest p'"
  using assms(1)
proof (cases rule: protocol_step.cases)
  case (create i kp)
  with inv show ?thesis by (auto intro!: put_session_inv session_ok_dead simp: SecureSession_new_def)
next
  case (initiate i kp s r1 r2 ini s')
  with initiate_waits [OF initiate(3)] protocol_invD(1) [OF inv] inv show ?thesis
    by (auto intro!: put_session_inv simp: session_ok_def)
next
  case (init i kp s r1 r2 r3 ini res s')
  with process_init_done [OF init(3)] protocol_invD(3) [OF inv init(2)] inv show ?thesis
    by (auto intro!: put_session_inv simp: session_ok_def split: if_splits)
next
  case (response i kp s resp res s')
  from response_ok [OF inv response(2-4) hyp] protocol_invD(3) [OF inv response(2)]
  have "session_ok so honest (pr_log p) kp s'" "res \<noteq> None \<Longrightarrow> signing_ok so honest (Completed kp s')" by simp_all
  with inv response(1) show ?thesis by (auto intro!: put_session_inv intro: session_ok_Cons)
next
  case (complete i kp s cmp ok s')
  with complete_ok [OF inv complete(2-4) hyp] inv show ?thesis by (auto intro!: put_session_inv)
next
  case (encrypt i kp s f r g s')
  with frames_ok(1) [OF inv] inv show ?thesis by (auto intro!: put_session_inv)
next
  case (decrypt i kp s f r g s')
  with frames_ok(2) [OF inv] inv show ?thesis by (auto intro!: put_session_inv)
next
  case (close i kp s)
  with frames_ok(3) [OF inv] inv show ?thesis by (auto intro!: put_session_inv)
next
  case (sign kp r r')
  then have "rec_node_id r' = Keypair_node_id so kp"
    by (auto simp: NodeRecord_sign_def Let_def throw_bind_Inr_iff)
  with inv sign show ?thesis by (auto simp: protocol_inv_def intro: session_ok_Cons)
qed

lemma protocol_inv_reachable:
  assumes "protocol_reachable so honest p" "x25519_agrees so" "\<forall>kp \<in> honest. label_free so kp"
  shows "protocol_inv so honest p"
  using assms(1)
proof (induction rule: rtranclp_induct)
  case base
  show ?case by (simp add: protocol_inv_def protocol_start_def)
next
  case (step p p')
  then show ?case using protocol_inv_step [OF step(2) _ assms(2,3)] by simp
qed

section \<open>Possibility\<close>

lemma run_transcripts:
  assumes "initiate_handshake so ra na ka s = (Inr ini, a1)"
    and "process_handshake_init so rb nb sid ini kb s0 = (Inr (Some resp), b1)"
    and "process_handshake_response so resp ka a1 = (Inr (Some cmp), a2)"
  shows "transcript_b a2 = transcript_b b1" "hr_identity_public_key resp = kp_public_key kb"
proof -
  have "saved_init a1 = Some ini" using assms(1) by (auto simp: initiate_handshake_def Let_def split: sum.splits)
  moreover have "transcript_b b1 = compute_transcript_b ini (hr_session_id resp) (hr_node_id resp)
      (hr_identity_public_key resp) (hr_ephemeral_public_key resp) (hr_nonce resp) \<and>
    hr_identity_public_key resp = kp_public_key kb"
    using assms(2) by (auto simp: process_handshake_init_def Let_def split: sum.splits option.splits if_splits)
  ultimately show "transcript_b a2 = transcript_b b1" "hr_identity_public_key resp = kp_public_key kb"
    using process_response_result [OF assms(3)] by auto
qed

text \<open>The run of an honest handshake, undisturbed, is a run of the system.\<close>

lemma honest_run_reachable:
  assumes lib: "sodium_ready so" "ed25519_correct so" "x25519_agrees so"
    and keys: "Keypair_generate so seed_a = Inr ka" "Keypair_generate so seed_b = Inr kb" "ka \<in> honest" "kb \<in> honest"
    and eph: "crypto_scalarmult_base so ra = Some pa" "crypto_scalarmult_base so rb = Some pb"
    and dh: "crypto_scalarmult so ra pb = Some sh" "sh \<noteq> zero_barray"
  shows "\<exists>p a b. protocol_reachable so honest p \<and> pr_sessions p = [0 \<mapsto> (ka, a), 1 \<mapsto> (kb, b)] \<and>
    ss_state a = Active \<and> ss_state b = Active \<and>
    peer_identity_pub a = kp_public_key kb \<and> peer_identity_pub b = kp_public_key ka"
proof -
  let ?new = SecureSession_new
  obtain ini a1 resp b1 cmp a2 b2 where
    run: "initiate_handshake so ra zero_barray ka ?new = (Inr ini, a1)"
      "process_handshake_init so rb zero_barray zero_barray ini kb ?new = (Inr (Some resp), b1)"
      "process_handshake_response so resp ka a1 = (Inr (Some cmp), a2)"
      "process_handshake_complete so cmp b1 = (True, b2)"
    and fin: "ss_state a2 = Active" "ss_state b2 = Active" "peer_identity_pub a2 = kp_public_key kb"
      "peer_identity_pub b2 = kp_public_key ka"
    using honest_handshake [OF lib keys(1,2) eph dh, of zero_barray zero_barray zero_barray] by blast
  note tr = run_transcripts [OF run(1-3)]
  have b1: "peer_identity_pub b1 = kp_public_key ka" using process_complete_result [OF run(4)] fin(4) by auto
  define p2 where "p2 = put_session 1 kb ?new [] (put_session 0 ka ?new [] protocol_start)"
  define p3 where "p3 = put_session 0 ka a1 [] p2"
  define p4 where "p4 = put_session 1 kb b1 [Responded kb b1] p3"
  define p5 where "p5 = put_session 0 ka a2 [Completed ka a2] p4"
  define p6 where "p6 = put_session 1 kb b2 [] p5"
  note ps = p2_def p3_def p4_def p5_def p6_def put_session_def protocol_start_def
  have "protocol_reachable so honest (put_session 0 ka ?new [] protocol_start)"
    by (rule r_into_rtranclp, rule protocol_step.create) (simp_all add: protocol_start_def keys)
  also have "protocol_step so honest \<dots> p2"
    unfolding p2_def by (rule protocol_step.create) (simp_all add: ps keys)
  also have "protocol_step so honest p2 p3"
    unfolding p3_def by (rule protocol_step.initiate [OF _ run(1)]) (simp add: ps)
  also have "protocol_step so honest p3 p4"
    using protocol_step.init [of p3 1 kb ?new so rb zero_barray zero_barray ini "Some resp" b1 honest] run(2)
    by (simp add: p4_def) (simp add: ps)
  also have "protocol_step so honest p4 p5"
    using protocol_step.response [of p4 0 ka a1 so resp "Some cmp" a2 honest] run(3) tr
    by (simp add: p5_def) (simp add: ps unforged_def)
  also have "protocol_step so honest p5 p6"
    unfolding p6_def by (rule protocol_step.complete [OF _ run(4)]) (simp_all add: ps unforged_def tr b1)
  finally have "protocol_reachable so honest p6" .
  moreover have "pr_sessions p6 = [0 \<mapsto> (ka, a2), 1 \<mapsto> (kb, b2)]" by (simp add: ps fun_eq_iff)
  ultimately show ?thesis using fin by blast
qed

section \<open>Properties\<close>

text \<open>
  C3. Agreement of the handshake against an active adversary. Many nodes run many sessions at once,
  every message is chosen by the adversary, and only signatures of honest keys cannot be forged.
  Then in every reachable state, a session that is active with the key of an honest node has a partner
  at that node: a session that answered the same handshake (for an initiator) or completed it (for a
  responder), that names this node as its peer, has the same session id, transcript and nonces, and
  whose receiving key is this session's sending key and conversely. (Hypotheses: both ends of an X25519 exchange agree, and no honest node id starts
  with the label of a transcript.)
\<close>

theorem handshake_agreement:
  assumes "protocol_reachable so honest p" and "x25519_agrees so" and "\<forall>kp \<in> honest. label_free so kp"
    and "pr_sessions p i = Some (kp, s)" and "ss_state s = Active"
    and "peer_identity_pub s \<in> kp_public_key ` honest"
  shows "\<exists>kp' \<in> honest. \<exists>s'.
    (if ss_role s = Initiator then Responded kp' s' else Completed kp' s') \<in> set (pr_log p) \<and>
    peer_identity_pub s = kp_public_key kp' \<and> peer_identity_pub s' = kp_public_key kp \<and>
    ss_peer_node_id s = Keypair_node_id so kp' \<and> ss_peer_node_id s' = Keypair_node_id so kp \<and>
    session_id s = session_id s' \<and> transcript_b s = transcript_b s' \<and>
    local_nonce s = peer_nonce s' \<and> peer_nonce s = local_nonce s' \<and>
    tx_key s = rx_key s' \<and> rx_key s = tx_key s'"
proof -
  have "session_ok so honest (pr_log p) kp s"
    using protocol_inv_reachable [OF assms(1-3)] assms(4) by (auto simp: protocol_inv_def)
  with assms(5,6) show ?thesis unfolding session_ok_def agree_def by blast
qed

lemma test_keys_label_free: "\<forall>kp \<in> {test_keys 5, test_keys 6}. label_free toy_sodium kp"
proof -
  have "label_free toy_sodium (test_keys 5)" "label_free toy_sodium (test_keys 6)" by code_simp+
  then show ?thesis by simp
qed

lemma test_run:
  "\<exists>p a b. protocol_reachable toy_sodium {test_keys 5, test_keys 6} p \<and>
    pr_sessions p = [0 \<mapsto> (test_keys 5, a), 1 \<mapsto> (test_keys 6, b)] \<and> ss_state a = Active \<and> ss_state b = Active \<and>
    peer_identity_pub a = kp_public_key (test_keys 6) \<and> peer_identity_pub b = kp_public_key (test_keys 5)"
  by (rule honest_run_reachable [OF toy_sodium_ready toy_sodium_ed25519 toy_sodium_x25519
      test_keys_generated [of 5] test_keys_generated [of 6] _ _ toy_base toy_base toy_shared]) simp_all

theorem handshake_agreement_witness:
  "\<exists>p a b (sa :: SecureSession) (sb :: SecureSession). protocol_reachable toy_sodium {test_keys 5, test_keys 6} p \<and>
     pr_sessions p = [0 \<mapsto> (test_keys 5, a), 1 \<mapsto> (test_keys 6, b)] \<and>
     tx_key a = rx_key sb \<and> peer_identity_pub sb = kp_public_key (test_keys 5) \<and>
     tx_key b = rx_key sa \<and> peer_identity_pub sa = kp_public_key (test_keys 6)"
proof -
  let ?H = "{test_keys 5, test_keys 6}"
  obtain p a b where run: "protocol_reachable toy_sodium ?H p" and
    ses: "pr_sessions p = [0 \<mapsto> (test_keys 5, a), 1 \<mapsto> (test_keys 6, b)]" and act: "ss_state a = Active" "ss_state b = Active"
    and peers: "peer_identity_pub a = kp_public_key (test_keys 6)" "peer_identity_pub b = kp_public_key (test_keys 5)"
    using test_run by blast
  note agr = handshake_agreement [OF run toy_sodium_x25519 test_keys_label_free]
  obtain sb :: SecureSession where "tx_key a = rx_key sb" "peer_identity_pub sb = kp_public_key (test_keys 5)"
    using agr [of 0 "test_keys 5" a] ses act(1) peers by auto
  moreover obtain sa :: SecureSession where "tx_key b = rx_key sa" "peer_identity_pub sa = kp_public_key (test_keys 6)"
    using agr [of 1 "test_keys 6" b] ses act(2) peers by auto
  ultimately show ?thesis using run ses
    by blast
qed

end
