(* ===== verification/Record_Authenticity.thy ===== *)
theory Record_Authenticity
  imports Handshake_Agreement Node_Spec
begin

text \<open>
  Records are authentic: what a node stores, and what it tells the application it found, under the
  key of an honest node is a record that node signed. This puts together the invariant of a
  running node (\<open>Node_Spec\<close>), the injectivity of the canonical form (\<open>Node_Record\<close>) and the meaning
  of signatures (\<open>Handshake_Agreement\<close>): no transcript of a handshake can be passed off as a record.
\<close>

section \<open>Records a node holds\<close>

definition holds_record :: "Node \<Rightarrow> NodeRecord \<Rightarrow> bool" where
  "holds_record s r \<longleftrightarrow> r \<in> snd ` set (records (n_store s)) \<or> (\<exists>m. FindDone (Some r) m \<in> set (n_log s))"

lemma held_verified:
  assumes "node_reachable env fs cfg s" "holds_record s r"
  shows "NodeRecord_verify_signature (e_sodium env) r"
  using reachable_inv [OF assms(1)] assms(2)
  by (fastforce simp: holds_record_def node_inv_def RecordStore_wf_def notification_ok_def found_ok_def)

lemma verified_record_signed:
  assumes "protocol_inv so honest p" "\<forall>kp \<in> honest. label_free so kp"
    and "NodeRecord_verify_signature so r" "identity_public_key r \<in> kp_public_key ` honest"
    and "unforged so honest (pr_log p) (rec_signature r) (canonical_bytes r) (identity_public_key r)"
  obtains kp r' where "kp \<in> honest" "Recorded kp r' \<in> set (pr_log p)" "canonical_bytes r' = canonical_bytes r"
    "kp_public_key kp = identity_public_key r" "rec_node_id r = Keypair_node_id so kp"
proof -
  have sig: "rec_node_id r = compute_node_id so (identity_public_key r)"
    "Keypair_verify so (rec_signature r) (canonical_bytes r) (identity_public_key r)"
    using assms(3) by (auto simp: NodeRecord_verify_signature_def verify_node_id_iff split: if_splits)
  obtain kh where kh: "kh \<in> honest" "kp_public_key kh = identity_public_key r" using assms(4) by auto
  then have "take 15 (canonical_bytes r) \<notin> {string_bytes ''P2P-AKE-V1-RESP'', string_bytes ''P2P-AKE-V1-COMP''}"
    using assms(2) sig(1) by (auto simp: message_labels label_free_def Keypair_node_id_def)
  moreover have "(identity_public_key r, canonical_bytes r) \<in> signed_bytes ` set (pr_log p)"
    using assms(4,5) sig(2) by (simp add: unforged_def)
  ultimately obtain kp r' where "Recorded kp r' \<in> set (pr_log p)" "kp \<in> honest" "kp_public_key kp = identity_public_key r"
    "canonical_bytes r' = canonical_bytes r"
    using signed_origin [of _ _ "pr_log p" so honest] assms(1,2) unfolding protocol_inv_def by blast
  with sig(1) that show thesis by (simp add: Keypair_node_id_def)
qed

section \<open>Properties\<close>

text \<open>
  C13. Records are authentic. Whatever a started node receives, a record that it stores, or that it reports
  as the result of a search, under the public key of an honest node equals (but for the
  signature bytes) a record that the honest node signed as its own: same node id, addresses, alias,
  sequence number and validity. (Hypotheses: its signature is not a forgery, no honest node id starts with a transcript
  label, and the records in question are of sizes their canonical form can express.)
\<close>

theorem Node_records_authentic:
  assumes "node_reachable env fs cfg s" and "protocol_reachable (e_sodium env) honest p"
    and "x25519_agrees (e_sodium env)" and "\<forall>kp \<in> honest. label_free (e_sodium env) kp"
    and "holds_record s r" and "identity_public_key r \<in> kp_public_key ` honest"
    and "unforged (e_sodium env) honest (pr_log p) (rec_signature r) (canonical_bytes r) (identity_public_key r)"
    and "canonical_sizes r" and "\<forall>kp r'. Recorded kp r' \<in> set (pr_log p) \<longrightarrow> canonical_sizes r'"
  shows "\<exists>kp \<in> honest. \<exists>r'. Recorded kp r' \<in> set (pr_log p) \<and> r\<lparr>rec_signature := rec_signature r'\<rparr> = r' \<and>
    kp_public_key kp = identity_public_key r \<and> rec_node_id r = Keypair_node_id (e_sodium env) kp"
proof -
  obtain kp r' where kp: "kp \<in> honest" "Recorded kp r' \<in> set (pr_log p)" "canonical_bytes r' = canonical_bytes r"
    "kp_public_key kp = identity_public_key r" "rec_node_id r = Keypair_node_id (e_sodium env) kp"
    using verified_record_signed [OF protocol_inv_reachable [OF assms(2-4)] assms(4) held_verified [OF assms(1,5)] assms(6,7)]
    by blast
  from canonical_bytes_fields [OF _ assms(8) kp(3)] assms(9) kp(2)
  have "r\<lparr>rec_signature := rec_signature r'\<rparr> = r'" by simp
  with kp show ?thesis by blast
qed

definition publishing_node :: Node where
  "publishing_node = snd (Node_handle (test_env JNull JNull) (CallPublish (barray_of [9]) (signed_test_record 3)) (test_node (test_env JNull JNull)))"

lemma publishing_node_reachable: "node_reachable (test_env JNull JNull) test_fs Config_default publishing_node"
  unfolding publishing_node_def by (intro node_reachable.event test_node_reachable)

lemma publishing_node_holds: "holds_record publishing_node (signed_test_record 3)"
proof -
  let ?env = "test_env JNull JNull"
  have env: "e_sodium ?env = toy_sodium" "e_now ?env t = 100" for t by (simp_all add: test_env_def)
  have valid: "NodeRecord_validate toy_sodium 100 (signed_test_record 3) = ValidationNone" by code_simp
  have put: "records (snd (RecordStore_put toy_sodium (barray_of [9]) (signed_test_record 3) 100 RecordStore_new)) =
    [(barray_of [9], signed_test_record 3)]" by code_simp
  have "n_store publishing_node = snd (RecordStore_put toy_sodium (barray_of [9]) (signed_test_record 3) 100 RecordStore_new)"
    by (simp add: publishing_node_def Node_handle_def test_node_fields Node_publish_record_def publish_with_def eff_run ask_run env valid
      store_put_run Node_async_lookup_def new_session_def generate_request_id_def RequestID_generate_def initial_candidates_def closest_new
      lookup_run_def lookup_fuel_def LookupSession_add_candidates_def LookupSession_new_def LookupSession_is_complete_def
      LookupSession_get_closest_def LookupSession_in_flight_count_def
      store_at_keepers_def notify_def toy_sodium_ready)
  with put show ?thesis by (simp add: holds_record_def)
qed

definition signing_run :: protocol where
  "signing_run = protocol_start\<lparr>pr_log := [Recorded test_keypair (signed_test_record 3)]\<rparr>"

lemma signing_run_reachable: "protocol_reachable toy_sodium {test_keypair} signing_run"
proof -
  have "NodeRecord_sign toy_sodium test_keypair (test_record\<lparr>sequence_number := 3\<rparr>) = Inr (signed_test_record 3)"
    by (simp add: NodeRecord_sign_def signed_test_record_def Keypair_node_id_def Keypair_sign_def toy_sodium_def Let_def
        test_keypair_def bytes_of_barray_of_exact)
  from protocol_step.sign [OF _ this, of "{test_keypair}" protocol_start]
  show ?thesis by (intro r_into_rtranclp) (simp add: signing_run_def protocol_start_def)
qed

theorem Node_records_authentic_witness:
  "holds_record publishing_node (signed_test_record 3) \<and>
   (\<exists>r'. Recorded test_keypair r' \<in> set (pr_log signing_run) \<and>
      (signed_test_record 3)\<lparr>rec_signature := rec_signature r'\<rparr> = r')"
proof -
  let ?env = "test_env JNull JNull" and ?r = "signed_test_record 3"
  have so: "e_sodium ?env = toy_sodium" by (simp add: test_env_def)
  have "label_free toy_sodium test_keypair" by code_simp
  then have free: "\<forall>kp \<in> {test_keypair}. label_free (e_sodium ?env) kp" by (simp add: so)
  have pk: "identity_public_key ?r = kp_public_key test_keypair" by (simp add: signed_test_record_def Let_def)
  have sizes: "canonical_sizes ?r" by (simp add: canonical_sizes_def signed_test_record_def test_record_def Let_def)
  have log: "pr_log signing_run = [Recorded test_keypair ?r]" by (simp add: signing_run_def)
  have "\<exists>kp \<in> {test_keypair}. \<exists>r'. Recorded kp r' \<in> set (pr_log signing_run) \<and> ?r\<lparr>rec_signature := rec_signature r'\<rparr> = r' \<and>
    kp_public_key kp = identity_public_key ?r \<and> rec_node_id ?r = Keypair_node_id (e_sodium ?env) kp"
    by (rule Node_records_authentic [OF publishing_node_reachable _ _ free publishing_node_holds])
      (simp_all add: so signing_run_reachable toy_sodium_x25519 pk sizes unforged_def log)
  with publishing_node_holds show ?thesis by blast
qed

end
