(* ===== verification/Spec2Isabelle.thy ===== *)
theory Spec2Isabelle
  imports Node_Lookup Node_Timeouts Node_Directory Node_Handshake Main_Program Key_Lifecycle Record_Authenticity Secure_Channel
begin

text \<open>
  Verification of the P2P overlay node under \<^verbatim>\<open>src/src\<close>: a Kademlia node that keeps signed address
  records in a distributed hash table and talks to its peers over framed TCP connections, in clear or
  through an authenticated and encrypted session.

  \<^bold>\<open>Parts of the program and the theories that model them.\<close>
  \<^item> \<open>P2P_Prelude\<close>: bytes, big-endian encodings, fixed-size arrays (\<^verbatim>\<open>std::array\<close>), trimming, loops over
    lists, and the lemmas on them that the components share. \<open>Effects\<close>: operations that change a state and
    may throw, \<open>('s, 'a) eff\<close>, with the calculus \<open>keeps P m\<close> for invariants.
  \<^item> \<open>Common_Types\<close>: \<^verbatim>\<open>common/types.hpp\<close> (identifiers, the XOR metric, hexadecimal notation, peers).
  \<^item> \<open>K_Bucket\<close>, \<open>Routing_Table\<close>, \<open>Routing_Json\<close>: \<^verbatim>\<open>dht/k_bucket\<close>, \<^verbatim>\<open>dht/routing_table\<close> and its JSON export. A bucket is a record of two lists of
    contacts; the table has 256 buckets. The locale of bucket interfaces in \<open>K_Bucket\<close> states what the
    table needs of a bucket and is interpreted on the model's buckets.
  \<^item> \<open>Lookup_Engine\<close>: \<^verbatim>\<open>dht/lookup_engine\<close>, the session of an iterative lookup, with the interleavings of its
    operations as a step relation. \<open>Lookup_Network\<close>: lookups in a network of routing tables.
  \<^item> \<open>Node_Record\<close>, \<open>Record_Store\<close>: \<^verbatim>\<open>dht/node_record\<close>, \<^verbatim>\<open>dht/record_store\<close>. The store is an association list
    with the table of the highest sequence numbers; its locale states the contract of a store that admits
    no rollback.
  \<^item> \<open>Identity\<close>, \<open>Key_Lifecycle\<close>, \<open>Crypto_Utils\<close>, \<open>Ake_Messages\<close>, \<open>Secure_Session\<close>, \<open>Replay_Cache\<close>: \<^verbatim>\<open>identity/\<close> and \<^verbatim>\<open>security/\<close>.
    \<open>Sodium\<close> is the interface of libsodium, a parameter of everything that uses it, with the documented laws
    of its primitives as named hypotheses (\<open>sodium_ready\<close>, \<open>ed25519_correct\<close>, \<open>x25519_agrees\<close>, \<open>aead_correct\<close>).
  \<^item> \<open>Json\<close>: the interface of the JSON library (a parameter, \<open>json_laws\<close> and \<open>cbor_roundtrip\<close> are its documented
    behaviour). \<open>Dht_Messages\<close>: the codecs of \<^verbatim>\<open>dht/dht_messages\<close>.
  \<^item> \<open>Wire_Frame\<close>, \<open>Tcp_Connection\<close>, \<open>Tcp_Listener\<close>: \<^verbatim>\<open>transport/\<close>. A connection is a record with its parser,
    write queue and flags; the completions of asio are functions on it; connecting is the loop over the
    resolved endpoints, on the outcomes of the system calls. The message given to the socket is appended to \<open>tc_wire\<close>, a history that only the properties read.
  \<^item> \<open>Config_Main\<close>: \<^verbatim>\<open>config/config\<close> and the argument handling of \<^verbatim>\<open>main.cpp\<close>; the TOML library is a parameter.
    \<open>Main_Program\<close>: the rest of \<^verbatim>\<open>main\<close>, with the event loop, signals, the timer thread and the export.
  \<^item> \<open>Node_State\<close>, \<open>Node_Async\<close>, \<open>Node_Handlers\<close>: \<^verbatim>\<open>node.hpp\<close> and \<^verbatim>\<open>node.cpp\<close>. Objects shared through pointers
    (connections, sessions, running lookups, publications and searches, timers) live in stores indexed by
    numbers; a callback kept for later is a constructor with the variables it captures; calls of
    application callbacks are entries of \<open>n_log\<close>. The surroundings (random bytes, clocks, the system
    calls of connecting, binding) are the parameter \<open>env\<close>. \<open>Node_handle\<close> is one turn of the event loop.

  \<^bold>\<open>How the parts interact.\<close> \<open>Node_handle\<close> feeds the bytes of a read to a connection (\<open>conn_read\<close>), whose loop
  parses frames (\<open>Wire_Frame\<close>), opens sealed ones (\<open>Secure_Session\<close>) and calls \<open>Node_on_frame\<close>; the handlers
  decode the payload (\<open>Dht_Messages\<close>, \<open>Ake_Messages\<close>), use the table, the store and the sessions, and answer
  through \<open>TcpConnection_send\<close>. Lookups, publications and searches register what to do with an answer
  under its request id and arm a timer; a reply or an expired timer resumes them.

  \<^bold>\<open>What is proved.\<close> For each component an invariant of its reachable states and the behaviour of its
  operations on every branch, in its own theory. Across components:
  \<^item> the locales \<open>node_conns\<close>, \<open>node_contacts\<close>, \<open>node_prims\<close>, \<open>node_frame\<close>, \<open>node_calm\<close> and \<open>node_loop\<close> of \<open>Node_Frame\<close> show once, for any
    state predicate, that the operations of the node keep it if the primitive state changes do. \<open>Node_Invariant\<close>
    and \<open>Node_Spec\<close> interpret them with the invariant of the node, with the termination measures of its
    recursive operations, and with the objects that stay valid;
  \<^item> \<open>Node_Spec\<close>: reachable states (\<open>node_reachable\<close>, an inductive predicate over starts and events), the
    invariant, the end of every recursion;
  \<^item> \<open>Node_Sending\<close>: what it means that a frame is answered on a connection (\<open>answers_on\<close>: it is queued there,
    sealed if the session is active), and how adding a contact changes the table and leaves the
    connections alone; \<open>Node_Contacts\<close>: PING, PONG and the probing of the least recently seen contact;
  \<^item> \<open>Node_Requests\<close>: DHT requests are answered, and what was stored is found;
  \<^item> \<open>Node_Directory\<close>: a node's own record is accepted by a keeper and found by a seeker;
  \<^item> \<open>Node_Total\<close>: no event makes the loop throw, and one fails to return only in the case of the replay cache
    below; \<open>Main_Program\<close>: how the program ends;
  \<^item> \<open>Lookup_Network\<close>: lookups end and find the closest node of a network whose tables cover it, in every
    interleaving; \<open>Lookup_Driver\<close>: the step function of a lookup, once for any predicate of the node (the locale
    \<open>lookup_driver\<close>); \<open>Node_Lookup\<close> interprets it to show that the handlers of two nodes refine the steps of that
    network, \<open>Node_Timeouts\<close> to show that a lookup among silent nodes ends and reports once;
  \<^item> \<open>Node_Publish\<close>: which keepers are asked; a publication refines a specification over the states of its keepers
    (\<open>keeper_next\<close>, \<open>publish_report\<close>); what late timers do; \<open>Node_Handshake\<close>: the handshake of two nodes
    through their handlers;
  \<^item> \<open>Handshake_Agreement\<close>: any number of sessions of honest nodes, with an adversary that owns the network and keys of
    its own, as a step relation. An active session with an honest peer agrees with a session of that peer on
    everything the transcripts name. The hypotheses are that signatures under honest keys are not forged
    (a guard of the steps) and that no honest node id begins with the label of a transcript (\<open>label_free\<close>), since
    records are signed with the same key and carry no label. \<open>Record_Authenticity\<close>: records held by a reachable
    node were signed by the node they name. \<open>Secure_Channel\<close>: what is accepted from a channel under
    control of an adversary is what was sealed, without repetition;
  \<^item> \<open>Tcp_Connection\<close>: the write queue refines an append-only log, and frames, sealed or not, are delivered;
  \<^item> this theory: sealed frames over an arbitrarily cut byte stream.
  Every property with hypotheses has a witness: a concrete instance, with toy versions of libsodium and of
  the JSON library for which the laws hold.

  \<^bold>\<open>Bounds and fuel.\<close> Machine integers are words of their width. Three operations of the node carry fuel: the
  step function of a lookup and of a search, which the code calls recursively for every peer that cannot
  be reached, and the read loop. Their fuel is one more than the number of unqueried candidates, or than the
  length of the buffer; \<open>Node_recursion_ends\<close> shows that no run uses it up. The clearing loop of the replay
  cache can run for ever and is a partial function; a node that reaches that case is marked by \<open>n_hangs\<close>, and
  handles nothing more. The theorems that say that an operation ends name this case as their exception
  (\<open>Node_recursion_ends\<close>, \<open>Node_handle_total\<close>, \<open>main_program_shutdown\<close>).

  \<^bold>\<open>Files.\<close> Whether a path exists may itself be impossible to find out; \<^verbatim>\<open>std::filesystem::exists\<close> then throws,
  and so do \<open>load_config\<close> and \<open>Keypair_load\<close>. A write to a file that could be opened succeeds.

  \<^bold>\<open>Not modelled.\<close> Mutexes, since the callbacks of the \<^verbatim>\<open>io_context\<close> run on one thread and each critical
  section is a part of one operation; a signal that interrupts a handler (signals happen between two
  events); log output; \<^verbatim>\<open>std::hash\<close>, which only feeds unordered containers; the destructors of connections
  and sessions; the wiping of ephemeral keys. An exception that leaves a handler ends the program; the model
  returns it and keeps the state, so the invariants cover it too, and \<open>Node_Total\<close> shows that none does.
\<close>

section \<open>Secure frames over the byte stream\<close>

text \<open>
  C1. End to end: two nodes with generated identities run the handshake from fresh sessions. After it,
  any plain frames (of the protocol version of the receiver's parser, with payloads of at most its
  limit less 24 bytes) that one node encrypts and serialises, however the byte stream is cut into
  reads, are parsed without error and decrypt to exactly the frames that were sent, in order; and
  the same in the other direction.
\<close>

theorem secure_transport_end_to_end:
  assumes "sodium_ready so" and "ed25519_correct so" and "x25519_agrees so" and "aead_correct so"
    and "Keypair_generate so seed_a = Inr ka" and "Keypair_generate so seed_b = Inr kb"
    and "crypto_scalarmult_base so ra = Some pa" and "crypto_scalarmult_base so rb = Some pb"
    and "crypto_scalarmult so ra pb = Some ss" and "ss \<noteq> zero_barray"
    and "\<forall>f \<in> set fs. \<not> flag_set (frame_flags f) IS_ENCRYPTED \<and> frame_version f = v \<and>
           length (frame_payload f) + 24 \<le> unat m"
    and "length fs < 2 ^ 64 - 1"
  shows "\<exists>init a1 resp b1 cmp a2 b2.
    initiate_handshake so ra na ka SecureSession_new = (Inr init, a1) \<and>
    process_handshake_init so rb nb sid init kb SecureSession_new = (Inr (Some resp), b1) \<and>
    process_handshake_response so resp ka a1 = (Inr (Some cmp), a2) \<and>
    process_handshake_complete so cmp b1 = (True, b2) \<and>
    (\<forall>(s, r) \<in> {(a2, b2), (b2, a2)}. \<exists>gs s' r'. encrypt_all so fs s = Some (gs, s') \<and>
       (\<forall>chunks. concat chunks = concat (map Frame_serialize gs) \<longrightarrow>
          receive chunks (FrameParser_new v m) = (gs, None, FrameParser_new v m)) \<and>
       decrypt_all so gs r = Some (fs, r'))"
proof -
  obtain init a1 resp b1 cmp a2 b2 where
    hs: "initiate_handshake so ra na ka SecureSession_new = (Inr init, a1)"
      "process_handshake_init so rb nb sid init kb SecureSession_new = (Inr (Some resp), b1)"
      "process_handshake_response so resp ka a1 = (Inr (Some cmp), a2)"
      "process_handshake_complete so cmp b1 = (True, b2)"
    and sync: "in_sync a2 b2" "in_sync b2 a2"
    using honest_handshake [OF assms(1-3,5-10), of na nb sid] by blast
  have seq: "tx_seq a2 = 0" "tx_seq b2 = 0"
    using handshake_tx_seq [OF hs] by simp_all
  have "\<exists>gs s' r'. encrypt_all so fs s = Some (gs, s') \<and>
       (\<forall>chunks. concat chunks = concat (map Frame_serialize gs) \<longrightarrow>
          receive chunks (FrameParser_new v m) = (gs, None, FrameParser_new v m)) \<and>
       decrypt_all so gs r = Some (fs, r')" if "in_sync s r" "tx_seq s = 0" for s r
    using channel_delivers [OF assms(1,4) that(1), of fs] sealed_frames_pass [OF assms(1,4)] assms(11,12) that(2)
    by fastforce
  with hs sync seq show ?thesis by blast
qed

theorem secure_transport_end_to_end_witness:
  "\<exists>init a1 resp b1 cmp a2 b2.
    initiate_handshake toy_sodium (barray_of [1]) zero_barray (test_keys 5) SecureSession_new = (Inr init, a1) \<and>
    process_handshake_init toy_sodium (barray_of [2]) zero_barray zero_barray init (test_keys 6) SecureSession_new
      = (Inr (Some resp), b1) \<and>
    process_handshake_response toy_sodium resp (test_keys 5) a1 = (Inr (Some cmp), a2) \<and>
    process_handshake_complete toy_sodium cmp b1 = (True, b2) \<and>
    (\<exists>gs s' r'. encrypt_all toy_sodium [test_frame] a2 = Some (gs, s') \<and> decrypt_all toy_sodium gs b2 = Some ([test_frame], r'))"
proof -
  have frames: "\<forall>f \<in> set [test_frame]. \<not> flag_set (frame_flags f) IS_ENCRYPTED \<and> frame_version f = 1 \<and>
      length (frame_payload f) + 24 \<le> unat (65536 :: u32)"
    by (simp add: test_frame_def Frame_new_def Frame_default_def FLAG_NONE_def flag_set_def PROTOCOL_VERSION_def)
  have len: "length [test_frame] < 2 ^ 64 - 1" by simp
  from secure_transport_end_to_end [OF toy_sodium_ready toy_sodium_ed25519 toy_sodium_x25519 toy_sodium_aead
      test_keys_generated [of 5] test_keys_generated [of 6] toy_base toy_base toy_shared frames len,
      of zero_barray zero_barray zero_barray]
  show ?thesis by fastforce
qed

text \<open>
  Encryption adds 24 bytes, and the sender checks no limit: a plain frame whose payload is within the
  receiver's limit but less than 24 bytes below it would pass in clear, while its encrypted form
  is rejected by the receiver's parser as too large.
\<close>

theorem sealed_frame_too_large:
  assumes "sodium_ready so" and "aead_correct so" and "ss_state s = Active"
    and "frame_version f = v" and "length (frame_payload f) \<le> unat m" and "unat m < length (frame_payload f) + 24"
    and "length (frame_payload f) + 24 < 2 ^ 32"
  shows "FrameParser_next_frame (FrameParser_feed (Frame_serialize f) (FrameParser_new v m)) =
      (Inr f, FrameParser_new v m) \<and>
    (\<exists>g s'. encrypt_frame so f s = (Inr True, g, s') \<and>
       fst (FrameParser_next_frame (FrameParser_feed (Frame_serialize g) (FrameParser_new v m))) = Inl PayloadTooLarge)"
proof -
  obtain c where enc: "encrypt_frame so f s =
      (Inr True, f\<lparr>frame_flags := flags_or (frame_flags f) IS_ENCRYPTED, frame_payload := be_bytes 8 (tx_seq s + 1) @ c\<rparr>,
       s\<lparr>tx_seq := tx_seq s + 1\<rparr>)" and len: "length c = length (frame_payload f) + 16"
    using encrypt_frame_ok [OF assms(1-3)] by metis
  let ?g = "f\<lparr>frame_flags := flags_or (frame_flags f) IS_ENCRYPTED, frame_payload := be_bytes 8 (tx_seq s + 1) @ c\<rparr>"
  have n: "length (frame_payload ?g) = length (frame_payload f) + 24" by (simp add: len)
  have g32: "length (frame_payload ?g) < 2 ^ 32" unfolding n by (rule assms(7))
  note hdr = serialize_header [OF g32, of "[]", unfolded append_Nil2]
  have "24 \<le> length (Frame_serialize ?g)" by (simp add: length_serialize)
  then have "fst (FrameParser_next_frame (FrameParser_feed (Frame_serialize ?g) (FrameParser_new v m))) = Inl PayloadTooLarge"
    using hdr(1,3) n assms(4,6)
    by (simp add: next_frame_eq FrameParser_feed_def FrameParser_new_def Let_def)
  moreover have "FrameParser_next_frame (FrameParser_feed (Frame_serialize f) (FrameParser_new v m)) =
      (Inr f, FrameParser_new v m)"
    using next_frame_serialize [of "FrameParser_feed (Frame_serialize f) (FrameParser_new v m)" f "[]"] assms(4,5)
    by (simp add: FrameParser_feed_def FrameParser_new_def sendable_def)
  ultimately show ?thesis using enc by blast
qed

theorem sealed_frame_too_large_witness:
  "\<exists>g s'. encrypt_frame toy_sodium test_frame active_test = (Inr True, g, s') \<and>
     fst (FrameParser_next_frame (FrameParser_feed (Frame_serialize g) (FrameParser_new 1 10))) = Inl PayloadTooLarge"
proof -
  have "ss_state active_test = Active" by (simp add: active_test_def)
  from sealed_frame_too_large [OF toy_sodium_ready toy_sodium_aead this, of test_frame 1 10] show ?thesis
    by (simp add: test_frame_def Frame_new_def Frame_default_def PROTOCOL_VERSION_def)
qed

end
